(* ===== verification/Inwox_Prelude.thy ===== *)
theory Inwox_Prelude
  imports Main "HOL-Library.Word" "HOL-Library.Multiset"
begin

text \<open>
  Shared vocabulary of the development.  The target is i686: \<open>size_t\<close>, pointers, \<open>int\<close> and
  \<open>long\<close> are 32 bits wide, \<open>uintmax_t\<close> is 64 bits wide and bytes have 8 bits.  Memory is the
  flat 32-bit address space seen by a process or by the kernel: a total function from addresses
  to bytes.  The theory holds the C loop combinators, the predicate \<open>cstr\<close> (a NUL terminated
  string in memory), block views of memory (\<open>mem_read\<close>, \<open>mem_write\<close>) and the lemmas on words
  and lists that the component theories share.
\<close>

unbundle bit_operations_syntax

named_theorems c_loops \<open>unfoldings of the loop combinators to list functions\<close>
named_theorems mem_simps \<open>reading back what was written to memory\<close>

type_synonym byte = "8 word"
type_synonym addr = "32 word"
type_synonym size_t = "32 word"
type_synonym u32 = "32 word"
type_synonym u64 = "64 word"
type_synonym mem = "addr \<Rightarrow> byte"

text \<open>String literals of the source, as bytes.\<close>

definition bytes :: "string \<Rightarrow> byte list" where
  "bytes s = map of_char s"

lemma bytes_simps [simp]:
  "bytes [] = []" "bytes (c # s) = of_char c # bytes s"
  by (simp_all add: bytes_def)

lemma length_bytes [simp]: "length (bytes s) = length s"
  by (simp add: bytes_def)

text \<open>The byte a pointer into a string points to, the string given by its bytes before the terminator.\<close>

fun peek :: "byte list \<Rightarrow> byte" where
  "peek [] = 0"
| "peek (c # cs) = c"

section \<open>Words\<close>

lemma unat_Suc_less:
  fixes i n :: "'a::len word"
  assumes "i < n"
  shows "unat (i + 1) = Suc (unat i)"
proof -
  have "unat i < unat n" using assms by (simp add: word_less_nat_alt)
  moreover have "unat n < 2 ^ LENGTH('a)" by simp
  ultimately have "Suc (unat i) < 2 ^ LENGTH('a)" by linarith
  then show ?thesis by (simp add: unat_word_ariths)
qed

lemma unat_pred:
  fixes i :: "'a::len word"
  shows "0 < i \<Longrightarrow> unat (i - 1) = unat i - 1"
  by (metis unat_minus_one word_gt_0)

lemma word_offset_eq_iff:
  fixes p :: "'a::len word"
  assumes "i < 2 ^ LENGTH('a)" "j < 2 ^ LENGTH('a)"
  shows "p + of_nat i = p + of_nat j \<longleftrightarrow> i = j"
  using assms by (metis add_left_cancel mod_less unat_of_nat)

lemma unat_of_nat_less: "n < 2 ^ LENGTH('a) \<Longrightarrow> unat (of_nat n :: 'a::len word) = n"
  by (simp add: unat_of_nat)

lemma of_nat_unat_offset [simp]: "(p::'a::len word) + of_nat (unat (a - p)) = a"
  by simp

lemma unat_offset [simp]:
  "i < 2 ^ LENGTH('a) \<Longrightarrow> unat ((p::'a::len word) + of_nat i - p) = i"
  by (simp add: unat_of_nat)

lemma unat_less_2p32 [simp]: "unat (a::32 word) < 4294967296"
  using unsigned_less [of a] by simp

text \<open>
  32-bit words named by natural numbers, for proofs in which positions must not be split by the
  simplifier.
\<close>

definition w32 :: "nat \<Rightarrow> 32 word" where
  "w32 n = of_nat n"

lemma unat_w32: "n < 2 ^ 32 \<Longrightarrow> unat (w32 n) = n"
  by (simp add: w32_def unat_of_nat_less)

lemma w32_eq_iff: "a < 2 ^ 32 \<Longrightarrow> b < 2 ^ 32 \<Longrightarrow> w32 a = w32 b \<longleftrightarrow> a = b"
  by (metis unat_w32)

lemma w32_le_iff: "a < 2 ^ 32 \<Longrightarrow> b < 2 ^ 32 \<Longrightarrow> w32 a \<le> w32 b \<longleftrightarrow> a \<le> b"
  by (simp add: word_le_nat_alt unat_w32)

lemma w32_less_iff: "a < 2 ^ 32 \<Longrightarrow> b < 2 ^ 32 \<Longrightarrow> w32 a < w32 b \<longleftrightarrow> a < b"
  by (simp add: word_less_nat_alt unat_w32)

lemma w32_0 [simp]: "w32 0 = 0"
  by (simp add: w32_def)

lemma w32_unat [simp]: "w32 (unat x) = x"
  by (simp add: w32_def)

lemma w32_add: "w32 a + w32 b = w32 (a + b)"
  by (simp add: w32_def)

lemma w32_diff: "b \<le> a \<Longrightarrow> w32 a - w32 b = w32 (a - b)"
  by (simp add: w32_def of_nat_diff)

lemma w32_16: "(16 :: 32 word) = w32 16"
  by (simp add: w32_def)

lemmas w32_arith = w32_add w32_diff w32_16

definition round_up :: "nat \<Rightarrow> nat \<Rightarrow> nat" where
  "round_up k n = (n - 1) div 2 ^ k * 2 ^ k + 2 ^ k"

lemma align_mask: "(x :: 32 word) AND NOT (mask k) = w32 (unat x div 2 ^ k * 2 ^ k)"
proof -
  have "x AND NOT (mask k) = push_bit k (drop_bit k x)"
    by (rule bit_word_eqI) (auto simp: bit_and_iff bit_not_iff bit_mask_iff bit_push_bit_iff bit_drop_bit_eq)
  moreover have "unat (drop_bit k x) = unat x div 2 ^ k"
    by (subst unat_drop_bit_eq) (simp add: drop_bit_eq_div)
  then have "drop_bit k x = of_nat (unat x div 2 ^ k)" by (metis of_nat_unat ucast_id)
  ultimately show ?thesis by (simp add: push_bit_eq_mult w32_def)
qed

lemma round_up_dvd [simp]: "2 ^ k dvd round_up k n"
  by (simp add: round_up_def)

lemma round_up_ge: "n \<le> round_up k n"
proof -
  have "n - 1 < (n - 1) div 2 ^ k * 2 ^ k + 2 ^ k"
    by (metis add_less_cancel_left div_mult_mod_eq mod_less_divisor zero_less_numeral zero_less_power)
  then show ?thesis by (simp add: round_up_def)
qed

lemma round_up_less:
  assumes "0 < n"
  shows "round_up k n < n + 2 ^ k"
proof -
  have "(n - 1) div 2 ^ k * 2 ^ k \<le> n - 1" by (rule div_times_less_eq_dividend)
  then show ?thesis unfolding round_up_def using assms by linarith
qed

lemma round_up_16: "16 dvd round_up 4 n" "0 < round_up 4 n" "16 dvd round_up 12 n"
proof -
  show "16 dvd round_up 4 n" using round_up_dvd [of 4 n] by simp
  show "0 < round_up 4 n" by (simp add: round_up_def)
  have "(16 :: nat) dvd 2 ^ 12" by simp
  then show "16 dvd round_up 12 n" using round_up_dvd [of 12 n] dvd_trans by blast
qed

section \<open>C loops\<close>

text \<open>\<open>for (i = lo; i < hi; i++) body\<close>, the body a state transformer.\<close>

function for_up :: "size_t \<Rightarrow> size_t \<Rightarrow> (size_t \<Rightarrow> 's \<Rightarrow> 's) \<Rightarrow> 's \<Rightarrow> 's" where
  "for_up i n f s = (if i < n then for_up (i + 1) n f (f i s) else s)"
  by pat_completeness auto
termination
  by (relation "measure (\<lambda>(i, n, f, s). unat n - unat i)")
     (auto simp: unat_Suc_less word_less_nat_alt)

declare for_up.simps [simp del]

text \<open>\<open>for (i = lo; i < hi; i++) if (...) return r;\<close>: the first value returned, if any.\<close>

function for_ret :: "size_t \<Rightarrow> size_t \<Rightarrow> (size_t \<Rightarrow> 'r option) \<Rightarrow> 'r option" where
  "for_ret i n f =
     (if i < n then (case f i of Some r \<Rightarrow> Some r | None \<Rightarrow> for_ret (i + 1) n f) else None)"
  by pat_completeness auto
termination
  by (relation "measure (\<lambda>(i, n, f). unat n - unat i)")
     (auto simp: unat_Suc_less word_less_nat_alt)

declare for_ret.simps [simp del]

text \<open>\<open>for (i = n; i > 0; i--) body\<close>.\<close>

function for_down :: "size_t \<Rightarrow> (size_t \<Rightarrow> 's \<Rightarrow> 's) \<Rightarrow> 's \<Rightarrow> 's" where
  "for_down i f s = (if 0 < i then for_down (i - 1) f (f i s) else s)"
  by pat_completeness auto
termination
  by (relation "measure (\<lambda>(i, f, s). unat i)") (auto simp: unat_pred word_less_nat_alt)

declare for_down.simps [simp del]

lemma for_up_fold [c_loops]:
  "for_up i n f s = fold (\<lambda>k. f (of_nat k)) [unat i..<unat n] s"
proof (induction i n f s rule: for_up.induct)
  case (1 i n f s)
  show ?case
  proof (cases "i < n")
    case True
    then have "unat i < unat n" by (simp add: word_less_nat_alt)
    then show ?thesis
      using True 1 by (simp add: for_up.simps [of i] unat_Suc_less upt_conv_Cons)
  next
    case False
    then show ?thesis by (simp add: for_up.simps [of i] word_less_nat_alt)
  qed
qed

lemma for_down_fold [c_loops]:
  "for_down n f s = fold (\<lambda>k. f (of_nat k)) (rev [1..<Suc (unat n)]) s"
proof (induction n f s rule: for_down.induct)
  case (1 n f s)
  show ?case
  proof (cases "0 < n")
    case True
    then obtain k where "unat n = Suc k"
      by (metis gr0_implies_Suc unat_gt_0 word_gt_0)
    moreover from this True have "unat (n - 1) = k" by (simp add: unat_pred)
    moreover from calculation(1) have "of_nat (Suc k) = n" by (metis of_nat_unat ucast_id)
    ultimately show ?thesis using True 1 by (simp add: for_down.simps [of n])
  next
    case False
    then have "n = 0" by (simp add: word_gt_0)
    then show ?thesis by (simp add: for_down.simps)
  qed
qed

lemma for_ret_None_iff:
  "for_ret i n f = None \<longleftrightarrow> (\<forall>k. unat i \<le> k \<and> k < unat n \<longrightarrow> f (of_nat k) = None)"
proof (induction i n f rule: for_ret.induct)
  case (1 i n f)
  show ?case
  proof (cases "i < n")
    case True
    then have "unat i < unat n" by (simp add: word_less_nat_alt)
    then show ?thesis
      using True 1
      by (simp add: for_ret.simps [of i] unat_Suc_less split: option.splits)
         (metis Suc_le_eq of_nat_unat option.distinct(1) order_le_less ucast_id)
  next
    case False
    then show ?thesis by (auto simp: for_ret.simps [of i] word_less_nat_alt)
  qed
qed

lemma for_ret_SomeI:
  assumes "f (of_nat k) = Some r" "unat i \<le> k" "k < unat n"
    and "\<And>j. unat i \<le> j \<Longrightarrow> j < k \<Longrightarrow> f (of_nat j) = None"
  shows "for_ret i n f = Some r"
  using assms
proof (induction i n f rule: for_ret.induct)
  case (1 i n f)
  then have lt: "i < n" by (simp add: word_less_nat_alt)
  show ?case
  proof (cases "unat i = k")
    case True
    then have "f i = Some r" using "1.prems"(1) by auto
    then show ?thesis using lt by (simp add: for_ret.simps [of i])
  next
    case False
    then have less: "unat i < k" using "1.prems"(2) by simp
    have "f (of_nat (unat i)) = None" using "1.prems"(4) less by blast
    then have "f i = None" by simp
    then show ?thesis using lt less 1 by (simp add: for_ret.simps [of i] unat_Suc_less)
  qed
qed

section \<open>Blocks of memory\<close>

definition mem_read :: "mem \<Rightarrow> addr \<Rightarrow> nat \<Rightarrow> byte list" where
  "mem_read m p n = map (\<lambda>i. m (p + of_nat i)) [0..<n]"

definition mem_write :: "mem \<Rightarrow> addr \<Rightarrow> byte list \<Rightarrow> mem" where
  "mem_write m p bs = (\<lambda>a. if unat (a - p) < length bs then bs ! unat (a - p) else m a)"

lemma length_mem_read [simp]: "length (mem_read m p n) = n"
  by (simp add: mem_read_def)

lemma nth_mem_read [simp]: "i < n \<Longrightarrow> mem_read m p n ! i = m (p + of_nat i)"
  by (simp add: mem_read_def)

lemma mem_read_Suc: "mem_read m p (Suc n) = mem_read m p n @ [m (p + of_nat n)]"
  by (simp add: mem_read_def)

lemma mem_read_Cons: "mem_read m p (Suc n) = m p # mem_read m (p + 1) n"
  unfolding mem_read_def
  by (subst upt_conv_Cons) (simp_all add: map_Suc_upt [symmetric] add.assoc o_def del: upt_Suc)

lemma mem_read_0 [simp]: "mem_read m p 0 = []"
  by (simp add: mem_read_def)

lemma mem_write_Nil [simp]: "mem_write m p [] = m"
  by (simp add: mem_write_def)

lemma mem_write_same [mem_simps]:
  "i < length bs \<Longrightarrow> length bs \<le> 2 ^ 32 \<Longrightarrow> mem_write m p bs (p + of_nat i) = bs ! i"
  by (simp add: mem_write_def unat_of_nat)

lemma mem_write_other [mem_simps]:
  "length bs \<le> unat (a - p) \<Longrightarrow> mem_write m p bs a = m a"
  by (simp add: mem_write_def)

lemma mem_read_write [mem_simps]:
  "length bs \<le> 2 ^ 32 \<Longrightarrow> mem_read (mem_write m p bs) p (length bs) = bs"
  by (intro nth_equalityI) (simp_all add: mem_write_same)

lemma mem_write_snoc:
  assumes "length bs < 2 ^ 32"
  shows "mem_write m p (bs @ [b]) = (mem_write m p bs)(p + of_nat (length bs) := b)"
proof
  fix a
  have "unat (a - p) = length bs \<longleftrightarrow> a = p + of_nat (length bs)"
    using assms unat_offset [of "length bs" p] by (metis of_nat_unat_offset len_bit0 len_num1
        numeral_Bit0 mult_2 numeral_One one_add_one)
  then show "mem_write m p (bs @ [b]) a = ((mem_write m p bs)(p + of_nat (length bs) := b)) a"
    by (auto simp: mem_write_def nth_append less_Suc_eq)
qed

lemma mem_write_Cons:
  assumes "length bs < 2 ^ 32"
  shows "mem_write m p (b # bs) = mem_write (m(p := b)) (p + 1) bs"
proof
  fix a
  show "mem_write m p (b # bs) a = mem_write (m(p := b)) (p + 1) bs a"
  proof (cases "a = p")
    case True
    have "unat (- 1 :: 32 word) = 2 ^ 32 - 1" by (simp add: unsigned_minus_1_eq_mask mask_eq_exp_minus_1)
    moreover have "p - (p + 1) = - 1" by simp
    ultimately have "unat (p - (p + 1)) = 2 ^ 32 - 1" by metis
    then show ?thesis using True assms by (simp add: mem_write_def)
  next
    case False
    then have "0 < a - p" by (simp add: word_gt_0)
    then have "unat (a - (p + 1)) = unat (a - p) - 1"
      using unat_pred [of "a - p"] by (simp add: diff_diff_eq)
    moreover have "unat (a - p) \<noteq> 0" using False by (simp add: unat_eq_0)
    ultimately show ?thesis using False by (auto simp: mem_write_def nth_Cons split: nat.splits)
  qed
qed

section \<open>NUL terminated strings in memory\<close>

fun cstr :: "mem \<Rightarrow> addr \<Rightarrow> byte list \<Rightarrow> bool" where
  "cstr m p [] \<longleftrightarrow> m p = 0"
| "cstr m p (x # xs) \<longleftrightarrow> m p = x \<and> x \<noteq> 0 \<and> cstr m (p + 1) xs"

lemma cstr_iff:
  "cstr m p s \<longleftrightarrow>
     0 \<notin> set s \<and> (\<forall>i < length s. m (p + of_nat i) = s ! i) \<and> m (p + of_nat (length s)) = 0"
proof (induction s arbitrary: p)
  case Nil
  then show ?case by simp
next
  case (Cons x xs)
  have "(\<forall>i < length (x # xs). m (p + of_nat i) = (x # xs) ! i) \<longleftrightarrow>
      m p = x \<and> (\<forall>i < length xs. m (p + 1 + of_nat i) = xs ! i)"
    by (simp add: All_less_Suc2 add.assoc)
  then show ?case using Cons.IH [of "p + 1"] by (auto simp: add.assoc)
qed

lemma cstr_nth: "cstr m p s \<Longrightarrow> i < length s \<Longrightarrow> m (p + of_nat i) = s ! i"
  by (simp add: cstr_iff)

lemma cstr_end: "cstr m p s \<Longrightarrow> m (p + of_nat (length s)) = 0"
  by (simp add: cstr_iff)

lemma cstr_nonzero: "cstr m p s \<Longrightarrow> i < length s \<Longrightarrow> m (p + of_nat i) \<noteq> 0"
  by (metis cstr_iff nth_mem)

text \<open>A string cannot be longer than the address space: its terminator would lie inside it.\<close>

lemma cstr_length:
  assumes "cstr m p s"
  shows "length s < 2 ^ 32"
proof (rule ccontr)
  assume "\<not> length s < 2 ^ 32"
  then have i: "length s - 2 ^ 32 < length s" by simp
  have "(of_nat (length s) :: addr) = of_nat (length s - 2 ^ 32) + of_nat (2 ^ 32)"
    using \<open>\<not> length s < 2 ^ 32\<close> by (metis le_add_diff_inverse2 not_less of_nat_add)
  also have "(of_nat (2 ^ 32) :: addr) = 0" by simp
  finally show False
    using cstr_nonzero [OF assms i] cstr_end [OF assms] by simp
qed

lemma cstr_unique: "cstr m p s \<Longrightarrow> cstr m p t \<Longrightarrow> s = t"
proof (induction s arbitrary: p t)
  case Nil
  then show ?case by (cases t) auto
next
  case (Cons x xs)
  then show ?case by (cases t) auto
qed

lemma cstr_append: "cstr m p (s @ t) \<longleftrightarrow> 0 \<notin> set s \<and> mem_read m p (length s) = s \<and> cstr m (p + of_nat (length s)) t"
proof (induction s arbitrary: p)
  case Nil
  then show ?case by simp
next
  case (Cons x xs)
  then show ?case by (auto simp: mem_read_Cons add.assoc)
qed

lemma cstr_drop: "cstr m p s \<Longrightarrow> i \<le> length s \<Longrightarrow> cstr m (p + of_nat i) (drop i s)"
  using cstr_append [of m p "take i s" "drop i s"] by (simp add: min_absorb2)

lemma cstr_write:
  assumes "0 \<notin> set s" "length s < 2 ^ 32"
  shows "cstr (mem_write m p (s @ [0])) p s"
  using assms by (auto simp: cstr_iff mem_write_same nth_append)

lemma cstr_cong:
  assumes "cstr m p s" "\<And>i. i \<le> length s \<Longrightarrow> m' (p + of_nat i) = m (p + of_nat i)"
  shows "cstr m' p s"
  using assms by (simp add: cstr_iff)

text \<open>Removing an element of an array by moving the last one to its place.\<close>

lemma mset_swap_remove:
  assumes "i < length xs"
  shows "mset (butlast (xs[i := last xs])) = mset xs - {#xs ! i#}"
proof (cases xs rule: rev_cases)
  case (snoc ys y)
  show ?thesis
  proof (cases "i < length ys")
    case True
    with snoc have "butlast (xs[i := last xs]) = ys[i := y]" by (simp add: list_update_append)
    with snoc True show ?thesis by (simp add: mset_update nth_append diff_union_swap2)
  next
    case False
    with assms snoc have "i = length ys" by simp
    with snoc show ?thesis by simp
  qed
qed (use assms in simp)

end
