(* ===== verification/Libc_String.thy ===== *)
theory Libc_String
  imports Inwox_Prelude
begin

text \<open>
  The memory and string functions of \<open>libc/src/string\<close> (and \<open>ctype/isspace.c\<close>) on the flat
  memory.  A loop that runs to a NUL byte is a \<open>partial_function\<close> in the option monad: \<open>None\<close>
  means that it never ends.  Pointers are addresses, \<open>NULL\<close> is \<open>0\<close>; a function that writes
  returns the new memory.  \<open>strdup\<close> needs the allocator and is in \<open>Libc_Alloc\<close>.
\<close>

section \<open>Definitions\<close>

definition memcmp :: "mem \<Rightarrow> addr \<Rightarrow> addr \<Rightarrow> size_t \<Rightarrow> int" where
  "memcmp m p1 p2 sz =
     (case for_ret 0 sz (\<lambda>i.
         if m (p1 + i) < m (p2 + i) then Some (- 1)
         else if m (p1 + i) > m (p2 + i) then Some 1
         else None)
      of Some r \<Rightarrow> r | None \<Rightarrow> 0)"

definition memcpy :: "mem \<Rightarrow> addr \<Rightarrow> addr \<Rightarrow> size_t \<Rightarrow> mem" where
  "memcpy m dest src sz = for_up 0 sz (\<lambda>i m. m(dest + i := m (src + i))) m"

definition memmove :: "mem \<Rightarrow> addr \<Rightarrow> addr \<Rightarrow> size_t \<Rightarrow> mem" where
  "memmove m dest src sz =
     (if src > dest
      then for_up 0 sz (\<lambda>i m. m(dest + i := m (src + i))) m
      else for_down sz (\<lambda>i m. m(dest + (i - 1) := m (src + (i - 1)))) m)"

definition memset :: "mem \<Rightarrow> addr \<Rightarrow> int \<Rightarrow> size_t \<Rightarrow> mem" where
  "memset m dest value sz = for_up 0 sz (\<lambda>i m. m(dest + i := word_of_int value)) m"

partial_function (option) stpcpy :: "mem \<Rightarrow> addr \<Rightarrow> addr \<Rightarrow> (addr \<times> mem) option" where
  "stpcpy m s1 s2 =
     (if m s2 \<noteq> 0 then stpcpy (m(s1 := m s2)) (s1 + 1) (s2 + 1)
      else Some (s1, m(s1 := 0)))"

partial_function (option) strcpy_loop :: "mem \<Rightarrow> addr \<Rightarrow> addr \<Rightarrow> mem option" where
  "strcpy_loop m s1 s2 =
     (if m s2 \<noteq> 0 then strcpy_loop (m(s1 := m s2)) (s1 + 1) (s2 + 1)
      else Some (m(s1 := 0)))"

definition strcpy :: "mem \<Rightarrow> addr \<Rightarrow> addr \<Rightarrow> (addr \<times> mem) option" where
  "strcpy m s1 s2 = map_option (Pair s1) (strcpy_loop m s1 s2)"

partial_function (option) strchr :: "mem \<Rightarrow> addr \<Rightarrow> int \<Rightarrow> addr option" where
  "strchr m s c =
     (if m s = word_of_int c then Some s
      else if m s \<noteq> 0 then strchr m (s + 1) c
      else Some 0)"

partial_function (option) strrchr_loop :: "mem \<Rightarrow> addr \<Rightarrow> int \<Rightarrow> addr \<Rightarrow> addr option" where
  "strrchr_loop m s c result =
     (let result = (if m s = word_of_int c then s else result)
      in if m s \<noteq> 0 then strrchr_loop m (s + 1) c result else Some result)"

definition strrchr :: "mem \<Rightarrow> addr \<Rightarrow> int \<Rightarrow> addr option" where
  "strrchr m s c = strrchr_loop m s c 0"

partial_function (option) strcmp_loop :: "mem \<Rightarrow> addr \<Rightarrow> addr \<Rightarrow> size_t \<Rightarrow> int option" where
  "strcmp_loop m a b i =
     (let ac = m (a + i); bc = m (b + i)
      in if ac = 0 \<and> bc = 0 then Some 0
         else if ac < bc then Some (- 1)
         else if ac > bc then Some 1
         else strcmp_loop m a b (i + 1))"

definition strcmp :: "mem \<Rightarrow> addr \<Rightarrow> addr \<Rightarrow> int option" where
  "strcmp m a b = strcmp_loop m a b 0"

definition strncmp :: "mem \<Rightarrow> addr \<Rightarrow> addr \<Rightarrow> size_t \<Rightarrow> int" where
  "strncmp m str1 str2 len =
     (case for_ret 0 len (\<lambda>i.
         if m (str1 + i) < m (str2 + i) then Some (- 1)
         else if m (str1 + i) > m (str2 + i) then Some 1
         else if m (str1 + i) = 0 \<and> m (str2 + i) = 0 then Some 0
         else None)
      of Some r \<Rightarrow> r | None \<Rightarrow> 0)"

partial_function (option) strlen_loop :: "mem \<Rightarrow> addr \<Rightarrow> size_t \<Rightarrow> size_t option" where
  "strlen_loop m s len = (if m s \<noteq> 0 then strlen_loop m (s + 1) (len + 1) else Some len)"

definition strlen :: "mem \<Rightarrow> addr \<Rightarrow> size_t option" where
  "strlen m s = strlen_loop m s 0"

function strnlen_loop :: "mem \<Rightarrow> addr \<Rightarrow> size_t \<Rightarrow> size_t \<Rightarrow> size_t" where
  "strnlen_loop m str maxlen ret =
     (if ret < maxlen \<and> m (str + ret) \<noteq> 0 then strnlen_loop m str maxlen (ret + 1) else ret)"
  by pat_completeness auto
termination
  by (relation "measure (\<lambda>(m, str, maxlen, ret). unat maxlen - unat ret)")
     (auto simp: unat_Suc_less word_less_nat_alt)

declare strnlen_loop.simps [simp del]

definition strnlen :: "mem \<Rightarrow> addr \<Rightarrow> size_t \<Rightarrow> size_t" where
  "strnlen m str maxlen = strnlen_loop m str maxlen 0"

text \<open>The inner loops of \<open>strcspn\<close> and \<open>strspn\<close>: \<open>True\<close> is the early \<open>return result\<close>.\<close>

partial_function (option) strcspn_inner :: "mem \<Rightarrow> byte \<Rightarrow> addr \<Rightarrow> size_t \<Rightarrow> bool option" where
  "strcspn_inner m c characters i =
     (if m (characters + i) \<noteq> 0
      then if c = m (characters + i) then Some True
           else strcspn_inner m c characters (i + 1)
      else Some False)"

partial_function (option) strcspn_loop :: "mem \<Rightarrow> addr \<Rightarrow> addr \<Rightarrow> size_t \<Rightarrow> size_t option" where
  "strcspn_loop m string characters result =
     (if m (string + result) \<noteq> 0
      then Option.bind (strcspn_inner m (m (string + result)) characters 0)
             (\<lambda>found. if found then Some result
                      else strcspn_loop m string characters (result + 1))
      else Some result)"

definition strcspn :: "mem \<Rightarrow> addr \<Rightarrow> addr \<Rightarrow> size_t option" where
  "strcspn m string characters = strcspn_loop m string characters 0"

partial_function (option) strspn_inner :: "mem \<Rightarrow> byte \<Rightarrow> addr \<Rightarrow> size_t \<Rightarrow> bool option" where
  "strspn_inner m c characters i =
     (if m (characters + i) \<noteq> 0
      then if c \<noteq> m (characters + i) then Some True
           else strspn_inner m c characters (i + 1)
      else Some False)"

partial_function (option) strspn_loop :: "mem \<Rightarrow> addr \<Rightarrow> addr \<Rightarrow> size_t \<Rightarrow> size_t option" where
  "strspn_loop m string characters result =
     Option.bind (strspn_inner m (m (string + result)) characters 0)
       (\<lambda>differs. if differs then Some result
                  else strspn_loop m string characters (result + 1))"

definition strspn :: "mem \<Rightarrow> addr \<Rightarrow> addr \<Rightarrow> size_t option" where
  "strspn m string characters = strspn_loop m string characters 0"

text \<open>
  \<open>strtok\<close> keeps the static pointer \<open>next\<close>, an argument and a result here: the result is the
  returned pointer, the new memory and the new value of \<open>next\<close>.
\<close>

definition strtok :: "mem \<Rightarrow> addr \<Rightarrow> addr \<Rightarrow> addr \<Rightarrow> (addr \<times> mem \<times> addr) option" where
  "strtok m next str seperator =
     (let str = (if str = 0 then next else str) in
      if str = 0 then Some (0, m, next)
      else Option.bind (strspn m str seperator) (\<lambda>skip.
        let str = str + skip in
        if m str = 0 then Some (0, m, next)
        else Option.bind (strcspn m str seperator) (\<lambda>tokenEnd.
          if m (str + tokenEnd) = 0 then Some (str, m, 0)
          else Some (str, m(str + tokenEnd := 0), str + tokenEnd + 1))))"

definition isspace :: "int \<Rightarrow> bool" where
  "isspace c \<longleftrightarrow> c = 9 \<or> c = 10 \<or> c = 11 \<or> c = 12 \<or> c = 13 \<or> c = 32"

declare stpcpy.simps [code]
  strcpy_loop.simps [code]
  strchr.simps [code]
  strrchr_loop.simps [code]
  strcmp_loop.simps [code]
  strlen_loop.simps [code]
  strcspn_inner.simps [code]
  strcspn_loop.simps [code]
  strspn_inner.simps [code]
  strspn_loop.simps [code]

section \<open>Copying\<close>

text \<open>
  Copying byte by byte in ascending order copies the block when no byte is read after it was
  overwritten; in descending order likewise.
\<close>

lemma copy_ascending:
  assumes "n \<le> 2 ^ 32"
    and "\<And>i j. i < j \<Longrightarrow> j < n \<Longrightarrow> (src::addr) + of_nat j \<noteq> dest + of_nat i"
  shows "k \<le> n \<Longrightarrow>
    fold (\<lambda>i m. m(dest + of_nat i := m (src + of_nat i))) [0..<k] m = mem_write m dest (mem_read m src k)"
proof (induction k)
  case 0
  then show ?case by simp
next
  case (Suc k)
  let ?f = "\<lambda>i m. m(dest + of_nat i := m (src + of_nat i))"
  have "mem_write m dest (mem_read m src k) (src + of_nat k) = m (src + of_nat k)"
  proof (rule mem_write_other, rule ccontr)
    assume "\<not> length (mem_read m src k) \<le> unat (src + of_nat k - dest)"
    then have "unat (src + of_nat k - dest) < k" by simp
    with assms(2) [of "unat (src + of_nat k - dest)" k] Suc.prems show False by simp
  qed
  moreover have "fold ?f [0..<Suc k] m = ?f k (fold ?f [0..<k] m)" by simp
  moreover have "fold ?f [0..<k] m = mem_write m dest (mem_read m src k)"
    using Suc.IH Suc.prems Suc_leD by blast
  moreover have "length (mem_read m src k) < 2 ^ 32" using Suc.prems assms(1) by simp
  ultimately show ?case by (simp only: mem_read_Suc mem_write_snoc length_mem_read)
qed

lemma copy_descending:
  assumes "n \<le> 2 ^ 32"
    and "\<And>i j. i < j \<Longrightarrow> j < n \<Longrightarrow> (src::addr) + of_nat i \<noteq> dest + of_nat j"
  shows "k \<le> n \<Longrightarrow>
    fold (\<lambda>i m. m(dest + (of_nat i - 1) := m (src + (of_nat i - 1)))) (rev [1..<Suc k]) m
      = mem_write m dest (mem_read m src k)"
proof (induction k arbitrary: m)
  case 0
  then show ?case by simp
next
  case (Suc k)
  let ?m = "m(dest + of_nat k := m (src + of_nat k))"
  let ?f = "\<lambda>i m. m(dest + (of_nat i - 1) := m (src + (of_nat i - 1)))"
  have "mem_read ?m src k = mem_read m src k"
    using assms(2) Suc.prems by (auto simp: mem_read_def)
  moreover have upd: "(mem_write m dest bs)(dest + of_nat k := b) = mem_write (m(dest + of_nat k := b)) dest bs"
    if "length bs = k" for bs b
  proof
    fix a
    have "unat (dest + of_nat k - dest) = k"
      using Suc.prems assms(1) by (intro unat_offset) simp
    then show "((mem_write m dest bs)(dest + of_nat k := b)) a = mem_write (m(dest + of_nat k := b)) dest bs a"
      using that by (auto simp: mem_write_def)
  qed
  moreover have "fold ?f (rev [1..<Suc (Suc k)]) m = fold ?f (rev [1..<Suc k]) ?m"
    by simp
  moreover have "fold ?f (rev [1..<Suc k]) ?m = mem_write ?m dest (mem_read ?m src k)"
    using Suc.IH Suc.prems Suc_leD by blast
  moreover have "length (mem_read m src k) < 2 ^ 32" using Suc.prems assms(1) by simp
  ultimately show ?case by (simp only: mem_read_Suc mem_write_snoc length_mem_read upd)
qed

text \<open>Blocks that do not wrap around and do not meet.\<close>

definition disjoint_blocks :: "addr \<Rightarrow> addr \<Rightarrow> nat \<Rightarrow> bool" where
  "disjoint_blocks p q n \<longleftrightarrow> (\<forall>i < n. \<forall>j < n. p + of_nat i \<noteq> q + of_nat j)"

lemma disjoint_blocks_shift:
  assumes "disjoint_blocks p q (Suc n)"
  shows "disjoint_blocks (p + 1) (q + 1) n"
  unfolding disjoint_blocks_def
proof (intro allI impI)
  fix i j
  assume "i < n" "j < n"
  then have "p + of_nat (Suc i) \<noteq> q + of_nat (Suc j)"
    using assms unfolding disjoint_blocks_def by blast
  then show "p + 1 + of_nat i \<noteq> q + 1 + of_nat j" by (simp add: add.assoc)
qed

lemma disjoint_blocks_first:
  assumes "disjoint_blocks p q n" "i < n"
  shows "q + of_nat i \<noteq> p"
proof -
  have "p + of_nat 0 \<noteq> q + of_nat i" using assms unfolding disjoint_blocks_def by blast
  then show ?thesis by simp
qed

lemma memcpy_block:
  assumes "disjoint_blocks dest src (unat sz)"
  shows "memcpy m dest src sz = mem_write m dest (mem_read m src (unat sz))"
proof -
  have "src + of_nat j \<noteq> dest + of_nat i" if "i < j" "j < unat sz" for i j
    using assms that by (metis disjoint_blocks_def less_trans)
  then have "fold (\<lambda>k m. m(dest + of_nat k := m (src + of_nat k))) [0..<unat sz] m =
      mem_write m dest (mem_read m src (unat sz))"
    by (intro copy_ascending [of "unat sz"]) (simp_all add: less_imp_le)
  then show ?thesis by (simp only: memcpy_def for_up_fold unat_0)
qed

lemma memmove_block:
  assumes "unat dest + unat sz \<le> 2 ^ 32" "unat src + unat sz \<le> 2 ^ 32"
  shows "memmove m dest src sz = mem_write m dest (mem_read m src (unat sz))"
proof -
  have off: "unat (p + of_nat i) = unat p + i" if "i < unat sz" "unat p + unat sz \<le> 2 ^ 32"
    for p :: addr and i
    using that by (simp add: unat_word_ariths unat_of_nat)
  show ?thesis
  proof (cases "dest < src")
    case True
    have "src + of_nat j \<noteq> dest + of_nat i" if "i < j" "j < unat sz" for i j
    proof
      assume "src + of_nat j = dest + of_nat i"
      then have "unat src + j = unat dest + i"
        using off [of j src] off [of i dest] that assms by simp
      with True that show False by (simp add: word_less_nat_alt)
    qed
    then have "fold (\<lambda>k m. m(dest + of_nat k := m (src + of_nat k))) [0..<unat sz] m =
        mem_write m dest (mem_read m src (unat sz))"
      using assms by (intro copy_ascending [of "unat sz"]) simp_all
    then show ?thesis using True by (simp only: memmove_def for_up_fold if_True unat_0)
  next
    case False
    have "src + of_nat i \<noteq> dest + of_nat j" if "i < j" "j < unat sz" for i j
    proof
      assume "src + of_nat i = dest + of_nat j"
      then have "unat src + i = unat dest + j"
        using off [of i src] off [of j dest] that assms by simp
      with False that show False by (simp add: word_less_nat_alt)
    qed
    then have "fold (\<lambda>k m. m(dest + (of_nat k - 1) := m (src + (of_nat k - 1)))) (rev [1..<Suc (unat sz)]) m =
        mem_write m dest (mem_read m src (unat sz))"
      using assms by (intro copy_descending [of "unat sz"]) simp_all
    then show ?thesis using False by (simp only: memmove_def for_down_fold if_False)
  qed
qed

lemma memset_block:
  "memset m dest value sz = mem_write m dest (replicate (unat sz) (word_of_int value))"
proof -
  have "fold (\<lambda>i m. m(dest + of_nat i := v)) [0..<k] m = mem_write m dest (replicate k v)"
    if "k \<le> 2 ^ 32" for k v
    using that
  proof (induction k)
    case (Suc k)
    have "mem_write m dest (replicate (Suc k) v) = (mem_write m dest (replicate k v))(dest + of_nat k := v)"
      using Suc.prems mem_write_snoc [of "replicate k v" m dest v] by (simp add: replicate_append_same)
    moreover have "fold (\<lambda>i m. m(dest + of_nat i := v)) [0..<k] m = mem_write m dest (replicate k v)"
      using Suc Suc_leD by blast
    moreover have "fold (\<lambda>i m. m(dest + of_nat i := v)) [0..<Suc k] m =
        (fold (\<lambda>i m. m(dest + of_nat i := v)) [0..<k] m)(dest + of_nat k := v)" by simp
    ultimately show ?case by (simp only:)
  qed simp
  then show ?thesis by (simp add: memset_def for_up_fold less_imp_le)
qed


text \<open>\<open>stpcpy\<close> and \<open>strcpy\<close> copy the string with its terminator.\<close>

lemma strcpy_loops_block:
  assumes "cstr m s2 s" "disjoint_blocks s1 s2 (Suc (length s))"
  shows "stpcpy m s1 s2 = Some (s1 + of_nat (length s), mem_write m s1 (s @ [0]))
    \<and> strcpy_loop m s1 s2 = Some (mem_write m s1 (s @ [0]))"
  using assms
proof (induction s arbitrary: m s1 s2)
  case Nil
  then show ?case
    by (simp add: stpcpy.simps [of m] strcpy_loop.simps [of m] mem_write_Cons fun_upd_def)
next
  case (Cons x xs)
  from Cons.prems have x: "m s2 = x" "x \<noteq> 0" by simp_all
  have "s2 + 1 + of_nat i \<noteq> s1" if "i \<le> length xs" for i
    using disjoint_blocks_first [OF Cons.prems(2), of "Suc i"] that by (simp add: add.assoc)
  then have "cstr (m(s1 := x)) (s2 + 1) xs"
    using Cons.prems(1) by (auto intro: cstr_cong [of m])
  moreover have "disjoint_blocks (s1 + 1) (s2 + 1) (Suc (length xs))"
    using Cons.prems(2) by (intro disjoint_blocks_shift) simp
  moreover have "length (xs @ [0::byte]) < 2 ^ 32"
    using cstr_length [OF Cons.prems(1)] by simp
  moreover from calculation(1,2) have
    "stpcpy (m(s1 := x)) (s1 + 1) (s2 + 1) =
       Some (s1 + 1 + of_nat (length xs), mem_write (m(s1 := x)) (s1 + 1) (xs @ [0]))"
    "strcpy_loop (m(s1 := x)) (s1 + 1) (s2 + 1) = Some (mem_write (m(s1 := x)) (s1 + 1) (xs @ [0]))"
    using Cons.IH by blast+
  ultimately show ?case
    using x by (simp add: stpcpy.simps [of m s1] strcpy_loop.simps [of m s1] mem_write_Cons add.assoc)
qed

lemmas stpcpy_block = strcpy_loops_block [THEN conjunct1]

lemma strcpy_block:
  "cstr m s2 s \<Longrightarrow> disjoint_blocks s1 s2 (Suc (length s)) \<Longrightarrow>
   strcpy m s1 s2 = Some (s1, mem_write m s1 (s @ [0]))"
  by (simp add: strcpy_def strcpy_loops_block)

section \<open>Measuring and searching\<close>

lemma strlen_loop_cstr: "cstr m p s \<Longrightarrow> strlen_loop m p n = Some (n + of_nat (length s))"
  by (induction s arbitrary: p n) (simp_all add: strlen_loop.simps add.assoc)

lemma strlen_cstr: "cstr m p s \<Longrightarrow> strlen m p = Some (of_nat (length s))"
  by (simp add: strlen_def strlen_loop_cstr)

lemma strnlen_loop_eq:
  assumes "ret \<le> maxlen"
  shows "unat (strnlen_loop m p maxlen ret) =
    unat ret + length (takeWhile (\<lambda>x. x \<noteq> 0) (mem_read m (p + ret) (unat maxlen - unat ret)))"
  using assms
proof (induction m p maxlen ret rule: strnlen_loop.induct)
  case (1 m p maxlen ret)
  show ?case
  proof (cases "ret < maxlen")
    case True
    then have n: "unat maxlen - unat ret = Suc (unat maxlen - unat (ret + 1))"
      by (simp add: unat_Suc_less word_less_nat_alt)
    have le: "ret + 1 \<le> maxlen" using True by (rule inc_le)
    show ?thesis
      using True 1 le unfolding n
      by (simp add: strnlen_loop.simps [of m p maxlen ret] mem_read_Cons unat_Suc_less add.assoc)
  next
    case False
    then show ?thesis using "1.prems" by (simp add: strnlen_loop.simps)
  qed
qed

lemma strnlen_eq:
  "unat (strnlen m p n) = length (takeWhile (\<lambda>x. x \<noteq> 0) (mem_read m p (unat n)))"
  using strnlen_loop_eq [of 0 n m p] by (simp add: strnlen_def)

lemma strchr_first:
  assumes "cstr m p s" "i \<le> length s" "(s @ [0]) ! i = word_of_int c"
    and "\<And>j. j < i \<Longrightarrow> (s @ [0]) ! j \<noteq> word_of_int c"
  shows "strchr m p c = Some (p + of_nat i)"
  using assms
proof (induction s arbitrary: p i)
  case Nil
  then show ?case by (simp add: strchr.simps)
next
  case (Cons x xs)
  show ?case
  proof (cases i)
    case 0
    then show ?thesis using Cons.prems by (simp add: strchr.simps)
  next
    case (Suc k)
    have "(xs @ [0]) ! j \<noteq> word_of_int c" if "j < k" for j
      using Cons.prems(4) [of "Suc j"] that Suc by simp
    then have "strchr m (p + 1) c = Some (p + 1 + of_nat k)"
      using Cons.prems(1-3) Suc by (intro Cons.IH) auto
    then show ?thesis
      using Cons.prems(1) Cons.prems(4) [of 0] Suc by (simp add: strchr.simps [of m p] add.assoc)
  qed
qed

lemma strchr_absent:
  "cstr m p s \<Longrightarrow> word_of_int c \<notin> set (s @ [0]) \<Longrightarrow> strchr m p c = Some 0"
  by (induction s arbitrary: p) (auto simp: strchr.simps)

lemma strrchr_loop_absent:
  "cstr m p s \<Longrightarrow> word_of_int c \<notin> set (s @ [0]) \<Longrightarrow> strrchr_loop m p c r = Some r"
proof (induction s arbitrary: p)
  case (Cons x xs)
  then show ?case by (subst strrchr_loop.simps) auto
qed (simp add: strrchr_loop.simps)

lemma strrchr_loop_last:
  assumes "cstr m p s" "i \<le> length s" "(s @ [0]) ! i = word_of_int c"
    and "\<And>j. i < j \<Longrightarrow> j \<le> length s \<Longrightarrow> (s @ [0]) ! j \<noteq> word_of_int c"
  shows "strrchr_loop m p c r = Some (p + of_nat i)"
  using assms
proof (induction s arbitrary: p i r)
  case Nil
  then show ?case by (simp add: strrchr_loop.simps)
next
  case (Cons x xs)
  show ?case
  proof (cases i)
    case 0
    have "word_of_int c \<notin> set (xs @ [0])"
    proof
      assume "word_of_int c \<in> set (xs @ [0])"
      then obtain k where "k < length (xs @ [0 :: byte])" "(xs @ [0]) ! k = word_of_int c"
        by (metis in_set_conv_nth)
      then show False using Cons.prems(4) [of "Suc k"] 0 by simp
    qed
    then show ?thesis
      using 0 Cons.prems by (auto simp: strrchr_loop.simps [of m p] strrchr_loop_absent)
  next
    case (Suc k)
    have "(xs @ [0]) ! j \<noteq> word_of_int c" if "k < j" "j \<le> length xs" for j
      using Cons.prems(4) [of "Suc j"] that Suc by simp
    then have "strrchr_loop m (p + 1) c r' = Some (p + 1 + of_nat k)" for r'
      using Cons.prems(1-3) Suc by (intro Cons.IH) auto
    then show ?thesis
      using Cons.prems(1) Suc by (simp add: strrchr_loop.simps [of m p] add.assoc)
  qed
qed

lemma strrchr_last:
  assumes "cstr m p s" "i \<le> length s" "(s @ [0]) ! i = word_of_int c"
    and "\<And>j. i < j \<Longrightarrow> j \<le> length s \<Longrightarrow> (s @ [0]) ! j \<noteq> word_of_int c"
  shows "strrchr m p c = Some (p + of_nat i)"
  using strrchr_loop_last [OF assms] by (simp add: strrchr_def)

lemma strrchr_absent:
  "cstr m p s \<Longrightarrow> word_of_int c \<notin> set (s @ [0]) \<Longrightarrow> strrchr m p c = Some 0"
  by (simp add: strrchr_def strrchr_loop_absent)

lemma strcspn_inner_cstr:
  "cstr m (q + i) cs \<Longrightarrow> strcspn_inner m c q i = Some (c \<in> set cs)"
proof (induction cs arbitrary: i)
  case (Cons x cs)
  then show ?case by (subst strcspn_inner.simps) (auto simp: add.assoc)
qed (simp add: strcspn_inner.simps)

lemma strspn_inner_cstr:
  "cstr m (q + i) cs \<Longrightarrow> strspn_inner m c q i = Some (\<exists>x \<in> set cs. c \<noteq> x)"
proof (induction cs arbitrary: i)
  case (Cons x cs)
  then show ?case by (subst strspn_inner.simps) (auto simp: add.assoc)
qed (simp add: strspn_inner.simps)

lemma strcspn_loop_cstr:
  assumes "cstr m q cs"
  shows "cstr m (p + r) s \<Longrightarrow>
    strcspn_loop m p q r = Some (r + of_nat (length (takeWhile (\<lambda>x. x \<notin> set cs) s)))"
  using assms
proof (induction s arbitrary: r)
  case (Cons x s)
  then show ?case by (subst strcspn_loop.simps) (auto simp: strcspn_inner_cstr add.assoc)
qed (simp add: strcspn_loop.simps)

lemma strcspn_cstr:
  "cstr m p s \<Longrightarrow> cstr m q cs \<Longrightarrow>
   strcspn m p q = Some (of_nat (length (takeWhile (\<lambda>x. x \<notin> set cs) s)))"
  using strcspn_loop_cstr [of m q cs p 0 s] by (simp add: strcspn_def)

text \<open>
  \<open>strspn\<close> stops at the first character that differs from \<^emph>\<open>some\<close> character of the set, so it
  measures the initial segment equal to \<^emph>\<open>all\<close> of them.
\<close>

lemma strspn_loop_cstr:
  assumes "cstr m q cs" "cs \<noteq> []"
  shows "cstr m (p + r) s \<Longrightarrow>
    strspn_loop m p q r = Some (r + of_nat (length (takeWhile (\<lambda>x. \<forall>y \<in> set cs. x = y) s)))"
proof (induction s arbitrary: r)
  case Nil
  have "\<exists>x \<in> set cs. 0 \<noteq> x" using assms by (cases cs) auto
  then show ?case using Nil assms by (simp add: strspn_loop.simps [of m p q] strspn_inner_cstr)
next
  case (Cons x xs)
  then show ?case
    using assms by (subst strspn_loop.simps) (auto simp: strspn_inner_cstr add.assoc)
qed

lemma strspn_cstr:
  "cstr m p s \<Longrightarrow> cstr m q cs \<Longrightarrow> cs \<noteq> [] \<Longrightarrow>
   strspn m p q = Some (of_nat (length (takeWhile (\<lambda>x. \<forall>y \<in> set cs. x = y) s)))"
  using strspn_loop_cstr [of m q cs p 0 s] by (simp add: strspn_def)

text \<open>With an empty set \<open>strspn\<close> never stops.\<close>

lemma strspn_loop_diverges:
  assumes "m q = 0"
  shows "strspn_loop m p q r = None"
proof (rule ccontr)
  assume "strspn_loop m p q r \<noteq> None"
  then obtain n where n: "strspn_loop m p q r = Some n" by blast
  have "m q \<noteq> 0"
  proof (rule strspn_loop.raw_induct [where P = "\<lambda>m p q r n. m q \<noteq> 0", OF _ n])
    fix f m p q r n
    assume IH: "\<And>m p q r n. f m p q r = Some n \<Longrightarrow> m q \<noteq> 0"
      and eq: "Option.bind (strspn_inner m (m (p + r)) q 0)
        (\<lambda>differs. if differs then Some r else f m p q (r + 1)) = Some n"
    show "m q \<noteq> 0"
    proof
      assume "m q = 0"
      then have "strspn_inner m (m (p + r)) q 0 = Some False" by (simp add: strspn_inner.simps)
      with eq have "f m p q (r + 1) = Some n" by simp
      with IH \<open>m q = 0\<close> show False by blast
    qed
  qed
  with assms show False by simp
qed

section \<open>Comparing\<close>

text \<open>The three-way comparison of byte strings in the lexicographic order of unsigned bytes.\<close>

fun lex_cmp :: "byte list \<Rightarrow> byte list \<Rightarrow> int" where
  "lex_cmp [] [] = 0"
| "lex_cmp [] (y # ys) = - 1"
| "lex_cmp (x # xs) [] = 1"
| "lex_cmp (x # xs) (y # ys) = (if x < y then - 1 else if y < x then 1 else lex_cmp xs ys)"

lemma lex_cmp_0_iff [simp]: "lex_cmp xs ys = 0 \<longleftrightarrow> xs = ys"
  by (induction xs ys rule: lex_cmp.induct) auto

lemma lex_cmp_swap: "lex_cmp ys xs = - lex_cmp xs ys"
  by (induction xs ys rule: lex_cmp.induct) auto

lemma lex_cmp_less_iff: "lex_cmp xs ys = - 1 \<longleftrightarrow> (xs, ys) \<in> lexord {(a, b). a < b}"
  by (induction xs ys rule: lex_cmp.induct) auto

lemma strcmp_loop_cstr:
  "cstr m (a + i) s \<Longrightarrow> cstr m (b + i) t \<Longrightarrow> strcmp_loop m a b i = Some (lex_cmp s t)"
proof (induction s t arbitrary: i rule: lex_cmp.induct)
  case (2 y ys)
  then have "m (b + i) \<noteq> 0" by simp
  then show ?case using 2 by (simp add: strcmp_loop.simps [of m a b i] word_gt_0 Let_def)
next
  case (3 x xs)
  then have "m (a + i) \<noteq> 0" by simp
  then show ?case using 3 by (simp add: strcmp_loop.simps [of m a b i] word_gt_0 Let_def)
next
  case (4 x xs y ys)
  then show ?case by (auto simp: strcmp_loop.simps [of m a b i] add.assoc Let_def)
qed (simp add: strcmp_loop.simps)

lemma strcmp_cstr: "cstr m a s \<Longrightarrow> cstr m b t \<Longrightarrow> strcmp m a b = Some (lex_cmp s t)"
  using strcmp_loop_cstr [of m a 0 s b t] by (simp add: strcmp_def)

lemma strncmp_loop_cstr:
  assumes "cstr m (a + i) s" "cstr m (b + i) t"
  shows "(case for_ret i n (\<lambda>i. if m (a + i) < m (b + i) then Some (- 1)
         else if m (a + i) > m (b + i) then Some 1
         else if m (a + i) = 0 \<and> m (b + i) = 0 then Some 0 else None) of Some r \<Rightarrow> r | None \<Rightarrow> 0)
    = lex_cmp (take (unat n - unat i) s) (take (unat n - unat i) t)"
  using assms
proof (induction s t arbitrary: i rule: lex_cmp.induct)
  case 1
  then show ?case by (simp add: for_ret.simps [of i])
next
  case (2 y ys)
  then have "i < n \<Longrightarrow> unat n - unat i = Suc (unat n - unat (i + 1))" "0 < m (b + i)"
    by (auto simp: unat_Suc_less word_less_nat_alt unat_gt_0)
  then show ?case
    using 2 by (cases "i < n") (auto simp: for_ret.simps [of i] not_less word_le_nat_alt)
next
  case (3 x xs)
  then have "i < n \<Longrightarrow> unat n - unat i = Suc (unat n - unat (i + 1))" "0 < m (a + i)"
    by (auto simp: unat_Suc_less word_less_nat_alt unat_gt_0)
  then show ?case
    using 3 by (cases "i < n") (auto simp: for_ret.simps [of i] not_less word_le_nat_alt)
next
  case (4 x xs y ys)
  show ?case
  proof (cases "i < n")
    case True
    then have n: "unat n - unat i = Suc (unat n - unat (i + 1))"
      by (simp add: unat_Suc_less word_less_nat_alt)
    show ?thesis
      using 4 True unfolding n by (simp add: for_ret.simps [of i] add.assoc)
  next
    case False
    then show ?thesis by (simp add: for_ret.simps [of i] word_less_nat_alt)
  qed
qed

lemma strncmp_cstr:
  "cstr m a s \<Longrightarrow> cstr m b t \<Longrightarrow>
   strncmp m a b n = lex_cmp (take (unat n) s) (take (unat n) t)"
  using strncmp_loop_cstr [of m a 0 s b t n] by (simp add: strncmp_def)

lemma memcmp_loop_eq:
  "(case for_ret i n (\<lambda>i. if m (p + i) < m (q + i) then Some (- 1)
         else if m (p + i) > m (q + i) then Some 1 else None) of Some r \<Rightarrow> r | None \<Rightarrow> 0)
    = lex_cmp (mem_read m (p + i) (unat n - unat i)) (mem_read m (q + i) (unat n - unat i))"
proof (induction "unat n - unat i" arbitrary: i)
  case 0
  then show ?case by (simp add: for_ret.simps [of i] word_less_nat_alt)
next
  case (Suc k)
  then have lt: "i < n" by (simp add: word_less_nat_alt)
  then have n: "unat n - unat i = Suc (unat n - unat (i + 1))"
    by (simp add: unat_Suc_less word_less_nat_alt)
  show ?case
    using lt Suc n Suc.hyps(1) [of "i + 1"]
    by (simp add: for_ret.simps [of i] mem_read_Cons add.assoc)
qed

lemma memcmp_eq: "memcmp m p q n = lex_cmp (mem_read m p (unat n)) (mem_read m q (unat n))"
  using memcmp_loop_eq [of 0 n m p q] by (simp add: memcmp_def)

section \<open>Tokens\<close>

lemma strtok_step:
  assumes sep: "cstr m q [c]" and str: "str = (if p = 0 then next else p)" "str \<noteq> 0"
    and s: "cstr m str s"
  defines "k \<equiv> length (takeWhile (\<lambda>x. x = c) s)" and "s' \<equiv> dropWhile (\<lambda>x. x = c) s"
  defines "n \<equiv> length (takeWhile (\<lambda>x. x \<noteq> c) s')"
  shows "strtok m next p q =
    (if s' = [] then Some (0, m, next)
     else if n = length s' then Some (str + of_nat k, m, 0)
     else Some (str + of_nat k, m(str + of_nat k + of_nat n := 0), str + of_nat k + of_nat n + 1))"
proof -
  have span: "strspn m str q = Some (of_nat k)"
    using strspn_cstr [OF s sep] by (simp add: k_def)
  have "s' = drop k s" by (simp add: s'_def k_def dropWhile_eq_drop)
  moreover have "k \<le> length s" by (simp add: k_def length_takeWhile_le)
  ultimately have s': "cstr m (str + of_nat k) s'" using cstr_drop [OF s] by simp
  then have cspan: "strcspn m (str + of_nat k) q = Some (of_nat n)"
    using strcspn_cstr [OF s' sep] by (simp add: n_def)
  have "n \<le> length s'" by (simp add: n_def length_takeWhile_le)
  then have at_end: "m (str + of_nat k + of_nat n) = 0 \<longleftrightarrow> n = length s'"
    using cstr_end [OF s'] cstr_nonzero [OF s', of n] by (auto simp: le_less)
  have at_begin: "m (str + of_nat k) = 0 \<longleftrightarrow> s' = []"
    using s' by (cases s') auto
  show ?thesis
    using str span cspan at_end at_begin by (simp add: strtok_def Let_def)
qed

section \<open>Properties\<close>

text \<open>
  C36: \<open>memmove\<close> copies \<open>size\<close> bytes correctly however source and destination overlap (blocks
  that do not wrap around the address space), and changes no byte outside the destination.
\<close>

theorem memmove_copies:
  assumes "unat dest + unat n \<le> 2 ^ 32" "unat src + unat n \<le> 2 ^ 32"
  shows "mem_read (memmove m dest src n) dest (unat n) = mem_read m src (unat n)
    \<and> (\<forall>a. unat n \<le> unat (a - dest) \<longrightarrow> memmove m dest src n a = m a)"
proof -
  have "mem_read (mem_write m dest (mem_read m src (unat n))) dest (length (mem_read m src (unat n)))
      = mem_read m src (unat n)"
    by (rule mem_read_write) (simp add: less_imp_le)
  then show ?thesis using memmove_block [OF assms] by (simp add: mem_write_other)
qed

text \<open>The overlapping copy of \<open>abcd\<close> one byte up, the case a plain ascending copy gets wrong.\<close>

theorem memmove_copies_witness:
  "mem_read (memmove ((\<lambda>_. 0)(100 := 97, 101 := 98, 102 := 99, 103 := 100)) 101 100 4) 101 4
     = [97, 98, 99, 100]"
proof -
  have "unat (101 :: addr) + unat (4 :: addr) \<le> 2 ^ 32" "unat (100 :: addr) + unat (4 :: addr) \<le> 2 ^ 32"
    by simp_all
  from memmove_copies [OF this, of "(\<lambda>_. 0)(100 := 97, 101 := 98, 102 := 99, 103 := 100)"]
  show ?thesis by (simp add: mem_read_def upt_rec)
qed

text \<open>
  after \<open>strcpy\<close> of a C string to a block disjoint from it, the destination holds the same
  string (\<open>strlen\<close> and \<open>strcmp\<close> agree with the source), the result is the destination pointer
  and no byte outside the copied string and its terminator changes.
\<close>

theorem strcpy_copies:
  assumes "cstr m src s" "disjoint_blocks dest src (Suc (length s))"
  obtains m' where "strcpy m dest src = Some (dest, m')" "cstr m' dest s"
    "strlen m' dest = strlen m src" "strcmp m' dest src = Some 0"
    "\<forall>a. length s < unat (a - dest) \<longrightarrow> m' a = m a"
proof -
  let ?m = "mem_write m dest (s @ [0])"
  have s: "0 \<notin> set s" "length s < 2 ^ 32"
    using assms(1) cstr_length by (auto simp: cstr_iff)
  have dest: "cstr ?m dest s" by (rule cstr_write [OF s])
  have "length (s @ [0::byte]) \<le> unat (src + of_nat i - dest)" if "i \<le> length s" for i
  proof (rule ccontr)
    assume "\<not> ?thesis"
    then have "unat (src + of_nat i - dest) < Suc (length s)" by simp
    then have "dest + of_nat (unat (src + of_nat i - dest)) \<noteq> src + of_nat i"
      using assms(2) that unfolding disjoint_blocks_def by (meson le_imp_less_Suc)
    then show False by simp
  qed
  then have src: "cstr ?m src s"
    using assms(1) by (auto intro: cstr_cong [of m] simp: mem_write_other)
  show thesis
  proof
    show "strcpy m dest src = Some (dest, ?m)" by (rule strcpy_block [OF assms])
    show "cstr ?m dest s" by (rule dest)
    show "strlen ?m dest = strlen m src" using strlen_cstr dest assms(1) by metis
    show "strcmp ?m dest src = Some 0" using strcmp_cstr [OF dest src] by simp
    show "\<forall>a. length s < unat (a - dest) \<longrightarrow> ?m a = m a" by (simp add: mem_write_other)
  qed
qed

theorem strcpy_copies_witness:
  "\<exists>m'. strcpy ((\<lambda>_. 0)(100 := 97, 101 := 98)) 200 100 = Some (200, m') \<and> cstr m' 200 [97, 98]"
proof -
  have "cstr ((\<lambda>_. 0)(100 := 97, 101 := 98)) 100 [97, 98]" by simp
  moreover have "disjoint_blocks 200 100 (Suc (length [97, 98 :: byte]))"
    by (auto simp: disjoint_blocks_def less_Suc_eq)
  ultimately show ?thesis by (rule strcpy_copies) blast
qed

text \<open>
  \<open>strcmp\<close> and \<open>strncmp\<close> decide the lexicographic order of unsigned bytes: on any two C
  strings \<open>strcmp\<close> returns \<open>0\<close> exactly when they are equal, \<open>-1\<close> exactly when the first precedes
  the second, and swapping the arguments negates the result; \<open>strncmp\<close> is the same comparison
  on the prefixes of the given length.
\<close>

theorem strcmp_orders:
  assumes "cstr m a s" "cstr m b t"
  obtains r where "strcmp m a b = Some r" "strcmp m b a = Some (- r)" "r \<in> {- 1, 0, 1}"
    "r = 0 \<longleftrightarrow> s = t" "r = - 1 \<longleftrightarrow> (s, t) \<in> lexord {(x, y). x < y}"
    "strncmp m a b n = lex_cmp (take (unat n) s) (take (unat n) t)"
proof
  show "strcmp m a b = Some (lex_cmp s t)" by (rule strcmp_cstr [OF assms])
  show "strcmp m b a = Some (- lex_cmp s t)"
    using strcmp_cstr [OF assms(2,1)] lex_cmp_swap [of t s] by simp
  show "lex_cmp s t \<in> {- 1, 0, 1}"
    by (induction s t rule: lex_cmp.induct) auto
  show "lex_cmp s t = 0 \<longleftrightarrow> s = t" by simp
  show "lex_cmp s t = - 1 \<longleftrightarrow> (s, t) \<in> lexord {(x, y). x < y}" by (rule lex_cmp_less_iff)
  show "strncmp m a b n = lex_cmp (take (unat n) s) (take (unat n) t)"
    by (rule strncmp_cstr [OF assms])
qed

theorem strcmp_orders_witness:
  "\<exists>r. strcmp ((\<lambda>_. 0)(100 := 97, 200 := 200)) 100 200 = Some r
     \<and> strcmp ((\<lambda>_. 0)(100 := 97, 200 := 200)) 200 100 = Some (- r)"
proof -
  have "cstr ((\<lambda>_. 0)(100 := 97, 200 := 200)) 100 [97]"
    "cstr ((\<lambda>_. 0)(100 := 97, 200 := 200)) 200 [200]" by simp_all
  then show ?thesis by (rule strcmp_orders [where n = 1]) blast
qed

text \<open>
  \<open>strchr\<close> returns the first and \<open>strrchr\<close> the last position of a character in a C string
  (the terminator included), and both return \<open>NULL\<close> when it does not occur.
\<close>

theorem strchr_strrchr:
  assumes "cstr m p s" "i \<le> length s" "k \<le> length s"
    and "(s @ [0]) ! i = word_of_int c" "\<forall>j < i. (s @ [0]) ! j \<noteq> word_of_int c"
    and "(s @ [0]) ! k = word_of_int c" "\<forall>j \<in> {k<..length s}. (s @ [0]) ! j \<noteq> word_of_int c"
    and "word_of_int d \<notin> set (s @ [0])"
  shows "strchr m p c = Some (p + of_nat i) \<and> strrchr m p c = Some (p + of_nat k)
    \<and> strchr m p d = Some 0 \<and> strrchr m p d = Some 0"
  using assms strchr_first [OF assms(1,2,4)] strrchr_last [OF assms(1,3,6)]
  by (simp add: strchr_absent strrchr_absent)

theorem strchr_strrchr_witness:
  "strchr ((\<lambda>_. 0)(100 := 47, 101 := 98, 102 := 47)) 100 47 = Some (100 + of_nat 0)
   \<and> strrchr ((\<lambda>_. 0)(100 := 47, 101 := 98, 102 := 47)) 100 47 = Some (100 + of_nat 2)
   \<and> strchr ((\<lambda>_. 0)(100 := 47, 101 := 98, 102 := 47)) 100 99 = Some 0
   \<and> strrchr ((\<lambda>_. 0)(100 := 47, 101 := 98, 102 := 47)) 100 99 = Some 0"
proof (rule strchr_strrchr)
  show "cstr ((\<lambda>_. 0)(100 := 47, 101 := 98, 102 := 47)) 100 [47, 98, 47]" by simp
  show "\<forall>j \<in> {2<..length [47, 98, 47 :: byte]}. ([47, 98, 47] @ [0 :: byte]) ! j \<noteq> word_of_int 47"
  proof
    fix j
    assume "j \<in> {2<..length [47, 98, 47 :: byte]}"
    then have "j = 3" by auto
    then show "([47, 98, 47] @ [0 :: byte]) ! j \<noteq> word_of_int 47" by simp
  qed
qed simp_all

text \<open>
  \<open>strcspn\<close> measures the initial segment without characters of the set, for every string
  and set.  \<open>strspn\<close> measures the initial segment of characters equal to every character of the
  set: right for a set of one character, \<open>0\<close> as soon as the set has two different ones, and
  for the empty set it does not return.
\<close>

theorem strspn_strcspn:
  assumes "cstr m p s" "cstr m q cs"
  shows "strcspn m p q = Some (of_nat (length (takeWhile (\<lambda>x. x \<notin> set cs) s)))
    \<and> (cs = [c] \<longrightarrow> strspn m p q = Some (of_nat (length (takeWhile (\<lambda>x. x \<in> set cs) s))))
    \<and> (c \<in> set cs \<and> d \<in> set cs \<and> c \<noteq> d \<longrightarrow> strspn m p q = Some 0)
    \<and> (cs = [] \<longrightarrow> strspn m p q = None)"
proof -
  have "takeWhile (\<lambda>x. \<forall>y \<in> set cs. x = y) s = []" if "c \<in> set cs" "d \<in> set cs" "c \<noteq> d"
    using that by (cases s) (simp_all, metis)
  moreover have "cs \<noteq> []" if "c \<in> set cs" using that by auto
  ultimately show ?thesis
    using strcspn_cstr [OF assms] strspn_cstr [OF assms] assms(2)
    by (auto simp: strspn_def strspn_loop_diverges)
qed

theorem strspn_strcspn_witness:
  "strcspn ((\<lambda>_. 0)(100 := 97, 101 := 58, 200 := 58)) 100 200 = Some 1
   \<and> strspn ((\<lambda>_. 0)(100 := 97, 101 := 58, 200 := 58)) 101 200 = Some 1"
proof -
  let ?m = "(\<lambda>_. 0)(100 := 97, 101 := 58, 200 := 58) :: mem"
  have "cstr ?m 100 [97, 58]" "cstr ?m 101 [58]" "cstr ?m 200 [58]" by simp_all
  from strspn_strcspn [OF this(1,3), of 58] strspn_strcspn [OF this(2,3), of 58] show ?thesis
    by simp
qed

end
