(* ===== verification/Libc_Errno.thy ===== *)
theory Libc_Errno
  imports Main
begin

text \<open>
  The error codes of \<open>kernel/include/inwox/errno.h\<close> with the values the header gives them, and
  \<open>strerror\<close> of \<open>libc/src/string/strerror.c\<close>.  \<open>errno\<close> is an \<open>int\<close>, as in the source; the
  operations of the other theories set it to one of these constants.
\<close>

named_theorems errno_defs \<open>values of the error codes\<close>

definition E2BIG :: int where [errno_defs]: "E2BIG = 1"
definition EACCES :: int where [errno_defs]: "EACCES = 2"
definition EADDRINUSE :: int where [errno_defs]: "EADDRINUSE = 3"
definition EADDRNOTAVAIL :: int where [errno_defs]: "EADDRNOTAVAIL = 4"
definition EAFNOSUPPORT :: int where [errno_defs]: "EAFNOSUPPORT = 5"
definition EAGAIN :: int where [errno_defs]: "EAGAIN = 6"
definition EALREADY :: int where [errno_defs]: "EALREADY = 7"
definition EBADF :: int where [errno_defs]: "EBADF = 8"
definition EBADMSG :: int where [errno_defs]: "EBADMSG = 9"
definition EBUSY :: int where [errno_defs]: "EBUSY = 10"
definition ECANCELED :: int where [errno_defs]: "ECANCELED = 11"
definition ECHILD :: int where [errno_defs]: "ECHILD = 12"
definition ECONNABORTED :: int where [errno_defs]: "ECONNABORTED = 13"
definition ECONNREFUSED :: int where [errno_defs]: "ECONNREFUSED = 14"
definition ECONNRESET :: int where [errno_defs]: "ECONNRESET = 15"
definition EDEADLK :: int where [errno_defs]: "EDEADLK = 16"
definition EDESTADDRREQ :: int where [errno_defs]: "EDESTADDRREQ = 17"
definition EDOM :: int where [errno_defs]: "EDOM = 18"
definition EDQUOT :: int where [errno_defs]: "EDQUOT = 19"
definition EEXIST :: int where [errno_defs]: "EEXIST = 20"
definition EFAULT :: int where [errno_defs]: "EFAULT = 21"
definition EFBIG :: int where [errno_defs]: "EFBIG = 22"
definition EHOSTUNREACH :: int where [errno_defs]: "EHOSTUNREACH = 23"
definition EIDRM :: int where [errno_defs]: "EIDRM = 24"
definition EILSEQ :: int where [errno_defs]: "EILSEQ = 25"
definition EINPROGRESS :: int where [errno_defs]: "EINPROGRESS = 26"
definition EINTR :: int where [errno_defs]: "EINTR = 27"
definition EINVAL :: int where [errno_defs]: "EINVAL = 28"
definition EIO :: int where [errno_defs]: "EIO = 29"
definition EISCONN :: int where [errno_defs]: "EISCONN = 30"
definition EISDIR :: int where [errno_defs]: "EISDIR = 31"
definition ELOOP :: int where [errno_defs]: "ELOOP = 32"
definition EMFILE :: int where [errno_defs]: "EMFILE = 33"
definition EMLINK :: int where [errno_defs]: "EMLINK = 34"
definition EMSGSIZE :: int where [errno_defs]: "EMSGSIZE = 35"
definition EMULTIHOP :: int where [errno_defs]: "EMULTIHOP = 36"
definition ENAMETOOLONG :: int where [errno_defs]: "ENAMETOOLONG = 37"
definition ENETDOWN :: int where [errno_defs]: "ENETDOWN = 38"
definition ENETRESET :: int where [errno_defs]: "ENETRESET = 39"
definition ENETUNREACH :: int where [errno_defs]: "ENETUNREACH = 40"
definition ENFILE :: int where [errno_defs]: "ENFILE = 41"
definition ENOBUFS :: int where [errno_defs]: "ENOBUFS = 42"
definition ENODEV :: int where [errno_defs]: "ENODEV = 43"
definition ENOENT :: int where [errno_defs]: "ENOENT = 44"
definition ENOEXEC :: int where [errno_defs]: "ENOEXEC = 45"
definition ENOLCK :: int where [errno_defs]: "ENOLCK = 46"
definition ENOLINK :: int where [errno_defs]: "ENOLINK = 47"
definition ENOMEM :: int where [errno_defs]: "ENOMEM = 48"
definition ENOMSG :: int where [errno_defs]: "ENOMSG = 49"
definition ENOPROTOOPT :: int where [errno_defs]: "ENOPROTOOPT = 50"
definition ENOSPC :: int where [errno_defs]: "ENOSPC = 51"
definition ENOSYS :: int where [errno_defs]: "ENOSYS = 52"
definition ENOTCONN :: int where [errno_defs]: "ENOTCONN = 53"
definition ENOTDIR :: int where [errno_defs]: "ENOTDIR = 54"
definition ENOTEMPTY :: int where [errno_defs]: "ENOTEMPTY = 55"
definition ENOTRECOVERABLE :: int where [errno_defs]: "ENOTRECOVERABLE = 56"
definition ENOTSOCK :: int where [errno_defs]: "ENOTSOCK = 57"
definition ENOTSUP :: int where [errno_defs]: "ENOTSUP = 58"
definition ENOTTY :: int where [errno_defs]: "ENOTTY = 59"
definition ENXIO :: int where [errno_defs]: "ENXIO = 60"
definition EOPNOTSUPP :: int where [errno_defs]: "EOPNOTSUPP = 61"
definition EOVERFLOW :: int where [errno_defs]: "EOVERFLOW = 62"
definition EOWNERDEAD :: int where [errno_defs]: "EOWNERDEAD = 63"
definition EPERM :: int where [errno_defs]: "EPERM = 64"
definition EPIPE :: int where [errno_defs]: "EPIPE = 65"
definition EPROTO :: int where [errno_defs]: "EPROTO = 66"
definition EPROTONOSUPPORT :: int where [errno_defs]: "EPROTONOSUPPORT = 67"
definition EPROTOTYPE :: int where [errno_defs]: "EPROTOTYPE = 68"
definition ERANGE :: int where [errno_defs]: "ERANGE = 69"
definition EROFS :: int where [errno_defs]: "EROFS = 70"
definition ESPIPE :: int where [errno_defs]: "ESPIPE = 71"
definition ESRCH :: int where [errno_defs]: "ESRCH = 72"
definition ESTALE :: int where [errno_defs]: "ESTALE = 73"
definition ETIMEDOUT :: int where [errno_defs]: "ETIMEDOUT = 74"
definition ETXTBSY :: int where [errno_defs]: "ETXTBSY = 75"
definition EWOULDBLOCK :: int where [errno_defs]: "EWOULDBLOCK = 76"
definition EXDEV :: int where [errno_defs]: "EXDEV = 77"

text \<open>The cases of the \<open>switch\<close> in \<open>strerror\<close>, in the order of the source.\<close>

definition strerror_cases1 :: "(int \<times> string) list" where
  "strerror_cases1 = [
     (E2BIG, ''Argument list too long''),
     (EACCES, ''Permission denied''),
     (EADDRINUSE, ''Address already in use''),
     (EADDRNOTAVAIL, ''Address not available''),
     (EAFNOSUPPORT, ''Address family not supported''),
     (EAGAIN, ''Resource temporarily unavailable''),
     (EALREADY, ''Connection already in progress''),
     (EBADF, ''Bad file descriptor''),
     (EBADMSG, ''Bad message''),
     (EBUSY, ''Device or resource busy''),
     (ECANCELED, ''Operation canceled''),
     (ECHILD, ''No child processes''),
     (ECONNABORTED, ''Connection aborted''),
     (ECONNREFUSED, ''Connection refused''),
     (ECONNRESET, ''Connection reset''),
     (EDEADLK, ''Resource deadlock avoided''),
     (EDESTADDRREQ, ''Destination address required''),
     (EDOM, ''Mathematics argument out of domain of function''),
     (EDQUOT, ''Disk quota exceeded''),
     (EEXIST, ''File exists''),
     (EFAULT, ''Bad address''),
     (EFBIG, ''File too large''),
     (EHOSTUNREACH, ''Host is unreachable''),
     (EIDRM, ''Identifier removed''),
     (EILSEQ, ''Invalid or incomplete multibyte or wide character''),
     (EINPROGRESS, ''Operation in progress''),
     (EINTR, ''Interrupted function call''),
     (EINVAL, ''Invalid argument''),
     (EIO, ''Input/output error''),
     (EISCONN, ''Socket is connected'')]"

definition strerror_cases2 :: "(int \<times> string) list" where
  "strerror_cases2 = [
     (EISDIR, ''Is a directory''),
     (ELOOP, ''Too many levels of symbolic links''),
     (EMFILE, ''Too many open files''),
     (EMLINK, ''Too many links''),
     (EMSGSIZE, ''Message too long''),
     (EMULTIHOP, ''Multihop attempted''),
     (ENAMETOOLONG, ''Filename too long''),
     (ENETDOWN, ''Network is down''),
     (ENETRESET, ''Connection aborted by network''),
     (ENETUNREACH, ''Network unreachable''),
     (ENFILE, ''Too many open files in system''),
     (ENOBUFS, ''No buffer space available''),
     (ENODEV, ''No such device''),
     (ENOENT, ''No such file or directory''),
     (ENOEXEC, ''Exec format error''),
     (ENOLCK, ''No locks available''),
     (ENOLINK, ''Link has been severed''),
     (ENOMEM, ''Not enough space/cannot allocate memory''),
     (ENOMSG, ''No message of the desired type''),
     (ENOPROTOOPT, ''Protocol not available''),
     (ENOSPC, ''No space left on device''),
     (ENOSYS, ''Function not implemented''),
     (ENOTCONN, ''The socket is not connected''),
     (ENOTDIR, ''Not a directory''),
     (ENOTEMPTY, ''Directory not empty''),
     (ENOTRECOVERABLE, ''State not recoverable''),
     (ENOTSOCK, ''Not a socket''),
     (ENOTSUP, ''Operation not supported''),
     (ENOTTY, ''Inappropriate I/O control operation''),
     (ENXIO, ''No such device or address'')]"

definition strerror_cases3 :: "(int \<times> string) list" where
  "strerror_cases3 = [
     (EOPNOTSUPP, ''Operation not supported on socket''),
     (EOVERFLOW, ''Value too large to be stored in data type''),
     (EOWNERDEAD, ''Owner died''),
     (EPERM, ''Operation not permitted''),
     (EPIPE, ''Broken pipe''),
     (EPROTO, ''Protocol error''),
     (EPROTONOSUPPORT, ''Protocol not supported''),
     (EPROTOTYPE, ''Protocol wrong type for socket''),
     (ERANGE, ''Result too large''),
     (EROFS, ''Read-only filesystem''),
     (ESPIPE, ''Invalid seek''),
     (ESRCH, ''No such process''),
     (ESTALE, ''Stale file handle''),
     (ETIMEDOUT, ''Connection timed out''),
     (ETXTBSY, ''Text file busy''),
     (EWOULDBLOCK, ''Operation would block''),
     (EXDEV, ''Improper link'')]"

definition strerror_table :: "(int \<times> string) list" where
  "strerror_table = strerror_cases1 @ strerror_cases2 @ strerror_cases3"

definition strerror :: "int \<Rightarrow> string" where
  "strerror errno =
     (if errno = 0 then ''Success''
      else case map_of strerror_table errno of Some error \<Rightarrow> error | None \<Rightarrow> ''Unknown error'')"

lemmas strerror_unfold =
  strerror_def strerror_table_def strerror_cases1_def strerror_cases2_def strerror_cases3_def

lemma strerror_table_keys: "map fst strerror_table = map int [1..<78]"
  by (simp add: strerror_unfold errno_defs upt_rec)

lemma strerror_table_messages:
  "distinct (''Success'' # ''Unknown error'' # map snd strerror_table)"
  by (simp add: strerror_unfold)

lemma strerror_known:
  assumes "e \<in> {1..77}"
  shows "(e, strerror e) \<in> set strerror_table"
proof -
  have "e \<in> set (map int [1..<78])"
    using assms by (auto simp: image_iff intro!: bexI [of _ "nat e"])
  then have "e \<in> set (map fst strerror_table)" by (simp only: strerror_table_keys)
  then obtain s where "map_of strerror_table e = Some s"
    by (metis domD dom_map_of_conv_image_fst set_map)
  then show ?thesis using assms by (auto simp: strerror_def dest: map_of_SomeD)
qed

text \<open>
  \<open>strerror\<close> distinguishes all the error codes of the system: each of the 77 codes has a
  message of its own, none of them is the message of code 0 or the fallback, and any other
  number gives \<open>Unknown error\<close>.
\<close>

theorem strerror_injective:
  "inj_on strerror {0..77} \<and> (\<forall>e \<in> {1..77}. strerror e \<noteq> ''Success'' \<and> strerror e \<noteq> ''Unknown error'')
   \<and> (\<forall>e. e \<notin> {0..77} \<longrightarrow> strerror e = ''Unknown error'')"
proof -
  have msg: "strerror e \<in> set (map snd strerror_table)" if "e \<in> {1..77}" for e
    using strerror_known [OF that] by force
  have zero: "strerror 0 = ''Success''" by (simp add: strerror_def)
  have "e = f" if "e \<in> {1..77}" "f \<in> {1..77}" "strerror e = strerror f" for e f
    using strerror_known that strerror_table_messages
    by (metis distinct.simps(2) distinct_map inj_onD snd_conv prod.inject)
  moreover have "e \<in> {1..77}" if "e \<in> {0..77}" "e \<noteq> 0" for e :: int using that by simp
  ultimately have "inj_on strerror {0..77}"
    using msg zero strerror_table_messages unfolding inj_on_def by (metis distinct.simps(2) list.set_intros(2))
  moreover have "strerror e = ''Unknown error''" if "e \<notin> {0..77}" for e
  proof -
    have "e \<notin> set (map fst strerror_table)" using that by (auto simp: strerror_table_keys)
    then have "map_of strerror_table e = None" by (simp add: map_of_eq_None_iff)
    then show ?thesis using that by (auto simp: strerror_def)
  qed
  ultimately show ?thesis using msg strerror_table_messages by (metis distinct.simps(2) list.set_intros(2))
qed

theorem strerror_injective_witness: "strerror 28 \<noteq> strerror 48"
  using strerror_injective by (auto dest: inj_onD)

end
