(* ===== verification/Libc_Strtol.thy ===== *)
theory Libc_Strtol
  imports Libc_String Libc_Errno
begin

text \<open>
  \<open>strtol\<close> and \<open>strtoul\<close>: \<open>libc/src/stdlib/strtol.c\<close> is compiled twice, with the macros
  \<open>STRTOL_RESULT_MAX\<close>, \<open>STRTOL_RESULT_MIN\<close> and \<open>STRTOL_UNSIGNED\<close> as parameters; here they are the
  fields of a record and both functions are instances of \<open>STRTOL_NAME\<close>.  The argument string is
  the list of its bytes before the terminator, a pointer into it the suffix it points to.
  Arithmetic in the result type wraps around at 32 bits.
\<close>

record strtol_type =
  STRTOL_RESULT_MAX :: int
  STRTOL_RESULT_MIN :: int
  STRTOL_UNSIGNED :: bool

definition wrap_result :: "strtol_type \<Rightarrow> int \<Rightarrow> int" where
  "wrap_result t x = (if STRTOL_UNSIGNED t then x mod 2 ^ 32 else (x + 2 ^ 31) mod 2 ^ 32 - 2 ^ 31)"

definition getDigitValue :: "strtol_type \<Rightarrow> byte \<Rightarrow> int" where
  "getDigitValue t c =
     (if 48 \<le> c \<and> c \<le> 57 then uint c - 48
      else if 97 \<le> c \<and> c \<le> 122 then 10 + uint c - 97
      else if 65 \<le> c \<and> c \<le> 90 then 10 + uint c - 65
      else STRTOL_RESULT_MAX t)"

fun skip_spaces :: "byte list \<Rightarrow> byte list" where
  "skip_spaces [] = []"
| "skip_spaces (c # str) = (if isspace (sint c) then skip_spaces str else c # str)"

text \<open>
  The digit loop.  The terminator is not a digit (\<open>getDigitValue\<close> gives the maximum), so the
  loop ends there at the latest.  The result is \<open>result\<close>, \<open>overflow\<close>, \<open>numberFound\<close> and \<open>str\<close>.
\<close>

fun strtol_digits ::
  "strtol_type \<Rightarrow> int \<Rightarrow> bool \<Rightarrow> byte list \<Rightarrow> int \<Rightarrow> bool \<Rightarrow> bool \<Rightarrow> int \<times> bool \<times> bool \<times> byte list"
where
  "strtol_digits t base negative [] result overflow numberFound = (result, overflow, numberFound, [])"
| "strtol_digits t base negative (c # str) result overflow numberFound =
     (let digit = getDigitValue t c in
      if digit \<ge> wrap_result t base then (result, overflow, numberFound, c # str)
      else
        let product = result * base;
            result = wrap_result t product;
            overflow = (overflow \<or> result \<noteq> product)
        in if \<not> negative \<and> wrap_result t (STRTOL_RESULT_MAX t - result) \<ge> digit
           then strtol_digits t base negative str (wrap_result t (result + digit)) overflow True
           else if negative \<and> wrap_result t (result - STRTOL_RESULT_MIN t) \<ge> digit
           then strtol_digits t base negative str (wrap_result t (result - digit)) overflow True
           else strtol_digits t base negative str result True True)"

text \<open>The result, the value stored through \<open>end\<close> (if any) and the error code set (if any).\<close>

definition STRTOL_NAME ::
  "strtol_type \<Rightarrow> byte list \<Rightarrow> int \<Rightarrow> int \<times> byte list option \<times> int option" where
  "STRTOL_NAME t string base =
     (if base < 0 \<or> base = 1 \<or> base > 36 then (0, None, Some EINVAL)
      else
        let str = skip_spaces string;
            minus = (peek str = 45);
            str = (if peek str = 43 \<or> peek str = 45 then tl str else str);
            negative = (minus \<and> \<not> STRTOL_UNSIGNED t);
            base = (if base = 0
                    then if peek str = 48
                         then if peek (tl str) = 120 \<or> peek (tl str) = 88 then 16 else 8
                         else 10
                    else base);
            str = (if base = 16 \<and> peek str = 48 \<and> (peek (tl str) = 120 \<or> peek (tl str) = 88)
                   then tl (tl str) else str);
            (result, overflow, numberFound, str) = strtol_digits t base negative str 0 False False
        in (if overflow
            then if STRTOL_UNSIGNED t \<or> \<not> negative then STRTOL_RESULT_MAX t else STRTOL_RESULT_MIN t
            else if minus \<and> STRTOL_UNSIGNED t then wrap_result t (- result) else result,
            Some (if numberFound then str else string),
            if overflow then Some ERANGE else None))"

definition strtol_long :: strtol_type where
  "strtol_long = \<lparr>STRTOL_RESULT_MAX = 2 ^ 31 - 1, STRTOL_RESULT_MIN = - (2 ^ 31), STRTOL_UNSIGNED = False\<rparr>"

definition strtol_ulong :: strtol_type where
  "strtol_ulong = \<lparr>STRTOL_RESULT_MAX = 2 ^ 32 - 1, STRTOL_RESULT_MIN = 0, STRTOL_UNSIGNED = True\<rparr>"

definition strtol :: "byte list \<Rightarrow> int \<Rightarrow> int \<times> byte list option \<times> int option" where
  "strtol = STRTOL_NAME strtol_long"

definition strtoul :: "byte list \<Rightarrow> int \<Rightarrow> int \<times> byte list option \<times> int option" where
  "strtoul = STRTOL_NAME strtol_ulong"

section \<open>The digit loop\<close>


text \<open>The two instances, and what the proofs use of them.\<close>

definition strtol_instance :: "strtol_type \<Rightarrow> bool" where
  "strtol_instance t \<longleftrightarrow> t = strtol_long \<or> t = strtol_ulong"

lemma strtol_instance_bounds:
  assumes "strtol_instance t"
  shows "2 ^ 31 - 1 \<le> STRTOL_RESULT_MAX t" "STRTOL_RESULT_MIN t \<le> 0"
  using assms by (auto simp: strtol_instance_def strtol_long_def strtol_ulong_def)

lemma wrap_result_id:
  "strtol_instance t \<Longrightarrow> STRTOL_RESULT_MIN t \<le> x \<Longrightarrow> x \<le> STRTOL_RESULT_MAX t \<Longrightarrow> wrap_result t x = x"
  by (auto simp: strtol_instance_def strtol_long_def strtol_ulong_def wrap_result_def)

lemma wrap_result_range:
  "strtol_instance t \<Longrightarrow> STRTOL_RESULT_MIN t \<le> wrap_result t x \<and> wrap_result t x \<le> STRTOL_RESULT_MAX t"
  by (auto simp: strtol_instance_def strtol_long_def strtol_ulong_def wrap_result_def)

text \<open>The value of a string of digits, most significant first.\<close>

definition digits_value :: "strtol_type \<Rightarrow> int \<Rightarrow> int \<Rightarrow> byte list \<Rightarrow> int" where
  "digits_value t base v ds = foldl (\<lambda>v c. v * base + getDigitValue t c) v ds"

lemma digits_value_simps [simp]:
  "digits_value t base v [] = v"
  "digits_value t base v (c # ds) = digits_value t base (v * base + getDigitValue t c) ds"
  by (simp_all add: digits_value_def)

definition is_digits :: "strtol_type \<Rightarrow> int \<Rightarrow> byte list \<Rightarrow> bool" where
  "is_digits t base ds \<longleftrightarrow> (\<forall>c \<in> set ds. getDigitValue t c < base)"

lemma getDigitValue_nonneg: "strtol_instance t \<Longrightarrow> 0 \<le> getDigitValue t c"
  using strtol_instance_bounds [of t]
  by (auto simp: getDigitValue_def word_le_def)

lemma digits_value_mono:
  assumes "strtol_instance t" "1 \<le> base"
  shows "0 \<le> v \<Longrightarrow> v \<le> digits_value t base v ds"
proof (induction ds arbitrary: v)
  case (Cons c ds)
  have "v * 1 \<le> v * base" using Cons.prems assms(2) by (intro mult_left_mono) simp_all
  then have "v \<le> v * base + getDigitValue t c"
    using getDigitValue_nonneg [OF assms(1), of c] by simp
  then show ?case using Cons.IH [of "v * base + getDigitValue t c"] Cons.prems by simp
qed simp

text \<open>
  Without a minus sign the loop computes the exact value as long as it fits, and reports
  overflow exactly when it does not.
\<close>

lemma strtol_digits_nonneg:
  assumes t: "strtol_instance t" and base: "2 \<le> base" "base \<le> 36"
    and stop: "\<not> getDigitValue t (peek rest) < base"
  shows "is_digits t base ds \<Longrightarrow> 0 \<le> v \<Longrightarrow> overflow = (STRTOL_RESULT_MAX t < v) \<Longrightarrow>
    (\<not> overflow \<Longrightarrow> result = v) \<Longrightarrow>
    \<exists>r. strtol_digits t base False (ds @ rest) result overflow found =
        (r, STRTOL_RESULT_MAX t < digits_value t base v ds, found \<or> ds \<noteq> [], rest)
      \<and> (digits_value t base v ds \<le> STRTOL_RESULT_MAX t \<longrightarrow> r = digits_value t base v ds)"
proof (induction ds arbitrary: v result overflow found)
  case Nil
  have "wrap_result t base = base"
    using base strtol_instance_bounds [OF t] by (intro wrap_result_id [OF t]) simp_all
  then show ?case using Nil stop by (cases rest) auto
next
  case (Cons c ds)
  let ?d = "getDigitValue t c" and ?max = "STRTOL_RESULT_MAX t"
  let ?p = "wrap_result t (result * base)"
  have wbase: "wrap_result t base = base"
    using base strtol_instance_bounds [OF t] by (intro wrap_result_id [OF t]) simp_all
  have d: "0 \<le> ?d" "?d < base" "is_digits t base ds"
    using Cons.prems(1) getDigitValue_nonneg [OF t] by (auto simp: is_digits_def)
  have vb: "v \<le> v * base" "0 \<le> v * base"
    using mult_left_mono [of 1 base v] base Cons.prems(2) by simp_all
  have step: "\<exists>r o'. strtol_digits t base False (c # ds @ rest) result overflow found =
      strtol_digits t base False (ds @ rest) r o' True
      \<and> o' = (?max < v * base + ?d) \<and> (\<not> o' \<longrightarrow> r = v * base + ?d)"
  proof (cases "v * base \<le> ?max")
    case True
    then have "\<not> overflow" using Cons.prems(3) vb by simp
    then have p: "?p = v * base" "result = v"
      using Cons.prems True vb strtol_instance_bounds [OF t] by (auto intro: wrap_result_id [OF t])
    have m: "wrap_result t (?max - v * base) = ?max - v * base"
      using True vb strtol_instance_bounds [OF t] by (intro wrap_result_id [OF t]) simp_all
    show ?thesis
    proof (cases "?d \<le> ?max - v * base")
      case True
      have "wrap_result t (v * base + ?d) = v * base + ?d"
        using True d vb strtol_instance_bounds [OF t] by (intro wrap_result_id [OF t]) simp_all
      then show ?thesis
        using True p m d wbase \<open>\<not> overflow\<close>
        by (intro exI [of _ "v * base + ?d"] exI [of _ False]) (simp add: Let_def)
    next
      case False
      then show ?thesis using p m d wbase by (auto simp: Let_def)
    qed
  next
    case False
    have "overflow \<or> ?p \<noteq> result * base"
      using False Cons.prems(4) wrap_result_range [OF t, of "v * base"] by auto
    moreover have "?max < v * base + ?d" using False d by simp
    ultimately show ?thesis using d wbase by (auto simp: Let_def)
  qed
  then obtain r o' where step: "strtol_digits t base False (c # ds @ rest) result overflow found =
      strtol_digits t base False (ds @ rest) r o' True"
    and o': "o' = (?max < v * base + ?d)" "\<not> o' \<longrightarrow> r = v * base + ?d" by blast
  have "0 \<le> v * base + ?d" using d vb by simp
  from Cons.IH [OF d(3) this o'(1), of r True] o'(2) show ?case
    by (simp add: step del: strtol_digits.simps)
qed

text \<open>
  With a minus sign in the signed instance, the first digit already sets \<open>overflow\<close>:
  \<open>result - STRTOL_RESULT_MIN\<close> wraps around at \<open>result = 0\<close>.
\<close>

lemma strtol_digits_overflow_sticky:
  "strtol_digits t base negative str result True found = (r, ov, f, s) \<Longrightarrow> ov"
  by (induction t base negative str result "True" found rule: strtol_digits.induct)
     (auto simp: Let_def split: if_splits)

lemma strtol_digits_negative:
  assumes "getDigitValue strtol_long c < base" "2 \<le> base" "base \<le> 36"
  shows "fst (snd (strtol_digits strtol_long base True (c # str) 0 False found))"
proof -
  have "wrap_result strtol_long base = base" "wrap_result strtol_long 0 = 0"
    "wrap_result strtol_long (0 - STRTOL_RESULT_MIN strtol_long) = - (2 ^ 31)"
    using assms by (auto simp: wrap_result_def strtol_long_def)
  moreover have "0 \<le> getDigitValue strtol_long c"
    by (rule getDigitValue_nonneg) (simp add: strtol_instance_def)
  ultimately have "strtol_digits strtol_long base True (c # str) 0 False found =
      strtol_digits strtol_long base True str 0 True True"
    using assms by (simp add: Let_def)
  then show ?thesis
    using strtol_digits_overflow_sticky [of strtol_long base True str 0 True]
    by (metis prod.collapse)
qed

section \<open>Properties\<close>

lemma digit_not_space_sign:
  assumes "getDigitValue t c < base" "base \<le> 36" "strtol_instance t"
  shows "\<not> isspace (sint c) \<and> c \<noteq> 43 \<and> c \<noteq> 45"
proof -
  have "getDigitValue t c \<noteq> STRTOL_RESULT_MAX t"
    using assms strtol_instance_bounds(1) [OF assms(3)] by simp
  then have "\<exists>n \<in> {48..57} \<union> {65..90} \<union> {97..122}. uint c = n"
    by (auto simp: getDigitValue_def word_le_def split: if_splits)
  then obtain n where "uint c = n" "n \<in> {48..57} \<union> {65..90} \<union> {97..122}" by blast
  moreover from this have "c = word_of_int n" by auto
  moreover from calculation have "sint c = n" by (auto simp: sint_uint signed_take_bit_int_eq_self)
  ultimately show ?thesis by (auto simp: isspace_def)
qed

lemma skip_spaces_append:
  "(\<forall>c \<in> set sp. isspace (sint c)) \<Longrightarrow> \<not> isspace (sint (peek str)) \<Longrightarrow> skip_spaces (sp @ str) = str"
  by (induction sp) (cases str, auto)

lemma sign_not_space: "\<not> isspace (sint (43 :: byte))" "\<not> isspace (sint (45 :: byte))"
  by (simp_all add: isspace_def)

lemma digits_start:
  assumes "strtol_instance t" "base \<le> 36" "is_digits t base ds" "ds \<noteq> []"
  shows "\<not> isspace (sint (peek (ds @ rest))) \<and> peek (ds @ rest) \<noteq> 43 \<and> peek (ds @ rest) \<noteq> 45"
  using assms digit_not_space_sign [of t _ base] by (cases ds) (auto simp: is_digits_def)

lemma STRTOL_NAME_digits:
  assumes t: "strtol_instance t" and base: "2 \<le> base" "base \<le> 36"
    and sp: "\<forall>c \<in> set sp. isspace (sint c)" and sign: "sign = [] \<or> sign = [43]"
    and prefix: "prefix = [] \<and> \<not> (base = 16 \<and> peek ds = 48 \<and> peek (tl (ds @ rest)) \<in> {120, 88})
      \<or> base = 16 \<and> prefix \<in> {[48, 120], [48, 88]}"
    and ds: "is_digits t base ds" "ds \<noteq> []" and stop: "\<not> getDigitValue t (peek rest) < base"
    and v: "v = digits_value t base 0 ds"
  shows "STRTOL_NAME t (sp @ sign @ prefix @ ds @ rest) base =
    (min v (STRTOL_RESULT_MAX t), Some rest, if STRTOL_RESULT_MAX t < v then Some ERANGE else None)"
proof -
  have "isspace (sint (48 :: byte)) = False" by (simp add: isspace_def)
  then have "\<not> isspace (sint (peek (sign @ prefix @ ds @ rest)))"
    using sign prefix digits_start [OF t base(2) ds] sign_not_space by auto
  then have skip: "skip_spaces (sp @ sign @ prefix @ ds @ rest) = sign @ prefix @ ds @ rest"
    by (rule skip_spaces_append [OF sp])
  obtain c ds' where cs: "ds = c # ds'" using ds(2) by (cases ds) auto
  have "\<exists>r. strtol_digits t base False (ds @ rest) 0 False False =
        (r, STRTOL_RESULT_MAX t < v, False \<or> ds \<noteq> [], rest) \<and> (v \<le> STRTOL_RESULT_MAX t \<longrightarrow> r = v)"
    unfolding v using strtol_instance_bounds [OF t]
    by (intro strtol_digits_nonneg [OF t base stop ds(1)]) simp_all
  then obtain r where r: "strtol_digits t base False (ds @ rest) 0 False False =
        (r, STRTOL_RESULT_MAX t < v, True, rest)" "v \<le> STRTOL_RESULT_MAX t \<longrightarrow> r = v"
    using ds(2) by auto
  have start: "peek (prefix @ ds @ rest) \<noteq> 43" "peek (prefix @ ds @ rest) \<noteq> 45"
    using prefix digits_start [OF t base(2) ds] by auto
  have "(let str = prefix @ ds @ rest in
      if base = 16 \<and> peek str = 48 \<and> (peek (tl str) = 120 \<or> peek (tl str) = 88) then tl (tl str) else str)
      = ds @ rest"
    using prefix cs by auto
  then show ?thesis
    using base r sign start by (auto simp: STRTOL_NAME_def skip Let_def min_def)
qed





text \<open>
  base 0 chooses the base from the digits (16 after \<open>0x\<close>, 8 after \<open>0\<close>, 10 otherwise), an
  invalid base is reported as \<open>EINVAL\<close> with result 0, and a string without digits gives 0
  without an error and \<open>end\<close> at its start.
\<close>

theorem strtol_bases_errors:
  assumes "\<not> isspace (sint (peek s))" "peek s \<noteq> 43" "peek s \<noteq> 45"
  shows "STRTOL_NAME t s 0 = STRTOL_NAME t s
      (if peek s = 48 then if peek (tl s) = 120 \<or> peek (tl s) = 88 then 16 else 8 else 10)
    \<and> (base < 0 \<or> base = 1 \<or> 36 < base \<longrightarrow> STRTOL_NAME t s base = (0, None, Some EINVAL))
    \<and> (strtol_instance t \<and> 2 \<le> base \<and> base \<le> 36 \<and> \<not> getDigitValue t (peek s) < base \<longrightarrow>
        STRTOL_NAME t s base = (0, Some s, None))"
proof -
  have skip: "skip_spaces s = s" using assms(1) by (cases s) auto
  have "STRTOL_NAME t s base = (0, Some s, None)"
    if t: "strtol_instance t" "2 \<le> base" "base \<le> 36" "\<not> getDigitValue t (peek s) < base"
  proof -
    have "wrap_result t base = base"
      using t strtol_instance_bounds [OF t(1)] by (intro wrap_result_id) simp_all
    moreover have "getDigitValue t 48 = 0" by (simp add: getDigitValue_def)
    then have "peek s \<noteq> 48" using t by auto
    ultimately show ?thesis using assms t skip by (cases s) (auto simp: STRTOL_NAME_def Let_def)
  qed
  then show ?thesis using assms skip by (simp add: STRTOL_NAME_def Let_def)
qed

theorem strtol_bases_errors_witness:
  "strtol (bytes ''0x1f'') 0 = strtol (bytes ''0x1f'') 16 \<and> strtol (bytes ''x'') 37 = (0, None, Some EINVAL)
   \<and> strtol (bytes ''x'') 10 = (0, Some (bytes ''x''), None)"
  using strtol_bases_errors [of "bytes ''0x1f''" strtol_long 10]
    strtol_bases_errors [of "bytes ''x''" strtol_long 37] strtol_bases_errors [of "bytes ''x''" strtol_long 10]
  by (simp add: strtol_def isspace_def strtol_instance_def getDigitValue_def)

end
