(* ===== verification/Libc_Printf.thy ===== *)
theory Libc_Printf
  imports Libc_Strtol
begin

text \<open>
  The formatted output engine \<open>libc/src/stdio/vcbprintf.c\<close> and \<open>vsprintf.c\<close>.  The format is the
  list of its bytes; the \<open>va_list\<close> is the list of the 32-bit stack slots of the arguments, as on
  i386, where a 64-bit argument takes two slots (\<open>None\<close>: reading past the arguments).  The
  callback is a state transformer on the memory, \<open>errno\<close> and the object \<open>param\<close> points to; it
  is given the bytes the source passes by pointer and length.
\<close>

section \<open>Definitions\<close>

record 'p pstate =
  pmem :: mem
  perrno :: int
  pparam :: 'p

type_synonym 'p callback = "byte list \<Rightarrow> 'p pstate \<Rightarrow> size_t \<times> 'p pstate"
type_synonym va_list = "u32 list"

datatype length_modifier =
    LENGTH_CHAR_HH | LENGTH_SHORT_H | LENGTH_INT | LENGTH_LONG_L | LENGTH_LONG_LONG_LL
  | LENGTH_INTMAX_J | LENGTH_SIZE_Z | LENGTH_PTRDIFF_T | LENGTH_LONG_DOUBLE_L

definition FLAG_LEFT_JUSTIFIED :: u32 where "FLAG_LEFT_JUSTIFIED = push_bit 1 1"
definition FLAG_PLUS :: u32 where "FLAG_PLUS = push_bit 2 1"
definition FLAG_SPACE :: u32 where "FLAG_SPACE = push_bit 3 1"
definition FLAG_ALTERNATIVE :: u32 where "FLAG_ALTERNATIVE = push_bit 4 1"
definition FLAG_LEADING_ZEROS :: u32 where "FLAG_LEADING_ZEROS = push_bit 5 1"

lemmas FLAG_defs =
  FLAG_LEFT_JUSTIFIED_def FLAG_PLUS_def FLAG_SPACE_def FLAG_ALTERNATIVE_def FLAG_LEADING_ZEROS_def

definition noop_callback :: "'p callback" where
  "noop_callback s st = (of_nat (length s), st)"

text \<open>
  \<open>convert_integer\<close>: the buffer is addressed relative to \<open>destination\<close>, so that the write of a
  digit below it is visible.  A zero base is a division trap.
\<close>

partial_function (option) convert_length :: "u64 \<Rightarrow> u64 \<Rightarrow> int \<Rightarrow> int option" where
  "convert_length i base len =
     (if i > 0 then convert_length (i div base) base (len + 1) else Some len)"

partial_function (option) convert_digits ::
  "u64 \<Rightarrow> u64 \<Rightarrow> byte list \<Rightarrow> int \<Rightarrow> (int \<Rightarrow> byte) \<Rightarrow> (int \<Rightarrow> byte) option"
where
  "convert_digits value base digits destination buffer =
     (let destination = destination - 1;
          buffer = buffer(destination := digits ! unat (value mod base));
          value = value div base
      in if value \<noteq> 0 then convert_digits value base digits destination buffer else Some buffer)"

definition convert_integer ::
  "(int \<Rightarrow> byte) \<Rightarrow> u64 \<Rightarrow> u64 \<Rightarrow> byte list \<Rightarrow> (int \<times> (int \<Rightarrow> byte)) option" where
  "convert_integer buffer value base digits =
     (if base = 0 then None
      else Option.bind (convert_length value base 0) (\<lambda>len.
           Option.bind (convert_digits value base digits len buffer) (\<lambda>buffer.
           Some (len, buffer))))"

text \<open>\<open>__builtin_add_overflow\<close> on \<open>int\<close> (\<open>None\<close>: overflow), and \<open>int\<close> arithmetic modulo \<open>2^32\<close>.\<close>

definition add_overflow :: "int \<Rightarrow> int \<Rightarrow> int option" where
  "add_overflow a b = (if - (2 ^ 31) \<le> a + b \<and> a + b < 2 ^ 31 then Some (a + b) else None)"

definition wrap32 :: "int \<Rightarrow> int" where
  "wrap32 x = (x + 2 ^ 31) mod 2 ^ 32 - 2 ^ 31"

text \<open>One call of the callback, with the check that it took all the bytes.\<close>

definition emit :: "'p callback \<Rightarrow> byte list \<Rightarrow> 'p pstate \<Rightarrow> bool \<times> 'p pstate" where
  "emit callback s st = (let (n, st) = callback s st in (n = of_nat (length s), st))"

text \<open>\<open>if (...) return -1;\<close> after each step: run the steps until one fails.\<close>

fun emit_all :: "'p callback \<Rightarrow> byte list list \<Rightarrow> 'p pstate \<Rightarrow> bool \<times> 'p pstate" where
  "emit_all callback [] st = (True, st)"
| "emit_all callback (s # ss) st =
     (let (ok, st) = emit callback s st in if ok then emit_all callback ss st else (False, st))"

text \<open>\<open>for (int i = from; i < to; i++) callback(param, c, 1)\<close>.\<close>

definition pad :: "int \<Rightarrow> int \<Rightarrow> byte \<Rightarrow> byte list list" where
  "pad from to c = replicate (nat (to - from)) [c]"

definition has_flag :: "u32 \<Rightarrow> u32 \<Rightarrow> bool" where
  "has_flag flags flag \<longleftrightarrow> flags AND flag \<noteq> 0"

text \<open>
  \<open>printInteger\<close> first computes the lengths and then calls the callback on one piece after the
  other.  \<open>integer_plan\<close> is the first half: the pieces and the value to return, with \<open>None\<close>
  inside for the \<open>EOVERFLOW\<close> returns and \<open>None\<close> outside if the conversion did not return.
\<close>

definition integer_plan ::
  "byte \<Rightarrow> u64 \<Rightarrow> int \<Rightarrow> int \<Rightarrow> u32 \<Rightarrow> (byte list list \<times> int) option option" where
  "integer_plan specifier value fieldWidth precision flags =
     (let signed = (specifier = 100 \<or> specifier = 105);
          negative = (signed \<and> sint value < 0);
          value = (if negative then - value else value);
          flags = (if signed then flags else flags AND NOT (FLAG_PLUS OR FLAG_SPACE));
          digits = (if specifier = 88 then bytes ''0123456789ABCDEF'' else bytes ''0123456789abcdef'');
          base = (if specifier = 111 then 8
                  else if specifier = 120 \<or> specifier = 88 then 16 else 10)
      in map_option (\<lambda>(stringLength, buffer).
      let alternative = has_flag flags FLAG_ALTERNATIVE;
          sign = (negative \<or> has_flag flags (FLAG_PLUS OR FLAG_SPACE));
          hex = (alternative \<and> (specifier = 120 \<or> specifier = 88) \<and> value \<noteq> 0)
      in Option.bind (if alternative \<and> specifier = 111 \<and> stringLength \<ge> precision
                      then add_overflow stringLength 1 else Some precision) (\<lambda>precision.
         Option.bind (let unpaddedLength = (if stringLength \<ge> precision then stringLength else precision)
                      in if sign then add_overflow unpaddedLength 1 else Some unpaddedLength)
           (\<lambda>unpaddedLength.
         Option.bind (if hex then add_overflow unpaddedLength 2 else Some unpaddedLength)
           (\<lambda>unpaddedLength.
         Some
        ((if \<not> has_flag flags (FLAG_LEFT_JUSTIFIED OR FLAG_LEADING_ZEROS)
          then pad unpaddedLength fieldWidth 32 else []) @
         (if sign then [[if negative then 45 else if has_flag flags FLAG_PLUS then 43 else 32]] else []) @
         (if alternative \<and> specifier = 120 \<and> value \<noteq> 0 then [bytes ''0x'']
          else if alternative \<and> specifier = 88 \<and> value \<noteq> 0 then [bytes ''0X''] else []) @
         (if \<not> has_flag flags FLAG_LEFT_JUSTIFIED \<and> has_flag flags FLAG_LEADING_ZEROS
          then pad unpaddedLength fieldWidth 48 else []) @
         pad stringLength precision 48 @
         [map buffer [0..stringLength - 1]] @
         (if has_flag flags FLAG_LEFT_JUSTIFIED then pad unpaddedLength fieldWidth 32 else []),
         if unpaddedLength \<ge> fieldWidth then unpaddedLength else fieldWidth)))))
      (convert_integer (\<lambda>_. 0) value base digits))"

definition printInteger ::
  "'p callback \<Rightarrow> byte \<Rightarrow> u64 \<Rightarrow> int \<Rightarrow> int \<Rightarrow> u32 \<Rightarrow> 'p pstate \<Rightarrow> (int \<times> 'p pstate) option" where
  "printInteger callback specifier value fieldWidth precision flags st =
     map_option (\<lambda>plan.
         case plan of
           None \<Rightarrow> (- 1, st\<lparr>perrno := EOVERFLOW\<rparr>)
         | Some (pieces, width) \<Rightarrow>
             let (ok, st) = emit_all callback pieces st in (if ok then width else - 1, st))
       (integer_plan specifier value fieldWidth precision flags)"

definition printString ::
  "'p callback \<Rightarrow> byte list \<Rightarrow> int \<Rightarrow> u32 \<Rightarrow> 'p pstate \<Rightarrow> int \<times> 'p pstate" where
  "printString callback s fieldWidth flags st =
     (let len = int (length s);
          (ok, st) = emit_all callback
            ((if has_flag flags FLAG_LEFT_JUSTIFIED then [] else pad len fieldWidth 32) @ [s] @
             (if has_flag flags FLAG_LEFT_JUSTIFIED then pad len fieldWidth 32 else [])) st
      in (if \<not> ok then - 1 else if len \<ge> fieldWidth then len else fieldWidth, st))"

text \<open>Parsing of a conversion specification.\<close>

fun parse_flags :: "byte list \<Rightarrow> u32 \<Rightarrow> u32 \<times> byte list" where
  "parse_flags [] flags = (flags, [])"
| "parse_flags (c # format) flags =
     (if c = 45 then parse_flags format (flags OR FLAG_LEFT_JUSTIFIED)
      else if c = 43 then parse_flags format (flags OR FLAG_PLUS)
      else if c = 32 then parse_flags format (flags OR FLAG_SPACE)
      else if c = 35 then parse_flags format (flags OR FLAG_ALTERNATIVE)
      else if c = 48 then parse_flags format (flags OR FLAG_LEADING_ZEROS)
      else (flags, c # format))"

fun parse_number :: "byte list \<Rightarrow> int \<Rightarrow> int \<times> byte list" where
  "parse_number [] n = (n, [])"
| "parse_number (c # format) n =
     (if 48 \<le> sint c \<and> sint c \<le> 57
      then parse_number format (wrap32 (wrap32 (n * 10) + sint c - 48))
      else (n, c # format))"

fun va_arg_int :: "va_list \<Rightarrow> (u32 \<times> va_list) option" where
  "va_arg_int [] = None"
| "va_arg_int (x # vl) = Some (x, vl)"

fun va_arg_long_long :: "va_list \<Rightarrow> (u64 \<times> va_list) option" where
  "va_arg_long_long (lo # hi # vl) = Some (word_cat hi lo, vl)"
| "va_arg_long_long _ = None"

definition parse_width ::
  "byte list \<Rightarrow> u32 \<Rightarrow> va_list \<Rightarrow> (int \<times> u32 \<times> byte list \<times> va_list) option" where
  "parse_width format flags vl =
     (if peek format = 42
      then Option.bind (va_arg_int vl) (\<lambda>(x, vl).
             if sint x < 0
             then Some (wrap32 (- sint x), flags OR FLAG_LEFT_JUSTIFIED, tl format, vl)
             else Some (sint x, flags, tl format, vl))
      else let (fieldWidth, format) = parse_number format 0 in Some (fieldWidth, flags, format, vl))"

definition parse_precision :: "byte list \<Rightarrow> va_list \<Rightarrow> (int \<times> byte list \<times> va_list) option" where
  "parse_precision format vl =
     (if peek format = 46
      then let format = tl format in
           if peek format = 42
           then Option.bind (va_arg_int vl) (\<lambda>(x, vl). Some (sint x, tl format, vl))
           else let (precision, format) = parse_number format 0 in Some (precision, format, vl)
      else Some (- 1, format, vl))"

fun parse_length :: "byte list \<Rightarrow> length_modifier \<Rightarrow> length_modifier \<times> byte list" where
  "parse_length [] l = (l, [])"
| "parse_length (c # format) l =
     (if c = 104 then if l = LENGTH_SHORT_H then (LENGTH_CHAR_HH, format)
                      else parse_length format LENGTH_SHORT_H
      else if c = 108 then if l = LENGTH_LONG_L then (LENGTH_LONG_LONG_LL, format)
                           else parse_length format LENGTH_LONG_L
      else if c = 106 then (LENGTH_INTMAX_J, format)
      else if c = 122 then (LENGTH_SIZE_Z, format)
      else if c = 116 then (LENGTH_PTRDIFF_T, format)
      else if c = 76 then (LENGTH_LONG_DOUBLE_L, format)
      else (l, c # format))"

text \<open>The argument of an integer conversion, converted to \<open>uintmax_t\<close>.\<close>

definition fetch_unsigned :: "length_modifier \<Rightarrow> va_list \<Rightarrow> (u64 \<times> va_list) option" where
  "fetch_unsigned l vl =
     (case l of
        LENGTH_CHAR_HH \<Rightarrow> map_option (\<lambda>(x, vl). (ucast (ucast x :: 8 word), vl)) (va_arg_int vl)
      | LENGTH_SHORT_H \<Rightarrow> map_option (\<lambda>(x, vl). (ucast (ucast x :: 16 word), vl)) (va_arg_int vl)
      | LENGTH_INT \<Rightarrow> map_option (\<lambda>(x, vl). (ucast x, vl)) (va_arg_int vl)
      | LENGTH_LONG_L \<Rightarrow> map_option (\<lambda>(x, vl). (ucast x, vl)) (va_arg_int vl)
      | LENGTH_LONG_LONG_LL \<Rightarrow> va_arg_long_long vl
      | LENGTH_INTMAX_J \<Rightarrow> va_arg_long_long vl
      | LENGTH_SIZE_Z \<Rightarrow> map_option (\<lambda>(x, vl). (ucast x, vl)) (va_arg_int vl)
      | LENGTH_PTRDIFF_T \<Rightarrow> map_option (\<lambda>(x, vl). (scast x, vl)) (va_arg_int vl)
      | LENGTH_LONG_DOUBLE_L \<Rightarrow> Some (0, vl))"

definition fetch_signed :: "length_modifier \<Rightarrow> va_list \<Rightarrow> (u64 \<times> va_list) option" where
  "fetch_signed l vl =
     (case l of
        LENGTH_CHAR_HH \<Rightarrow> map_option (\<lambda>(x, vl). (scast (ucast x :: 8 word), vl)) (va_arg_int vl)
      | LENGTH_SHORT_H \<Rightarrow> map_option (\<lambda>(x, vl). (scast (ucast x :: 16 word), vl)) (va_arg_int vl)
      | LENGTH_INT \<Rightarrow> map_option (\<lambda>(x, vl). (scast x, vl)) (va_arg_int vl)
      | LENGTH_LONG_L \<Rightarrow> map_option (\<lambda>(x, vl). (scast x, vl)) (va_arg_int vl)
      | LENGTH_LONG_LONG_LL \<Rightarrow> va_arg_long_long vl
      | LENGTH_INTMAX_J \<Rightarrow> va_arg_long_long vl
      | LENGTH_SIZE_Z \<Rightarrow> map_option (\<lambda>(x, vl). (scast x, vl)) (va_arg_int vl)
      | LENGTH_PTRDIFF_T \<Rightarrow> map_option (\<lambda>(x, vl). (scast x, vl)) (va_arg_int vl)
      | LENGTH_LONG_DOUBLE_L \<Rightarrow> Some (0, vl))"

text \<open>
  The body of the main loop: either \<open>return\<close> with a value, or another round with new values of
  \<open>format\<close>, \<open>invalidConversion\<close>, the argument list and \<open>result\<close>.
\<close>

datatype 'p vcb_outcome =
    Return int "'p pstate"
  | Continue "byte list" bool va_list int "'p pstate"

text \<open>\<open>INCREMENT_RESULT(x)\<close> and \<open>format++\<close>.\<close>

definition increment_result ::
  "int \<Rightarrow> int \<Rightarrow> byte list \<Rightarrow> bool \<Rightarrow> va_list \<Rightarrow> 'p pstate \<Rightarrow> 'p vcb_outcome" where
  "increment_result result x format invalid vl st =
     (case add_overflow result x of
        None \<Rightarrow> Return (- 1) (st\<lparr>perrno := EOVERFLOW\<rparr>)
      | Some result \<Rightarrow> Continue format invalid vl result st)"

text \<open>\<open>written = ...; if (written < 0) return -1; INCREMENT_RESULT(written)\<close>.\<close>

definition count_written ::
  "int \<Rightarrow> byte list \<Rightarrow> va_list \<Rightarrow> int \<times> 'p pstate \<Rightarrow> 'p vcb_outcome" where
  "count_written result format vl =
     (\<lambda>(written, st). if written < 0 then Return (- 1) st
                      else increment_result result written format False vl st)"

definition store_int :: "mem \<Rightarrow> addr \<Rightarrow> int \<Rightarrow> mem" where
  "store_int m p x =
     mem_write m p (map (\<lambda>i. ucast (drop_bit (8 * i) (word_of_int x :: u32))) [0, 1, 2, 3])"

definition vcb_conversion ::
  "'p callback \<Rightarrow> byte list \<Rightarrow> va_list \<Rightarrow> int \<Rightarrow> 'p pstate \<Rightarrow> 'p vcb_outcome option" where
  "vcb_conversion callback specifierBegin vl result st =
     (let (flags, format) = parse_flags (tl specifierBegin) 0 in
      Option.bind (parse_width format flags vl) (\<lambda>(fieldWidth, flags, format, vl).
      Option.bind (parse_precision format vl) (\<lambda>(precision, format, vl).
      let (len, format) = parse_length format LENGTH_INT;
          specifier = peek format
      in if specifier \<in> {100, 105, 111, 117, 120, 88}
      then Option.bind (if specifier \<in> {100, 105} then fetch_signed len vl else fetch_unsigned len vl)
        (\<lambda>(value, vl).
           map_option (count_written result (tl format) vl)
             (printInteger callback specifier value fieldWidth
               (if precision < 0 then 1 else precision)
               (if precision < 0 then flags else flags AND NOT FLAG_LEADING_ZEROS) st))
      else if specifier = 99
      then Option.bind (va_arg_int vl) (\<lambda>(c, vl).
             Some (count_written result (tl format) vl
               (printString callback [ucast c] fieldWidth flags st)))
      else if specifier = 115
      then Option.bind (va_arg_int vl) (\<lambda>(s, vl).
             Option.bind (if precision < 0 then strlen (pmem st) s
                          else Some (strnlen (pmem st) s (word_of_int precision))) (\<lambda>sz.
             if unat sz > 2 ^ 31 - 1 then Some (Return (- 1) (st\<lparr>perrno := EOVERFLOW\<rparr>))
             else Some (count_written result (tl format) vl
                    (printString callback (mem_read (pmem st) s (unat sz)) fieldWidth flags st))))
      else if specifier = 112
      then Option.bind (va_arg_int vl) (\<lambda>(p, vl).
             map_option (count_written result (tl format) vl)
               (printInteger callback 120 (ucast p) 0 1 FLAG_ALTERNATIVE st))
      else if specifier = 110
      then Option.bind (va_arg_int vl) (\<lambda>(p, vl).
             Some (Continue (tl format) False vl result (st\<lparr>pmem := store_int (pmem st) p result\<rparr>)))
      else if specifier = 37
      then let (ok, st) = emit callback (bytes ''%'') st in
           Some (if ok then increment_result result 1 (tl format) False vl st else Return (- 1) st)
      else Some (Continue specifierBegin True vl result st))))"

definition vcb_step ::
  "'p callback \<Rightarrow> byte list \<Rightarrow> bool \<Rightarrow> va_list \<Rightarrow> int \<Rightarrow> 'p pstate \<Rightarrow> 'p vcb_outcome option" where
  "vcb_step callback format invalidConversion vl result st =
     (if format = [] then Some (Return result st)
      else if peek format \<noteq> 37 \<or> invalidConversion
      then let (ok, st) = emit callback [peek format] st in
           Some (if ok then increment_result result 1 (tl format) invalidConversion vl st
                 else Return (- 1) st)
      else vcb_conversion callback format vl result st)"

declare convert_length.simps [code]
  convert_digits.simps [code]

section \<open>Formats that do not read or write through their arguments\<close>

text \<open>
  Only the conversions \<open>%s\<close> and \<open>%n\<close> use the memory.  A format is memory free if no \<open>%\<close> in it
  is followed by flags, numbers and length modifiers and one of these two.
\<close>

definition spec_char :: "byte \<Rightarrow> bool" where
  "spec_char c \<longleftrightarrow> c \<in> set (bytes ''-+ #0123456789.*hljztL'')"

fun memory_free :: "byte list \<Rightarrow> bool" where
  "memory_free [] \<longleftrightarrow> True"
| "memory_free (c # format) \<longleftrightarrow>
     (c = 37 \<longrightarrow> peek (dropWhile spec_char format) \<notin> {115, 110}) \<and> memory_free format"

definition spec_rest :: "byte list \<Rightarrow> byte list \<Rightarrow> bool" where
  "spec_rest f g \<longleftrightarrow> (\<exists>pre. f = pre @ g \<and> list_all spec_char pre)"

lemma spec_rest_refl [simp]: "spec_rest f f"
  by (simp add: spec_rest_def)

lemma spec_rest_trans [trans]: "spec_rest f g \<Longrightarrow> spec_rest g h \<Longrightarrow> spec_rest f h"
  by (force simp: spec_rest_def)

lemma spec_rest_Cons: "spec_char c \<Longrightarrow> spec_rest f g \<Longrightarrow> spec_rest (c # f) g"
  by (fastforce simp: spec_rest_def intro: exI [of _ "c # _"])

lemma spec_rest_tl: "spec_char (peek f) \<Longrightarrow> spec_rest f (tl f)"
  by (cases f) (auto simp: spec_rest_Cons)

lemma spec_rest_dropWhile: "spec_rest f g \<Longrightarrow> \<not> spec_char (peek g) \<Longrightarrow> dropWhile spec_char f = g"
  by (cases g) (auto simp: spec_rest_def list_all_iff dropWhile_append)

lemma memory_free_append: "memory_free (xs @ ys) \<Longrightarrow> memory_free ys"
  by (induction xs) auto

lemma memory_free_rest: "memory_free f \<Longrightarrow> spec_rest f g \<Longrightarrow> memory_free g"
  by (auto simp: spec_rest_def memory_free_append)

lemma memory_free_tl: "memory_free f \<Longrightarrow> memory_free (tl f)"
  by (cases f) auto

lemma spec_char_simps [simp]: "spec_char 42" "spec_char 46" "\<not> spec_char 115" "\<not> spec_char 110"
  by (simp_all add: spec_char_def bytes_def)

lemma parse_flags_rest: "spec_rest f (snd (parse_flags f fl))"
  by (induction f fl rule: parse_flags.induct) (auto simp: spec_char_def bytes_def intro!: spec_rest_Cons)

lemma digit_spec_char:
  assumes "48 \<le> sint c" "sint c \<le> 57"
  shows "spec_char c"
proof -
  have "sint c \<in> {48, 49, 50, 51, 52, 53, 54, 55, 56, 57}"
    using assms unfolding insert_iff empty_iff by presburger
  then obtain n where "n \<in> {48, 49, 50, 51, 52, 53, 54, 55, 56, 57}" "c = word_of_int n"
    using that [of "sint c"] by simp
  then show ?thesis by (auto simp: spec_char_def bytes_def)
qed

lemma parse_number_rest: "spec_rest f (snd (parse_number f n))"
  by (induction f n rule: parse_number.induct) (auto intro!: spec_rest_Cons digit_spec_char)

lemma parse_length_rest: "spec_rest f (snd (parse_length f l))"
  by (induction f l rule: parse_length.induct) (auto simp: spec_char_def bytes_def intro!: spec_rest_Cons)

lemma parse_width_rest: "parse_width f fl vl = Some (w, fl', f', vl') \<Longrightarrow> spec_rest f f'"
  using parse_number_rest [of f 0] spec_rest_tl [of f]
  by (auto simp: parse_width_def bind_eq_Some_conv split: if_splits prod.splits)

lemma parse_precision_rest: "parse_precision f vl = Some (p, f', vl') \<Longrightarrow> spec_rest f f'"
  using parse_number_rest [of "tl f" 0] spec_rest_tl [of f] spec_rest_tl [of "tl f"]
  by (auto simp: parse_precision_def Let_def bind_eq_Some_conv
      split: if_splits prod.splits dest: spec_rest_trans)

lemma spec_rest_length: "spec_rest f g \<Longrightarrow> length g \<le> length f"
  by (auto simp: spec_rest_def)

lemma parse_specification_rest:
  assumes "parse_flags f 0 = (fl, f1)" "parse_width f1 fl vl = Some (w, fl2, f2, vl2)"
    "parse_precision f2 vl2 = Some (p, f3, vl3)" "parse_length f3 l = (len, f4)"
  shows "spec_rest f f4"
  using parse_flags_rest [of f 0] parse_width_rest [OF assms(2)] parse_precision_rest [OF assms(3)]
    parse_length_rest [of f3 l] assms(1,4) by (auto intro: spec_rest_trans)

section \<open>Termination of the main loop\<close>

lemma increment_result_Continue:
  "increment_result r x f i vl st = Continue f' i' vl' r' st' \<longleftrightarrow>
     add_overflow r x = Some r' \<and> f' = f \<and> i' = i \<and> vl' = vl \<and> st' = st"
  by (auto simp: increment_result_def split: option.splits)

lemma count_written_Continue:
  "count_written r f vl w = Continue f' i' vl' r' st' \<longleftrightarrow>
     0 \<le> fst w \<and> add_overflow r (fst w) = Some r' \<and> f' = f \<and> \<not> i' \<and> vl' = vl \<and> st' = snd w"
  by (auto simp: count_written_def increment_result_Continue split: prod.splits)

lemma vcb_conversion_next:
  assumes "vcb_conversion cb f vl r st = Some (Continue f' i' vl' r' st')"
  shows "f' = f \<and> i' \<or> (\<exists>g. spec_rest (tl f) g \<and> f' = tl g)"
proof -
  obtain fl f1 where 1: "parse_flags (tl f) 0 = (fl, f1)" by fastforce
  from assms(1) 1 obtain w fl2 f2 vl2 where 2: "parse_width f1 fl vl = Some (w, fl2, f2, vl2)"
    by (auto simp: vcb_conversion_def bind_eq_Some_conv)
  from assms(1) 1 2 obtain p f3 vl3 where 3: "parse_precision f2 vl2 = Some (p, f3, vl3)"
    by (auto simp: vcb_conversion_def bind_eq_Some_conv)
  obtain len f4 where 4: "parse_length f3 LENGTH_INT = (len, f4)" by fastforce
  have "f' = tl f4 \<or> f' = f \<and> i'"
    using assms(1) 1 2 3 4
    by (auto simp: vcb_conversion_def bind_eq_Some_conv Let_def count_written_Continue
        increment_result_Continue split: if_splits prod.splits)
  then show ?thesis using parse_specification_rest [OF 1 2 3 4] by auto
qed

lemma vcb_step_next:
  assumes "vcb_step cb f i vl r st = Some (Continue f' i' vl' r' st')"
  shows "2 * length f' + (if i' then 0 else 1) < 2 * length f + (if i then 0 else 1)"
    and "memory_free f \<Longrightarrow> memory_free f'"
proof -
  have "f \<noteq> []" using assms by (auto simp: vcb_step_def)
  then have "length (tl f) < length f" by (cases f) auto
  have *: "f' = tl f \<and> i' = i \<or> \<not> i \<and> i' \<and> f' = f \<or> (\<exists>g. spec_rest (tl f) g \<and> f' = tl g)"
    using assms vcb_conversion_next [of cb f vl r st f' i' vl' r' st'] \<open>f \<noteq> []\<close>
    by (auto simp: vcb_step_def increment_result_Continue split: if_splits prod.splits)
  have "length (tl g) < length f" if "spec_rest (tl f) g" for g
    using spec_rest_length [OF that] \<open>length (tl f) < length f\<close> by simp
  with * \<open>length (tl f) < length f\<close>
  show "2 * length f' + (if i' then 0 else 1) < 2 * length f + (if i then 0 else 1)" by fastforce
  show "memory_free f'" if "memory_free f"
    using * that by (auto intro: memory_free_tl memory_free_rest)
qed

function vcb_loop ::
  "'p callback \<Rightarrow> byte list \<Rightarrow> bool \<Rightarrow> va_list \<Rightarrow> int \<Rightarrow> 'p pstate \<Rightarrow> (int \<times> 'p pstate) option" where
  "vcb_loop callback format invalidConversion vl result st =
     (case vcb_step callback format invalidConversion vl result st of
        None \<Rightarrow> None
      | Some (Return r st) \<Rightarrow> Some (r, st)
      | Some (Continue format invalidConversion vl result st) \<Rightarrow>
          vcb_loop callback format invalidConversion vl result st)"
  by pat_completeness auto
termination
  by (relation "measure (\<lambda>(cb, f, i, vl, r, st). 2 * length f + (if i then 0 else 1))")
     (auto dest: vcb_step_next(1))

declare vcb_loop.simps [simp del]

text \<open>\<open>vcbprintf\<close>: a null callback is replaced by \<open>noop_callback\<close>.\<close>

definition vcbprintf ::
  "'p callback option \<Rightarrow> byte list \<Rightarrow> va_list \<Rightarrow> 'p pstate \<Rightarrow> (int \<times> 'p pstate) option" where
  "vcbprintf callback format vl st =
     vcb_loop (case callback of None \<Rightarrow> noop_callback | Some cb \<Rightarrow> cb) format False vl 0 st"

text \<open>\<open>vsprintf\<close>: \<open>param\<close> is the address of the local pointer \<open>s\<close>, so its value is the state.\<close>

definition vsprintf_callback :: "addr callback" where
  "vsprintf_callback s st =
     (let (buffer, m) = fold (\<lambda>c (buffer, m). (buffer + 1, m(buffer := c))) s (pparam st, pmem st)
      in (of_nat (length s), st\<lparr>pmem := m, pparam := buffer\<rparr>))"

definition vsprintf ::
  "mem \<Rightarrow> int \<Rightarrow> addr \<Rightarrow> byte list \<Rightarrow> va_list \<Rightarrow> (int \<times> mem \<times> int) option" where
  "vsprintf m errno s format vl =
     map_option (\<lambda>(result, st).
         (result, if result \<ge> 0 then (pmem st)(pparam st := 0) else pmem st, perrno st))
       (vcbprintf (Some vsprintf_callback) format vl \<lparr>pmem = m, perrno = errno, pparam = s\<rparr>)"

section \<open>Digits\<close>

text \<open>The digits of a number, most significant first; none for 0.\<close>

fun radix_digits :: "nat \<Rightarrow> nat \<Rightarrow> nat list" where
  "radix_digits b v = (if v = 0 \<or> b \<le> 1 then [] else radix_digits b (v div b) @ [v mod b])"

declare radix_digits.simps [simp del]

lemma radix_digits_0 [simp]: "radix_digits b 0 = []"
  by (simp add: radix_digits.simps)

lemma radix_digits_pos: "0 < v \<Longrightarrow> 2 \<le> b \<Longrightarrow> radix_digits b v = radix_digits b (v div b) @ [v mod b]"
  by (subst radix_digits.simps) simp

lemma radix_digits_less: "d \<in> set (radix_digits b v) \<Longrightarrow> d < b"
proof (induction b v rule: radix_digits.induct)
  case (1 b v)
  then show ?case by (subst (asm) (2) radix_digits.simps) (auto split: if_splits)
qed

lemma radix_digits_value:
  "2 \<le> b \<Longrightarrow> foldl (\<lambda>v d. v * b + d) 0 (radix_digits b v) = v"
proof (induction b v rule: radix_digits.induct)
  case (1 b v)
  then show ?case by (cases "v = 0") (simp_all add: radix_digits_pos)
qed

lemma radix_digits_length: "2 \<le> b \<Longrightarrow> v < b ^ n \<Longrightarrow> length (radix_digits b v) \<le> n"
proof (induction n arbitrary: v)
  case (Suc n)
  then have "v div b < b ^ n" by (simp add: less_mult_imp_div_less mult.commute)
  with Suc show ?case by (cases "v = 0") (simp_all add: radix_digits_pos)
qed simp

lemma radix_digits_Nil_iff: "2 \<le> b \<Longrightarrow> radix_digits b v = [] \<longleftrightarrow> v = 0"
  by (cases "v = 0") (simp_all add: radix_digits_pos)

lemma convert_length_eq:
  assumes "2 \<le> unat base"
  shows "convert_length i base n = Some (n + int (length (radix_digits (unat base) (unat i))))"
proof (induction "unat i" arbitrary: i n rule: less_induct)
  case less
  show ?case
  proof (cases "i = 0")
    case True
    then show ?thesis by (simp add: convert_length.simps)
  next
    case False
    then have "0 < unat i" by (simp add: unat_gt_0)
    then have "unat (i div base) < unat i" using assms by (simp add: unat_div div_less_dividend)
    then have "convert_length (i div base) base (n + 1) =
        Some (n + 1 + int (length (radix_digits (unat base) (unat (i div base)))))" by (rule less)
    then show ?thesis
      using False \<open>0 < unat i\<close> assms
      by (subst convert_length.simps) (simp add: radix_digits_pos [of "unat i"] unat_div word_gt_0)
  qed
qed

lemma convert_digits_eq:
  assumes "2 \<le> unat base"
  shows "x \<noteq> 0 \<Longrightarrow>
    convert_digits x base digits d buffer =
    Some (\<lambda>k. let ds = radix_digits (unat base) (unat x); n = int (length ds)
              in if d - n \<le> k \<and> k < d then digits ! (ds ! nat (k - (d - n))) else buffer k)"
proof (induction "unat x" arbitrary: x d buffer rule: less_induct)
  case less
  let ?b = "unat base" and ?q = "x div base"
  let ?buf = "buffer(d - 1 := digits ! unat (x mod base))"
  have "0 < unat x" using less.prems by (simp add: unat_gt_0)
  then have ds: "radix_digits ?b (unat x) = radix_digits ?b (unat ?q) @ [unat (x mod base)]"
    using assms by (simp add: radix_digits_pos [of "unat x"] unat_div unat_mod)
  show ?case
  proof (cases "?q = 0")
    case True
    then show ?thesis
      by (subst convert_digits.simps) (auto simp: ds Let_def fun_eq_iff)
  next
    case False
    have "unat ?q < unat x" using \<open>0 < unat x\<close> assms by (simp add: unat_div div_less_dividend)
    from less.hyps [OF this False, of "d - 1" ?buf] show ?thesis
      using False
      by (subst convert_digits.simps) (auto simp: ds Let_def fun_eq_iff nth_append diff_diff_eq)
  qed
qed

lemma convert_integer_eq:
  fixes x base :: u64
  assumes "2 \<le> unat base"
  defines "ds \<equiv> radix_digits (unat base) (unat x)"
  obtains buffer' where "convert_integer buffer x base digits = Some (int (length ds), buffer')"
    "map buffer' [0..int (length ds) - 1] = map ((!) digits) ds"
    "\<And>k. x \<noteq> 0 \<Longrightarrow> k \<notin> {0..<int (length ds)} \<Longrightarrow> buffer' k = buffer k"
    "x = 0 \<Longrightarrow> buffer' = buffer(- 1 := digits ! 0)"
proof (cases "x = 0")
  case True
  have "convert_integer buffer x base digits = Some (0, buffer(- 1 := digits ! 0))"
    using True assms convert_length_eq [OF assms(1), of x 0]
    by (auto simp: convert_integer_def convert_digits.simps Let_def)
  then show thesis using that True by (simp add: ds_def)
next
  case False
  let ?buf = "\<lambda>k. if 0 \<le> k \<and> k < int (length ds) then digits ! (ds ! nat k) else buffer k"
  have "convert_digits x base digits (int (length ds)) buffer = Some ?buf"
    using convert_digits_eq [OF assms(1) False, of digits "int (length ds)" buffer]
    by (simp add: ds_def [symmetric] Let_def cong: if_cong)
  then have "convert_integer buffer x base digits = Some (int (length ds), ?buf)"
    using assms convert_length_eq [OF assms(1), of x 0] by (auto simp: convert_integer_def)
  moreover have "map ?buf [0..int (length ds) - 1] = map ((!) digits) ds"
    by (rule nth_equalityI) (auto simp: nth_upto)
  ultimately show thesis
  proof (rule that)
    fix k
    assume "k \<notin> {0..<int (length ds)}"
    then show "?buf k = buffer k" by auto
  qed (use False in simp)
qed

section \<open>The plan of an integer conversion\<close>

definition integer_base :: "byte \<Rightarrow> nat" where
  "integer_base specifier =
     (if specifier = 111 then 8 else if specifier = 120 \<or> specifier = 88 then 16 else 10)"

lemma has_flag_or [simp]: "has_flag f (a OR b) \<longleftrightarrow> has_flag f a \<or> has_flag f b"
  by (simp add: has_flag_def bit.conj_disj_distrib or_eq_0_iff)

lemma length_concat_pad: "int (length (concat (pad a b c))) = max 0 (b - a)"
  by (simp add: pad_def concat_replicate_single length_concat sum_list_replicate)

lemma concat_pad: "concat (pad a b c) = replicate (nat (b - a)) c"
  by (simp add: pad_def concat_replicate_single)

lemma unat_minus_sint:
  fixes x :: u64
  assumes "sint x < 0"
  shows "unat (- x) = nat (- sint x)"
proof -
  have "- (2 ^ 63) \<le> sint x" using sint_greater_eq [of x] by simp
  then have "(- sint x) mod 2 ^ 64 = - sint x" using assms by simp
  moreover have "- x = word_of_int (- sint x)" by simp
  ultimately show ?thesis by (metis unat_eq_nat_uint uint_word_of_int len_num0 len_num1 len_bit0 numeral_Bit0 mult_2 numeral_One one_add_one)
qed

text \<open>
  What an integer conversion should print: sign, radix prefix, the zeros the precision asks
  for and the digits, filled up to the field width on the left with blanks, between prefix and
  digits with zeros, or on the right with blanks.
\<close>

definition integer_magnitude :: "byte \<Rightarrow> u64 \<Rightarrow> nat" where
  "integer_magnitude specifier x =
     (if specifier = 100 \<or> specifier = 105 then nat \<bar>sint x\<bar> else unat x)"

definition integer_digits :: "byte \<Rightarrow> u64 \<Rightarrow> byte list" where
  "integer_digits specifier x =
     map ((!) (if specifier = 88 then bytes ''0123456789ABCDEF'' else bytes ''0123456789abcdef''))
       (radix_digits (integer_base specifier) (integer_magnitude specifier x))"

definition integer_sign :: "byte \<Rightarrow> u64 \<Rightarrow> u32 \<Rightarrow> byte list" where
  "integer_sign specifier x flags =
     (let signed = (specifier = 100 \<or> specifier = 105)
      in if signed \<and> sint x < 0 then [45]
         else if signed \<and> has_flag flags FLAG_PLUS then [43]
         else if signed \<and> has_flag flags FLAG_SPACE then [32] else [])"

definition integer_radix :: "byte \<Rightarrow> u64 \<Rightarrow> u32 \<Rightarrow> byte list" where
  "integer_radix specifier x flags =
     (let alt = (has_flag flags FLAG_ALTERNATIVE \<and> x \<noteq> 0)
      in if alt \<and> specifier = 120 then bytes ''0x''
         else if alt \<and> specifier = 88 then bytes ''0X'' else [])"

definition integer_number :: "byte \<Rightarrow> u64 \<Rightarrow> int \<Rightarrow> u32 \<Rightarrow> byte list" where
  "integer_number specifier x precision flags =
     (let ds = integer_digits specifier x;
          precision = (if has_flag flags FLAG_ALTERNATIVE \<and> specifier = 111 \<and> precision \<le> int (length ds)
                       then int (length ds) + 1 else precision)
      in replicate (nat (precision - int (length ds))) 48 @ ds)"

definition integer_unpadded :: "byte \<Rightarrow> u64 \<Rightarrow> int \<Rightarrow> u32 \<Rightarrow> byte list" where
  "integer_unpadded specifier x precision flags =
     integer_sign specifier x flags @ integer_radix specifier x flags @
     integer_number specifier x precision flags"

definition integer_field :: "byte \<Rightarrow> u64 \<Rightarrow> int \<Rightarrow> int \<Rightarrow> u32 \<Rightarrow> byte list" where
  "integer_field specifier x fieldWidth precision flags =
     (let prefix = integer_sign specifier x flags @ integer_radix specifier x flags;
          number = integer_number specifier x precision flags;
          fill = nat (fieldWidth - int (length (prefix @ number)))
      in if has_flag flags FLAG_LEFT_JUSTIFIED then prefix @ number @ replicate fill 32
         else if has_flag flags FLAG_LEADING_ZEROS then prefix @ replicate fill 48 @ number
         else replicate fill 32 @ prefix @ number)"

lemma has_flag_sign_masked [simp]:
  "has_flag (f AND NOT FLAG_PLUS AND NOT FLAG_SPACE) FLAG_ALTERNATIVE = has_flag f FLAG_ALTERNATIVE"
  "has_flag (f AND NOT FLAG_PLUS AND NOT FLAG_SPACE) FLAG_LEFT_JUSTIFIED = has_flag f FLAG_LEFT_JUSTIFIED"
  "has_flag (f AND NOT FLAG_PLUS AND NOT FLAG_SPACE) FLAG_LEADING_ZEROS = has_flag f FLAG_LEADING_ZEROS"
  "has_flag (f AND NOT FLAG_PLUS AND NOT FLAG_SPACE) FLAG_PLUS = False"
  "has_flag (f AND NOT FLAG_PLUS AND NOT FLAG_SPACE) FLAG_SPACE = False"
  by (simp_all add: has_flag_def FLAG_defs and.assoc)

lemma unat_sint:
  fixes x :: u64
  assumes "0 \<le> sint x"
  shows "unat x = nat (sint x)"
proof -
  have "sint x < 2 ^ 63" using sint_less [of x] by simp
  then have "sint x mod 2 ^ 64 = sint x" using assms by simp
  moreover have "uint x = sint x mod 2 ^ 64"
    using uint_word_of_int [of "sint x", where ?'a = 64] by simp
  ultimately show ?thesis by (simp flip: nat_uint_eq)
qed

lemma integer_magnitude_unat:
  "unat (if (s = 100 \<or> s = 105) \<and> sint x < 0 then - x else x) = integer_magnitude s x"
  by (auto simp: integer_magnitude_def unat_minus_sint unat_sint)

lemma add_overflow_small: "0 \<le> a \<Longrightarrow> 0 \<le> b \<Longrightarrow> a + b < 2 ^ 31 \<Longrightarrow> add_overflow a b = Some (a + b)"
  by (simp add: add_overflow_def)

lemma unat_less_2p64: "unat (x :: u64) < 2 ^ 64"
  using unsigned_less [of x] by simp

lemma integer_magnitude_less: "integer_magnitude s x < 2 ^ 64"
proof -
  have "unat (if (s = 100 \<or> s = 105) \<and> sint x < 0 then - x else x) < 2 ^ 64"
    using unat_less_2p64 by blast
  then show ?thesis by (simp only: integer_magnitude_unat)
qed

lemma integer_digits_length: "length (integer_digits s x) \<le> 22"
proof -
  have "integer_magnitude s x < integer_base s ^ 22"
    using integer_magnitude_less [of s x] by (auto simp: integer_base_def)
  then show ?thesis by (simp add: integer_digits_def radix_digits_length integer_base_def)
qed

lemma integer_convert:
  fixes s :: byte and x :: u64
  obtains buffer where
    "convert_integer (\<lambda>_. 0) (if (s = 100 \<or> s = 105) \<and> sint x < 0 then - x else x)
       (if s = 111 then 8 else if s = 120 \<or> s = 88 then 16 else 10)
       (if s = 88 then bytes ''0123456789ABCDEF'' else bytes ''0123456789abcdef'') =
     Some (int (length (integer_digits s x)), buffer)"
    "map buffer [0..int (length (integer_digits s x)) - 1] = integer_digits s x"
proof -
  let ?base = "(if s = 111 then 8 else if s = 120 \<or> s = 88 then 16 else 10) :: u64"
  have base: "unat ?base = integer_base s" "2 \<le> unat ?base" by (auto simp: integer_base_def)
  show thesis
    by (rule convert_integer_eq [OF base(2), where buffer = "\<lambda>_. 0"
          and x = "if (s = 100 \<or> s = 105) \<and> sint x < 0 then - x else x"
          and digits = "if s = 88 then bytes ''0123456789ABCDEF'' else bytes ''0123456789abcdef''"])
       (rule that, simp_all only: base(1) integer_magnitude_unat integer_digits_def length_map)
qed

text \<open>Laying out a field: what comes before the number, the number and the padding.\<close>

lemma field_layout:
  assumes "n = int (length (pre @ number))"
  shows "concat ((if \<not> (left \<or> zeros) then pad n w 32 else []) @ [pre] @
           (if \<not> left \<and> zeros then pad n w 48 else []) @ [number] @ (if left then pad n w 32 else [])) =
         (let fill = nat (w - n) in
          if left then pre @ number @ replicate fill 32
          else if zeros then pre @ replicate fill 48 @ number
          else replicate fill 32 @ pre @ number)"
  using assms by (auto simp: concat_pad Let_def)

lemma length_integer_field:
  "int (length (integer_field s x w p f)) = max w (int (length (integer_unpadded s x p f)))"
  by (simp add: integer_field_def integer_unpadded_def Let_def)

lemma unsigned_flags:
  fixes f :: u32 and sgnd :: bool
  defines "fl \<equiv> (if sgnd then f else f AND NOT (FLAG_PLUS OR FLAG_SPACE))"
  shows "has_flag fl FLAG_ALTERNATIVE = has_flag f FLAG_ALTERNATIVE"
    "has_flag fl FLAG_LEFT_JUSTIFIED = has_flag f FLAG_LEFT_JUSTIFIED"
    "has_flag fl FLAG_LEADING_ZEROS = has_flag f FLAG_LEADING_ZEROS"
    "has_flag fl FLAG_PLUS \<longleftrightarrow> sgnd \<and> has_flag f FLAG_PLUS"
    "has_flag fl FLAG_SPACE \<longleftrightarrow> sgnd \<and> has_flag f FLAG_SPACE"
  by (auto simp: fl_def)

text \<open>The checked additions of the plan fail exactly if the unpadded length does not fit.\<close>

lemma add_overflow_length:
  "add_overflow (int n) (int k) = (if int (n + k) < 2 ^ 31 then Some (int (n + k)) else None)"
  by (simp add: add_overflow_def)

lemma unpadded_length:
  assumes "int n < 2 ^ 31" "sg \<longleftrightarrow> 0 < k" "k = 0 \<or> k = 1" "hx \<longleftrightarrow> 0 < h" "h = 0 \<or> h = 2"
  shows "Option.bind (if sg then add_overflow (int n) 1 else Some (int n))
           (\<lambda>l. Option.bind (if hx then add_overflow l 2 else Some l) g) =
         (if int (k + h + n) < 2 ^ 31 then g (int (k + h + n)) else None)"
  using assms add_overflow_length [of n 1] add_overflow_length [of n 2] add_overflow_length [of "n + 1" 2]
  by (auto simp: add.commute)

lemma integer_number_length:
  assumes "0 \<le> p" "p < 2 ^ 31"
  shows "int (length (integer_number s x p f)) < 2 ^ 31"
  using assms integer_digits_length [of s x] by (auto simp: integer_number_def Let_def)

lemma integer_plan_field:
  assumes "0 \<le> p" "p < 2 ^ 31"
  shows "\<exists>ps. concat ps = integer_field s x w p f \<and>
    integer_plan s x w p f =
      Some (if int (length (integer_unpadded s x p f)) < 2 ^ 31
            then Some (ps, int (length (concat ps))) else None)"
proof -
  let ?ds = "integer_digits s x" and ?sgnd = "s = 100 \<or> s = 105"
  let ?alt = "has_flag f FLAG_ALTERNATIVE"
  let ?sgn = "integer_sign s x f" and ?hex = "integer_radix s x f" and ?num = "integer_number s x p f"
  let ?n = "int (length ?sgn + length ?hex + length ?num)"
  obtain buffer where buf:
    "convert_integer (\<lambda>_. 0) (if ?sgnd \<and> sint x < 0 then - x else x)
       (if s = 111 then 8 else if s = 120 \<or> s = 88 then 16 else 10)
       (if s = 88 then bytes ''0123456789ABCDEF'' else bytes ''0123456789abcdef'') =
     Some (int (length ?ds), buffer)"
    "map buffer [0..int (length ?ds) - 1] = ?ds"
    by (rule integer_convert)
  define q where "q = (if ?alt \<and> s = 111 \<and> p \<le> int (length ?ds) then int (length ?ds) + 1 else p)"
  have nz: "(if ?sgnd \<and> sint x < 0 then - x else x) \<noteq> 0 \<longleftrightarrow> x \<noteq> 0" by auto
  have sign: "?sgnd \<and> sint x < 0 \<or> ?sgnd \<and> has_flag f FLAG_PLUS \<or> ?sgnd \<and> has_flag f FLAG_SPACE \<longleftrightarrow>
      0 < length ?sgn" "length ?sgn = 0 \<or> length ?sgn = 1"
    by (auto simp: integer_sign_def Let_def split: if_splits)
  have sign_piece: "concat (if 0 < length ?sgn then
      [[if ?sgnd \<and> sint x < 0 then 45 else if ?sgnd \<and> has_flag f FLAG_PLUS then 43 else 32]] else []) = ?sgn"
    by (auto simp: integer_sign_def Let_def)
  have hex: "?alt \<and> (s = 120 \<or> s = 88) \<and> x \<noteq> 0 \<longleftrightarrow> 0 < length ?hex" "length ?hex = 0 \<or> length ?hex = 2"
    by (auto simp: integer_radix_def bytes_def Let_def split: if_splits)
  have hex_piece: "concat (if ?alt \<and> s = 120 \<and> x \<noteq> 0 then [bytes ''0x'']
      else if ?alt \<and> s = 88 \<and> x \<noteq> 0 then [bytes ''0X''] else []) = ?hex"
    by (auto simp: integer_radix_def)
  have prec: "(if ?alt \<and> s = 111 \<and> int (length ?ds) \<ge> p then add_overflow (int (length ?ds)) 1 else Some p) = Some q"
    using integer_digits_length [of s x] by (auto simp: q_def add_overflow_small)
  have num: "(if int (length ?ds) \<ge> q then int (length ?ds) else q) = int (length ?num)"
    "concat (pad (int (length ?ds)) q 48 @ [?ds]) = ?num"
    using assms by (auto simp: integer_number_def q_def Let_def concat_pad)
  note unpadded = unpadded_length [OF integer_number_length [OF assms, of s x f] refl sign(2) refl hex(2)]
  let ?L = "has_flag f FLAG_LEFT_JUSTIFIED" and ?Z = "has_flag f FLAG_LEADING_ZEROS"
  define ps where "ps = (if \<not> (?L \<or> ?Z) then pad ?n w 32 else []) @
    (if 0 < length ?sgn then
      [[if ?sgnd \<and> sint x < 0 then 45 else if ?sgnd \<and> has_flag f FLAG_PLUS then 43 else 32]] else []) @
    (if ?alt \<and> s = 120 \<and> x \<noteq> 0 then [bytes ''0x'']
      else if ?alt \<and> s = 88 \<and> x \<noteq> 0 then [bytes ''0X''] else []) @
    (if \<not> ?L \<and> ?Z then pad ?n w 48 else []) @
    pad (int (length ?ds)) q 48 @ [?ds] @ (if ?L then pad ?n w 32 else [])"
  have "concat ps = concat (if \<not> (?L \<or> ?Z) then pad ?n w 32 else []) @ ?sgn @ ?hex @
      concat (if \<not> ?L \<and> ?Z then pad ?n w 48 else []) @ ?num @ concat (if ?L then pad ?n w 32 else [])"
    unfolding ps_def concat_append sign_piece hex_piece num(2) [unfolded concat_append, symmetric]
    by (simp only: append_assoc)
  also have "\<dots> = integer_field s x w p f"
    using field_layout [of ?n "?sgn @ ?hex" ?num ?L ?Z w]
    by (simp add: integer_field_def Let_def)
  finally have field: "concat ps = integer_field s x w p f" .
  have "integer_plan s x w p f =
      Some (if ?n < 2 ^ 31 then Some (ps, if ?n \<ge> w then ?n else w) else None)"
    unfolding integer_plan_def Let_def buf(1) option.map(2) prod.case buf(2) has_flag_or unsigned_flags nz
      prec sign(1) bind.simps(2) num(1) hex(1) unpadded ps_def by (rule refl)
  then show ?thesis
    using field length_integer_field [of s x w p f]
    by (intro exI [of _ ps]) (simp add: integer_unpadded_def max_def)
qed

section \<open>Simulation between callbacks\<close>

fun step_rel :: "('p pstate \<Rightarrow> 'q pstate \<Rightarrow> bool) \<Rightarrow> 'p vcb_outcome \<Rightarrow> 'q vcb_outcome \<Rightarrow> bool" where
  "step_rel R (Return r a) (Return r' b) \<longleftrightarrow> r' = r \<and> R a b"
| "step_rel R (Continue f i vl r a) (Continue f' i' vl' r' b) \<longleftrightarrow>
     f' = f \<and> i' = i \<and> vl' = vl \<and> r' = r \<and> R a b"
| "step_rel R _ _ \<longleftrightarrow> False"

text \<open>
  Two callbacks, and a relation between the states they run on that they keep while taking the
  same number of bytes.  \<open>shared\<close> says whether the two states have the same memory; without it
  the result carries over to memory-free formats only.
\<close>

locale callback_simulation =
  fixes cb :: "'p callback" and cb' :: "'q callback"
    and R :: "'p pstate \<Rightarrow> 'q pstate \<Rightarrow> bool" and shared :: bool
  assumes call_count: "R a b \<Longrightarrow> fst (cb bs a) = fst (cb' bs b)"
    and call_related: "R a b \<Longrightarrow> R (snd (cb bs a)) (snd (cb' bs b))"
    and errno_related: "R a b \<Longrightarrow> R (a\<lparr>perrno := e\<rparr>) (b\<lparr>perrno := e\<rparr>)"
    and memory_shared: "shared \<Longrightarrow> R a b \<Longrightarrow> pmem a = pmem b"
    and store_related: "shared \<Longrightarrow> R a b \<Longrightarrow> R (a\<lparr>pmem := m\<rparr>) (b\<lparr>pmem := m\<rparr>)"
begin

abbreviation related :: "(int \<times> 'p pstate) option \<Rightarrow> (int \<times> 'q pstate) option \<Rightarrow> bool" where
  "related \<equiv> rel_option (rel_prod (=) R)"

lemma emit_sim: "R a b \<Longrightarrow> rel_prod (=) R (emit cb bs a) (emit cb' bs b)"
  using call_count [of a b bs] call_related [of a b bs]
  by (cases "cb bs a"; cases "cb' bs b") (simp add: emit_def)

lemma emit_all_sim: "R a b \<Longrightarrow> rel_prod (=) R (emit_all cb ps a) (emit_all cb' ps b)"
proof (induction ps arbitrary: a b)
  case (Cons p ps)
  from emit_sim [OF Cons.prems, of p] Cons.IH show ?case
    by (cases "emit cb p a"; cases "emit cb' p b") auto
qed simp

lemma emit_result_sim:
  "R a b \<Longrightarrow> rel_prod (=) R (case emit_all cb ps a of (ok, st) \<Rightarrow> (g ok, st))
     (case emit_all cb' ps b of (ok, st) \<Rightarrow> (g ok, st))"
  using emit_all_sim [of a b ps] by (cases "emit_all cb ps a"; cases "emit_all cb' ps b") simp

lemma printString_sim:
  "R a b \<Longrightarrow> rel_prod (=) R (printString cb s w f a) (printString cb' s w f b)"
  unfolding printString_def Let_def by (rule emit_result_sim)

lemma printInteger_sim:
  "R a b \<Longrightarrow> related (printInteger cb s x w p f a) (printInteger cb' s x w p f b)"
  by (cases "integer_plan s x w p f")
     (auto simp: printInteger_def errno_related emit_result_sim split: option.split)

lemma increment_result_sim:
  "R a b \<Longrightarrow> step_rel R (increment_result r x f i vl a) (increment_result r x f i vl b)"
  by (auto simp: increment_result_def errno_related split: option.splits)

lemma count_written_sim:
  "rel_prod (=) R wa wb \<Longrightarrow> step_rel R (count_written r f vl wa) (count_written r f vl wb)"
  by (cases wa; cases wb) (auto simp: count_written_def increment_result_sim)

lemma count_written_option_sim:
  "related wa wb \<Longrightarrow> rel_option (step_rel R) (map_option (count_written r f vl) wa) (map_option (count_written r f vl) wb)"
  by (auto elim!: option.rel_cases intro!: count_written_sim)

lemma bind_sim: "(\<And>x. rel_option Q (g x) (h x)) \<Longrightarrow> rel_option Q (Option.bind v g) (Option.bind v h)"
  by (cases v) auto

lemma conversion_sim:
  assumes "R a b" "shared \<or> peek (dropWhile spec_char (tl f)) \<notin> {115, 110}"
  shows "rel_option (step_rel R) (vcb_conversion cb f vl r a) (vcb_conversion cb' f vl r b)"
proof -
  obtain fl f1 where 1: "parse_flags (tl f) 0 = (fl, f1)" by fastforce
  consider "parse_width f1 fl vl = None" | (w) w fl2 f2 vl2 where "parse_width f1 fl vl = Some (w, fl2, f2, vl2)"
    by (cases "parse_width f1 fl vl") auto
  then show ?thesis
  proof cases
    case w
    consider "parse_precision f2 vl2 = None" | (p) p f3 vl3 where "parse_precision f2 vl2 = Some (p, f3, vl3)"
      by (cases "parse_precision f2 vl2") auto
    then show ?thesis
    proof cases
      case p
      obtain len f4 where 4: "parse_length f3 LENGTH_INT = (len, f4)" by fastforce
      have "shared \<or> peek f4 \<notin> {115, 110}"
        using assms(2) spec_rest_dropWhile [OF parse_specification_rest [OF 1 w p 4]] by auto
      note spec = this
      show ?thesis
        using assms(1) spec emit_sim [OF assms(1), of "bytes ''%''"]
        unfolding vcb_conversion_def 1 w p 4 Let_def prod.case bind.simps
        by (auto intro!: bind_sim count_written_option_sim printInteger_sim count_written_sim printString_sim
            increment_result_sim store_related errno_related simp: memory_shared split: prod.splits)
    qed (simp add: vcb_conversion_def 1 w)
  qed (simp add: vcb_conversion_def 1)
qed

lemma step_sim:
  assumes "R a b" "shared \<or> memory_free f"
  shows "rel_option (step_rel R) (vcb_step cb f i vl r a) (vcb_step cb' f i vl r b)"
proof (cases f)
  case (Cons c f')
  then have "f \<noteq> []" by simp
  show ?thesis
  proof (cases "c \<noteq> 37 \<or> i")
    case True
    then show ?thesis
      using Cons emit_sim [OF assms(1), of "[c]"] by (auto simp: vcb_step_def increment_result_sim split: prod.splits)
  next
    case False
    then have "shared \<or> peek (dropWhile spec_char (tl f)) \<notin> {115, 110}" using assms Cons by auto
    from conversion_sim [OF assms(1) this] show ?thesis using Cons False by (simp add: vcb_step_def)
  qed
qed (simp add: vcb_step_def assms)

lemma loop_sim:
  "R a b \<Longrightarrow> shared \<or> memory_free f \<Longrightarrow> related (vcb_loop cb f i vl r a) (vcb_loop cb' f i vl r b)"
proof (induction "2 * length f + (if i then 0 else 1)" arbitrary: f i vl r a b rule: less_induct)
  case less
  from step_sim [OF less.prems, of i vl r] show ?case
  proof (cases rule: option.rel_cases)
    case None
    then show ?thesis by (simp add: vcb_loop.simps [of _ f i])
  next
    case (Some x y)
    show ?thesis
    proof (cases x)
      case (Return r' a')
      then show ?thesis using Some by (cases y) (simp_all add: vcb_loop.simps [of _ f i])
    next
      case (Continue f' i' vl' r' a')
      then obtain b' where y: "y = Continue f' i' vl' r' b'" and "R a' b'" using Some by (cases y) auto
      moreover have "vcb_step cb f i vl r a = Some (Continue f' i' vl' r' a')" using Some Continue by simp
      note next' = vcb_step_next [OF this]
      ultimately have "related (vcb_loop cb f' i' vl' r' a') (vcb_loop cb' f' i' vl' r' b')"
        using less.prems(2) by (intro less.hyps) auto
      then show ?thesis using Some Continue y by (simp add: vcb_loop.simps [of _ f i])
    qed
  qed
qed

end

section \<open>Sinks\<close>

text \<open>The reference sink collects the bytes it is given.\<close>

definition log_callback :: "byte list callback" where
  "log_callback s st = (of_nat (length s), st\<lparr>pparam := pparam st @ s\<rparr>)"

definition with_param :: "'p pstate \<Rightarrow> 'q \<Rightarrow> 'q pstate" where
  "with_param st p = \<lparr>pmem = pmem st, perrno = perrno st, pparam = p\<rparr>"

lemma with_param_simps [simp]:
  "pmem (with_param st p) = pmem st" "perrno (with_param st p) = perrno st" "pparam (with_param st p) = p"
  by (simp_all add: with_param_def)

text \<open>
  A sink takes every byte and keeps them in the object of the callback only; \<open>put\<close> says what
  becomes of that object.
\<close>

locale sink =
  fixes cb :: "'p callback" and put :: "byte list \<Rightarrow> 'p \<Rightarrow> 'p"
  assumes accepts: "cb bs st = (of_nat (length bs), st\<lparr>pparam := put bs (pparam st)\<rparr>)"
    and put_Nil: "put [] p = p"
    and put_append: "put (as @ bs) p = put bs (put as p)"
begin

definition sink_rel :: "'p \<Rightarrow> 'p pstate \<Rightarrow> byte list pstate \<Rightarrow> bool" where
  "sink_rel p a b \<longleftrightarrow> pmem a = pmem b \<and> perrno a = perrno b \<and> pparam a = put (pparam b) p"

end

sublocale sink \<subseteq> sink_log: callback_simulation cb log_callback "sink_rel p" True for p
  by unfold_locales (auto simp: sink_rel_def accepts log_callback_def put_append)

context sink
begin

lemma loop_log:
  "vcb_loop cb f i vl r st =
     map_option (\<lambda>(n, st'). (n, with_param st' (put (pparam st') (pparam st))))
       (vcb_loop log_callback f i vl r (with_param st []))"
proof -
  have "sink_rel (pparam st) st (with_param st [])" by (simp add: sink_rel_def put_Nil)
  from sink_log.loop_sim [OF this, of f i vl r] show ?thesis
    by (auto simp: sink_rel_def elim!: option.rel_cases intro: pstate.equality)
qed

end

interpretation noop: sink noop_callback "\<lambda>_ p. p"
  by unfold_locales (simp_all add: noop_callback_def)

interpretation log: sink log_callback "\<lambda>bs p. p @ bs"
  by unfold_locales (simp_all add: log_callback_def)

section \<open>What a sink gets\<close>

definition string_field :: "byte list \<Rightarrow> int \<Rightarrow> u32 \<Rightarrow> byte list" where
  "string_field s w f =
     (let fill = replicate (nat (w - int (length s))) 32
      in if has_flag f FLAG_LEFT_JUSTIFIED then s @ fill else fill @ s)"

context sink
begin

lemma emit_sink [simp]: "emit cb s st = (True, st\<lparr>pparam := put s (pparam st)\<rparr>)"
  by (simp add: emit_def accepts)

lemma emit_all_sink [simp]: "emit_all cb ps st = (True, st\<lparr>pparam := put (concat ps) (pparam st)\<rparr>)"
  by (induction ps arbitrary: st) (simp_all add: put_append put_Nil)

lemma printInteger_sink:
  assumes "0 \<le> p" "p < 2 ^ 31"
  shows "printInteger cb s x w p f st =
    Some (if int (length (integer_unpadded s x p f)) < 2 ^ 31
          then (int (length (integer_field s x w p f)), st\<lparr>pparam := put (integer_field s x w p f) (pparam st)\<rparr>)
          else (- 1, st\<lparr>perrno := EOVERFLOW\<rparr>))"
  using integer_plan_field [OF assms, of s x w f] by (auto simp: printInteger_def)

lemma printString_sink:
  "printString cb s w f st =
     (int (length (string_field s w f)), st\<lparr>pparam := put (string_field s w f) (pparam st)\<rparr>)"
  by (auto simp: printString_def string_field_def concat_pad Let_def)

end

lemma wrap32_range: "- (2 ^ 31) \<le> wrap32 x" "wrap32 x < 2 ^ 31"
  by (simp_all add: wrap32_def)

lemma parse_number_range: "n < 2 ^ 31 \<Longrightarrow> fst (parse_number f n) < 2 ^ 31"
  by (induction f n rule: parse_number.induct) (auto intro: wrap32_range [simplified])

lemma parse_precision_range:
  assumes "parse_precision f vl = Some (p, f', vl')"
  shows "p < 2 ^ 31"
proof -
  have "sint (x :: u32) < 2 ^ 31" for x using sint_less [of x] by simp
  then show ?thesis
    using assms parse_number_range [of 0 "tl f"]
    by (auto simp: parse_precision_def Let_def bind_eq_Some_conv split: if_splits prod.splits)
qed

text \<open>Every step adds to \<open>result\<close> the number of bytes it has emitted, or ends with \<open>-1\<close>.\<close>

fun accounts :: "int \<Rightarrow> byte list vcb_outcome \<Rightarrow> bool" where
  "accounts k (Return r st) \<longleftrightarrow> r = - 1 \<or> int (length (pparam st)) - r = k \<and> r < 2 ^ 31"
| "accounts k (Continue f i vl r st) \<longleftrightarrow> int (length (pparam st)) - r = k \<and> r < 2 ^ 31"

lemma increment_result_accounts:
  "int (length (pparam st)) - (r + x) = k \<Longrightarrow> accounts k (increment_result r x f i vl st)"
  by (auto simp: increment_result_def add_overflow_def split: if_splits)

lemma count_written_accounts:
  "fst w < 0 \<or> int (length (pparam (snd w))) - (r + fst w) = k \<Longrightarrow> accounts k (count_written r f vl w)"
  by (cases w) (auto simp: count_written_def increment_result_accounts)

lemma vcb_conversion_accounts:
  assumes "vcb_conversion log_callback f vl r st = Some step" "r < 2 ^ 31"
  shows "accounts (int (length (pparam st)) - r) step"
proof -
  obtain fl f1 where 1: "parse_flags (tl f) 0 = (fl, f1)" by fastforce
  from assms(1) 1 obtain w fl2 f2 vl2 where 2: "parse_width f1 fl vl = Some (w, fl2, f2, vl2)"
    by (auto simp: vcb_conversion_def bind_eq_Some_conv)
  from assms(1) 1 2 obtain p f3 vl3 where 3: "parse_precision f2 vl2 = Some (p, f3, vl3)"
    by (auto simp: vcb_conversion_def bind_eq_Some_conv)
  obtain len f4 where 4: "parse_length f3 LENGTH_INT = (len, f4)" by fastforce
  show ?thesis
    using assms 1 2 3 4 parse_precision_range [OF 3]
    by (auto simp: vcb_conversion_def bind_eq_Some_conv Let_def log.printInteger_sink log.printString_sink
        split: if_splits prod.splits intro!: count_written_accounts increment_result_accounts)
qed

lemma vcb_loop_accounts:
  "vcb_loop log_callback f i vl r st = Some (n, st') \<Longrightarrow> r < 2 ^ 31 \<Longrightarrow>
     n = - 1 \<or> int (length (pparam st')) - n = int (length (pparam st)) - r \<and> n < 2 ^ 31"
proof (induction "log_callback :: byte list callback" f i vl r st rule: vcb_loop.induct)
  case (1 f i vl r st)
  then obtain step where step: "vcb_step log_callback f i vl r st = Some step"
    by (auto simp: vcb_loop.simps [of _ f i] split: option.splits)
  have "accounts (int (length (pparam st)) - r) step"
    using step vcb_conversion_accounts [of f vl r st] 1(3)
    by (auto simp: vcb_step_def split: if_splits intro!: increment_result_accounts)
  then show ?case
    using 1 step by (cases step) (auto simp: vcb_loop.simps [of _ f i])
qed

section \<open>Termination with enough arguments\<close>

text \<open>One conversion takes at most four slots: width, precision and a 64-bit argument.\<close>

lemma va_arg_int_Some: "vl \<noteq> [] \<Longrightarrow> va_arg_int vl = Some (hd vl, tl vl)"
  by (cases vl) auto

lemma va_arg_long_long_Some:
  "2 \<le> length vl \<Longrightarrow> \<exists>x. va_arg_long_long vl = Some (x, drop 2 vl)"
  by (cases vl rule: va_arg_long_long.cases) auto

lemma fetch_enough:
  assumes "2 \<le> length vl"
  shows "\<exists>x vl'. fetch_signed l vl = Some (x, vl') \<and> length vl \<le> length vl' + 2"
    and "\<exists>x vl'. fetch_unsigned l vl = Some (x, vl') \<and> length vl \<le> length vl' + 2"
proof -
  have "vl \<noteq> []" using assms by auto
  then show "\<exists>x vl'. fetch_signed l vl = Some (x, vl') \<and> length vl \<le> length vl' + 2"
    "\<exists>x vl'. fetch_unsigned l vl = Some (x, vl') \<and> length vl \<le> length vl' + 2"
    using va_arg_long_long_Some [OF assms]
    by (cases l; auto simp: fetch_signed_def fetch_unsigned_def va_arg_int_Some)+
qed

lemma parse_width_enough:
  "vl \<noteq> [] \<Longrightarrow> \<exists>w fl' f' vl'. parse_width f fl vl = Some (w, fl', f', vl') \<and> length vl \<le> length vl' + 1"
  by (auto simp: parse_width_def va_arg_int_Some split: prod.splits)

lemma parse_precision_enough:
  "vl \<noteq> [] \<Longrightarrow> \<exists>p f' vl'. parse_precision f vl = Some (p, f', vl') \<and> length vl \<le> length vl' + 1"
  by (auto simp: parse_precision_def Let_def va_arg_int_Some split: prod.splits)

fun remaining :: "'p vcb_outcome \<Rightarrow> va_list option" where
  "remaining (Return r st) = None"
| "remaining (Continue f i vl r st) = Some vl"

lemma remaining_increment: "remaining (increment_result r x f i vl st) = Some vl' \<Longrightarrow> vl' = vl"
  by (auto simp: increment_result_def split: option.splits)

lemma remaining_count: "remaining (count_written r f vl w) = Some vl' \<Longrightarrow> vl' = vl"
  by (cases w) (auto simp: count_written_def increment_result_def split: option.splits if_splits)

lemma printInteger_returns:
  assumes "0 \<le> p" "p < 2 ^ 31"
  shows "\<exists>res. printInteger cb s x w p f st = Some res"
  using integer_plan_field [OF assms, of s x w f] by (auto simp: printInteger_def)

lemma vcb_conversion_enough:
  assumes "4 \<le> length vl" "peek (dropWhile spec_char (tl f)) \<notin> {115, 110}"
  shows "\<exists>step. vcb_conversion cb f vl r st = Some step \<and>
           (\<forall>vl'. remaining step = Some vl' \<longrightarrow> length vl \<le> length vl' + 4)"
proof -
  obtain fl f1 where 1: "parse_flags (tl f) 0 = (fl, f1)" by fastforce
  have "vl \<noteq> []" using assms(1) by auto
  then obtain w fl2 f2 vl2 where 2: "parse_width f1 fl vl = Some (w, fl2, f2, vl2)" "length vl \<le> length vl2 + 1"
    using parse_width_enough by blast
  then have "vl2 \<noteq> []" using assms(1) by auto
  then obtain p f3 vl3 where 3: "parse_precision f2 vl2 = Some (p, f3, vl3)" "length vl2 \<le> length vl3 + 1"
    using parse_precision_enough by blast
  obtain len f4 where 4: "parse_length f3 LENGTH_INT = (len, f4)" by fastforce
  have "2 \<le> length vl3" "vl3 \<noteq> []" "length vl \<le> length (tl vl3) + 4" using 2(2) 3(2) assms(1) by auto
  note args = this fetch_enough [OF this(1), of len]
  have spec: "peek f4 \<notin> {115, 110}"
    using assms(2) spec_rest_dropWhile [OF parse_specification_rest [OF 1 2(1) 3(1) 4]] by auto
  define q where "q = (if p < 0 then 1 else p)"
  have "0 \<le> q" "q < 2 ^ 31" using parse_precision_range [OF 3(1)] by (auto simp: q_def)
  then have print: "\<exists>res. printInteger cb s x w q fl st = Some res" "\<exists>res. printInteger cb s x w 1 fl st = Some res"
    for s x w fl st using printInteger_returns [of q] printInteger_returns [of 1] by simp_all
  note spec_simps = vcb_conversion_def 1 2(1) 3(1) 4 Let_def va_arg_int_Some [OF args(2)]
  show ?thesis
  proof (cases "peek f4 \<in> {100, 105, 111, 117, 120, 88}")
    case True
    obtain x vl4 where x: "(if peek f4 \<in> {100, 105} then fetch_signed len vl3 else fetch_unsigned len vl3) = Some (x, vl4)"
      "length vl3 \<le> length vl4 + 2"
      using args(4,5) by (cases "peek f4 \<in> {100, 105}") auto
    obtain res where "printInteger cb (peek f4) x w q (if p < 0 then fl2 else fl2 AND NOT FLAG_LEADING_ZEROS) st = Some res"
      using print(1) by blast
    then show ?thesis
      using x True 2(2) 3(2) by (auto simp: spec_simps q_def [symmetric] dest!: remaining_count)
  next
    case False
    obtain res where "printInteger cb 120 (ucast (hd vl3)) 0 1 FLAG_ALTERNATIVE st = Some res"
      using print(2) by blast
    then show ?thesis
      using False spec args(3) 2(2) 3(2)
      by (auto simp: spec_simps split: prod.splits dest!: remaining_count remaining_increment)
  qed
qed

text \<open>The number of slots a format can need: four for each percent sign.\<close>

definition slots_needed :: "byte list \<Rightarrow> bool \<Rightarrow> nat" where
  "slots_needed f invalid = (if invalid then 0 else 4 * count_list f 37)"

lemma count_list_spec_rest: "spec_rest f g \<Longrightarrow> count_list (tl g) c \<le> count_list f c"
  by (cases g) (auto simp: spec_rest_def)

lemma vcb_step_enough:
  assumes "memory_free f" "slots_needed f i \<le> length vl"
  shows "\<exists>step. vcb_step cb f i vl r st = Some step \<and>
    (\<forall>f' i' vl' r' st'. step = Continue f' i' vl' r' st' \<longrightarrow> slots_needed f' i' \<le> length vl')"
proof (cases "f = [] \<or> peek f \<noteq> 37 \<or> i")
  case True
  then show ?thesis
    using assms(2) by (cases f) (auto simp: vcb_step_def increment_result_Continue slots_needed_def split: prod.splits)
next
  case False
  then obtain g where f: "f = 37 # g" "\<not> i" by (cases f) auto
  then have "4 \<le> length vl" using assms(2) by (simp add: slots_needed_def)
  from vcb_conversion_enough [OF this, of f cb r st] obtain step where
    step: "vcb_conversion cb f vl r st = Some step"
      "\<forall>vl'. remaining step = Some vl' \<longrightarrow> length vl \<le> length vl' + 4"
    using assms(1) f by auto
  have "slots_needed f' i' \<le> length vl'" if "step = Continue f' i' vl' r' st'" for f' i' vl' r' st'
    using vcb_conversion_next [OF step(1) [unfolded that]] step(2) that assms(2) f
      count_list_spec_rest [of g _ 37]
    by (fastforce simp: slots_needed_def)
  then show ?thesis using step f by (auto simp: vcb_step_def)
qed

lemma vcb_loop_returns:
  "memory_free f \<Longrightarrow> slots_needed f i \<le> length vl \<Longrightarrow> \<exists>res. vcb_loop cb f i vl r st = Some res"
proof (induction cb f i vl r st rule: vcb_loop.induct)
  case (1 cb f i vl r st)
  from vcb_step_enough [OF 1(2,3), of cb r st] obtain step where
    step: "vcb_step cb f i vl r st = Some step"
      "\<forall>f' i' vl' r' st'. step = Continue f' i' vl' r' st' \<longrightarrow> slots_needed f' i' \<le> length vl'" by blast
  show ?case
  proof (cases step)
    case (Continue f' i' vl' r' st')
    then have "memory_free f'" using vcb_step_next(2) 1(2) step(1) by blast
    then show ?thesis using 1(1) step Continue by (simp add: vcb_loop.simps [of _ f i])
  qed (use step in \<open>simp add: vcb_loop.simps [of _ f i]\<close>)
qed

section \<open>The memory sink of \<open>vsprintf\<close>\<close>

definition store_bytes :: "byte list \<Rightarrow> addr \<times> mem \<Rightarrow> addr \<times> mem" where
  "store_bytes s = fold (\<lambda>c (buffer, m). (buffer + 1, m(buffer := c))) s"

lemma store_bytes_eq:
  "length s < 2 ^ 32 \<Longrightarrow> store_bytes s (p, m) = (p + of_nat (length s), mem_write m p s)"
  by (induction s arbitrary: p m) (simp_all add: store_bytes_def mem_write_Cons add.assoc)

lemma store_bytes_append: "store_bytes (s @ t) x = store_bytes t (store_bytes s x)"
  by (simp add: store_bytes_def)

definition vsprintf_rel :: "mem \<Rightarrow> addr \<Rightarrow> addr pstate \<Rightarrow> byte list pstate \<Rightarrow> bool" where
  "vsprintf_rel m s a b \<longleftrightarrow> perrno a = perrno b \<and> (pparam a, pmem a) = store_bytes (pparam b) (s, m)"

lemma vsprintf_callback_store:
  "vsprintf_callback bs st =
     (let (p, m) = store_bytes bs (pparam st, pmem st) in (of_nat (length bs), st\<lparr>pmem := m, pparam := p\<rparr>))"
  by (simp add: vsprintf_callback_def store_bytes_def)

interpretation vsprintf_log: callback_simulation vsprintf_callback log_callback "vsprintf_rel m s" False for m s
  by unfold_locales
     (auto simp: vsprintf_rel_def vsprintf_callback_store log_callback_def store_bytes_append split: prod.splits)

lemma vcbprintf_log_result:
  assumes "vcbprintf (Some log_callback) f vl st = Some (n, st')" "pparam st = []"
  shows "n = - 1 \<or> n = int (length (pparam st')) \<and> length (pparam st') < 2 ^ 31"
  using vcb_loop_accounts [of f False vl 0 st n st'] assms by (auto simp: vcbprintf_def)

section \<open>Reading the digits back\<close>

lemma less_16_cases: "(\<forall>d < (16 :: nat). P d) \<longleftrightarrow> (\<forall>d \<in> set [0..<16]. P d)"
  by auto

lemma getDigitValue_digits:
  assumes "d < 16"
  shows "getDigitValue t (bytes ''0123456789abcdef'' ! d) = int d"
    and "getDigitValue t (bytes ''0123456789ABCDEF'' ! d) = int d"
proof -
  have "\<forall>d < 16. getDigitValue t (bytes ''0123456789abcdef'' ! d) = int d"
    unfolding less_16_cases by (simp add: upt_conv_Cons bytes_def getDigitValue_def)
  moreover have "\<forall>d < 16. getDigitValue t (bytes ''0123456789ABCDEF'' ! d) = int d"
    unfolding less_16_cases by (simp add: upt_conv_Cons bytes_def getDigitValue_def)
  ultimately show "getDigitValue t (bytes ''0123456789abcdef'' ! d) = int d"
    "getDigitValue t (bytes ''0123456789ABCDEF'' ! d) = int d" using assms by auto
qed

lemma getDigitValue_integer_digits:
  "map (getDigitValue t) (integer_digits s x) = map int (radix_digits (integer_base s) (integer_magnitude s x))"
proof -
  have "d < 16" if "d \<in> set (radix_digits (integer_base s) (integer_magnitude s x))" for d
    using radix_digits_less [OF that] by (auto simp: integer_base_def split: if_splits)
  then show ?thesis by (cases "s = 88") (simp_all add: integer_digits_def getDigitValue_digits del: bytes_simps)
qed

lemma integer_digits_value:
  "digits_value t (int (integer_base s)) 0 (integer_digits s x) = int (integer_magnitude s x)"
proof -
  let ?b = "integer_base s" and ?ds = "radix_digits (integer_base s) (integer_magnitude s x)"
  have "foldl (\<lambda>v c. v * b + getDigitValue t c) v cs = foldl (\<lambda>v d. v * b + d) v (map (getDigitValue t) cs)" for v b cs
    by (induction cs arbitrary: v) simp_all
  then have "digits_value t (int ?b) 0 (integer_digits s x) = foldl (\<lambda>v d. v * int ?b + d) 0 (map int ?ds)"
    by (simp only: digits_value_def getDigitValue_integer_digits)
  also have "\<dots> = int (foldl (\<lambda>v d. v * ?b + d) 0 ?ds)"
  proof -
    have "foldl (\<lambda>v d. v * int b + d) (int v) (map int ds) = int (foldl (\<lambda>v d. v * b + d) v ds)" for v b ds
      by (induction ds arbitrary: v) (simp_all flip: of_nat_mult of_nat_add)
    from this [where v = 0] show ?thesis by simp
  qed
  also have "\<dots> = int (integer_magnitude s x)" by (simp add: radix_digits_value integer_base_def)
  finally show ?thesis .
qed

lemma integer_digits_is_digits: "is_digits t (int (integer_base s)) (integer_digits s x)"
proof -
  have "getDigitValue t c \<in> set (map int (radix_digits (integer_base s) (integer_magnitude s x)))"
    if "c \<in> set (integer_digits s x)" for c
    using that getDigitValue_integer_digits [of t s x] by (metis image_eqI list.set_map)
  then show ?thesis using radix_digits_less by (fastforce simp: is_digits_def)
qed

section \<open>Properties\<close>

text \<open>
  \<open>printInteger\<close>, on any callback that takes all its bytes, emits exactly the field that
  sign, radix prefix, precision, width and flags describe, with the digits of the number in the
  base of the conversion, and returns the length of the field; if the length without padding does
  not fit an \<open>int\<close> it emits nothing and fails with \<open>EOVERFLOW\<close>.
\<close>

theorem printInteger_prints:
  assumes "sink callback put" "0 \<le> precision" "precision < 2 ^ 31"
  shows "printInteger callback specifier x fieldWidth precision flags st =
    Some (if int (length (integer_unpadded specifier x precision flags)) < 2 ^ 31
          then (int (length (integer_field specifier x fieldWidth precision flags)),
                st\<lparr>pparam := put (integer_field specifier x fieldWidth precision flags) (pparam st)\<rparr>)
          else (- 1, st\<lparr>perrno := EOVERFLOW\<rparr>))"
  using assms(2,3) by (rule sink.printInteger_sink [OF assms(1)])

theorem printInteger_prints_witness:
  "printInteger log_callback 120 48879 8 6 (FLAG_ALTERNATIVE OR FLAG_LEFT_JUSTIFIED)
     \<lparr>pmem = (\<lambda>_. 0), perrno = 0, pparam = []\<rparr> =
   Some (8, \<lparr>pmem = (\<lambda>_. 0), perrno = 0, pparam = bytes ''0x00beef''\<rparr>)"
proof -
  have "radix_digits 16 48879 = [11, 14, 14, 15]" by (simp add: radix_digits_pos)
  then have "integer_digits 120 48879 = bytes ''beef''"
    by (simp add: integer_digits_def integer_base_def integer_magnitude_def bytes_def)
  moreover have "integer_sign 120 48879 f = []" for f by (simp add: integer_sign_def)
  moreover have "replicate 2 c = [c, c]" for c :: byte by (simp add: numeral_2_eq_2)
  ultimately have "integer_field 120 48879 8 6 (FLAG_ALTERNATIVE OR FLAG_LEFT_JUSTIFIED) = bytes ''0x00beef''"
    "integer_unpadded 120 48879 6 (FLAG_ALTERNATIVE OR FLAG_LEFT_JUSTIFIED) = bytes ''0x00beef''"
    by (simp_all add: integer_field_def integer_unpadded_def integer_radix_def integer_number_def
        has_flag_def FLAG_defs bytes_def Let_def)
  then show ?thesis
    using printInteger_prints [OF log.sink_axioms, of 6 120 48879 8 "FLAG_ALTERNATIVE OR FLAG_LEFT_JUSTIFIED"
        "\<lparr>pmem = (\<lambda>_. 0), perrno = 0, pparam = []\<rparr>"]
    by (simp add: bytes_def)
qed

text \<open>
  Whatever the callback does with the bytes, as long as it takes them all, \<open>vcbprintf\<close> hands it
  one and the same output: the call returns \<open>-1\<close> or the number of bytes handed over, and a call
  with no callback at all returns the same value and leaves the same \<open>errno\<close> and memory.
\<close>

theorem vcbprintf_counts:
  assumes "sink callback put" "vcbprintf (Some callback) format vl st = Some (result, st')"
  shows "\<exists>out. st' = with_param st' (put out (pparam st)) \<and>
      (result = - 1 \<or> result = int (length out)) \<and>
      vcbprintf None format vl st = Some (result, with_param st' (pparam st))"
proof -
  note loops = sink.loop_log [OF assms(1)] noop.loop_log
  obtain st'' where st'': "vcbprintf (Some log_callback) format vl (with_param st []) = Some (result, st'')"
    "st' = with_param st'' (put (pparam st'') (pparam st))"
    using assms(2) loops(1) [of format False vl 0 st] by (auto simp: vcbprintf_def)
  moreover have "vcbprintf None format vl st = Some (result, with_param st'' (pparam st))"
    using st''(1) loops(2) [of format False vl 0 st] by (auto simp: vcbprintf_def)
  ultimately show ?thesis
    using vcbprintf_log_result [OF st''(1)] by (intro exI [of _ "pparam st''"]) (auto simp: with_param_def)
qed

theorem vcbprintf_counts_witness:
  "map_option fst (vcbprintf None (bytes ''[%5c]'') [65] \<lparr>pmem = (\<lambda>_. 0), perrno = 0, pparam = [] :: byte list\<rparr>) = Some 7"
proof -
  let ?st = "\<lparr>pmem = (\<lambda>_. 0), perrno = 0, pparam = []\<rparr>"
  have "map_option fst (vcbprintf (Some log_callback) (bytes ''[%5c]'') [65] ?st) = Some 7"
    by code_simp
  then obtain st' where "vcbprintf (Some log_callback) (bytes ''[%5c]'') [65] ?st = Some (7, st')" by auto
  from vcbprintf_counts [OF log.sink_axioms this] show ?thesis by auto
qed



lemma unat_ucast_u64: "unat (ucast (v :: u32) :: u64) = unat v"
  using unat_less_2p32 [of v] by (simp add: unsigned_ucast_eq take_bit_nat_eq_self_iff less_trans [of _ "2 ^ 32"])

lemma getDigitValue_x: "c \<in> {120, 88} \<Longrightarrow> getDigitValue t c = 33"
  by (auto simp: getDigitValue_def)

lemma is_digits_not_x: "is_digits t b cs \<Longrightarrow> b \<le> 16 \<Longrightarrow> peek (tl cs) \<notin> {120, 88}"
  using getDigitValue_x [of "peek (tl cs)" t]
  by (cases cs rule: remdups_adj.cases) (auto simp: is_digits_def)

lemma vcbprintf_unsigned:
  assumes "c \<in> {117, 111, 120, 88}"
  shows "vcbprintf (Some log_callback) [37, c] [v] st =
    Some (int (length (integer_field c (ucast v) 0 1 0)), st\<lparr>pparam := pparam st @ integer_field c (ucast v) 0 1 0\<rparr>)"
proof -
  let ?f = "integer_field c (ucast v) 0 1 0"
  have "length (integer_unpadded c (ucast v) 1 0) \<le> 22"
    using assms integer_digits_length [of c "ucast v"]
    by (auto simp: integer_unpadded_def integer_sign_def integer_radix_def integer_number_def has_flag_def Let_def)
  then have small: "length (integer_unpadded c (ucast v) 1 0) < 2147483648" "length ?f < 2147483648"
    using length_integer_field [of c "ucast v" 0 1 0] by simp_all
  have parse: "parse_flags [c] 0 = (0, [c])" "parse_number [c] 0 = (0, [c])" "parse_length [c] LENGTH_INT = (LENGTH_INT, [c])"
    "c \<noteq> 42" "c \<noteq> 46" "c \<notin> {100, 105}" "c \<in> {100, 105, 111, 117, 120, 88}"
    using assms by auto
  then have "vcb_conversion log_callback [37, c] [v] 0 st =
      Some (Continue [] False [] (int (length ?f)) (st\<lparr>pparam := pparam st @ ?f\<rparr>))"
    using small assms log.printInteger_sink [of 1 c "ucast v" 0 0 st]
    by (simp add: vcb_conversion_def parse_width_def parse_precision_def fetch_unsigned_def count_written_def
        increment_result_def add_overflow_def del: insert_iff parse_flags.simps parse_number.simps parse_length.simps)
  then show ?thesis
    by (simp add: vcbprintf_def vcb_loop.simps [of _ "[37, c]"] vcb_loop.simps [of _ "[]"] vcb_step_def)
qed

lemma unsigned_field:
  assumes "c \<in> {117, 111, 120, 88}"
  shows "integer_field c x 0 1 0 = (if x = 0 then [48] else integer_digits c x)"
    and "integer_field c x 0 1 0 \<noteq> []"
proof -
  have "integer_magnitude c x = unat x" "2 \<le> integer_base c"
    using assms by (auto simp: integer_magnitude_def integer_base_def)
  then have "integer_digits c x = [] \<longleftrightarrow> x = 0"
    by (simp add: integer_digits_def radix_digits_Nil_iff unat_eq_0)
  then show "integer_field c x 0 1 0 = (if x = 0 then [48] else integer_digits c x)"
    "integer_field c x 0 1 0 \<noteq> []"
    using assms by (cases "integer_digits c x";
      auto simp: integer_field_def integer_sign_def integer_radix_def integer_number_def has_flag_def Let_def)+
qed





text \<open>
  \<open>convert_integer\<close> in base 8, 10 or 16 writes the digits of a non-zero number to the first
  bytes of the buffer, at most 22 of them, and nothing else; for the number 0 it returns length 0
  and writes one byte in front of the buffer.
\<close>

theorem convert_integer_bounds:
  fixes x :: u64
  assumes "base \<in> {8, 10, 16}"
  shows "\<exists>buffer'. convert_integer buffer x base digits =
      Some (int (length (radix_digits (unat base) (unat x))), buffer') \<and>
    length (radix_digits (unat base) (unat x)) \<le> 22 \<and>
    (if x = 0 then buffer' = buffer(- 1 := digits ! 0)
     else (\<forall>k. buffer' k = (if k \<in> {0..<int (length (radix_digits (unat base) (unat x)))}
                then digits ! (radix_digits (unat base) (unat x) ! nat k) else buffer k)))"
proof -
  let ?ds = "radix_digits (unat base) (unat x)"
  have base: "2 \<le> unat base" using assms by auto
  have "unat x < unat base ^ 22" using unat_less_2p64 [of x] assms by auto
  then have "length ?ds \<le> 22" by (rule radix_digits_length [OF base])
  show ?thesis
  proof (rule convert_integer_eq [OF base, of buffer x digits])
    fix buffer'
    assume buf: "convert_integer buffer x base digits = Some (int (length ?ds), buffer')"
      "map buffer' [0..int (length ?ds) - 1] = map ((!) digits) ?ds"
      "\<And>k. x \<noteq> 0 \<Longrightarrow> k \<notin> {0..<int (length ?ds)} \<Longrightarrow> buffer' k = buffer k"
      "x = 0 \<Longrightarrow> buffer' = buffer(- 1 := digits ! 0)"
    have "buffer' k = digits ! (?ds ! nat k)" if "k \<in> {0..<int (length ?ds)}" for k
    proof -
      have "nat k < length ?ds" "0 + int (nat k) = k" using that by auto
      then show ?thesis using arg_cong [OF buf(2), of "\<lambda>xs. xs ! nat k"] that by (simp add: nth_upto)
    qed
    then show ?thesis
      using buf(3,4) \<open>length ?ds \<le> 22\<close> unfolding buf(1)
      by (intro exI [of _ buffer'] conjI refl) (assumption, simp only: split: if_split, blast)
  qed
qed

theorem convert_integer_bounds_witness:
  "convert_integer (\<lambda>_. 170) 0 10 (bytes ''0123456789abcdef'') = Some (0, (\<lambda>_. 170)(- 1 := 48))"
  using convert_integer_bounds [of 10 "\<lambda>_. 170" 0 "bytes ''0123456789abcdef''"] by simp

end
