(* ===== verification/Libc_Env.thy ===== *)
theory Libc_Env
  imports Inwox_Prelude Libc_Errno
begin

text \<open>
  The environment of a program: \<open>getenv.c\<close>, \<open>setenv.c\<close> and \<open>unsetenv.c\<close> of \<open>libc/src/stdlib\<close>.
  \<open>environ\<close> is a null pointer, an array that the program was started with or has set itself, or the
  array that the library has allocated, \<open>__mallocedEnviron\<close>.  An array is the list of its strings in
  front of the null pointer.  \<open>gives n\<close> says whether \<open>malloc\<close> gives a block of \<open>n\<close> bytes.  \<open>None\<close> is
  an access outside of an array, a loop that does not end, or an array with a null pointer in its
  middle, which \<open>reset_environ\<close> leaves when \<open>strdup\<close> gets no memory.
\<close>

section \<open>Definitions\<close>

datatype environ_ptr = Null_environ | Program_environ "byte list list" | Malloced_environ

record env =
  environ :: environ_ptr
  mallocedEnviron :: "byte list list option"
  environLength :: nat
  environSize :: nat
  env_errno :: int

definition env_strings :: "env \<Rightarrow> byte list list" where
  "env_strings e =
     (case environ e of
        Null_environ \<Rightarrow> []
      | Program_environ xs \<Rightarrow> xs
      | Malloced_environ \<Rightarrow> (case mallocedEnviron e of Some xs \<Rightarrow> xs | None \<Rightarrow> []))"

text \<open>The name in an entry, up to \<open>=\<close>, whose length is what \<open>strcspn\<close> gives.\<close>

definition entry_name :: "byte list \<Rightarrow> byte list" where
  "entry_name s = takeWhile (\<lambda>c. c \<noteq> 61) s"

text \<open>The value behind \<open>=\<close>; an entry without \<open>=\<close> gives a pointer behind its end.\<close>

fun getenv_loop :: "byte list \<Rightarrow> byte list list \<Rightarrow> byte list option option" where
  "getenv_loop name [] = Some None"
| "getenv_loop name (s # envp) =
     (if entry_name s = name
      then if 61 \<in> set s then Some (Some (drop (length name + 1) s)) else None
      else getenv_loop name envp)"

definition getenv :: "byte list \<Rightarrow> env \<Rightarrow> byte list option option" where
  "getenv name e = (if environ e = Null_environ then None else getenv_loop name (env_strings e))"

text \<open>The loop over the old array frees its first string for ever, if it has one.\<close>

definition reset_environ :: "(nat \<Rightarrow> bool) \<Rightarrow> env \<Rightarrow> (bool \<times> env) option" where
  "reset_environ gives e =
     (case mallocedEnviron e of
        Some (_ # _) \<Rightarrow> None
      | _ \<Rightarrow>
          (let xs = env_strings e; allocationSize = (if length xs > 15 then length xs + 1 else 16) in
           if \<not> gives (4 * allocationSize) then Some (False, e\<lparr>mallocedEnviron := None\<rparr>)
           else if \<not> (\<forall>s \<in> set xs. gives (length s + 1)) then None
           else Some (True, e\<lparr>environLength := length xs, environSize := allocationSize,
                  mallocedEnviron := Some xs, environ := Malloced_environ\<rparr>)))"

fun find_entry :: "byte list \<Rightarrow> byte list list \<Rightarrow> nat option" where
  "find_entry name [] = None"
| "find_entry name (s # xs) = (if entry_name s = name then Some 0 else map_option Suc (find_entry name xs))"

definition new_entry :: "byte list \<Rightarrow> byte list \<Rightarrow> byte list" where
  "new_entry name val = name @ [61] @ val"

definition set_strings :: "byte list list \<Rightarrow> env \<Rightarrow> env" where
  "set_strings xs e = e\<lparr>mallocedEnviron := Some xs\<rparr>"

text \<open>The end of \<open>setenv\<close>: a longer array when it is full, then the new entry and the null pointer behind it.\<close>

definition append_entry :: "(nat \<Rightarrow> bool) \<Rightarrow> byte list \<Rightarrow> byte list \<Rightarrow> env \<Rightarrow> (int \<times> env) option" where
  "append_entry gives name val e =
     (let xs = env_strings e; full = (environLength e + 1 = environSize e) in
      if full \<and> environSize e * 8 \<ge> 2 ^ 32 then Some (- 1, e\<lparr>env_errno := ENOMEM\<rparr>)
      else if full \<and> \<not> gives (environSize e * 8) then Some (- 1, e)
      else
        let e = (if full then e\<lparr>environSize := environSize e * 2\<rparr> else e) in
        if \<not> gives (length name + length val + 2) then Some (- 1, e)
        else if length xs + 1 \<ge> environSize e then None
        else Some (0, (set_strings (xs @ [new_entry name val]) e)\<lparr>environLength := environLength e + 1\<rparr>))"

definition setenv :: "(nat \<Rightarrow> bool) \<Rightarrow> byte list \<Rightarrow> byte list \<Rightarrow> bool \<Rightarrow> env \<Rightarrow> (int \<times> env) option" where
  "setenv gives name val overwrite e =
     (if name = [] \<or> 61 \<in> set name then Some (- 1, e\<lparr>env_errno := EINVAL\<rparr>)
      else
        Option.bind (if environ e \<noteq> Malloced_environ then reset_environ gives e else Some (True, e)) (\<lambda>(ok, e).
          if \<not> ok then Some (- 1, e)
          else case find_entry name (env_strings e) of
                 Some i \<Rightarrow>
                   if \<not> overwrite then Some (0, e)
                   else if \<not> gives (length name + length val + 2) then Some (- 1, e)
                   else Some (0, set_strings ((env_strings e)[i := new_entry name val]) e)
               | None \<Rightarrow> append_entry gives name val e))"

text \<open>
  The loops of \<open>unsetenv\<close> at index \<open>i\<close>: the last entry moves to the place of the removed one, or in
  the program's array all entries behind it move by one; both go on behind that place.
\<close>

function unset_malloced :: "byte list \<Rightarrow> nat \<Rightarrow> byte list list \<Rightarrow> byte list list" where
  "unset_malloced name i xs =
     (if i < length xs
      then unset_malloced name (i + 1) (if entry_name (xs ! i) = name then butlast (xs[i := last xs]) else xs)
      else xs)"
  by pat_completeness auto
termination by (relation "measure (\<lambda>(name, i, xs). length xs - i)") auto

function unset_program :: "byte list \<Rightarrow> nat \<Rightarrow> byte list list \<Rightarrow> byte list list" where
  "unset_program name i xs =
     (if i < length xs
      then unset_program name (i + 1) (if entry_name (xs ! i) = name then take i xs @ drop (i + 1) xs else xs)
      else xs)"
  by pat_completeness auto
termination by (relation "measure (\<lambda>(name, i, xs). length xs - i)") auto

declare unset_malloced.simps [simp del] unset_program.simps [simp del]

definition unsetenv :: "byte list \<Rightarrow> env \<Rightarrow> int \<times> env" where
  "unsetenv name e =
     (if name = [] \<or> 61 \<in> set name then (- 1, e\<lparr>env_errno := EINVAL\<rparr>)
      else case environ e of
             Null_environ \<Rightarrow> (0, e)
           | Program_environ xs \<Rightarrow> (0, e\<lparr>environ := Program_environ (unset_program name 0 xs)\<rparr>)
           | Malloced_environ \<Rightarrow>
               (let xs = unset_malloced name 0 (env_strings e) in (0, (set_strings xs e)\<lparr>environLength := length xs\<rparr>)))"

section \<open>A map of names\<close>

text \<open>
  The environment stands for a map.  Its invariant: every entry has a \<open>=\<close>, no name is there twice,
  and the library's array has room for the null pointer.
\<close>

definition env_map :: "env \<Rightarrow> byte list \<Rightarrow> byte list option" where
  "env_map e = map_of (map (\<lambda>s. (entry_name s, drop (length (entry_name s) + 1) s)) (env_strings e))"

definition env_ok :: "env \<Rightarrow> bool" where
  "env_ok e \<longleftrightarrow> (\<forall>s \<in> set (env_strings e). 61 \<in> set s) \<and> distinct (map entry_name (env_strings e)) \<and>
     (if environ e = Malloced_environ
      then mallocedEnviron e \<noteq> None \<and> environLength e = length (env_strings e) \<and> environLength e < environSize e
      else mallocedEnviron e = None)"

lemma getenv_loop_map:
  "\<forall>s \<in> set xs. 61 \<in> set s \<Longrightarrow>
    getenv_loop name xs = Some (map_of (map (\<lambda>s. (entry_name s, drop (length (entry_name s) + 1) s)) xs) name)"
  by (induction xs) auto

lemma getenv_map: "env_ok e \<Longrightarrow> environ e \<noteq> Null_environ \<Longrightarrow> getenv name e = Some (env_map e name)"
  by (simp add: getenv_def env_ok_def env_map_def getenv_loop_map)

subsection \<open>Lists of entries\<close>

abbreviation pair :: "byte list \<Rightarrow> byte list \<times> byte list" where
  "pair s \<equiv> (entry_name s, drop (length (entry_name s) + 1) s)"

lemma new_entry_simps [simp]:
  "61 \<notin> set name \<Longrightarrow> entry_name (new_entry name val) = name" "61 \<in> set (new_entry name val)"
  "drop (Suc (length name)) (new_entry name val) = val"
  by (auto simp: entry_name_def new_entry_def takeWhile_append)

lemma find_entry_Some: "find_entry name xs = Some i \<Longrightarrow> i < length xs \<and> entry_name (xs ! i) = name"
  by (induction xs arbitrary: i) (auto split: if_splits)

lemma find_entry_None: "find_entry name xs = None \<longleftrightarrow> name \<notin> entry_name ` set xs"
  by (induction xs) auto

lemma map_of_replace:
  assumes "distinct (map entry_name xs)" "i < length xs" "entry_name (xs ! i) = entry_name s"
  shows "map_of (map pair (xs[i := s])) = (map_of (map pair xs))(entry_name s \<mapsto> snd (pair s))"
  using assms
proof (induction xs arbitrary: i)
  case (Cons x xs)
  show ?case
  proof (cases i)
    case (Suc j)
    with Cons have "entry_name x \<noteq> entry_name s" by (metis distinct.simps(2) length_map length_Cons list.simps(9)
          nth_Cons_Suc nth_map nth_mem Suc_less_eq)
    with Suc Cons show ?thesis by (auto simp: fun_eq_iff)
  qed (use Cons in \<open>auto simp: fun_eq_iff\<close>)
qed simp

lemma map_of_remove:
  assumes "distinct (map entry_name xs)" "s \<in> set xs" "mset ys = mset xs - {#s#}"
  shows "map_of (map pair ys) = (map_of (map pair xs))(entry_name s := None)" "distinct (map entry_name ys)"
    "set ys \<subseteq> set xs"
proof -
  have m: "mset xs = mset (s # ys)" using assms(2, 3) by simp
  have "mset (map entry_name xs) = mset (map entry_name (s # ys))" using m by (simp only: mset_map)
  then have d: "distinct (map entry_name (s # ys))" using assms(1) mset_eq_imp_distinct_iff by blast
  have fst: "map fst (map pair zs) = map entry_name zs" for zs by simp
  have "set (map pair xs) = set (map pair (s # ys))" using mset_eq_setD [OF m] by (simp only: set_map)
  then have "map_of (map pair xs) = map_of (map pair (s # ys))"
    by (subst map_of_inject_set) (simp_all only: fst assms(1) d)
  moreover have "map_of (map pair ys) (entry_name s) = None"
    using d by (auto simp: map_of_eq_None_iff image_iff)
  ultimately show "map_of (map pair ys) = (map_of (map pair xs))(entry_name s := None)"
    by (auto simp: fun_eq_iff)
  show "distinct (map entry_name ys)" using d by simp
  show "set ys \<subseteq> set xs" using mset_eq_setD [OF m] by auto
qed

lemma mset_shift_remove: "i < length xs \<Longrightarrow> mset (take i xs @ drop (i + 1) xs) = mset xs - {#xs ! i#}"
  by (subst (3) id_take_nth_drop [of i]) simp_all

text \<open>With distinct names either loop removes the one entry of that name.\<close>

lemma unset_none:
  assumes "name \<notin> entry_name ` set (drop i xs)"
  shows "unset_malloced name i xs = xs" "unset_program name i xs = xs"
proof -
  have step: "entry_name (xs ! i) \<noteq> name \<and> name \<notin> entry_name ` set (drop (i + 1) xs)"
    if "i < length xs" "name \<notin> entry_name ` set (drop i xs)" for i
    using that by (auto simp: Cons_nth_drop_Suc [symmetric])
  show "unset_malloced name i xs = xs"
    using assms
  proof (induction "length xs - i" arbitrary: i)
    case (Suc n)
    with step [of i] show ?case by (subst unset_malloced.simps) auto
  qed (subst unset_malloced.simps, simp)
  show "unset_program name i xs = xs"
    using assms
  proof (induction "length xs - i" arbitrary: i)
    case (Suc n)
    with step [of i] show ?case by (subst unset_program.simps) auto
  qed (subst unset_program.simps, simp)
qed

lemma unset_one:
  assumes d: "distinct (map entry_name xs)" and j: "j < length xs" "entry_name (xs ! j) = name" and i: "i \<le> j"
  shows "unset_malloced name i xs = butlast (xs[j := last xs])"
    and "unset_program name i xs = take j xs @ drop (j + 1) xs"
proof -
  have neq: "entry_name (xs ! i) \<noteq> name" if "i < j" for i
    using d j that nth_eq_iff_index_eq [OF d, of i j] by auto
  have gone: "name \<notin> entry_name ` set ys" if "mset ys = mset xs - {#xs ! j#}" for ys
  proof -
    have "mset xs = mset (xs ! j # ys)" using that j(1) by simp
    then have "mset (map entry_name xs) = mset (name # map entry_name ys)" using j(2) by (simp only: mset_map list.map mset.simps image_mset_add_mset)
    then have "distinct (name # map entry_name ys)" using d by (metis mset_eq_imp_distinct_iff)
    then show ?thesis by auto
  qed
  have sub: "entry_name ` set (drop k ys) \<subseteq> entry_name ` set ys" for k and ys :: "byte list list"
    by (intro image_mono set_drop_subset)
  have "name \<notin> entry_name ` set (drop k (butlast (xs[j := last xs])))" "name \<notin> entry_name ` set (drop k (take j xs @ drop (j + 1) xs))" for k
    using gone [OF mset_swap_remove [OF j(1)]] gone [OF mset_shift_remove [OF j(1)]] sub by blast+
  note stop = unset_none(1) [OF this(1)] unset_none(2) [OF this(2)]
  show "unset_malloced name i xs = butlast (xs[j := last xs])"
    using i
  proof (induction "j - i" arbitrary: i)
    case 0
    with j stop(1) show ?case by (subst unset_malloced.simps) simp
  next
    case (Suc n)
    with neq [of i] j show ?case by (subst unset_malloced.simps) simp
  qed
  show "unset_program name i xs = take j xs @ drop (j + 1) xs"
    using i
  proof (induction "j - i" arbitrary: i)
    case 0
    with j stop(2) show ?case by (subst unset_program.simps) simp
  next
    case (Suc n)
    with neq [of i] j show ?case by (subst unset_program.simps) simp
  qed
qed

subsection \<open>Setting and unsetting\<close>

lemma env_strings_set [simp]: "environ e = Malloced_environ \<Longrightarrow> env_strings (set_strings xs e) = xs"
  by (simp add: env_strings_def set_strings_def)

lemma reset_environ_ok:
  assumes "env_ok e" "environ e \<noteq> Malloced_environ" "\<forall>n. gives n"
  shows "\<exists>e'. reset_environ gives e = Some (True, e') \<and> env_ok e' \<and> environ e' = Malloced_environ \<and>
    env_strings e' = env_strings e \<and> environSize e' \<le> max 16 (length (env_strings e) + 1)"
proof -
  have "mallocedEnviron e = None" using assms(1, 2) by (simp add: env_ok_def)
  then have "\<exists>e'. reset_environ gives e = Some (True, e') \<and> environ e' = Malloced_environ \<and>
      env_strings e' = env_strings e \<and> mallocedEnviron e' \<noteq> None \<and> environLength e' = length (env_strings e) \<and>
      environSize e' = (if length (env_strings e) > 15 then length (env_strings e) + 1 else 16)"
    using assms(3) by (simp add: reset_environ_def Let_def) (simp add: env_strings_def)
  with assms(1) show ?thesis by (auto simp: env_ok_def)
qed

lemma append_entry_ok:
  assumes ok: "env_ok e" "environ e = Malloced_environ" and gives: "\<forall>n. gives n" and small: "environSize e < 2 ^ 29"
    and name: "61 \<notin> set name" "name \<notin> entry_name ` set (env_strings e)"
  shows "\<exists>e'. append_entry gives name val e = Some (0, e') \<and> env_ok e' \<and> environ e' = Malloced_environ \<and>
    env_strings e' = env_strings e @ [new_entry name val]"
proof -
  define e1 where "e1 = (if environLength e + 1 = environSize e then e\<lparr>environSize := environSize e * 2\<rparr> else e)"
  define e2 where "e2 = (set_strings (env_strings e @ [new_entry name val]) e1)\<lparr>environLength := environLength e + 1\<rparr>"
  have len: "environLength e = length (env_strings e)" "environLength e < environSize e" using ok by (simp_all add: env_ok_def)
  have e1: "environ e1 = Malloced_environ" "environLength e1 = environLength e" "environLength e + 1 < environSize e1"
    "mallocedEnviron e1 = mallocedEnviron e"
    using ok(2) len(2) by (auto simp: e1_def)
  then have "append_entry gives name val e = Some (0, e2)"
    using gives small len by (auto simp: append_entry_def Let_def e2_def e1_def)
  moreover have e2: "environ e2 = Malloced_environ" "env_strings e2 = env_strings e @ [new_entry name val]"
    "environLength e2 = environLength e + 1" "environSize e2 = environSize e1" "mallocedEnviron e2 \<noteq> None"
    using e1(1) by (simp_all add: e2_def set_strings_def env_strings_def)
  moreover obtain xs where "mallocedEnviron e2 = Some xs" using e2(5) by blast
  then have "env_ok e2" using ok len e1(3) name unfolding env_ok_def e2 by auto
  ultimately show ?thesis by blast
qed

lemma setenv_refines:
  assumes ok: "env_ok e" and name: "name \<noteq> []" "61 \<notin> set name" and gives: "\<forall>n. gives n"
    and small: "environSize e < 2 ^ 29" "length (env_strings e) + 1 < 2 ^ 29"
  shows "\<exists>e'. setenv gives name val True e = Some (0, e') \<and> env_ok e' \<and> environ e' = Malloced_environ \<and>
    env_map e' = (env_map e)(name \<mapsto> val)"
proof -
  obtain e1 where e1: "(if environ e \<noteq> Malloced_environ then reset_environ gives e else Some (True, e)) = Some (True, e1)"
    "env_ok e1" "environ e1 = Malloced_environ" "env_strings e1 = env_strings e" "environSize e1 < 2 ^ 29"
  proof (cases "environ e = Malloced_environ")
    case False
    from reset_environ_ok [OF ok False gives] small(2) that False show ?thesis by force
  qed (use ok small that in auto)
  have map1: "env_map e1 = env_map e" by (simp add: env_map_def e1(4))
  show ?thesis
  proof (cases "find_entry name (env_strings e1)")
    case None
    with append_entry_ok [OF e1(2, 3) gives e1(5) name(2)] obtain e2 where
      e2: "append_entry gives name val e1 = Some (0, e2)" "env_ok e2" "environ e2 = Malloced_environ"
        "env_strings e2 = env_strings e1 @ [new_entry name val]" by (auto simp: find_entry_None)
    have "name \<notin> entry_name ` set (env_strings e1)" using None by (simp add: find_entry_None)
    then have "map_of (map pair (env_strings e1)) name = None" by (auto simp: map_of_eq_None_iff image_iff)
    then have "env_map e2 = (env_map e1)(name \<mapsto> val)"
      using name(2) by (auto simp: env_map_def e2(4) fun_eq_iff map_add_def split: option.split)
    with e2 e1 map1 name None show ?thesis by (simp add: setenv_def)
  next
    case (Some i)
    note i = find_entry_Some [OF Some]
    let ?e = "set_strings ((env_strings e1)[i := new_entry name val]) e1"
    have d: "distinct (map entry_name (env_strings e1))" "\<forall>s \<in> set (env_strings e1). 61 \<in> set s"
      using e1(2) by (simp_all add: env_ok_def)
    have "map entry_name ((env_strings e1)[i := new_entry name val]) = map entry_name (env_strings e1)"
      using i name(2) by (simp add: map_update list_update_same_conv)
    moreover have "\<forall>s \<in> set ((env_strings e1)[i := new_entry name val]). 61 \<in> set s"
      using d(2) by (auto dest!: set_update_subset_insert [THEN subsetD])
    ultimately have "env_ok ?e" using e1(2, 3) by (simp add: env_ok_def set_strings_def env_strings_def)
    moreover have "env_map ?e = (env_map e1)(name \<mapsto> val)"
      using map_of_replace [OF d(1), of i "new_entry name val"] i name(2) e1(3) by (simp add: env_map_def)
    moreover have "environ ?e = Malloced_environ" using e1(3) by (simp add: set_strings_def)
    ultimately show ?thesis using e1 map1 name gives Some by (simp add: setenv_def)
  qed
qed

lemma unsetenv_refines:
  assumes ok: "env_ok e" and name: "name \<noteq> []" "61 \<notin> set name"
  shows "\<exists>e'. unsetenv name e = (0, e') \<and> env_ok e' \<and> env_map e' = (env_map e)(name := None) \<and>
    (environ e' = Null_environ \<longleftrightarrow> environ e = Null_environ)"
proof -
  let ?xs = "env_strings e"
  have d: "distinct (map entry_name ?xs)" "\<forall>s \<in> set ?xs. 61 \<in> set s" using ok by (simp_all add: env_ok_def)
  have key: "distinct (map entry_name ys) \<and> (\<forall>s \<in> set ys. 61 \<in> set s) \<and> length ys \<le> length ?xs \<and>
      map_of (map pair ys) = (map_of (map pair ?xs))(name := None)"
    if ys: "ys = unset_malloced name 0 ?xs \<or> ys = unset_program name 0 ?xs" for ys
  proof (cases "name \<in> entry_name ` set ?xs")
    case False
    then have "ys = ?xs" using ys unset_none [of name 0 ?xs] by auto
    moreover have "map_of (map pair ?xs) name = None" using False by (auto simp: map_of_eq_None_iff image_iff)
    ultimately show ?thesis using d by (auto simp: fun_eq_iff)
  next
    case True
    then obtain j where j: "j < length ?xs" "entry_name (?xs ! j) = name" by (auto simp: in_set_conv_nth)
    from ys unset_one [OF d(1) j, of 0] have "mset ys = mset ?xs - {#?xs ! j#}"
      using mset_swap_remove [OF j(1)] mset_shift_remove [OF j(1)] by auto
    note r = map_of_remove [OF d(1) nth_mem [OF j(1)] this]
    have "length ys \<le> length ?xs" using ys unset_one [OF d(1) j, of 0] j(1) by auto
    with r d(2) j(2) show ?thesis by auto
  qed
  show ?thesis
  proof (cases "environ e")
    case Null_environ
    then show ?thesis using ok name by (auto simp: unsetenv_def env_map_def env_strings_def fun_eq_iff)
  next
    case (Program_environ xs)
    with key [of "unset_program name 0 ?xs"] ok name show ?thesis
      by (auto simp: unsetenv_def env_map_def env_strings_def env_ok_def)
  next
    case Malloced_environ
    with key [of "unset_malloced name 0 ?xs"] ok name show ?thesis
      by (auto simp: unsetenv_def env_map_def env_ok_def Let_def set_strings_def env_strings_def)
  qed
qed



end
