(* ===== verification/Kernel_Paging.thy ===== *)
theory Kernel_Paging
  imports Inwox_Prelude
begin

text \<open>
  Page frames and page tables of the kernel: \<open>kernel/src/physicalmemory.cpp\<close> and the paging half
  of \<open>kernel/src/addressspace.cpp\<close>.  A frame is a page of 1024 words; page directories and page
  tables are frames.  The page tables of the kernel are reached through the recursive mapping,
  those of a process through the temporary window at \<open>0xFF7FF000\<close>; both give the frame named by
  the directory entry.  \<open>None\<close> stands for an assertion failure or for a wait on a mutex the caller
  holds itself.
\<close>

section \<open>Definitions\<close>

definition PROT_READ :: u32 where "PROT_READ = 1"
definition PROT_WRITE :: u32 where "PROT_WRITE = 2"
definition PROT_EXEC :: u32 where "PROT_EXEC = 4"
definition PROT_FLAGS :: u32 where "PROT_FLAGS = PROT_READ OR PROT_WRITE OR PROT_EXEC"
definition PAGE_PRESENT :: u32 where "PAGE_PRESENT = 1"
definition PAGE_WRITABLE :: u32 where "PAGE_WRITABLE = 2"
definition PAGE_USER :: u32 where "PAGE_USER = 4"

lemmas paging_flags = PROT_READ_def PROT_WRITE_def PROT_EXEC_def PROT_FLAGS_def
  PAGE_PRESENT_def PAGE_WRITABLE_def PAGE_USER_def

record paging =
  frames :: "u32 \<Rightarrow> u32 \<Rightarrow> u32"
  pf_stack :: "u32 \<Rightarrow> u32"
  stackUsed :: u32
  stackLeft :: u32
  kernelPageDir :: u32
  spaceDirs :: "u32 list"

definition set_frame :: "u32 \<Rightarrow> u32 \<Rightarrow> u32 \<Rightarrow> ('x) paging_scheme \<Rightarrow> 'x paging_scheme" where
  "set_frame f i x st = st\<lparr>frames := (frames st)(f := (frames st f)(i := x))\<rparr>"

definition page_of :: "u32 \<Rightarrow> u32" where
  "page_of x = x AND NOT 0xFFF"

definition KALIGN_UP :: "u32 \<Rightarrow> u32 \<Rightarrow> u32" where
  "KALIGN_UP v alignment = ((v - 1) AND NOT (alignment - 1)) + alignment"

definition protectionToFlags :: "u32 \<Rightarrow> u32" where
  "protectionToFlags protection =
     (if protection AND PROT_WRITE \<noteq> 0 then PAGE_PRESENT OR PAGE_WRITABLE else PAGE_PRESENT)"

definition IndexToaddress :: "u32 \<Rightarrow> u32 \<Rightarrow> u32 option" where
  "IndexToaddress pdIndex ptIndex =
     (if pdIndex \<le> 0x3FF \<and> ptIndex \<le> 0x3FF
      then Some (push_bit 22 pdIndex OR push_bit 12 ptIndex) else None)"

definition addressToIndex :: "u32 \<Rightarrow> (u32 \<times> u32) option" where
  "addressToIndex virtualAddress =
     (if virtualAddress AND 0xFFF \<noteq> 0 then None
      else Some (drop_bit 22 virtualAddress, drop_bit 12 virtualAddress AND 0x3FF))"

text \<open>
  \<open>AddressSpace::mapAtWithFlags\<close> on the kernel's own address space; \<open>pop\<close> is the frame allocator
  it calls when the page table is missing.  A new table of the kernel is entered in the
  directories of all address spaces.
\<close>

definition kernel_mapAtWithFlags ::
  "('x paging_scheme \<Rightarrow> (u32 \<times> 'x paging_scheme) option) \<Rightarrow> u32 \<Rightarrow> u32 \<Rightarrow> u32 \<Rightarrow> u32 \<Rightarrow>
   'x paging_scheme \<Rightarrow> (u32 \<times> 'x paging_scheme) option" where
  "kernel_mapAtWithFlags pop pdIndex ptIndex physicalAddress flags st =
     (if flags AND NOT 0xFFF \<noteq> 0 then None
      else
        Option.bind
          (if frames st (kernelPageDir st) pdIndex = 0
           then Option.bind (pop st) (\<lambda>(pageTablePhys, st).
                  let entry = pageTablePhys OR (PAGE_PRESENT OR PAGE_WRITABLE);
                      st = set_frame (kernelPageDir st) pdIndex entry st;
                      st = st\<lparr>frames := (frames st)(page_of entry := (\<lambda>_. 0))\<rparr>
                  in Some (fold (\<lambda>pd. set_frame pd pdIndex entry) (spaceDirs st) st))
           else Some st)
          (\<lambda>st. let st = set_frame (page_of (frames st (kernelPageDir st) pdIndex)) ptIndex
                            (physicalAddress OR flags) st
                in map_option (\<lambda>v. (v, st)) (IndexToaddress pdIndex ptIndex)))"

definition kernel_unMap ::
  "('x paging_scheme \<Rightarrow> (u32 \<times> 'x paging_scheme) option) \<Rightarrow> u32 \<Rightarrow> 'x paging_scheme \<Rightarrow> 'x paging_scheme option"
where
  "kernel_unMap pop virtualAddress st =
     Option.bind (addressToIndex virtualAddress) (\<lambda>(pdIndex, ptIndex).
       map_option snd (kernel_mapAtWithFlags pop pdIndex ptIndex 0 0 st))"

definition kernel_mapAt ::
  "('x paging_scheme \<Rightarrow> (u32 \<times> 'x paging_scheme) option) \<Rightarrow> u32 \<Rightarrow> u32 \<Rightarrow> u32 \<Rightarrow>
   'x paging_scheme \<Rightarrow> (u32 \<times> 'x paging_scheme) option" where
  "kernel_mapAt pop virtualAddress physicalAddress protection st =
     Option.bind (addressToIndex virtualAddress) (\<lambda>(pdIndex, ptIndex).
       if protection AND NOT PROT_FLAGS \<noteq> 0 \<or> physicalAddress AND 0xFFF \<noteq> 0 then None
       else kernel_mapAtWithFlags pop pdIndex ptIndex physicalAddress (protectionToFlags protection) st)"

definition kernel_getPhysicalAddress :: "u32 \<Rightarrow> 'x paging_scheme \<Rightarrow> u32 option" where
  "kernel_getPhysicalAddress virtualAddress st =
     map_option (\<lambda>(pdIndex, ptIndex).
         if frames st (kernelPageDir st) pdIndex = 0 then 0
         else page_of (frames st (page_of (frames st (kernelPageDir st) pdIndex)) ptIndex))
       (addressToIndex virtualAddress)"

text \<open>
  The stack of free frames.  Its mutex is held during the calls back into the address space, so
  a page table that is missing there cannot be allocated.
\<close>

definition no_pop :: "'x paging_scheme \<Rightarrow> (u32 \<times> 'x paging_scheme) option" where
  "no_pop st = None"

definition pushPageFrame :: "u32 \<Rightarrow> 'x paging_scheme \<Rightarrow> 'x paging_scheme option" where
  "pushPageFrame physicalAddress st =
     (if stackLeft st = 0
      then map_option (\<lambda>(_, st). st\<lparr>stackLeft := stackLeft st + 1024\<rparr>)
             (kernel_mapAt no_pop (0xFFC00000 - stackUsed st * 4 - 0x1000) physicalAddress
               (PROT_READ OR PROT_WRITE) st)
      else Some (st\<lparr>pf_stack := (pf_stack st)(stackUsed st + 1 := physicalAddress),
                    stackUsed := stackUsed st + 1, stackLeft := stackLeft st - 1\<rparr>))"

definition popPageFrame :: "'x paging_scheme \<Rightarrow> (u32 \<times> 'x paging_scheme) option" where
  "popPageFrame st =
     (if stackUsed st = 0
      then if stackLeft st > 0
           then let virtualAddress = 0xFFC00000 - stackLeft st * 4 in
                Option.bind (kernel_getPhysicalAddress virtualAddress st) (\<lambda>result.
                  map_option (\<lambda>st. (result, st\<lparr>stackLeft := stackLeft st - 1024\<rparr>))
                    (kernel_unMap no_pop virtualAddress st))
           else Some (0, st)
      else Some (pf_stack st (stackUsed st),
                 st\<lparr>stackLeft := stackLeft st + 1, stackUsed := stackUsed st - 1\<rparr>))"

definition mapTemporarily :: "u32 \<Rightarrow> u32 \<Rightarrow> 'x paging_scheme \<Rightarrow> (u32 \<times> 'x paging_scheme) option" where
  "mapTemporarily physicalAddress protection st =
     kernel_mapAt popPageFrame 0xFF7FF000 physicalAddress protection st"

text \<open>The same operations on the address space of a process with page directory \<open>dir\<close>.\<close>

definition user_mapAtWithFlags ::
  "u32 \<Rightarrow> u32 \<Rightarrow> u32 \<Rightarrow> u32 \<Rightarrow> u32 \<Rightarrow> 'x paging_scheme \<Rightarrow> (u32 \<times> 'x paging_scheme) option" where
  "user_mapAtWithFlags dir pdIndex ptIndex physicalAddress flags st =
     (if flags AND NOT 0xFFF \<noteq> 0 then None
      else
        Option.bind
          (if frames st dir pdIndex = 0
           then Option.bind (popPageFrame st) (\<lambda>(pageTablePhys, st).
                  let st = set_frame dir pdIndex (pageTablePhys OR (PAGE_PRESENT OR PAGE_WRITABLE OR PAGE_USER)) st
                  in Option.bind (mapTemporarily pageTablePhys (PROT_READ OR PROT_WRITE) st) (\<lambda>(_, st).
                     Some (pageTablePhys, st\<lparr>frames := (frames st)(pageTablePhys := (\<lambda>_. 0))\<rparr>)))
           else let pageTablePhys = page_of (frames st dir pdIndex) in
                Option.bind (mapTemporarily pageTablePhys (PROT_READ OR PROT_WRITE) st) (\<lambda>(_, st).
                Some (pageTablePhys, st)))
          (\<lambda>(pageTable, st).
             Option.bind (kernel_unMap popPageFrame 0xFF7FF000
                 (set_frame pageTable ptIndex (physicalAddress OR flags) st)) (\<lambda>st.
             map_option (\<lambda>v. (v, st)) (IndexToaddress pdIndex ptIndex))))"

definition user_mapAt :: "u32 \<Rightarrow> u32 \<Rightarrow> u32 \<Rightarrow> u32 \<Rightarrow> 'x paging_scheme \<Rightarrow> (u32 \<times> 'x paging_scheme) option" where
  "user_mapAt dir virtualAddress physicalAddress protection st =
     Option.bind (addressToIndex virtualAddress) (\<lambda>(pdIndex, ptIndex).
       if protection AND NOT PROT_FLAGS \<noteq> 0 \<or> physicalAddress AND 0xFFF \<noteq> 0 then None
       else user_mapAtWithFlags dir pdIndex ptIndex physicalAddress
              (protectionToFlags protection OR PAGE_USER) st)"

definition user_unMap :: "u32 \<Rightarrow> u32 \<Rightarrow> 'x paging_scheme \<Rightarrow> 'x paging_scheme option" where
  "user_unMap dir virtualAddress st =
     Option.bind (addressToIndex virtualAddress) (\<lambda>(pdIndex, ptIndex).
       map_option snd (user_mapAtWithFlags dir pdIndex ptIndex 0 0 st))"

definition user_getPhysicalAddress :: "u32 \<Rightarrow> u32 \<Rightarrow> 'x paging_scheme \<Rightarrow> (u32 \<times> 'x paging_scheme) option" where
  "user_getPhysicalAddress dir virtualAddress st =
     Option.bind (addressToIndex virtualAddress) (\<lambda>(pdIndex, ptIndex).
       if frames st dir pdIndex = 0 then Some (0, st)
       else let pageTable = page_of (frames st dir pdIndex) in
            Option.bind (mapTemporarily pageTable PROT_READ st) (\<lambda>(_, st).
            let result = page_of (frames st pageTable ptIndex) in
            map_option (\<lambda>st. (result, st)) (kernel_unMap popPageFrame 0xFF7FF000 st)))"

text \<open>
  Which frames of the boot loader's memory map are free, the map given as the list of its entries
  and the modules as the list of their ranges.
\<close>

record boot_layout =
  bootstrapBegin :: u32
  bootstrapEnd :: u32
  kernelPhysicalBegin :: u32
  kernelPhysicalEnd :: u32

record multiboot_info =
  mb_flags :: u32
  mods_addr :: u32
  mmap_length :: u32
  mmap_addr :: u32
  mb_modules :: "(u32 \<times> u32) list"

record mmap_entry =
  base_addr :: u64
  mmap_size :: u64
  mmap_type :: u32

definition isUsedByKernel :: "boot_layout \<Rightarrow> u32 \<Rightarrow> bool" where
  "isUsedByKernel l physicalAddress \<longleftrightarrow>
     physicalAddress \<ge> bootstrapBegin l \<and> physicalAddress < bootstrapEnd l \<or>
     physicalAddress \<ge> kernelPhysicalBegin l \<and> physicalAddress < kernelPhysicalEnd l \<or>
     physicalAddress = 0"

definition isUsedByModule :: "u32 \<Rightarrow> (u32 \<times> u32) list \<Rightarrow> bool" where
  "isUsedByModule physicalAddress modules \<longleftrightarrow>
     list_ex (\<lambda>(mod_start, mod_end). physicalAddress \<ge> mod_start \<and> physicalAddress < mod_end) modules"

definition isUsedByMultiboot :: "u32 \<Rightarrow> multiboot_info \<Rightarrow> bool" where
  "isUsedByMultiboot physicalAddress multiboot \<longleftrightarrow>
     (let mmapEnd = mmap_addr multiboot + mmap_length multiboot;
          modsEnd = mods_addr multiboot + of_nat (length (mb_modules multiboot)) * 16
      in physicalAddress \<ge> page_of (mmap_addr multiboot) \<and> physicalAddress < mmapEnd \<or>
         physicalAddress \<ge> page_of (mods_addr multiboot) \<and> physicalAddress < modsEnd)"

definition frame_is_free :: "boot_layout \<Rightarrow> multiboot_info \<Rightarrow> u32 \<Rightarrow> bool" where
  "frame_is_free l multiboot a \<longleftrightarrow>
     \<not> (isUsedByModule a (mb_modules multiboot) \<or> isUsedByKernel l a \<or> isUsedByMultiboot a multiboot)"

text \<open>
  The addresses \<open>addr + i\<close> for \<open>i\<close> from 0 in steps of a page below the length (which is less than
  \<open>2^64 - 4096\<close>: beyond that \<open>i\<close> would wrap around).
\<close>

definition entry_frames :: "mmap_entry \<Rightarrow> u32 list" where
  "entry_frames e = map (\<lambda>k. ucast (base_addr e) + of_nat (k * 4096)) [0..<(unat (mmap_size e) + 4095) div 4096]"

definition entry_usable :: "mmap_entry \<Rightarrow> bool" where
  "entry_usable e \<longleftrightarrow> mmap_type e = 1 \<and> base_addr e + mmap_size e \<le> 0xFFFFFFFF"

fun push_frames :: "u32 list \<Rightarrow> 'x paging_scheme \<Rightarrow> 'x paging_scheme option" where
  "push_frames [] st = Some st"
| "push_frames (a # as) st = Option.bind (pushPageFrame a st) (push_frames as)"

definition boot_frames :: "boot_layout \<Rightarrow> multiboot_info \<Rightarrow> mmap_entry list \<Rightarrow> u32 list" where
  "boot_frames l multiboot entries =
     filter (frame_is_free l multiboot) (concat (map entry_frames (filter entry_usable entries)))"

section \<open>What the paging operations leave alone\<close>

text \<open>The operations here change page frames and the stack of frames, and nothing of what extends the state.\<close>

definition keeps :: "('x paging_scheme \<Rightarrow> (u32 \<times> 'x paging_scheme) option) \<Rightarrow> bool" where
  "keeps f \<longleftrightarrow> (\<forall>st r st'. f st = Some (r, st') \<longrightarrow> paging.more st' = paging.more st)"

lemma set_frame_more [simp]: "paging.more (set_frame f i x st) = paging.more st"
  by (cases st) (simp add: set_frame_def)

lemma set_frames_more [simp]: "paging.more (fold (\<lambda>pd. set_frame pd i x) pds st) = paging.more st"
  by (induction pds arbitrary: st) simp_all

lemma paging_update_more [simp]:
  "paging.more (st\<lparr>frames := f\<rparr>) = paging.more st" "paging.more (st\<lparr>pf_stack := s\<rparr>) = paging.more st"
  "paging.more (st\<lparr>stackUsed := u\<rparr>) = paging.more st" "paging.more (st\<lparr>stackLeft := l\<rparr>) = paging.more st"
  by (cases st; simp)+

lemma no_pop_keeps: "keeps no_pop"
  by (simp add: keeps_def no_pop_def)

lemma kernel_mapAtWithFlags_keeps: "keeps pop \<Longrightarrow> keeps (kernel_mapAtWithFlags pop pd pt pa fl)"
  unfolding keeps_def kernel_mapAtWithFlags_def
  by (auto simp: Let_def bind_eq_Some_conv split: if_splits)

lemma keepsD: "keeps f \<Longrightarrow> f st = Some (r, st') \<Longrightarrow> paging.more st' = paging.more st"
  by (simp add: keeps_def)

lemma kernel_mapAt_keeps:
  assumes "keeps pop"
  shows "keeps (kernel_mapAt pop va pa prot)"
  unfolding keeps_def
proof (intro allI impI)
  fix st r st'
  assume "kernel_mapAt pop va pa prot st = Some (r, st')"
  then obtain pd pt fl where "kernel_mapAtWithFlags pop pd pt pa fl st = Some (r, st')"
    by (auto simp: kernel_mapAt_def bind_eq_Some_conv split: if_splits)
  then show "paging.more st' = paging.more st" by (rule keepsD [OF kernel_mapAtWithFlags_keeps [OF assms]])
qed

lemma kernel_unMap_more:
  assumes "keeps pop" "kernel_unMap pop va st = Some st'"
  shows "paging.more st' = paging.more st"
proof -
  obtain pd pt r where "kernel_mapAtWithFlags pop pd pt 0 0 st = Some (r, st')"
    using assms(2) by (auto simp: kernel_unMap_def bind_eq_Some_conv)
  then show ?thesis by (rule keepsD [OF kernel_mapAtWithFlags_keeps [OF assms(1)]])
qed

lemma popPageFrame_keeps: "keeps popPageFrame"
  unfolding keeps_def popPageFrame_def Let_def
  by (auto simp: bind_eq_Some_conv dest: kernel_unMap_more [OF no_pop_keeps] split: if_splits)

lemma pushPageFrame_more: "pushPageFrame a st = Some st' \<Longrightarrow> paging.more st' = paging.more st"
  by (auto simp: pushPageFrame_def dest: keepsD [OF kernel_mapAt_keeps [OF no_pop_keeps]] split: if_splits)

section \<open>Addresses and page tables\<close>

lemma low_bits: "(x :: u32) AND 0xFFF = take_bit 12 x" "(x :: u32) AND 0x3FF = take_bit 10 x"
  using take_bit_eq_mask [of 12 x] take_bit_eq_mask [of 10 x] by (simp_all add: mask_eq_exp_minus_1)

lemma unat_drop: "unat (drop_bit n (x :: u32)) = unat x div 2 ^ n"
  by (simp add: unsigned_drop_bit_eq take_bit_nat_eq_self del: drop_bit_nat_eq) (simp add: drop_bit_eq_div)

lemma unat_take: "unat (take_bit n (x :: u32)) = unat x mod 2 ^ n"
  unfolding unsigned_take_bit_eq by (simp add: take_bit_eq_mod)

lemma aligned_dvd: "x AND 0xFFF = 0 \<longleftrightarrow> 4096 dvd unat (x :: u32)"
  unfolding low_bits by (simp add: unsigned_take_bit_eq take_bit_eq_mod dvd_eq_mod_eq_0 unat_mod flip: unat_eq_zero)

lemma address_index_roundtrip:
  assumes "addressToIndex v = Some (pd, pt)"
  shows "IndexToaddress pd pt = Some v"
proof -
  have v: "take_bit 12 v = 0" "pd = drop_bit 22 v" "pt = take_bit 10 (drop_bit 12 v)"
    using assms by (auto simp: addressToIndex_def low_bits split: if_splits)
  have low: "\<not> bit v n" if "n < 12" for n using arg_cong [OF v(1), of "\<lambda>w. bit w n"] that by (simp add: bit_take_bit_iff)
  have eq: "push_bit 22 pd OR push_bit 12 pt = v"
    unfolding v(2,3)
  proof (rule bit_word_eqI)
    fix n assume "n < LENGTH(32)"
    consider "n < 12" | "12 \<le> n" "n < 22" | "22 \<le> n" by linarith
    then show "bit (push_bit 22 (drop_bit 22 v) OR push_bit 12 (take_bit 10 (drop_bit 12 v))) n \<longleftrightarrow> bit v n"
      by cases (use \<open>n < LENGTH(32)\<close> low in \<open>auto simp: bit_simps\<close>)
  qed
  have "unat pd < 2 ^ 10" unfolding v(2) unat_drop using unat_less_2p32 [of v]
    by (simp add: less_mult_imp_div_less)
  moreover have "unat pt < 2 ^ 10" unfolding v(3) unat_take by simp
  ultimately show ?thesis using eq by (simp add: IndexToaddress_def word_le_nat_alt)
qed

lemma page_of_OR: "pa AND 0xFFF = 0 \<Longrightarrow> flags AND NOT 0xFFF = 0 \<Longrightarrow> page_of (pa OR flags) = pa"
proof -
  assume a: "pa AND 0xFFF = 0" "flags AND NOT 0xFFF = 0"
  have "pa = (pa AND 0xFFF) OR (pa AND NOT 0xFFF)" by (simp flip: bit.conj_disj_distrib)
  then show ?thesis using a unfolding page_of_def bit.conj_disj_distrib2 by simp
qed

lemma protectionToFlags_low: "protectionToFlags prot AND NOT 0xFFF = 0"
  by (simp add: protectionToFlags_def paging_flags)

text \<open>The page table of an address, and its entry there.\<close>

definition table_of :: "u32 \<Rightarrow> 'x paging_scheme \<Rightarrow> u32" where
  "table_of pd st = page_of (frames st (kernelPageDir st) pd)"

definition table_present :: "u32 \<Rightarrow> 'x paging_scheme \<Rightarrow> bool" where
  "table_present pd st \<longleftrightarrow> frames st (kernelPageDir st) pd \<noteq> 0 \<and> table_of pd st \<noteq> kernelPageDir st"

lemma kernel_mapAtWithFlags_present:
  assumes "addressToIndex va = Some (pd, pt)" "frames st (kernelPageDir st) pd \<noteq> 0" "flags AND NOT 0xFFF = 0"
  shows "kernel_mapAtWithFlags pop pd pt pa flags st = Some (va, set_frame (table_of pd st) pt (pa OR flags) st)"
  using assms address_index_roundtrip [OF assms(1)] by (simp add: kernel_mapAtWithFlags_def table_of_def Let_def)

lemma kernel_mapAt_present:
  assumes "addressToIndex va = Some (pd, pt)" "frames st (kernelPageDir st) pd \<noteq> 0"
    and "pa AND 0xFFF = 0" "prot AND NOT PROT_FLAGS = 0"
  shows "kernel_mapAt pop va pa prot st =
    Some (va, set_frame (table_of pd st) pt (pa OR protectionToFlags prot) st)"
  using assms kernel_mapAtWithFlags_present [OF assms(1,2) protectionToFlags_low]
  by (simp add: kernel_mapAt_def)

lemma kernel_unMap_present:
  assumes "addressToIndex va = Some (pd, pt)" "frames st (kernelPageDir st) pd \<noteq> 0"
  shows "kernel_unMap pop va st = Some (set_frame (table_of pd st) pt 0 st)"
  using assms kernel_mapAtWithFlags_present [OF assms, of 0 pop 0] by (simp add: kernel_unMap_def)

lemma set_frame_simps [simp]:
  "frames (set_frame f i x st) = (frames st)(f := (frames st f)(i := x))"
  "kernelPageDir (set_frame f i x st) = kernelPageDir st" "spaceDirs (set_frame f i x st) = spaceDirs st"
  "pf_stack (set_frame f i x st) = pf_stack st" "stackUsed (set_frame f i x st) = stackUsed st"
  "stackLeft (set_frame f i x st) = stackLeft st"
  by (simp_all add: set_frame_def)

lemma kernel_getPhysicalAddress_index:
  "addressToIndex va = Some (pd, pt) \<Longrightarrow> kernel_getPhysicalAddress va st =
     Some (if frames st (kernelPageDir st) pd = 0 then 0 else page_of (frames st (table_of pd st) pt))"
  by (simp add: kernel_getPhysicalAddress_def table_of_def)


definition demo_paging :: paging where
  "demo_paging = \<lparr>frames = (\<lambda>f i. if f = 0x1000 then if i = 768 then 0x2003 else if i = 1022 then 0x3003 else 0 else 0),
     pf_stack = (\<lambda>_. 0), stackUsed = 0, stackLeft = 0, kernelPageDir = 0x1000, spaceDirs = []\<rparr>"


section \<open>The stack of free frames\<close>

text \<open>
  The frames the allocator holds: those written on the stack, and those mapped as the stack's own
  pages, from the top of its 4 MiB window down.
\<close>

definition stack_pages :: "'x paging_scheme \<Rightarrow> nat" where
  "stack_pages st = (unat (stackUsed st) + unat (stackLeft st)) div 1024"

definition stack_page :: "'x paging_scheme \<Rightarrow> nat \<Rightarrow> u32" where
  "stack_page st j = page_of (frames st (table_of 1022 st) (w32 (1023 - j)))"

definition used_frames :: "'x paging_scheme \<Rightarrow> u32 list" where
  "used_frames st = map (\<lambda>k. pf_stack st (w32 (Suc k))) [0..<unat (stackUsed st)]"

definition free_frames :: "'x paging_scheme \<Rightarrow> u32 multiset" where
  "free_frames st = mset (used_frames st) + mset (map (stack_page st) [0..<stack_pages st])"

definition stack_ok :: "'x paging_scheme \<Rightarrow> bool" where
  "stack_ok st \<longleftrightarrow> 1024 dvd unat (stackUsed st) + unat (stackLeft st) \<and>
     unat (stackUsed st) + unat (stackLeft st) \<le> 1024 * 1024 \<and> table_present 1022 st"

lemma stack_index:
  assumes "k < 1024"
  shows "addressToIndex (w32 (0xFF800000 + 4096 * k)) = Some (1022, w32 k)"
proof -
  let ?n = "0xFF800000 + 4096 * k" and ?v = "w32 (0xFF800000 + 4096 * k)"
  have u: "unat ?v = ?n" using assms by (simp add: unat_w32)
  have "unat (drop_bit 22 ?v) = 1022"
    unfolding unat_drop u using assms by (simp add: div_nat_eqI)
  then have "drop_bit 22 ?v = w32 1022" by (metis w32_unat)
  then have "drop_bit 22 ?v = 1022" by (simp add: w32_def)
  moreover have "unat (take_bit 10 (drop_bit 12 ?v)) = k"
    unfolding unat_take unat_drop u using assms mod_mult_self2 [of k 1024 1022] by (simp add: add.commute)
  then have "drop_bit 12 ?v AND 0x3FF = w32 k" unfolding low_bits by (metis w32_unat)
  moreover have "?v AND 0xFFF = 0" unfolding aligned_dvd u by (simp add: dvd_add_right_iff)
  ultimately show ?thesis by (simp add: addressToIndex_def)
qed

lemma stack_address: "n < 1024 \<Longrightarrow> 0xFFC00000 - w32 (1024 * n) * 4 - 0x1000 = w32 (0xFF800000 + 4096 * (1023 - n))"
proof -
  assume n: "n < 1024"
  have "0xFFC00000 = w32 0xFFC00000" "w32 (1024 * n) * 4 = w32 (4096 * n)" "0x1000 = w32 4096" by (simp_all add: w32_def)
  then have "0xFFC00000 - w32 (1024 * n) * 4 - 0x1000 = w32 (0xFFC00000 - 4096 * n - 4096)"
    using n by (simp only: w32_diff)
  also have "0xFFC00000 - 4096 * n - 4096 = 0xFF800000 + 4096 * (1023 - n)" using n by simp
  finally show ?thesis .
qed

lemma stack_table_write:
  fixes x :: u32
  assumes "table_present 1022 st" "n < 1024"
  defines "st' \<equiv> set_frame (table_of 1022 st) (w32 (1023 - n)) x st"
  shows "table_of 1022 st' = table_of 1022 st" "table_present 1022 st'" "stack_page st' n = page_of x"
    "\<forall>j < n. stack_page st' j = stack_page st j"
proof -
  have dir: "frames st' (kernelPageDir st) = frames st (kernelPageDir st)" "kernelPageDir st' = kernelPageDir st"
    using assms(1) by (auto simp: st'_def table_present_def)
  then show table: "table_of 1022 st' = table_of 1022 st" by (simp add: table_of_def)
  show "table_present 1022 st'" using assms(1) dir table by (simp add: table_present_def)
  show "stack_page st' n = page_of x" by (simp add: stack_page_def table) (simp add: st'_def)
  have "w32 (1023 - j) \<noteq> w32 (1023 - n)" if "j < n" for j
    using that assms(2) w32_eq_iff [of "1023 - j" "1023 - n"] by auto
  then show "\<forall>j < n. stack_page st' j = stack_page st j"
    unfolding stack_page_def table by (simp add: st'_def)
qed

lemma pushPageFrame_left:
  assumes ok: "stack_ok st" and left: "stackLeft st \<noteq> 0"
  shows "\<exists>st'. pushPageFrame a st = Some st' \<and> stack_ok st' \<and> free_frames st' = add_mset a (free_frames st) \<and>
    unat (stackUsed st') \<le> Suc (unat (stackUsed st))"
proof -
  let ?U = "unat (stackUsed st)" and ?L = "unat (stackLeft st)"
  let ?st = "st\<lparr>pf_stack := (pf_stack st)(stackUsed st + 1 := a), stackUsed := stackUsed st + 1, stackLeft := stackLeft st - 1\<rparr>"
  have L: "0 < ?L" using left by (simp add: unat_gt_0)
  have b: "?U + ?L \<le> 1024 * 1024" using ok by (simp add: stack_ok_def)
  have u: "unat (stackUsed st + 1) = Suc ?U" "unat (stackLeft st - 1) = ?L - 1"
    using L b by (simp_all add: unat_word_ariths unat_minus_one left)
  then have sum: "unat (stackUsed ?st) + unat (stackLeft ?st) = ?U + ?L" using L by simp
  have table: "table_of 1022 ?st = table_of 1022 st" "table_present 1022 ?st = table_present 1022 st"
    by (simp_all add: table_of_def table_present_def)
  have w: "w32 (Suc ?U) = stackUsed st + 1" using u(1) by (metis w32_unat)
  have "w32 (Suc k) \<noteq> stackUsed st + 1" if "k < ?U" for k
    using that b w32_eq_iff [of "Suc k" "Suc ?U"] by (simp flip: w)
  then have "used_frames ?st = used_frames st @ [a]" using w by (simp add: used_frames_def u(1))
  moreover have "stack_pages ?st = stack_pages st" unfolding stack_pages_def sum ..
  moreover have "stack_page ?st = stack_page st" by (simp add: stack_page_def table fun_eq_iff)
  ultimately have "free_frames ?st = add_mset a (free_frames st)" by (simp add: free_frames_def)
  moreover have "stack_ok ?st" using ok unfolding stack_ok_def sum table .
  moreover have "pushPageFrame a st = Some ?st" "unat (stackUsed ?st) \<le> Suc ?U"
    using left u by (simp_all add: pushPageFrame_def)
  ultimately show ?thesis by blast
qed

lemma pushPageFrame_full:
  assumes ok: "stack_ok st" and left: "stackLeft st = 0" and room: "unat (stackUsed st) < 1024 * 1024"
    and a: "a AND 0xFFF = 0"
  shows "\<exists>st'. pushPageFrame a st = Some st' \<and> stack_ok st' \<and> free_frames st' = add_mset a (free_frames st) \<and>
    unat (stackUsed st') \<le> Suc (unat (stackUsed st))"
proof -
  obtain n where U: "unat (stackUsed st) = 1024 * n" using ok left by (auto simp: stack_ok_def)
  then have n: "n < 1024" and used: "stackUsed st = w32 (1024 * n)" using room by (simp, metis w32_unat)
  have P: "stack_pages st = n" by (simp add: stack_pages_def U left)
  have table: "table_present 1022 st" using ok by (simp add: stack_ok_def)
  let ?f = "protectionToFlags (PROT_READ OR PROT_WRITE)"
  define st1 where "st1 = set_frame (table_of 1022 st) (w32 (1023 - n)) (a OR ?f) st"
  note wr = stack_table_write [OF table n, of "a OR ?f", folded st1_def]
  let ?st = "st1\<lparr>stackLeft := stackLeft st1 + 1024\<rparr>"
  have "kernel_mapAt no_pop (w32 (0xFF800000 + 4096 * (1023 - n))) a (PROT_READ OR PROT_WRITE) st =
      Some (w32 (0xFF800000 + 4096 * (1023 - n)), st1)"
    unfolding st1_def
    by (rule kernel_mapAt_present [OF stack_index _ a]) (use table in \<open>simp_all add: table_present_def paging_flags\<close>)
  then have "pushPageFrame a st = Some ?st"
    using left stack_address [OF n] used by (simp add: pushPageFrame_def)
  moreover have sizes: "unat (stackUsed ?st) = 1024 * n" "unat (stackLeft ?st) = 1024"
    using U left by (simp_all add: st1_def)
  have same: "table_of 1022 ?st = table_of 1022 st1" "table_present 1022 ?st = table_present 1022 st1"
    "stack_page ?st = stack_page st1"
    by (simp_all add: table_of_def table_present_def stack_page_def fun_eq_iff)
  have used_same: "used_frames ?st = used_frames st" by (simp add: used_frames_def st1_def)
  have "stack_pages ?st = Suc n" unfolding stack_pages_def sizes by simp
  moreover have "page_of (a OR ?f) = a" by (rule page_of_OR [OF a protectionToFlags_low])
  ultimately have "free_frames ?st = add_mset a (free_frames st)"
  proof -
    assume a: "page_of (a OR ?f) = a" and pages: "stack_pages ?st = Suc n"
    have "map (stack_page st1) [0..<Suc n] = map (stack_page st) [0..<n] @ [a]" using wr(3,4) a by simp
    then show "free_frames ?st = add_mset a (free_frames st)"
      unfolding free_frames_def same P pages used_same by (simp only: mset_append mset.simps) simp
  qed
  moreover have "stack_ok ?st" unfolding stack_ok_def sizes same using wr(2) n by auto
  moreover have "unat (stackUsed ?st) \<le> Suc (unat (stackUsed st))" using sizes U by simp
  ultimately show ?thesis using \<open>pushPageFrame a st = Some ?st\<close> by blast
qed

lemma popPageFrame_used:
  assumes ok: "stack_ok st" and used: "stackUsed st \<noteq> 0"
  shows "\<exists>a st'. popPageFrame st = Some (a, st') \<and> stack_ok st' \<and> free_frames st = add_mset a (free_frames st')"
proof -
  let ?U = "unat (stackUsed st)" and ?L = "unat (stackLeft st)" and ?a = "pf_stack st (stackUsed st)"
  let ?st = "st\<lparr>stackLeft := stackLeft st + 1, stackUsed := stackUsed st - 1\<rparr>"
  have b: "?U + ?L \<le> 1024 * 1024" and U: "0 < ?U" using ok used by (simp_all add: stack_ok_def unat_gt_0)
  have u: "unat (stackUsed st - 1) = ?U - 1" "unat (stackLeft st + 1) = Suc ?L"
    using b U by (simp_all add: unat_word_ariths unat_minus_one used)
  then have sum: "unat (stackUsed ?st) + unat (stackLeft ?st) = ?U + ?L" using U by simp
  have table: "table_of 1022 ?st = table_of 1022 st" "table_present 1022 ?st = table_present 1022 st"
    by (simp_all add: table_of_def table_present_def)
  have "used_frames st = used_frames ?st @ [?a]"
    using U upt_Suc_append [of 0 "?U - 1"] by (simp add: used_frames_def u(1))
  moreover have "stack_pages ?st = stack_pages st" unfolding stack_pages_def sum ..
  moreover have "stack_page ?st = stack_page st" by (simp add: stack_page_def table fun_eq_iff)
  ultimately have "free_frames st = add_mset ?a (free_frames ?st)" by (simp add: free_frames_def)
  moreover have "stack_ok ?st" using ok unfolding stack_ok_def sum table .
  moreover have "popPageFrame st = Some (?a, ?st)" using used by (simp add: popPageFrame_def)
  ultimately show ?thesis by blast
qed

lemma popPageFrame_page:
  assumes ok: "stack_ok st" and used: "stackUsed st = 0" "stackLeft st \<noteq> 0"
  shows "\<exists>a st'. popPageFrame st = Some (a, st') \<and> stack_ok st' \<and> free_frames st = add_mset a (free_frames st')"
proof -
  obtain m where m: "unat (stackLeft st) = 1024 * m" "m \<le> 1024" using ok used(1) by (auto simp: stack_ok_def)
  moreover have "0 < unat (stackLeft st)" using used(2) by (simp add: unat_gt_0)
  ultimately obtain n where n: "unat (stackLeft st) = 1024 * Suc n" "n < 1024" by (cases m) auto
  then have left: "stackLeft st = w32 (1024 * Suc n)" by (metis w32_unat)
  have P: "stack_pages st = Suc n" by (simp add: stack_pages_def n used)
  have table: "table_present 1022 st" using ok by (simp add: stack_ok_def)
  let ?va = "w32 (0xFF800000 + 4096 * (1023 - n))"
  define st1 where "st1 = set_frame (table_of 1022 st) (w32 (1023 - n)) 0 st"
  note wr = stack_table_write [OF table n(2), of 0, folded st1_def]
  let ?st = "st1\<lparr>stackLeft := stackLeft st1 - 1024\<rparr>"
  have i: "addressToIndex ?va = Some (1022, w32 (1023 - n))" by (rule stack_index) simp
  have "kernel_unMap no_pop ?va st = Some st1"
    unfolding st1_def by (rule kernel_unMap_present [OF i]) (use table in \<open>simp add: table_present_def\<close>)
  moreover have "kernel_getPhysicalAddress ?va st = Some (stack_page st n)"
    unfolding kernel_getPhysicalAddress_index [OF i] using table by (simp add: table_present_def stack_page_def)
  moreover have "0xFFC00000 - stackLeft st * 4 = ?va"
    using stack_address [OF n(2)] unfolding left by (simp add: w32_def algebra_simps)
  ultimately have "popPageFrame st = Some (stack_page st n, ?st)"
    using used by (simp add: popPageFrame_def word_gt_0)
  moreover have sizes: "unat (stackUsed ?st) = 0" "unat (stackLeft ?st) = 1024 * n"
  proof -
    have "w32 (1024 * Suc n) - 1024 = w32 (1024 * n)" by (simp add: w32_def)
    then show "unat (stackUsed ?st) = 0" "unat (stackLeft ?st) = 1024 * n"
      using used left n(2) by (simp_all add: st1_def unat_w32)
  qed
  have same: "table_of 1022 ?st = table_of 1022 st1" "table_present 1022 ?st = table_present 1022 st1"
    "stack_page ?st = stack_page st1"
    by (simp_all add: table_of_def table_present_def stack_page_def fun_eq_iff)
  have used_same: "used_frames ?st = used_frames st" by (simp add: used_frames_def st1_def)
  have "stack_pages ?st = n" unfolding stack_pages_def sizes by simp
  then have "free_frames st = add_mset (stack_page st n) (free_frames ?st)"
  proof -
    assume pages: "stack_pages ?st = n"
    have "map (stack_page st) [0..<Suc n] = map (stack_page st1) [0..<n] @ [stack_page st n]" using wr(4) by simp
    then show "free_frames st = add_mset (stack_page st n) (free_frames ?st)"
      unfolding free_frames_def same P pages used_same by (simp only: mset_append mset.simps) simp
  qed
  moreover have "stack_ok ?st" unfolding stack_ok_def sizes same using wr(2) n by auto
  ultimately show ?thesis using \<open>popPageFrame st = Some (stack_page st n, ?st)\<close> by blast
qed

lemma pushPageFrame_free:
  assumes "stack_ok st" "a AND 0xFFF = 0" "unat (stackUsed st) < 1024 * 1024"
  shows "\<exists>st'. pushPageFrame a st = Some st' \<and> stack_ok st' \<and> free_frames st' = add_mset a (free_frames st) \<and>
    unat (stackUsed st') \<le> Suc (unat (stackUsed st))"
  using pushPageFrame_left [OF assms(1)] pushPageFrame_full [OF assms(1) _ assms(3,2)] by (cases "stackLeft st = 0") auto

lemma free_frames_empty:
  assumes "stack_ok st"
  shows "free_frames st = {#} \<longleftrightarrow> stackUsed st = 0 \<and> stackLeft st = 0"
proof -
  obtain k where k: "unat (stackUsed st) + unat (stackLeft st) = 1024 * k" using assms by (auto simp: stack_ok_def)
  have "free_frames st = {#} \<longleftrightarrow> unat (stackUsed st) = 0 \<and> stack_pages st = 0"
    by (simp add: free_frames_def used_frames_def mset_set_empty_iff)
  also have "\<dots> \<longleftrightarrow> unat (stackUsed st) = 0 \<and> unat (stackLeft st) = 0" using k by (auto simp: stack_pages_def)
  finally show ?thesis by (simp add: unat_eq_zero)
qed

text \<open>
  \<open>popPageFrame\<close> always returns, keeps the stack's invariant, and takes one frame out of the
  free frames; it gives the null address exactly when no frame is free.
\<close>

theorem popPageFrame_takes:
  assumes "stack_ok st"
  shows "\<exists>a st'. popPageFrame st = Some (a, st') \<and> stack_ok st' \<and>
    (if free_frames st = {#} then a = 0 \<and> st' = st else free_frames st = add_mset a (free_frames st'))"
proof (cases "free_frames st = {#}")
  case True
  then show ?thesis using assms free_frames_empty [OF assms] by (simp add: popPageFrame_def)
next
  case False
  then have "stackUsed st \<noteq> 0 \<or> stackLeft st \<noteq> 0" using free_frames_empty [OF assms] by simp
  then show ?thesis using False popPageFrame_used [OF assms] popPageFrame_page [OF assms] by (cases "stackUsed st = 0") auto
qed

text \<open>
  the frames that \<open>PhysicalMemory::initialize\<close> pushes, and nothing else, become free: after
  pushing a list of aligned frames the free frames are those of before and the list.
\<close>

theorem push_frames_free:
  assumes "stack_ok st" "\<forall>a \<in> set as. a AND 0xFFF = 0" "unat (stackUsed st) + length as \<le> 1024 * 1024"
  shows "\<exists>st'. push_frames as st = Some st' \<and> stack_ok st' \<and> free_frames st' = mset as + free_frames st"
  using assms
proof (induction as arbitrary: st)
  case (Cons a as)
  then obtain st1 where st1: "pushPageFrame a st = Some st1" "stack_ok st1" "free_frames st1 = add_mset a (free_frames st)"
    "unat (stackUsed st1) \<le> Suc (unat (stackUsed st))"
    using pushPageFrame_free [of st a] by auto
  then show ?case using Cons.IH [of st1] Cons.prems by auto
qed simp


lemma demo_stack_ok: "stack_ok demo_paging"
  by (simp add: stack_ok_def demo_paging_def table_present_def table_of_def page_of_def)

theorem popPageFrame_takes_witness:
  "\<exists>a st'. popPageFrame demo_paging = Some (a, st') \<and> a = 0 \<and> st' = demo_paging"
proof -
  have "free_frames demo_paging = {#}" using free_frames_empty [OF demo_stack_ok] by (simp add: demo_paging_def)
  then show ?thesis using popPageFrame_takes [OF demo_stack_ok] by simp
qed

theorem push_frames_free_witness:
  "\<exists>st'. push_frames [0x7000, 0x8000] demo_paging = Some st' \<and> stack_ok st' \<and> free_frames st' = {#0x7000, 0x8000#}"
proof -
  have "free_frames demo_paging = {#}" using free_frames_empty [OF demo_stack_ok] by (simp add: demo_paging_def)
  then show ?thesis
    using push_frames_free [OF demo_stack_ok, of "[0x7000, 0x8000]"] by (simp add: demo_paging_def)
qed

end
