(* ===== verification/Kernel_Segment.thy ===== *)
theory Kernel_Segment
  imports Kernel_Paging
begin

text \<open>
  The lists of memory segments of the address spaces: \<open>kernel/src/memorysegment.cpp\<close>.  The
  segments are a store of records by address.  They are taken from the pool that starts at
  \<open>segmentsPage\<close>: pages of 204 entries of 20 bytes, with a pointer to the next page at offset 4080.
  \<open>None\<close> stands for an assertion that fails, for a null pointer that is followed (page 0 is never
  mapped) and for a loop that does not end.
\<close>

section \<open>Definitions\<close>

record segment =
  seg_address :: u32
  seg_size :: u32
  seg_flags :: u32
  seg_prev :: addr
  seg_next :: addr

record kmem = paging +
  segs :: "addr \<Rightarrow> segment"
  nextPage :: "addr \<Rightarrow> addr"
  segmentsPage :: addr
  kernelFirstSegment :: addr

definition SEG_NOUNMAP :: u32 where "SEG_NOUNMAP = 0x10000"

definition set_seg :: "addr \<Rightarrow> (segment \<Rightarrow> segment) \<Rightarrow> 'x kmem_scheme \<Rightarrow> 'x kmem_scheme" where
  "set_seg p f st = st\<lparr>segs := (segs st)(p := f (segs st p))\<rparr>"

definition getFreeSpaceAfter :: "addr \<Rightarrow> 'x kmem_scheme \<Rightarrow> u32 option" where
  "getFreeSpaceAfter segment st =
     (let nxt = seg_next (segs st segment) in
      if nxt = 0 then None
      else Some (seg_address (segs st nxt) - (seg_address (segs st segment) + seg_size (segs st segment))))"

definition MemorySegment_init :: "addr \<Rightarrow> u32 \<Rightarrow> u32 \<Rightarrow> u32 \<Rightarrow> addr \<Rightarrow> addr \<Rightarrow> 'x kmem_scheme \<Rightarrow> 'x kmem_scheme" where
  "MemorySegment_init this address sz flags prev nxt =
     set_seg this (\<lambda>_. \<lparr>seg_address = address, seg_size = sz, seg_flags = flags, seg_prev = prev, seg_next = nxt\<rparr>)"

partial_function (option) findFreeSegment :: "addr \<Rightarrow> u32 \<Rightarrow> 'x kmem_scheme \<Rightarrow> u32 option" where
  "findFreeSegment currentSegment sz st =
     Option.bind (getFreeSpaceAfter currentSegment st) (\<lambda>free.
       if free < sz
       then let currentSegment = seg_next (segs st currentSegment) in
            if currentSegment = 0 then Some 0 else findFreeSegment currentSegment sz st
       else Some (seg_address (segs st currentSegment) + seg_size (segs st currentSegment)))"

text \<open>The loop of \<open>addSegment\<close> that finds the segment to insert behind.\<close>

partial_function (option) segment_before :: "addr \<Rightarrow> u32 \<Rightarrow> 'x kmem_scheme \<Rightarrow> addr option" where
  "segment_before currentSegment endAddress st =
     (let nxt = seg_next (segs st currentSegment) in
      if nxt \<noteq> 0 \<and> seg_address (segs st nxt) < endAddress then segment_before nxt endAddress st
      else Some currentSegment)"

definition addSegment_link :: "addr \<Rightarrow> addr \<Rightarrow> 'x kmem_scheme \<Rightarrow> 'x kmem_scheme option" where
  "addSegment_link firstSegment newSegment st =
     (let endAddress = seg_address (segs st newSegment) + seg_size (segs st newSegment) in
      Option.bind (segment_before firstSegment endAddress st) (\<lambda>currentSegment.
        let cur = segs st currentSegment in
        if \<not> (seg_address cur + seg_size cur \<le> seg_address (segs st newSegment)) then None
        else if \<not> (seg_next cur = 0 \<or> seg_address (segs st (seg_next cur)) \<ge> endAddress) then None
        else
          let st = set_seg newSegment (\<lambda>s. s\<lparr>seg_prev := currentSegment\<rparr>) st;
              st = set_seg newSegment (\<lambda>s. s\<lparr>seg_next := seg_next (segs st currentSegment)\<rparr>) st;
              st = set_seg currentSegment (\<lambda>s. s\<lparr>seg_next := newSegment\<rparr>) st
          in Some (if seg_next (segs st newSegment) \<noteq> 0
                   then set_seg (seg_next (segs st newSegment)) (\<lambda>s. s\<lparr>seg_prev := newSegment\<rparr>) st
                   else st)))"

text \<open>\<open>current++\<close>, and whether the end of the page is reached.\<close>

definition pool_end :: "addr \<Rightarrow> bool" where
  "pool_end current \<longleftrightarrow> current AND 0xFFF = 4080"

partial_function (option) free_entry :: "addr \<Rightarrow> 'x kmem_scheme \<Rightarrow> addr option" where
  "free_entry current st =
     (if seg_address (segs st current) \<noteq> 0 \<and> seg_size (segs st current) \<noteq> 0
      then let current = current + 20 in
           if pool_end current
           then if nextPage st current = 0 then None else free_entry (nextPage st current) st
           else free_entry current st
      else Some current)"

definition allocateSegment :: "u32 \<Rightarrow> u32 \<Rightarrow> u32 \<Rightarrow> 'x kmem_scheme \<Rightarrow> (addr \<times> 'x kmem_scheme) option" where
  "allocateSegment address sz flags st =
     map_option (\<lambda>current.
         (current, set_seg current (\<lambda>s. s\<lparr>seg_address := address, seg_size := sz, seg_flags := flags\<rparr>) st))
       (free_entry (segmentsPage st) st)"

definition deallocateSegment :: "addr \<Rightarrow> 'x kmem_scheme \<Rightarrow> 'x kmem_scheme" where
  "deallocateSegment segment =
     set_seg segment (\<lambda>_. \<lparr>seg_address = 0, seg_size = 0, seg_flags = 0, seg_prev = 0, seg_next = 0\<rparr>)"

text \<open>The loop of \<open>verifySegmentList\<close>: the number of free entries, the last one and the last page's pointer.\<close>

partial_function (option) count_free ::
  "addr \<Rightarrow> nat \<Rightarrow> addr \<Rightarrow> 'x kmem_scheme \<Rightarrow> (nat \<times> addr \<times> addr) option" where
  "count_free current freeSegmentSpaceFound freeSegment st =
     (let free = seg_address (segs st current) = 0 \<and> seg_size (segs st current) = 0;
          freeSegment = (if free then current else freeSegment);
          freeSegmentSpaceFound = (if free then freeSegmentSpaceFound + 1 else freeSegmentSpaceFound);
          current = current + 20
      in if pool_end current
         then if nextPage st current = 0 then Some (freeSegmentSpaceFound, freeSegment, current)
              else count_free (nextPage st current) freeSegmentSpaceFound freeSegment st
         else count_free current freeSegmentSpaceFound freeSegment st)"

text \<open>Clearing a page of the pool clears its 204 entries and its pointer.\<close>

definition clear_pool_page :: "addr \<Rightarrow> 'x kmem_scheme \<Rightarrow> 'x kmem_scheme" where
  "clear_pool_page page st =
     st\<lparr>segs := fold (\<lambda>k h. h(page + of_nat (20 * k) := \<lparr>seg_address = 0, seg_size = 0, seg_flags = 0,
                                  seg_prev = 0, seg_next = 0\<rparr>)) [0..<204] (segs st),
        nextPage := (nextPage st)(page + 4080 := 0)\<rparr>"

definition verifySegmentList :: "'x kmem_scheme \<Rightarrow> 'x kmem_scheme option" where
  "verifySegmentList st =
     Option.bind (count_free (segmentsPage st) 0 0 st) (\<lambda>(freeSegmentSpaceFound, freeSegment, next_ptr).
       if freeSegmentSpaceFound = 1 then
         Option.bind (findFreeSegment (kernelFirstSegment st) 4096 st) (\<lambda>address.
         Option.bind (popPageFrame st) (\<lambda>(physical, st).
         Option.bind (kernel_mapAt popPageFrame address physical (PROT_READ OR PROT_WRITE) st) (\<lambda>(_, st).
           let st = st\<lparr>nextPage := (nextPage st)(next_ptr := address)\<rparr>;
               st = clear_pool_page (nextPage st next_ptr) st;
               st = set_seg freeSegment (\<lambda>s. s\<lparr>seg_address := address, seg_size := 4096,
                      seg_flags := PROT_READ OR PROT_WRITE\<rparr>) st
           in addSegment_link (kernelFirstSegment st) freeSegment st)))
       else Some st)"

definition addSegment :: "addr \<Rightarrow> u32 \<Rightarrow> u32 \<Rightarrow> u32 \<Rightarrow> 'x kmem_scheme \<Rightarrow> 'x kmem_scheme option" where
  "addSegment firstSegment address sz protection st =
     Option.bind (allocateSegment address sz protection st) (\<lambda>(newSegment, st).
     Option.bind (addSegment_link firstSegment newSegment st) verifySegmentList)"

definition findAndAddNewSegment ::
  "addr \<Rightarrow> u32 \<Rightarrow> u32 \<Rightarrow> 'x kmem_scheme \<Rightarrow> (u32 \<times> 'x kmem_scheme) option" where
  "findAndAddNewSegment firstSegment sz protection st =
     Option.bind (findFreeSegment firstSegment sz st) (\<lambda>address.
     Option.bind (allocateSegment address sz protection st) (\<lambda>(newSegment, st).
     Option.bind (addSegment_link firstSegment newSegment st) (\<lambda>st.
     map_option (\<lambda>st. (address, st)) (verifySegmentList st))))"

text \<open>
  \<open>removeSegment\<close>: the loop that skips the segments below the address, and the loop that removes,
  shortens or splits segments until the size is used up.
\<close>

partial_function (option) segment_containing :: "addr \<Rightarrow> u32 \<Rightarrow> 'x kmem_scheme \<Rightarrow> addr option" where
  "segment_containing currentSegment address st =
     (if currentSegment = 0 then None
      else if seg_address (segs st currentSegment) + seg_size (segs st currentSegment) \<le> address
      then segment_containing (seg_next (segs st currentSegment)) address st
      else Some currentSegment)"

definition minus_free :: "u32 \<Rightarrow> u32 \<Rightarrow> u32" where
  "minus_free sz free = (if sz < free then 0 else sz - free)"

definition unlink_segment :: "addr \<Rightarrow> 'x kmem_scheme \<Rightarrow> 'x kmem_scheme" where
  "unlink_segment currentSegment st =
     (let nxt = seg_next (segs st currentSegment);
          st = (if nxt \<noteq> 0
                then set_seg nxt (\<lambda>s. s\<lparr>seg_prev := seg_prev (segs st currentSegment)\<rparr>) st else st);
          st = (if seg_prev (segs st currentSegment) \<noteq> 0
                then set_seg (seg_prev (segs st currentSegment)) (\<lambda>s. s\<lparr>seg_next := nxt\<rparr>) st else st)
      in deallocateSegment currentSegment st)"

text \<open>One of the three branches that keep the segment: the new address, size and state.\<close>

definition shrink_segment ::
  "addr \<Rightarrow> u32 \<Rightarrow> u32 \<Rightarrow> 'x kmem_scheme \<Rightarrow> (u32 \<times> u32 \<times> 'x kmem_scheme) option" where
  "shrink_segment currentSegment address sz st =
     (let cur = segs st currentSegment in
      if seg_address cur = address \<and> seg_size cur > sz then
        Some (address, 0, set_seg currentSegment
          (\<lambda>s. s\<lparr>seg_address := seg_address s + sz, seg_size := seg_size s - sz\<rparr>) st)
      else if seg_address cur + seg_size cur < address + sz then
        let diff = seg_address cur + seg_size cur - address in
        Some (address + diff, sz - diff, set_seg currentSegment (\<lambda>s. s\<lparr>seg_size := seg_size s - diff\<rparr>) st)
      else
        let firstSize = address - seg_address cur;
            secondSize = seg_size cur - firstSize - sz
        in map_option (\<lambda>(newSegment, st).
               let st = set_seg newSegment (\<lambda>s. s\<lparr>seg_prev := currentSegment\<rparr>) st;
                   st = set_seg newSegment (\<lambda>s. s\<lparr>seg_next := seg_next (segs st currentSegment)\<rparr>) st;
                   st = set_seg currentSegment (\<lambda>s. s\<lparr>seg_next := newSegment\<rparr>) st;
                   st = set_seg currentSegment (\<lambda>s. s\<lparr>seg_size := firstSize\<rparr>) st
               in (address, sz, st))
             (allocateSegment (address + sz) secondSize (seg_flags cur) st))"

partial_function (option) remove_loop :: "addr \<Rightarrow> u32 \<Rightarrow> u32 \<Rightarrow> 'x kmem_scheme \<Rightarrow> 'x kmem_scheme option" where
  "remove_loop currentSegment address sz st =
     (if sz = 0 then Some st
      else if currentSegment = 0 then None
      else let cur = segs st currentSegment in
        if seg_address cur = address \<and> seg_size cur \<le> sz then
          Option.bind (getFreeSpaceAfter currentSegment st) (\<lambda>free.
            remove_loop (seg_next cur) (address + seg_size cur) (minus_free (sz - seg_size cur) free)
              (unlink_segment currentSegment st))
        else
          Option.bind (shrink_segment currentSegment address sz st) (\<lambda>(address, sz, st).
          Option.bind (getFreeSpaceAfter currentSegment st) (\<lambda>free.
            remove_loop (seg_next (segs st currentSegment)) address (minus_free sz free) st)))"

definition removeSegment :: "addr \<Rightarrow> u32 \<Rightarrow> u32 \<Rightarrow> 'x kmem_scheme \<Rightarrow> 'x kmem_scheme option" where
  "removeSegment firstSegment address sz st =
     Option.bind (segment_containing firstSegment address st) (\<lambda>currentSegment.
     Option.bind (remove_loop currentSegment address sz st) verifySegmentList)"

declare findFreeSegment.simps [code] segment_before.simps [code] free_entry.simps [code]
  count_free.simps [code] segment_containing.simps [code] remove_loop.simps [code]

section \<open>Lists of segments\<close>

text \<open>
  The abstract view of a list: for each segment its record's address, its range and its flags.
\<close>

datatype snode = Node (ptr: addr) (lo: nat) (hi: nat) (fl: u32)

definition seg_of :: "snode \<Rightarrow> addr \<Rightarrow> addr \<Rightarrow> segment" where
  "seg_of x pv nx = \<lparr>seg_address = w32 (lo x), seg_size = w32 (hi x - lo x), seg_flags = fl x,
     seg_prev = pv, seg_next = nx\<rparr>"

lemma seg_of_sels [simp]:
  "seg_address (seg_of x pv nx) = w32 (lo x)" "seg_size (seg_of x pv nx) = w32 (hi x - lo x)"
  "seg_prev (seg_of x pv nx) = pv" "seg_next (seg_of x pv nx) = nx"
  "(seg_of x pv nx)\<lparr>seg_prev := q\<rparr> = seg_of x q nx" "(seg_of x pv nx)\<lparr>seg_next := q\<rparr> = seg_of x pv q"
  by (simp_all add: seg_of_def)

fun first_ptr :: "snode list \<Rightarrow> addr \<Rightarrow> addr" where
  "first_ptr [] nx = nx"
| "first_ptr (x # xs) nx = ptr x"

fun last_ptr :: "addr \<Rightarrow> snode list \<Rightarrow> addr" where
  "last_ptr pv [] = pv"
| "last_ptr pv (x # xs) = last_ptr (ptr x) xs"

fun segs_at :: "(addr \<Rightarrow> segment) \<Rightarrow> addr \<Rightarrow> snode list \<Rightarrow> addr \<Rightarrow> bool" where
  "segs_at h pv [] nx \<longleftrightarrow> True"
| "segs_at h pv (x # xs) nx \<longleftrightarrow> h (ptr x) = seg_of x pv (first_ptr xs nx) \<and> ptr x \<noteq> 0 \<and> segs_at h (ptr x) xs nx"

lemma first_ptr_append [simp]: "first_ptr (xs @ ys) nx = first_ptr xs (first_ptr ys nx)"
  by (cases xs) auto

lemma last_ptr_append [simp]: "last_ptr pv (xs @ ys) = last_ptr (last_ptr pv xs) ys"
  by (induction xs arbitrary: pv) auto

lemma segs_at_append:
  "segs_at h pv (xs @ ys) nx \<longleftrightarrow> segs_at h pv xs (first_ptr ys nx) \<and> segs_at h (last_ptr pv xs) ys nx"
  by (induction xs arbitrary: pv) auto

lemma segs_at_cong: "segs_at h pv xs nx \<Longrightarrow> \<forall>p \<in> ptr ` set xs. h' p = h p \<Longrightarrow> segs_at h' pv xs nx"
  by (induction xs arbitrary: pv) auto

lemma segs_at_outside [simp]:
  "p \<notin> ptr ` set xs \<Longrightarrow> segs_at (h(p := s)) pv xs nx \<longleftrightarrow> segs_at h pv xs nx"
  by (induction xs arbitrary: pv) auto

lemma segs_at_ptr_nonzero: "segs_at h pv xs nx \<Longrightarrow> x \<in> set xs \<Longrightarrow> ptr x \<noteq> 0"
  by (induction xs arbitrary: pv) auto

text \<open>The ranges are ascending, not empty, and stay below the end of the address space.\<close>

definition range_ok :: "snode \<Rightarrow> bool" where
  "range_ok x \<longleftrightarrow> lo x < hi x \<and> hi x \<le> 2 ^ 32"

definition ranges_ok :: "snode list \<Rightarrow> bool" where
  "ranges_ok xs \<longleftrightarrow> list_all range_ok xs \<and> sorted_wrt (\<lambda>x y. hi x \<le> lo y) xs"

lemma ranges_ok_append:
  "ranges_ok (xs @ ys) \<longleftrightarrow> ranges_ok xs \<and> ranges_ok ys \<and> (\<forall>x \<in> set xs. \<forall>y \<in> set ys. hi x \<le> lo y)"
  by (auto simp: ranges_ok_def sorted_wrt_append)

lemma ranges_ok_Cons:
  "ranges_ok (x # xs) \<longleftrightarrow> range_ok x \<and> (\<forall>y \<in> set xs. hi x \<le> lo y) \<and> ranges_ok xs"
  by (auto simp: ranges_ok_def)

lemma range_ok_end: "range_ok x \<Longrightarrow> w32 (lo x) + w32 (hi x - lo x) = w32 (hi x)"
  by (simp add: range_ok_def w32_arith)

lemma set_seg_simps [simp]:
  "segs (set_seg p f st) = (segs st)(p := f (segs st p))"
  "nextPage (set_seg p f st) = nextPage st" "segmentsPage (set_seg p f st) = segmentsPage st"
  "kernelFirstSegment (set_seg p f st) = kernelFirstSegment st"
  "frames (set_seg p f st) = frames st"
  by (simp_all add: set_seg_def)

lemma getFreeSpaceAfter_at:
  assumes "segs_at (segs st) pv (x # y # ys) nx" "ranges_ok (x # y # ys)"
  shows "getFreeSpaceAfter (ptr x) st = Some (w32 (lo y - hi x))"
  using assms range_ok_end [of x] w32_diff [of "hi x" "lo y"]
  by (auto simp: getFreeSpaceAfter_def ranges_ok_Cons)

lemma getFreeSpaceAfter_last: "segs_at (segs st) pv [x] 0 \<Longrightarrow> getFreeSpaceAfter (ptr x) st = None"
  by (simp add: getFreeSpaceAfter_def)

text \<open>\<open>findFreeSegment\<close> is first fit in the gaps between the segments.\<close>

fun first_gap :: "nat \<Rightarrow> snode list \<Rightarrow> nat option" where
  "first_gap n (x # y # ys) = (if lo y - hi x < n then first_gap n (y # ys) else Some (hi x))"
| "first_gap n _ = None"

lemma findFreeSegment_at:
  assumes "segs_at (segs st) pv (x # xs) 0" "ranges_ok (x # xs)"
  shows "findFreeSegment (ptr x) sz st = map_option w32 (first_gap (unat sz) (x # xs))"
  using assms
proof (induction xs arbitrary: pv x)
  case Nil
  then show ?case by (subst findFreeSegment.simps) (simp add: getFreeSpaceAfter_last)
next
  case (Cons y ys)
  have free: "getFreeSpaceAfter (ptr x) st = Some (w32 (lo y - hi x))"
    by (rule getFreeSpaceAfter_at [OF Cons.prems])
  have "lo y - hi x < 2 ^ 32" using Cons.prems by (auto simp: ranges_ok_Cons range_ok_def)
  then have less: "w32 (lo y - hi x) < sz \<longleftrightarrow> lo y - hi x < unat sz"
    by (simp add: word_less_nat_alt unat_w32)
  have "ranges_ok (y # ys)" "segs_at (segs st) (ptr x) (y # ys) 0" "ptr y \<noteq> 0"
    using Cons.prems by (simp_all add: ranges_ok_Cons)
  note IH = Cons.IH [OF this(2,1)]
  show ?case
    using Cons.prems free less IH \<open>ptr y \<noteq> 0\<close> range_ok_end [of x]
    by (subst findFreeSegment.simps) (simp add: ranges_ok_Cons)
qed

lemma first_gapD:
  "first_gap n xs = Some v \<Longrightarrow> \<exists>ys x y zs. xs = ys @ x # y # zs \<and> v = hi x \<and> n \<le> lo y - hi x"
proof (induction n xs rule: first_gap.induct)
  case (1 n x y ys)
  show ?case
  proof (cases "lo y - hi x < n")
    case True
    then obtain as b c cs where *: "y # ys = as @ b # c # cs" "v = hi b" "n \<le> lo c - hi b"
      using 1 by auto
    then have "x # y # ys = (x # as) @ b # c # cs" by simp
    then show ?thesis using *(2,3) by blast
  next
    case False
    moreover have "x # y # ys = [] @ x # y # ys" by simp
    ultimately show ?thesis using 1(2) by (metis first_gap.simps(1) not_less option.inject)
  qed
qed auto

text \<open>Inserting a segment into a gap.\<close>

lemma segment_before_at:
  assumes "segs_at (segs st) pv (ys @ x # zs) 0" "\<forall>u \<in> set (ys @ [x]). lo u < e"
    "zs = [] \<or> e \<le> lo (hd zs)" "e < 2 ^ 32" "\<forall>u \<in> set zs. lo u < 2 ^ 32"
  shows "segment_before (first_ptr (ys @ [x]) 0) (w32 e) st = Some (ptr x)"
  using assms
proof (induction ys arbitrary: pv)
  case Nil
  then show ?case
    by (subst segment_before.simps) (cases zs; auto simp: w32_less_iff)
next
  case (Cons u us)
  have nxt: "seg_next (segs st (ptr u)) = first_ptr (us @ [x]) 0" "first_ptr (us @ [x]) 0 \<noteq> 0"
    using Cons.prems(1) by (cases us; simp)+
  obtain v vs where v: "us @ [x] = v # vs" by (cases us) auto
  have "segs st (ptr v) = seg_of v (ptr u) (first_ptr (tl (us @ x # zs)) 0)"
    using Cons.prems(1) v by (cases us) auto
  moreover have "v \<in> set (us @ [x])" using v by simp
  then have "lo v < e" using Cons.prems(2) by auto
  ultimately have "seg_address (segs st (first_ptr (us @ [x]) 0)) < w32 e"
    using v Cons.prems(4) by (simp add: w32_less_iff)
  then have "segment_before (ptr u) (w32 e) st = segment_before (first_ptr (us @ [x]) 0) (w32 e) st"
    using nxt by (subst segment_before.simps) simp
  also have "\<dots> = Some (ptr x)" by (rule Cons.IH [of "ptr u"]) (use Cons.prems in simp_all)
  finally show ?case by simp
qed

definition same_but_segs :: "'x kmem_scheme \<Rightarrow> 'x kmem_scheme \<Rightarrow> bool" where
  "same_but_segs st st' \<longleftrightarrow> st' = st\<lparr>segs := segs st'\<rparr>"

lemma same_but_segs_fields:
  assumes "same_but_segs st st'"
  shows "nextPage st' = nextPage st" "segmentsPage st' = segmentsPage st"
    "kernelFirstSegment st' = kernelFirstSegment st"
  using arg_cong [OF assms [unfolded same_but_segs_def], of nextPage]
    arg_cong [OF assms [unfolded same_but_segs_def], of segmentsPage]
    arg_cong [OF assms [unfolded same_but_segs_def], of kernelFirstSegment] by simp_all

lemma same_but_segs_set [simp]:
  "same_but_segs st st" "same_but_segs st st' \<Longrightarrow> same_but_segs st (set_seg p f st')"
  unfolding same_but_segs_def set_seg_def by (metis kmem.surjective kmem.update_convs(1))+

lemma segs_at_insert:
  assumes at: "segs_at h pv (ys @ x # y # zs) 0" and dis: "distinct (map ptr (ys @ x # y # zs))"
    and q: "ptr q \<notin> ptr ` set (ys @ x # y # zs)" "ptr q \<noteq> 0"
    and h': "h' = h(ptr q := seg_of q (ptr x) (ptr y), ptr x := (h (ptr x))\<lparr>seg_next := ptr q\<rparr>,
               ptr y := (h (ptr y))\<lparr>seg_prev := ptr q\<rparr>)"
  shows "segs_at h' pv (ys @ x # q # y # zs) 0"
proof -
  have parts: "segs_at h pv ys (ptr x)" "segs_at h (ptr y) zs 0"
    "h (ptr x) = seg_of x (last_ptr pv ys) (ptr y)" "h (ptr y) = seg_of y (ptr x) (first_ptr zs 0)"
    "ptr x \<noteq> 0" "ptr y \<noteq> 0"
    using at by (simp_all add: segs_at_append)
  have neq: "ptr q \<noteq> ptr x" "ptr q \<noteq> ptr y" "ptr x \<noteq> ptr y" using q(1) dis by auto
  have "segs_at h' pv ys (ptr x)" using parts(1) dis q(1) by (simp add: h' image_Un)
  moreover have "segs_at h' (ptr y) zs 0" using parts(2) dis q(1) by (simp add: h' image_Un)
  ultimately show ?thesis using parts(3-6) neq q(2) by (simp add: segs_at_append h')
qed

lemma addSegment_link_at:
  assumes at: "segs_at (segs st) pv (ys @ x # y # zs) 0" and dis: "distinct (map ptr (ys @ x # y # zs))"
    and ok: "ranges_ok (ys @ x # y # zs)"
    and q: "ptr q \<notin> ptr ` set (ys @ x # y # zs)" "ptr q \<noteq> 0" "range_ok q" "hi x \<le> lo q" "hi q \<le> lo y"
    and new: "\<exists>pv nx. segs st (ptr q) = seg_of q pv nx"
  shows "\<exists>st'. addSegment_link (first_ptr (ys @ [x]) 0) (ptr q) st = Some st' \<and>
    segs_at (segs st') pv (ys @ x # q # y # zs) 0 \<and> same_but_segs st st' \<and>
    (\<forall>r. r \<notin> {ptr q, ptr x, ptr y} \<longrightarrow> segs st' r = segs st r)"
proof -
  obtain p0 n0 where hq: "segs st (ptr q) = seg_of q p0 n0" using new by blast
  have hx: "segs st (ptr x) = seg_of x (last_ptr pv ys) (ptr y)" "segs st (ptr y) = seg_of y (ptr x) (first_ptr zs 0)"
    "ptr y \<noteq> 0" using at by (simp_all add: segs_at_append)
  have neq: "ptr q \<noteq> ptr x" "ptr q \<noteq> ptr y" "ptr x \<noteq> ptr y" using q(1) dis by auto
  have rx: "range_ok x" "range_ok y" using ok by (simp_all add: ranges_ok_append ranges_ok_Cons)
  have e: "w32 (lo q) + w32 (hi q - lo q) = w32 (hi q)" "w32 (lo x) + w32 (hi x - lo x) = w32 (hi x)"
    using q(3) rx by (simp_all add: range_ok_end)
  have small: "hi q < 2 ^ 32" "lo y < 2 ^ 32" "hi x < 2 ^ 32" "lo q < 2 ^ 32"
    using q(3-5) rx by (auto simp: range_ok_def)
  have "segment_before (first_ptr (ys @ [x]) 0) (w32 (hi q)) st = Some (ptr x)"
  proof (rule segment_before_at [OF at])
    show "\<forall>u \<in> set (ys @ [x]). lo u < hi q"
      using ok q(3,4) by (fastforce simp: ranges_ok_append ranges_ok_Cons range_ok_def list_all_iff ranges_ok_def [of ys])
    show "\<forall>u \<in> set (y # zs). lo u < 2 ^ 32"
      using ok by (fastforce simp: ranges_ok_append ranges_ok_def [of "x # y # zs"] list_all_iff range_ok_def)
  qed (use q(5) small in simp_all)
  moreover have "w32 (hi x) \<le> w32 (lo q)" "w32 (hi q) \<le> w32 (lo y)" using q small by (simp_all add: w32_le_iff)
  moreover define st1 where "st1 = set_seg (ptr y) (\<lambda>s. s\<lparr>seg_prev := ptr q\<rparr>)
     (set_seg (ptr x) (\<lambda>s. s\<lparr>seg_next := ptr q\<rparr>) (set_seg (ptr q) (\<lambda>s. s\<lparr>seg_next := ptr y\<rparr>)
       (set_seg (ptr q) (\<lambda>s. s\<lparr>seg_prev := ptr x\<rparr>) st)))"
  ultimately have "addSegment_link (first_ptr (ys @ [x]) 0) (ptr q) st = Some st1"
    using hq hx e neq by (simp add: addSegment_link_def)
  moreover have "segs_at (segs st1) pv (ys @ x # q # y # zs) 0"
    by (rule segs_at_insert [OF at dis q(1,2)]) (use hq neq in \<open>auto simp: st1_def fun_eq_iff\<close>)
  moreover have "same_but_segs st st1" by (simp add: st1_def)
  ultimately show ?thesis by (auto simp: st1_def)
qed

section \<open>The pool of segments\<close>

definition page_entries :: "addr \<Rightarrow> addr list" where
  "page_entries p = map (\<lambda>k. p + w32 (20 * k)) [0..<204]"

definition entries :: "addr list \<Rightarrow> addr list" where
  "entries ps = concat (map page_entries ps)"

definition slot_free :: "'x kmem_scheme \<Rightarrow> addr \<Rightarrow> bool" where
  "slot_free st e \<longleftrightarrow> seg_address (segs st e) = 0 \<and> seg_size (segs st e) = 0"

definition slot_usable :: "'x kmem_scheme \<Rightarrow> addr \<Rightarrow> bool" where
  "slot_usable st e \<longleftrightarrow> seg_address (segs st e) = 0 \<or> seg_size (segs st e) = 0"

fun pool_at :: "(addr \<Rightarrow> addr) \<Rightarrow> addr list \<Rightarrow> bool" where
  "pool_at np [] \<longleftrightarrow> False"
| "pool_at np [p] \<longleftrightarrow> 4096 dvd unat p \<and> np (p + 4080) = 0"
| "pool_at np (p # q # ps) \<longleftrightarrow> 4096 dvd unat p \<and> np (p + 4080) = q \<and> q \<noteq> 0 \<and> pool_at np (q # ps)"

lemma page_offset:
  assumes "4096 dvd unat p" "m < 4096"
  shows "unat (p + w32 m) = unat p + m" and "(p + w32 m) AND 0xFFF = w32 m"
proof -
  obtain j where j: "unat p = 4096 * j" using assms(1) by blast
  then have "j < 2 ^ 20" using unat_less_2p32 [of p] by simp
  then show *: "unat (p + w32 m) = unat p + m"
    using assms(2) j by (simp add: unat_word_ariths unat_w32)
  have "(p + w32 m) AND 0xFFF = take_bit 12 (p + w32 m)"
    using take_bit_eq_mask [of 12 "p + w32 m"] by (simp add: mask_eq_exp_minus_1)
  moreover have "unat (take_bit 12 (p + w32 m)) = m"
    unfolding unsigned_take_bit_eq * j using assms(2) by (simp add: take_bit_eq_mod)
  ultimately show "(p + w32 m) AND 0xFFF = w32 m" by (metis w32_unat)
qed

lemma pool_end_entry: "4096 dvd unat p \<Longrightarrow> k < 204 \<Longrightarrow> pool_end (p + w32 (20 * Suc k)) \<longleftrightarrow> k = 203"
  using page_offset(2) [of p "20 * Suc k"] w32_eq_iff [of "20 * Suc k" 4080]
  by (simp add: pool_end_def w32_def [of 4080])

lemma next_entry: "p + w32 (20 * k) + 20 = p + w32 (20 * Suc k)"
  by (simp add: w32_def)

lemma last_entry: "p + w32 4060 + 20 = p + 4080"
  by (simp add: w32_def)

lemma w32_4080: "w32 4080 = 4080"
  by (simp add: w32_def)

lemma free_entry_page:
  assumes "4096 dvd unat p" "k < 204"
  shows "free_entry (p + w32 (20 * k)) st =
    (case List.find (slot_usable st) (map (\<lambda>k. p + w32 (20 * k)) [k..<204]) of
       Some e \<Rightarrow> Some e
     | None \<Rightarrow> if nextPage st (p + 4080) = 0 then None else free_entry (nextPage st (p + 4080)) st)"
  using assms(2)
proof (induction "203 - k" arbitrary: k)
  case 0
  then have k: "k = 203" by simp
  show ?case
    unfolding k using pool_end_entry [OF assms(1), of 203]
    by (subst free_entry.simps) (auto simp: slot_usable_def Let_def next_entry last_entry w32_4080 upt_rec)
next
  case (Suc n)
  then have k: "k < 203" "203 - Suc k = n" by auto
  have "free_entry (p + w32 (20 * k)) st =
      (if slot_usable st (p + w32 (20 * k)) then Some (p + w32 (20 * k)) else free_entry (p + w32 (20 * Suc k)) st)"
    using pool_end_entry [OF assms(1), of k] k
    by (subst free_entry.simps) (auto simp: slot_usable_def Let_def next_entry)
  then show ?case using Suc(1) [of "Suc k"] k upt_conv_Cons [of k 204] by simp
qed

lemma free_entry_pool:
  "pool_at (nextPage st) ps \<Longrightarrow> free_entry (hd ps) st = List.find (slot_usable st) (entries ps)"
proof (induction "nextPage st" ps rule: pool_at.induct)
  case (2 p)
  then show ?case
    using free_entry_page [of p 0 st] by (simp add: entries_def page_entries_def w32_def [of 0] split: option.split)
next
  case (3 p q ps)
  have "List.find P (xs @ ys) = (case List.find P xs of None \<Rightarrow> List.find P ys | Some x \<Rightarrow> Some x)" for P and xs ys :: "addr list"
    by (induction xs) auto
  then show ?case
    using 3 free_entry_page [of p 0 st]
    by (simp add: entries_def page_entries_def [of p] w32_def [of 0] split: option.split)
qed simp

definition last_free :: "'x kmem_scheme \<Rightarrow> addr list \<Rightarrow> addr \<Rightarrow> addr" where
  "last_free st es d = (case filter (slot_free st) es of [] \<Rightarrow> d | fs \<Rightarrow> last fs)"

lemma last_free_simps [simp]:
  "last_free st [] d = d" "last_free st (e # es) d = last_free st es (if slot_free st e then e else d)"
  "last_free st (es @ es') d = last_free st es' (last_free st es d)"
proof -
  show *: "last_free st [] d = d" "last_free st (e # es) d = last_free st es (if slot_free st e then e else d)" for e es d
    by (auto simp: last_free_def split: list.split)
  show "last_free st (es @ es') d = last_free st es' (last_free st es d)"
    by (induction es arbitrary: d) (simp_all add: *)
qed

lemma count_free_page:
  assumes "4096 dvd unat p" "k < 204"
  shows "count_free (p + w32 (20 * k)) n fs st =
    (let es = map (\<lambda>k. p + w32 (20 * k)) [k..<204]; m = n + length (filter (slot_free st) es); f = last_free st es fs
     in if nextPage st (p + 4080) = 0 then Some (m, f, p + 4080)
        else count_free (nextPage st (p + 4080)) m f st)"
  using assms(2)
proof (induction "203 - k" arbitrary: k n fs)
  case 0
  then have k: "k = 203" by simp
  show ?case
    unfolding k using pool_end_entry [OF assms(1), of 203]
    by (subst count_free.simps) (auto simp: slot_free_def Let_def next_entry last_entry w32_4080 upt_rec)
next
  case (Suc j)
  then have k: "k < 203" "203 - Suc k = j" by auto
  let ?e = "p + w32 (20 * k)"
  have "count_free ?e n fs st = count_free (p + w32 (20 * Suc k)) (if slot_free st ?e then n + 1 else n)
      (if slot_free st ?e then ?e else fs) st"
    using pool_end_entry [OF assms(1), of k] k
    by (subst count_free.simps) (auto simp: slot_free_def Let_def next_entry)
  then show ?case using Suc(1) [of "Suc k"] k upt_conv_Cons [of k 204] by (simp add: Let_def)
qed

lemma count_free_pool:
  "pool_at (nextPage st) ps \<Longrightarrow> count_free (hd ps) n fs st =
     Some (n + length (filter (slot_free st) (entries ps)), last_free st (entries ps) fs, last ps + 4080)"
proof (induction "nextPage st" ps arbitrary: n fs rule: pool_at.induct)
  case (2 p)
  then show ?case
    using count_free_page [of p 0 n fs st] by (simp add: entries_def page_entries_def w32_def [of 0] Let_def)
next
  case (3 p q ps)
  then show ?case
    using count_free_page [of p 0 n fs st]
    by (simp add: entries_def page_entries_def [of p] w32_def [of 0] Let_def add.assoc)
qed simp

text \<open>With two free entries the pool is left as it is.\<close>

lemma verifySegmentList_idle:
  assumes "pool_at (nextPage st) ps" "hd ps = segmentsPage st" "{e, e'} \<subseteq> set (entries ps)" "e \<noteq> e'"
    "slot_free st e" "slot_free st e'"
  shows "verifySegmentList st = Some st"
proof -
  let ?fs = "filter (slot_free st) (entries ps)"
  have "{e, e'} \<subseteq> set ?fs" using assms(3,5,6) by auto
  then have "card {e, e'} \<le> length ?fs" by (meson List.finite_set card_length card_mono le_trans)
  then have "length ?fs \<noteq> 1" using assms(4) by simp
  then show ?thesis
    using count_free_pool [OF assms(1), of 0 0] assms(2) by (simp add: verifySegmentList_def)
qed

end
