(* ===== verification/Kernel_SegmentInv.thy ===== *)
theory Kernel_SegmentInv
  imports Kernel_Segment
begin

text \<open>
  The invariant of the kernel's own list of segments: the list is linked in both directions, its
  ranges are aligned, ascending and disjoint, and every record of the list and every page of the
  pool lies in a range of the list, so that new pages never overlap them.
\<close>

section \<open>The invariant\<close>

definition within :: "nat \<Rightarrow> snode \<Rightarrow> bool" where
  "within a x \<longleftrightarrow> lo x \<le> a \<and> a < hi x"

text \<open>\<open>R\<close> is the segment of the kernel's static data.\<close>

definition kinv :: "'x kmem_scheme \<Rightarrow> snode list \<Rightarrow> addr list \<Rightarrow> snode \<Rightarrow> bool" where
  "kinv st xs ps R \<longleftrightarrow>
     segs_at (segs st) 0 xs 0 \<and> distinct (map ptr xs) \<and> ranges_ok xs \<and>
     (\<forall>x \<in> set xs. 4096 dvd lo x \<and> 4096 dvd hi x) \<and>
     xs \<noteq> [] \<and> kernelFirstSegment st = ptr (hd xs) \<and> lo (hd xs) = 0 \<and>
     ptr (hd xs) \<notin> set (entries ps) \<and> ptr (last xs) \<notin> set (entries ps) \<and>
     pool_at (nextPage st) ps \<and> distinct ps \<and> hd ps = segmentsPage st \<and> segmentsPage st \<noteq> 0 \<and>
     R \<in> set xs \<and> ptr R \<notin> set (entries ps) \<and>
     within (unat (segmentsPage st)) R \<and> within (unat (segmentsPage st) + 4095) R \<and>
     (\<forall>x \<in> set xs. ptr x \<notin> set (entries ps) \<longrightarrow> within (unat (ptr x)) R) \<and>
     (\<forall>p \<in> set (tl ps). \<exists>x \<in> set xs. lo x = unat p \<and> hi x = unat p + 4096)"

lemma kinvD:
  assumes "kinv st xs ps R"
  shows "segs_at (segs st) 0 xs 0" "distinct (map ptr xs)" "ranges_ok xs"
    "\<forall>x \<in> set xs. 4096 dvd lo x \<and> 4096 dvd hi x"
    "xs \<noteq> []" "kernelFirstSegment st = ptr (hd xs)" "lo (hd xs) = 0"
    "ptr (hd xs) \<notin> set (entries ps)" "ptr (last xs) \<notin> set (entries ps)"
    "pool_at (nextPage st) ps" "hd ps = segmentsPage st" "segmentsPage st \<noteq> 0"
    "R \<in> set xs" "ptr R \<notin> set (entries ps)"
    "within (unat (segmentsPage st)) R" "within (unat (segmentsPage st) + 4095) R"
    "\<forall>x \<in> set xs. ptr x \<notin> set (entries ps) \<longrightarrow> within (unat (ptr x)) R"
    "\<forall>p \<in> set (tl ps). \<exists>x \<in> set xs. lo x = unat p \<and> hi x = unat p + 4096" "distinct ps"
  using assms unfolding kinv_def by blast+

lemma pool_at_props:
  assumes "pool_at np ps"
  shows "ps \<noteq> []" "\<forall>p \<in> set ps. 4096 dvd unat p" "\<forall>p \<in> set (tl ps). p \<noteq> 0"
  using assms by (induction np ps rule: pool_at.induct) auto

lemma entries_Cons [simp]: "entries [] = []" "entries (p # ps) = page_entries p @ entries ps"
  "entries (ps @ qs) = entries ps @ entries qs"
  by (simp_all add: entries_def)

lemma page_entriesD:
  assumes "e \<in> set (page_entries p)" "4096 dvd unat p"
  shows "unat p \<le> unat e" "unat e < unat p + 4096"
proof -
  obtain k where "e = p + w32 (20 * k)" "k < 204" using assms(1) by (auto simp: page_entries_def)
  then show "unat p \<le> unat e" "unat e < unat p + 4096"
    using page_offset(1) [OF assms(2), of "20 * k"] by simp_all
qed

lemma entriesE:
  assumes "e \<in> set (entries ps)"
  obtains p where "p \<in> set ps" "e \<in> set (page_entries p)"
  using assms by (auto simp: entries_def)

lemma within_unique:
  assumes "ranges_ok xs" "x \<in> set xs" "y \<in> set xs" "within a x" "within a y"
  shows "x = y"
proof (rule ccontr)
  assume "x \<noteq> y"
  moreover obtain ys zs where xs: "xs = ys @ x # zs" using assms(2) split_list by metis
  ultimately have "y \<in> set ys \<or> y \<in> set zs" using assms(3) by auto
  then show False
    using assms(1,4,5) unfolding xs within_def by (fastforce simp: ranges_ok_append ranges_ok_Cons)
qed

lemma pool_page_within:
  assumes "kinv st xs ps R" "p \<in> set ps" "unat p \<le> a" "a < unat p + 4096"
  shows "\<exists>x \<in> set xs. within a x"
proof (cases "p = segmentsPage st")
  case True
  then show ?thesis using kinvD(13,15,16) [OF assms(1)] assms(3,4) unfolding within_def by force
next
  case False
  have "ps \<noteq> []" "hd ps = segmentsPage st" using pool_at_props [OF kinvD(10) [OF assms(1)]] kinvD(11) [OF assms(1)] by auto
  then have "p \<in> set (tl ps)" using False assms(2) by (cases ps) auto
  then show ?thesis using kinvD(18) [OF assms(1)] assms(3,4) unfolding within_def by force
qed

lemma located:
  assumes inv: "kinv st xs ps R" and p: "p \<in> ptr ` set xs \<union> set (entries ps)"
  shows "\<exists>x \<in> set xs. within (unat p) x"
proof (cases "p \<in> set (entries ps)")
  case True
  then obtain q where "q \<in> set ps" "p \<in> set (page_entries q)" by (rule entriesE)
  then show ?thesis
    using pool_page_within [OF inv] page_entriesD pool_at_props(2) [OF kinvD(10) [OF inv]] by blast
next
  case False
  then show ?thesis using p kinvD(13,17) [OF inv] by blast
qed

lemma gap_apart:
  assumes "ranges_ok (ys @ x # y # zs)" "z \<in> set (ys @ x # y # zs)" "hi x \<le> v" "v + n \<le> lo y"
  shows "hi z \<le> v \<or> v + n \<le> lo z"
proof -
  have parts: "range_ok x" "range_ok y" "\<forall>u \<in> set ys. hi u \<le> lo x" "\<forall>u \<in> set zs. hi y \<le> lo u"
    using assms(1) by (simp_all add: ranges_ok_append ranges_ok_Cons)
  consider "z \<in> set ys" | "z = x" | "z = y" | "z \<in> set zs" using assms(2) by auto
  then show ?thesis
    by cases (use parts assms(3,4) in \<open>fastforce simp: range_ok_def\<close>)+
qed

text \<open>A page in a gap is new to the list and to the pool.\<close>

lemma gap_page_fresh:
  assumes inv: "kinv st (ys @ x # y # zs) ps R" and gap: "hi x \<le> v" "v + 4096 \<le> lo y" and "4096 dvd v"
  shows "w32 v \<notin> set ps" "w32 v \<noteq> 0" "unat (w32 v) = v" "v + 4096 < 2 ^ 32"
    "set (page_entries (w32 v)) \<inter> (ptr ` set (ys @ x # y # zs) \<union> set (entries ps)) = {}"
proof -
  let ?xs = "ys @ x # y # zs"
  have ok: "ranges_ok ?xs" by (rule kinvD(3) [OF inv])
  then have small: "range_ok x" "range_ok y" by (simp_all add: ranges_ok_append ranges_ok_Cons)
  then show v: "unat (w32 v) = v" and "v + 4096 < 2 ^ 32" using gap by (auto simp: range_ok_def unat_w32)
  have out: "\<not> within a z" if "v \<le> a" "a < v + 4096" "z \<in> set ?xs" for a z
    using gap_apart [OF ok that(3) gap] that(1,2) by (auto simp: within_def)
  show "w32 v \<notin> set ps"
  proof
    assume "w32 v \<in> set ps"
    then have "\<exists>z \<in> set ?xs. within v z" by (rule pool_page_within [OF inv]) (simp_all add: v)
    then show False using out [of v] by auto
  qed
  have "0 < v" using small gap by (auto simp: range_ok_def)
  then show "w32 v \<noteq> 0" using v by (metis unat_0 less_irrefl)
  show "set (page_entries (w32 v)) \<inter> (ptr ` set ?xs \<union> set (entries ps)) = {}"
  proof (rule equals0I)
    fix e assume e: "e \<in> set (page_entries (w32 v)) \<inter> (ptr ` set ?xs \<union> set (entries ps))"
    then have "v \<le> unat e" "unat e < v + 4096" using page_entriesD [of e "w32 v"] v \<open>4096 dvd v\<close> by auto
    moreover obtain z where "z \<in> set ?xs" "within (unat e) z" using located [OF inv] e by blast
    ultimately show False using out by blast
  qed
qed

lemma entry_nonzero:
  assumes "kinv st xs ps R" "e \<in> set (entries ps)"
  shows "e \<noteq> 0"
proof -
  obtain p where p: "p \<in> set ps" "e \<in> set (page_entries p)" using assms(2) by (rule entriesE)
  note pool = pool_at_props [OF kinvD(10) [OF assms(1)]]
  have "p \<noteq> 0" using p(1) pool kinvD(11,12) [OF assms(1)] by (cases ps) auto
  then have "0 < unat p" by (metis unat_eq_zero bot_nat_0.not_eq_extremum)
  then show ?thesis using page_entriesD(1) [OF p(2)] pool(2) p(1) by fastforce
qed

text \<open>An entry that the allocation of a segment takes is not on the list.\<close>

lemma usable_not_linked:
  assumes inv: "kinv st xs ps R" and e: "e \<in> set (entries ps)" "slot_usable st e"
  shows "e \<notin> ptr ` set xs"
proof
  assume "e \<in> ptr ` set xs"
  then obtain x where x: "x \<in> set xs" "ptr x = e" by blast
  obtain ys zs where xs: "xs = ys @ x # zs" using x(1) split_list by metis
  have "ys \<noteq> []" using kinvD(8) [OF inv] e(1) x(2) xs by auto
  then obtain h ys' where ys: "ys = h # ys'" by (cases ys) auto
  have "range_ok h" "hi h \<le> lo x" "range_ok x"
    using kinvD(3) [OF inv] xs ys by (auto simp: ranges_ok_append ranges_ok_Cons)
  then have "0 < lo x" "lo x < 2 ^ 32" "0 < hi x - lo x" "hi x - lo x < 2 ^ 32" by (auto simp: range_ok_def)
  then have "w32 (lo x) \<noteq> 0" "w32 (hi x - lo x) \<noteq> 0"
    using w32_eq_iff [of "lo x" 0] w32_eq_iff [of "hi x - lo x" 0] by simp_all
  moreover have "\<exists>pv nx. segs st e = seg_of x pv nx"
    using kinvD(1) [OF inv] x(2) xs by (auto simp: segs_at_append)
  ultimately show False using e(2) by (auto simp: slot_usable_def)
qed

section \<open>Inserting a segment\<close>

lemma ranges_ok_insert:
  assumes "ranges_ok (ys @ x # y # zs)" "range_ok q" "hi x \<le> lo q" "hi q \<le> lo y"
  shows "ranges_ok (ys @ x # q # y # zs)"
proof -
  have "range_ok x" "range_ok y" "\<forall>u \<in> set ys. hi u \<le> lo x" "\<forall>u \<in> set zs. hi y \<le> lo u"
    using assms(1) by (simp_all add: ranges_ok_append ranges_ok_Cons)
  then have "\<forall>u \<in> set ys. hi u \<le> lo q" "\<forall>u \<in> set zs. hi q \<le> lo u"
    using assms(2-4) by (fastforce simp: range_ok_def)+
  then show ?thesis using assms by (auto simp: ranges_ok_append ranges_ok_Cons)
qed

lemma pool_at_cong: "pool_at np ps \<Longrightarrow> \<forall>p \<in> set ps. np' (p + 4080) = np (p + 4080) \<Longrightarrow> pool_at np' ps"
  by (induction np ps rule: pool_at.induct) auto

lemma pool_at_snoc:
  assumes "pool_at np ps" "distinct (ps @ [q])" "q \<noteq> 0" "4096 dvd unat q"
  shows "pool_at (np(last ps + 4080 := q, q + 4080 := 0)) (ps @ [q])"
  using assms
proof (induction np ps rule: pool_at.induct)
  case (3 np p p' ps)
  have "p \<noteq> last (p' # ps)" using 3(3) by (metis distinct.simps(2) append_Cons last_in_set list.distinct(1) Un_iff set_append)
  then show ?case using 3 by auto
qed auto

text \<open>What the rest of the invariant needs when a segment is put between two others.\<close>

lemma kinv_insert:
  assumes inv: "kinv st (ys @ x # y # zs) ps R"
    and q: "range_ok q" "hi x \<le> lo q" "hi q \<le> lo y" "4096 dvd lo q" "4096 dvd hi q"
      "ptr q \<in> set (entries ps)" "ptr q \<notin> ptr ` set (ys @ x # y # zs)"
    and at: "segs_at (segs st') 0 (ys @ x # q # y # zs) 0"
    and same: "kernelFirstSegment st' = kernelFirstSegment st" "segmentsPage st' = segmentsPage st"
    and pool: "ps' = ps \<and> nextPage st' = nextPage st \<or>
      ps' = ps @ [w32 (lo q)] \<and> hi q = lo q + 4096 \<and> pool_at (nextPage st') ps' \<and> distinct ps' \<and>
      set (page_entries (w32 (lo q))) \<inter> ptr ` set (ys @ x # y # zs) = {}"
  shows "kinv st' (ys @ x # q # y # zs) ps' R"
proof -
  note d = kinvD [OF inv]
  let ?xs = "ys @ x # y # zs" and ?xs' = "ys @ x # q # y # zs"
  have ends: "hd ?xs' = hd ?xs" "last ?xs' = last ?xs" by (cases ys; simp)+
  have "ps \<noteq> []" using pool_at_props [OF d(10)] by simp
  then have hd: "hd ps' = hd ps" "set (tl ps') \<subseteq> set (tl ps) \<union> (if ps' = ps then {} else {w32 (lo q)})"
    using pool by (cases ps; auto)+
  have pool': "pool_at (nextPage st') ps'" "distinct ps'" using pool d(10,19) by auto
  have old: "p \<in> set (entries ps') \<longleftrightarrow> p \<in> set (entries ps)" if "p \<in> ptr ` set ?xs" for p
    using pool that by auto
  have sub: "set (entries ps) \<subseteq> set (entries ps')" using pool by auto
  have mem: "set ?xs' = insert q (set ?xs)" by auto
  have lo: "lo q < 2 ^ 32" using q(1) by (simp add: range_ok_def)
  show ?thesis
    unfolding kinv_def ends hd
  proof (intro conjI)
    show "ranges_ok ?xs'" by (rule ranges_ok_insert [OF d(3) q(1-3)])
    show "distinct (map ptr ?xs')" using d(2) q(7) by auto
    show "\<forall>x \<in> set ?xs'. 4096 dvd lo x \<and> 4096 dvd hi x" using d(4) q(4,5) by auto
    show "\<forall>x \<in> set ?xs'. ptr x \<notin> set (entries ps') \<longrightarrow> within (unat (ptr x)) R"
      unfolding mem using d(17) old sub q(6) by blast
    show "ptr (hd ?xs) \<notin> set (entries ps')" using d(8) old [of "ptr (hd ?xs)"] by (simp add: hd_append)
    have "ptr (last ?xs) \<in> ptr ` set ?xs" by (intro imageI last_in_set) simp
    then show "ptr (last ?xs) \<notin> set (entries ps')" using d(9) old by blast
    show "ptr R \<notin> set (entries ps')" using d(13,14) old by blast
    show "\<forall>p \<in> set (tl ps'). \<exists>x \<in> set ?xs'. lo x = unat p \<and> hi x = unat p + 4096"
    proof
      fix p assume "p \<in> set (tl ps')"
      then consider "p \<in> set (tl ps)" | "p = w32 (lo q)" "ps' \<noteq> ps" using hd(2) by (auto split: if_splits)
      then show "\<exists>x \<in> set ?xs'. lo x = unat p \<and> hi x = unat p + 4096"
      proof cases
        case 1
        then show ?thesis using d(18) unfolding mem by blast
      next
        case 2
        then show ?thesis using pool lo unfolding mem by (auto simp: unat_w32)
      qed
    qed
  qed (use d at same pool' mem in auto)
qed

lemma first_ptr_hd: "first_ptr (ys @ [x]) 0 = ptr (hd (ys @ x # zs))"
  by (cases ys) auto

lemma link_new:
  assumes inv: "kinv st (ys @ x # y # zs) ps R"
    and e: "e \<in> set (entries ps)" "e \<notin> ptr ` set (ys @ x # y # zs)"
    and gap: "hi x \<le> v" "v + n \<le> lo y" "0 < n" "4096 dvd v" "4096 dvd n"
  shows "\<exists>st'. addSegment_link (kernelFirstSegment st) e
      (set_seg e (\<lambda>s. s\<lparr>seg_address := w32 v, seg_size := w32 n, seg_flags := f\<rparr>) st) = Some st' \<and>
    kinv st' (ys @ x # Node e v (v + n) f # y # zs) ps R"
proof -
  note d = kinvD [OF inv]
  let ?q = "Node e v (v + n) f"
  let ?st = "set_seg e (\<lambda>s. s\<lparr>seg_address := w32 v, seg_size := w32 n, seg_flags := f\<rparr>) st"
  have y: "range_ok y" using d(3) by (simp add: ranges_ok_append ranges_ok_Cons)
  have q: "range_ok ?q" using gap y by (simp add: range_ok_def)
  have at: "segs_at (segs ?st) 0 (ys @ x # y # zs) 0" using d(1) e(2) by simp
  have "\<exists>pv nx. segs ?st e = seg_of ?q pv nx" by (cases "segs st e") (simp add: seg_of_def)
  then obtain st' where st': "addSegment_link (first_ptr (ys @ [x]) 0) (ptr ?q) ?st = Some st'"
    "segs_at (segs st') 0 (ys @ x # ?q # y # zs) 0" "same_but_segs ?st st'"
    using addSegment_link_at [OF at d(2,3), of ?q] e(2) entry_nonzero [OF inv e(1)] q gap by auto
  have "kinv st' (ys @ x # ?q # y # zs) ps R"
    by (rule kinv_insert [OF inv q]) (use gap e st'(2) same_but_segs_fields [OF st'(3)] in simp_all)
  then show ?thesis using st'(1) unfolding d(6) first_ptr_hd [of ys x "y # zs"] by auto
qed

text \<open>What every operation keeps: the segments, the pages of the pool, and no range becomes a page of the pool.\<close>

definition grown :: "snode list \<Rightarrow> addr list \<Rightarrow> snode list \<Rightarrow> addr list \<Rightarrow> bool" where
  "grown xs ps xs' ps' \<longleftrightarrow> set xs \<subseteq> set xs' \<and> set ps \<subseteq> set ps' \<and>
     (\<forall>x \<in> set xs. w32 (lo x) \<in> set ps' \<longrightarrow> w32 (lo x) \<in> set ps)"

lemma kmem_more:
  fixes st st' :: "'x kmem_scheme"
  assumes "paging.more st' = paging.more st"
  shows "segs st' = segs st" "nextPage st' = nextPage st" "segmentsPage st' = segmentsPage st"
    "kernelFirstSegment st' = kernelFirstSegment st"
  using assms by (cases st; cases st'; simp)+

lemma kinv_more: "paging.more st' = paging.more st \<Longrightarrow> kinv st' xs ps R \<longleftrightarrow> kinv st xs ps R"
  using kmem_more [of st' st] by (simp add: kinv_def)

lemma clear_pool_page_simps [simp]:
  "nextPage (clear_pool_page p st) = (nextPage st)(p + 4080 := 0)"
  "segmentsPage (clear_pool_page p st) = segmentsPage st"
  "kernelFirstSegment (clear_pool_page p st) = kernelFirstSegment st"
  by (simp_all add: clear_pool_page_def)

lemma clear_pool_page_segs: "e \<notin> set (page_entries p) \<Longrightarrow> segs (clear_pool_page p st) e = segs st e"
proof -
  have "fold (\<lambda>k h. h(p + of_nat (20 * k) := z)) ks h e = h e" if "\<forall>k \<in> set ks. e \<noteq> p + w32 (20 * k)" for ks z h
    using that by (induction ks arbitrary: h) (simp_all add: w32_def)
  moreover assume "e \<notin> set (page_entries p)"
  then have "\<forall>k \<in> set [0..<204]. e \<noteq> p + w32 (20 * k)" unfolding page_entries_def set_map by blast
  ultimately show ?thesis by (simp add: clear_pool_page_def del: set_upt of_nat_mult)
qed

lemma verifySegmentList_inv:
  assumes inv: "kinv st xs ps R" and run: "verifySegmentList st = Some st'"
  shows "\<exists>xs' ps'. kinv st' xs' ps' R \<and> grown xs ps xs' ps'"
proof -
  note d = kinvD [OF inv]
  let ?fs = "filter (slot_free st) (entries ps)"
  have count: "count_free (segmentsPage st) 0 0 st = Some (length ?fs, last_free st (entries ps) 0, last ps + 4080)"
    using count_free_pool [OF d(10), of 0 0] d(11) by simp
  show ?thesis
  proof (cases "length ?fs = 1")
    case False
    then have "st' = st" using run count by (simp add: verifySegmentList_def)
    then show ?thesis using inv by (auto simp: grown_def)
  next
    case True
    then obtain e where fs: "?fs = [e]" by (auto simp: length_Suc_conv)
    then have e: "e \<in> set (entries ps)" "slot_free st e" "last_free st (entries ps) 0 = e"
      by (auto simp: last_free_def dest: filter_eq_ConsD)
    have e_new: "e \<notin> ptr ` set xs"
      by (rule usable_not_linked [OF inv e(1)]) (use e(2) in \<open>simp add: slot_free_def slot_usable_def\<close>)
    have "findFreeSegment (kernelFirstSegment st) 4096 st = map_option w32 (first_gap 4096 xs)"
      using findFreeSegment_at [of st 0 "hd xs" "tl xs" 4096] d(1,3,5,6) by simp
    then obtain v phys st2 a st3 where v: "first_gap 4096 xs = Some v"
      and pop: "popPageFrame st = Some (phys, st2)"
      and map: "kernel_mapAt popPageFrame (w32 v) phys (PROT_READ OR PROT_WRITE) st2 = Some (a, st3)"
      and add: "addSegment_link (kernelFirstSegment st3) e
        (set_seg e (\<lambda>s. s\<lparr>seg_address := w32 v, seg_size := 4096, seg_flags := PROT_READ OR PROT_WRITE\<rparr>)
          (clear_pool_page (w32 v) (st3\<lparr>nextPage := (nextPage st3)(last ps + 4080 := w32 v)\<rparr>))) = Some st'"
      using run count True e(3)
      by (auto simp: verifySegmentList_def bind_eq_Some_conv Let_def)
    have more: "paging.more st3 = paging.more st"
      using keepsD [OF popPageFrame_keeps pop] keepsD [OF kernel_mapAt_keeps [OF popPageFrame_keeps] map] by simp
    note f3 = kmem_more [OF more]
    obtain ys x y zs where xs: "xs = ys @ x # y # zs" "v = hi x" "4096 \<le> lo y - hi x"
      using first_gapD [OF v] by blast
    have v': "4096 dvd v" "hi x \<le> v" "v + 4096 \<le> lo y" using d(4) xs by auto
    note fresh = gap_page_fresh [OF inv [unfolded xs(1)] v'(2,3,1), folded xs(1)]
    let ?q = "Node e v (v + 4096) (PROT_READ OR PROT_WRITE)"
    let ?st4 = "clear_pool_page (w32 v) (st3\<lparr>nextPage := (nextPage st3)(last ps + 4080 := w32 v)\<rparr>)"
    let ?st5 = "set_seg e (\<lambda>s. s\<lparr>seg_address := w32 v, seg_size := 4096, seg_flags := PROT_READ OR PROT_WRITE\<rparr>) ?st4"
    have "\<forall>p \<in> ptr ` set xs. segs ?st4 p = segs st p"
    proof
      fix p assume "p \<in> ptr ` set xs"
      then have "p \<notin> set (page_entries (w32 v))" using fresh(5) by blast
      then show "segs ?st4 p = segs st p" using f3 by (simp add: clear_pool_page_segs)
    qed
    then have at4: "segs_at (segs ?st4) 0 xs 0" by (rule segs_at_cong [OF d(1)])
    then have at5: "segs_at (segs ?st5) 0 (ys @ x # y # zs) 0" using e_new xs(1) by simp
    have q: "range_ok ?q" using fresh(4) by (simp add: range_ok_def)
    have "\<exists>pv nx. segs ?st5 (ptr ?q) = seg_of ?q pv nx"
      by (cases "segs ?st4 e") (simp add: seg_of_def w32_def [of 4096])
    then obtain st6 where st6: "addSegment_link (first_ptr (ys @ [x]) 0) (ptr ?q) ?st5 = Some st6"
      "segs_at (segs st6) 0 (ys @ x # ?q # y # zs) 0" "same_but_segs ?st5 st6"
      using addSegment_link_at [OF at5 d(2,3) [unfolded xs(1)], of ?q] e_new entry_nonzero [OF inv e(1)] q v' xs(1)
      by auto
    have "st' = st6" using st6(1) add d(6) f3 by (simp add: xs(1) first_ptr_hd [of ys x "y # zs"] del: first_ptr_append)
    note f6 = same_but_segs_fields [OF st6(3)]
    have np: "pool_at (nextPage st6) (ps @ [w32 v])"
      using pool_at_snoc [OF d(10) _ fresh(2)] d(19) fresh(1,3) v'(1) f6 f3 by simp
    have "kinv st6 (ys @ x # ?q # y # zs) (ps @ [w32 v]) R"
      by (rule kinv_insert [OF inv [unfolded xs(1)] q])
        (use v' e e_new xs(1) st6(2) f6 f3 np d(19) fresh(1,5) in auto)
    moreover have "w32 (lo z) \<noteq> w32 v" if "z \<in> set xs" for z
    proof -
      have "range_ok z" using d(3) that by (auto simp: ranges_ok_def list_all_iff)
      moreover have "lo z \<noteq> v" using gap_apart [of ys x y zs z v 4096] d(3) that xs(1) v' \<open>range_ok z\<close>
        by (auto simp: range_ok_def)
      ultimately show ?thesis using w32_eq_iff [of "lo z" v] fresh(4) by (simp add: range_ok_def)
    qed
    ultimately show ?thesis
      unfolding \<open>st' = st6\<close>
      by (intro exI [of _ "ys @ x # ?q # y # zs"] exI [of _ "ps @ [w32 v]"]) (auto simp: grown_def xs(1))
  qed
qed

text \<open>A new segment of the kernel takes a gap, and the list keeps its invariant.\<close>

lemma findAndAddNewSegment_inv:
  assumes inv: "kinv st xs ps R" and run: "findAndAddNewSegment (kernelFirstSegment st) sz f st = Some (a, st')"
    and sz: "0 < sz" "4096 dvd unat sz"
  shows "\<exists>xs' ps' e. kinv st' xs' ps' R \<and> grown xs ps xs' ps' \<and> e \<in> set (entries ps') \<and>
    Node e (unat a) (unat a + unat sz) f \<in> set xs' \<and> a \<notin> set ps' \<and> a \<noteq> 0 \<and>
    4096 dvd unat a \<and> unat a + unat sz < 2 ^ 32 \<and> (\<forall>x \<in> set xs. hi x \<le> unat a \<or> unat a + unat sz \<le> lo x)"
proof -
  note d = kinvD [OF inv]
  have find: "findFreeSegment (kernelFirstSegment st) sz st = map_option w32 (first_gap (unat sz) xs)"
    using findFreeSegment_at [of st 0 "hd xs" "tl xs" sz] d(1,3,5,6) by simp
  then obtain v e st1 st2 where v: "first_gap (unat sz) xs = Some v" "a = w32 v"
    and alloc: "allocateSegment a sz f st = Some (e, st1)"
    and link: "addSegment_link (kernelFirstSegment st) e st1 = Some st2" and ver: "verifySegmentList st2 = Some st'"
    using run by (auto simp: findAndAddNewSegment_def bind_eq_Some_conv)
  have e: "List.find (slot_usable st) (entries ps) = Some e"
    and st1: "st1 = set_seg e (\<lambda>s. s\<lparr>seg_address := w32 v, seg_size := w32 (unat sz), seg_flags := f\<rparr>) st"
    using alloc free_entry_pool [OF d(10)] d(11) v(2) by (auto simp: allocateSegment_def)
  have e': "e \<in> set (entries ps)" "slot_usable st e" using e by (auto simp: find_Some_iff)
  have e_new: "e \<notin> ptr ` set xs" by (rule usable_not_linked [OF inv e'])
  obtain ys x y zs where xs: "xs = ys @ x # y # zs" "v = hi x" "unat sz \<le> lo y - hi x"
    using first_gapD [OF v(1)] by blast
  have n: "0 < unat sz" using sz(1) by (simp add: word_less_nat_alt)
  have gap: "hi x \<le> v" "v + unat sz \<le> lo y" "4096 dvd v" using d(4) xs n by auto
  have small: "range_ok x" "range_ok y" using d(3) xs(1) by (simp_all add: ranges_ok_append ranges_ok_Cons)
  have a: "unat a = v" "0 < v" "v + unat sz < 2 ^ 32"
    using gap small v(2) by (auto simp: range_ok_def unat_w32)
  let ?q = "Node e v (v + unat sz) f"
  obtain st3 where "addSegment_link (kernelFirstSegment st) e st1 = Some st3" "kinv st3 (ys @ x # ?q # y # zs) ps R"
    using link_new [OF inv [unfolded xs(1)] e'(1) _ gap(1,2) n gap(3) sz(2), of f] e_new xs(1) st1 by auto
  then have k2: "kinv st2 (ys @ x # ?q # y # zs) ps R" using link by simp
  obtain xs' ps' where k': "kinv st' xs' ps' R" "grown (ys @ x # ?q # y # zs) ps xs' ps'"
    using verifySegmentList_inv [OF k2 ver] by blast
  have apart: "\<forall>z \<in> set xs. hi z \<le> v \<or> v + unat sz \<le> lo z"
    using gap_apart [of ys x y zs _ v "unat sz"] d(3) xs(1) gap by auto
  have "a \<notin> set ps"
  proof
    assume "a \<in> set ps"
    then obtain z where "z \<in> set xs" "within v z" using pool_page_within [OF inv, of a v] a(1) by auto
    then show False using apart n by (auto simp: within_def)
  qed
  then have "a \<notin> set ps'" using k'(2) v(2) by (auto simp: grown_def)
  moreover have "set (entries ps) \<subseteq> set (entries ps')" using k'(2) by (auto simp: grown_def entries_def)
  moreover have "a \<noteq> 0" using a by auto
  moreover have "grown xs ps xs' ps'" using k'(2) by (auto simp: grown_def xs(1))
  ultimately show ?thesis
    using k' a apart e' gap(3) by (intro exI [of _ xs'] exI [of _ ps'] exI [of _ e]) (auto simp: grown_def)
qed

section \<open>Removing a segment\<close>

lemma segment_containing_at:
  assumes "segs_at (segs st) pv (ys @ x # zs) 0" "ranges_ok (ys @ x # zs)" "hi x < 2 ^ 32"
  shows "segment_containing (first_ptr (ys @ [x]) 0) (w32 (lo x)) st = Some (ptr x)"
  using assms
proof (induction ys arbitrary: pv)
  case Nil
  have "\<not> w32 (hi x) \<le> w32 (lo x)" using Nil by (simp add: w32_le_iff ranges_ok_Cons range_ok_def)
  then show ?case
    using Nil range_ok_end [of x] by (subst segment_containing.simps) (simp add: ranges_ok_Cons)
next
  case (Cons u us)
  have u: "range_ok u" "hi u \<le> lo x" "range_ok x" "ranges_ok (us @ x # zs)"
    using Cons.prems(2) by (simp_all add: ranges_ok_append ranges_ok_Cons)
  then have "w32 (hi u) \<le> w32 (lo x)" using Cons.prems(3) by (simp add: w32_le_iff range_ok_def)
  moreover have "seg_next (segs st (ptr u)) = first_ptr (us @ [x]) 0" "ptr u \<noteq> 0"
    using Cons.prems(1) by simp_all
  ultimately have "segment_containing (ptr u) (w32 (lo x)) st = segment_containing (first_ptr (us @ [x]) 0) (w32 (lo x)) st"
    using Cons.prems(1) range_ok_end [OF u(1)] by (subst segment_containing.simps) simp
  also have "\<dots> = Some (ptr x)" by (rule Cons.IH [of "ptr u"]) (use Cons.prems u in simp_all)
  finally show ?case by simp
qed

lemma unlink_segment_at:
  assumes at: "segs_at (segs st) pv (ys @ w # x # y # zs) 0" and dis: "distinct (map ptr (ys @ w # x # y # zs))"
  shows "segs_at (segs (unlink_segment (ptr x) st)) pv (ys @ w # y # zs) 0"
    "same_but_segs st (unlink_segment (ptr x) st)"
proof -
  have parts: "segs_at (segs st) pv ys (ptr w)" "segs_at (segs st) (ptr y) zs 0"
    "segs st (ptr w) = seg_of w (last_ptr pv ys) (ptr x)" "segs st (ptr x) = seg_of x (ptr w) (ptr y)"
    "segs st (ptr y) = seg_of y (ptr x) (first_ptr zs 0)" "ptr w \<noteq> 0" "ptr y \<noteq> 0"
    using at by (simp_all add: segs_at_append)
  have neq: "ptr w \<noteq> ptr x" "ptr x \<noteq> ptr y" "ptr w \<noteq> ptr y" using dis by auto
  have st': "unlink_segment (ptr x) st = deallocateSegment (ptr x)
      (set_seg (ptr w) (\<lambda>s. s\<lparr>seg_next := ptr y\<rparr>) (set_seg (ptr y) (\<lambda>s. s\<lparr>seg_prev := ptr w\<rparr>) st))"
    using parts neq by (simp add: unlink_segment_def Let_def)
  show "segs_at (segs (unlink_segment (ptr x) st)) pv (ys @ w # y # zs) 0"
    unfolding st' deallocateSegment_def using parts dis neq by (simp add: segs_at_append image_Un)
  show "same_but_segs st (unlink_segment (ptr x) st)" by (simp add: st' deallocateSegment_def)
qed

lemma kinv_remove:
  assumes inv: "kinv st (ys @ w # x # y # zs) ps R" and x: "ptr x \<in> set (entries ps)" "w32 (lo x) \<notin> set ps"
    and at: "segs_at (segs st') 0 (ys @ w # y # zs) 0" and same: "same_but_segs st st'"
  shows "kinv st' (ys @ w # y # zs) ps R"
proof -
  note d = kinvD [OF inv]
  let ?xs = "ys @ w # x # y # zs" and ?xs' = "ys @ w # y # zs"
  have ends: "hd ?xs' = hd ?xs" "last ?xs' = last ?xs" by (cases ys; simp)+
  have mem: "set ?xs = insert x (set ?xs')" by auto
  have R: "R \<in> set ?xs'" using d(13,14) x(1) by auto
  have "\<forall>p \<in> set (tl ps). \<exists>z \<in> set ?xs'. lo z = unat p \<and> hi z = unat p + 4096"
  proof
    fix p assume p: "p \<in> set (tl ps)"
    then obtain z where z: "z \<in> set ?xs" "lo z = unat p" "hi z = unat p + 4096" using d(18) by blast
    moreover have "z \<noteq> x" using p x(2) z(2) by (metis list.set_sel(2) pool_at_props(1) [OF d(10)] w32_unat)
    ultimately show "\<exists>z \<in> set ?xs'. lo z = unat p \<and> hi z = unat p + 4096" by auto
  qed
  moreover have "ranges_ok ?xs'" using d(3) by (auto simp: ranges_ok_append ranges_ok_Cons)
  moreover have "distinct (map ptr ?xs')" using d(2) by auto
  ultimately show ?thesis
    using d at R same_but_segs_fields [OF same] unfolding kinv_def ends by auto
qed

text \<open>Removing exactly a segment from the pool.\<close>

lemma removeSegment_inv:
  assumes inv: "kinv st xs ps R" and x: "x \<in> set xs" "ptr x \<in> set (entries ps)" "w32 (lo x) \<notin> set ps"
    and run: "removeSegment (kernelFirstSegment st) (w32 (lo x)) (w32 (hi x - lo x)) st = Some st'"
  shows "\<exists>xs' ps'. kinv st' xs' ps' R \<and> grown (remove1 x xs) ps xs' ps'"
proof -
  note d = kinvD [OF inv]
  obtain us vs where "xs = us @ x # vs" using x(1) split_list by metis
  moreover from this have "us \<noteq> []" "vs \<noteq> []" using d(8,9) x(2) by auto
  ultimately obtain ys w y zs where xs: "xs = ys @ w # x # y # zs"
    by (metis append_Cons append_assoc append_Nil list.exhaust rev_exhaust)
  have parts: "segs st (ptr x) = seg_of x (ptr w) (ptr y)" "ptr x \<noteq> 0" "range_ok x" "range_ok y" "hi x \<le> lo y"
    "segs_at (segs st) (ptr w) (x # y # zs) 0" "ranges_ok (x # y # zs)"
    using d(1,3) xs by (auto simp: segs_at_append ranges_ok_append ranges_ok_Cons)
  have small: "hi x < 2 ^ 32" "lo y - hi x < 2 ^ 32" using parts by (auto simp: range_ok_def)
  have "kernelFirstSegment st = first_ptr ((ys @ [w]) @ [x]) 0" using d(6) xs by (cases ys) simp_all
  then have find: "segment_containing (kernelFirstSegment st) (w32 (lo x)) st = Some (ptr x)"
    using segment_containing_at [of st 0 "ys @ [w]" x "y # zs"] d(1,3) small xs by simp
  have free: "getFreeSpaceAfter (ptr x) st = Some (w32 (lo y - hi x))"
    by (rule getFreeSpaceAfter_at [OF parts(6,7)])
  have "w32 (hi x - lo x) \<noteq> 0" using parts(3) small w32_eq_iff [of "hi x - lo x" 0] by (auto simp: range_ok_def)
  moreover have "minus_free 0 (w32 (lo y - hi x)) = 0"
    by (auto simp: minus_free_def word_gt_0)
  ultimately have "remove_loop (ptr x) (w32 (lo x)) (w32 (hi x - lo x)) st = Some (unlink_segment (ptr x) st)"
    using parts(1,2) free by (subst remove_loop.simps) (simp add: remove_loop.simps)
  then have ver: "verifySegmentList (unlink_segment (ptr x) st) = Some st'"
    using run find by (simp add: removeSegment_def)
  note un = unlink_segment_at [OF d(1,2) [unfolded xs]]
  have k: "kinv (unlink_segment (ptr x) st) (ys @ w # y # zs) ps R"
    by (rule kinv_remove [OF inv [unfolded xs] x(2,3) un])
  have "x \<notin> set ys \<union> {w}" using d(2) xs by auto
  then have "remove1 x xs = ys @ w # y # zs" using xs by (auto simp: remove1_append)
  then show ?thesis using verifySegmentList_inv [OF k ver] by simp
qed

section \<open>The view is unique\<close>

lemma segs_at_unique:
  assumes "segs_at h pv xs 0" "segs_at h pv ys 0" "first_ptr xs 0 = first_ptr ys 0"
    "list_all range_ok xs" "list_all range_ok ys"
  shows "xs = ys"
  using assms
proof (induction xs arbitrary: pv ys)
  case Nil
  then show ?case by (cases ys) auto
next
  case (Cons x xs)
  then obtain y ys' where ys: "ys = y # ys'" by (cases ys) auto
  have p: "ptr y = ptr x" using Cons.prems(3) ys by simp
  then have eq: "seg_of x pv (first_ptr xs 0) = seg_of y pv (first_ptr ys' 0)" using Cons.prems(1,2) ys by simp
  have r: "lo x < hi x" "hi x \<le> 2 ^ 32" "lo y < hi y" "hi y \<le> 2 ^ 32"
    using Cons.prems(4,5) ys by (auto simp: range_ok_def)
  have f: "w32 (lo x) = w32 (lo y)" "w32 (hi x - lo x) = w32 (hi y - lo y)" "fl x = fl y" "first_ptr xs 0 = first_ptr ys' 0"
    using eq by (simp_all add: seg_of_def)
  have lo: "lo x = lo y" using f(1) r w32_eq_iff [of "lo x" "lo y"] by simp
  have "(hi x - lo x) mod 2 ^ 32 = (hi y - lo y) mod 2 ^ 32"
    using arg_cong [OF f(2), of unat] by (simp add: w32_def unat_of_nat)
  then have "hi x - lo x = hi y - lo y"
    using r lo by (cases "hi x - lo x = 2 ^ 32"; cases "hi y - lo y = 2 ^ 32") auto
  then have "hi x = hi y" using r lo by simp
  then have "x = y" using lo f(3) p by (cases x; cases y) auto
  moreover have "xs = ys'" using Cons.IH [of "ptr x" ys'] Cons.prems ys f(4) p by simp
  ultimately show ?case using ys by simp
qed

lemma pool_at_unique: "pool_at np ps \<Longrightarrow> pool_at np qs \<Longrightarrow> hd ps = hd qs \<Longrightarrow> ps = qs"
proof (induction np ps arbitrary: qs rule: pool_at.induct)
  case (2 np p)
  then show ?case by (cases qs rule: list.exhaust; cases "tl qs") auto
next
  case (3 np p q ps)
  then obtain r rs where "qs = p # r # rs" by (cases qs; cases "tl qs") auto
  then show ?case using 3(1) [of "r # rs"] 3(2-4) by simp
qed auto

lemma kinv_unique:
  assumes "kinv st xs ps R" "kinv st ys qs S"
  shows "xs = ys" "ps = qs" "R = S"
proof -
  note d = kinvD [OF assms(1)] and d' = kinvD [OF assms(2)]
  have "first_ptr xs 0 = first_ptr ys 0" using d(5,6) d'(5,6) by (cases xs; cases ys) auto
  then show xs: "xs = ys" using segs_at_unique [OF d(1) d'(1)] d(3) d'(3) by (simp add: ranges_ok_def)
  show "ps = qs" using pool_at_unique [OF d(10) d'(10)] d(11) d'(11) by simp
  show "R = S" using within_unique [OF d(3,13) _ d(15) d'(15)] d'(13) xs by simp
qed

end
