(* ===== verification/Kernel_AddressSpace.thy ===== *)
theory Kernel_AddressSpace
  imports Kernel_SegmentInv
begin

text \<open>
  Address spaces: \<open>kernel/src/addressspace.cpp\<close> and the start of the frame allocator in
  \<open>kernel/src/physicalmemory.cpp\<close>.  An address space is the kernel's or that of a process, given by
  its page directory and its first segment.  The mutexes only order the calls.
\<close>

section \<open>Definitions\<close>

record user_space =
  pageDir :: u32
  pageDirMapped :: u32
  firstSegment :: addr

datatype space = KernelSpace | UserSpace user_space

definition space_firstSegment :: "space \<Rightarrow> 'x kmem_scheme \<Rightarrow> addr" where
  "space_firstSegment sp st = (case sp of KernelSpace \<Rightarrow> kernelFirstSegment st | UserSpace u \<Rightarrow> firstSegment u)"

definition mapAt :: "space \<Rightarrow> u32 \<Rightarrow> u32 \<Rightarrow> u32 \<Rightarrow> 'x kmem_scheme \<Rightarrow> (u32 \<times> 'x kmem_scheme) option" where
  "mapAt sp = (case sp of KernelSpace \<Rightarrow> kernel_mapAt popPageFrame | UserSpace u \<Rightarrow> user_mapAt (pageDir u))"

definition unMap :: "space \<Rightarrow> u32 \<Rightarrow> 'x kmem_scheme \<Rightarrow> 'x kmem_scheme option" where
  "unMap sp = (case sp of KernelSpace \<Rightarrow> kernel_unMap popPageFrame | UserSpace u \<Rightarrow> user_unMap (pageDir u))"

definition getPhysicalAddress :: "space \<Rightarrow> u32 \<Rightarrow> 'x kmem_scheme \<Rightarrow> (u32 \<times> 'x kmem_scheme) option" where
  "getPhysicalAddress sp virtualAddress st =
     (case sp of
        KernelSpace \<Rightarrow> map_option (\<lambda>a. (a, st)) (kernel_getPhysicalAddress virtualAddress st)
      | UserSpace u \<Rightarrow> user_getPhysicalAddress (pageDir u) virtualAddress st)"

text \<open>
  The loops \<open>for (size_t i = 0; i < size; i += PAGESIZE)\<close>; the result says whether all pages were
  mapped.
\<close>

partial_function (option) map_frames ::
  "space \<Rightarrow> u32 \<Rightarrow> u32 \<Rightarrow> u32 \<Rightarrow> u32 \<Rightarrow> 'x kmem_scheme \<Rightarrow> (bool \<times> 'x kmem_scheme) option" where
  "map_frames sp virtualAddress sz protection i st =
     (if i < sz
      then Option.bind (popPageFrame st) (\<lambda>(physicalAddress, st).
             if physicalAddress = 0 then Some (False, st)
             else Option.bind (mapAt sp (virtualAddress + i) physicalAddress protection st) (\<lambda>(a, st).
                  if a = 0 then Some (False, st)
                  else map_frames sp virtualAddress sz protection (i + 4096) st))
      else Some (True, st))"

definition mapMemory_pages ::
  "space \<Rightarrow> u32 \<Rightarrow> u32 \<Rightarrow> u32 \<Rightarrow> 'x kmem_scheme \<Rightarrow> (u32 \<times> 'x kmem_scheme) option" where
  "mapMemory_pages sp virtualAddress sz protection st =
     map_option (\<lambda>(ok, st). (if ok then virtualAddress else 0, st))
       (map_frames sp virtualAddress sz protection 0 st)"

definition AddressSpace_mapMemory :: "space \<Rightarrow> u32 \<Rightarrow> u32 \<Rightarrow> 'x kmem_scheme \<Rightarrow> (u32 \<times> 'x kmem_scheme) option" where
  "AddressSpace_mapMemory sp sz protection st =
     Option.bind (findAndAddNewSegment (space_firstSegment sp st) sz protection st) (\<lambda>(virtualAddress, st).
       mapMemory_pages sp virtualAddress sz protection st)"

definition mapMemory_at ::
  "space \<Rightarrow> u32 \<Rightarrow> u32 \<Rightarrow> u32 \<Rightarrow> 'x kmem_scheme \<Rightarrow> (u32 \<times> 'x kmem_scheme) option" where
  "mapMemory_at sp virtualAddress sz protection st =
     Option.bind (addSegment (space_firstSegment sp st) virtualAddress sz protection st)
       (mapMemory_pages sp virtualAddress sz protection)"

partial_function (option) map_range ::
  "space \<Rightarrow> u32 \<Rightarrow> u32 \<Rightarrow> u32 \<Rightarrow> u32 \<Rightarrow> u32 \<Rightarrow> 'x kmem_scheme \<Rightarrow> (bool \<times> 'x kmem_scheme) option" where
  "map_range sp virtualAddress physicalAddress sz protection i st =
     (if i < sz
      then Option.bind (mapAt sp (virtualAddress + i) (physicalAddress + i) protection st) (\<lambda>(a, st).
             if a = 0 then Some (False, st)
             else map_range sp virtualAddress physicalAddress sz protection (i + 4096) st)
      else Some (True, st))"

definition mapPhysical ::
  "space \<Rightarrow> u32 \<Rightarrow> u32 \<Rightarrow> u32 \<Rightarrow> 'x kmem_scheme \<Rightarrow> (u32 \<times> 'x kmem_scheme) option" where
  "mapPhysical sp physicalAddress sz protection st =
     Option.bind (findAndAddNewSegment (space_firstSegment sp st) sz protection st) (\<lambda>(virtualAddress, st).
       map_option (\<lambda>(ok, st). (if ok then virtualAddress else 0, st))
         (map_range sp virtualAddress physicalAddress sz protection 0 st))"

partial_function (option) unmap_frames :: "space \<Rightarrow> u32 \<Rightarrow> u32 \<Rightarrow> u32 \<Rightarrow> 'x kmem_scheme \<Rightarrow> 'x kmem_scheme option" where
  "unmap_frames sp virtualAddress sz i st =
     (if i < sz
      then Option.bind (getPhysicalAddress sp (virtualAddress + i) st) (\<lambda>(physicalAddress, st).
           Option.bind (unMap sp (virtualAddress + i) st) (\<lambda>st.
           Option.bind (pushPageFrame physicalAddress st) (unmap_frames sp virtualAddress sz (i + 4096))))
      else Some st)"

definition AddressSpace_unmapMemory :: "space \<Rightarrow> u32 \<Rightarrow> u32 \<Rightarrow> 'x kmem_scheme \<Rightarrow> 'x kmem_scheme option" where
  "AddressSpace_unmapMemory sp virtualAddress sz st =
     Option.bind (unmap_frames sp virtualAddress sz 0 st) (\<lambda>st.
       removeSegment (space_firstSegment sp st) virtualAddress sz st)"

partial_function (option) unmap_range :: "space \<Rightarrow> u32 \<Rightarrow> u32 \<Rightarrow> u32 \<Rightarrow> 'x kmem_scheme \<Rightarrow> 'x kmem_scheme option" where
  "unmap_range sp virtualAddress sz i st =
     (if i < sz
      then Option.bind (unMap sp (virtualAddress + i) st) (unmap_range sp virtualAddress sz (i + 4096))
      else Some st)"

definition unmapPhysical :: "space \<Rightarrow> u32 \<Rightarrow> u32 \<Rightarrow> 'x kmem_scheme \<Rightarrow> 'x kmem_scheme option" where
  "unmapPhysical sp virtualAddress sz st =
     Option.bind (unmap_range sp virtualAddress sz 0 st) (\<lambda>st.
       removeSegment (space_firstSegment sp st) virtualAddress sz st)"

text \<open>Mapping pages of another address space.\<close>

partial_function (option) map_other ::
  "space \<Rightarrow> space \<Rightarrow> u32 \<Rightarrow> u32 \<Rightarrow> u32 \<Rightarrow> u32 \<Rightarrow> u32 \<Rightarrow> 'x kmem_scheme \<Rightarrow> 'x kmem_scheme option" where
  "map_other sp sourceSpace sourceVirtualAddress destination sz protection i st =
     (if i < sz
      then Option.bind (getPhysicalAddress sourceSpace (sourceVirtualAddress + i) st) (\<lambda>(physicalAddress, st).
           Option.bind (mapAt sp (destination + i) physicalAddress protection st) (\<lambda>(_, st).
             map_other sp sourceSpace sourceVirtualAddress destination sz protection (i + 4096) st))
      else Some st)"

definition mapFromOtherAddressSpace ::
  "space \<Rightarrow> space \<Rightarrow> u32 \<Rightarrow> u32 \<Rightarrow> u32 \<Rightarrow> 'x kmem_scheme \<Rightarrow> (u32 \<times> 'x kmem_scheme) option" where
  "mapFromOtherAddressSpace sp sourceSpace sourceVirtualAddress sz protection st =
     Option.bind (findAndAddNewSegment (space_firstSegment sp st) sz protection st) (\<lambda>(destination, st).
       map_option (\<lambda>st. (destination, st))
         (map_other sp sourceSpace sourceVirtualAddress destination sz protection 0 st))"

text \<open>
  The constructor and the destructor of the address space of a process; \<open>this_first\<close> is the
  memory that \<open>new\<close> gives for the first segment.
\<close>

definition AddressSpace_new :: "addr \<Rightarrow> 'x kmem_scheme \<Rightarrow> (user_space \<times> 'x kmem_scheme) option" where
  "AddressSpace_new this_first st =
     Option.bind (popPageFrame st) (\<lambda>(dir, st).
     Option.bind (mapPhysical KernelSpace dir 4096 (PROT_READ OR PROT_WRITE) st) (\<lambda>(mapped, st).
       let st = MemorySegment_init this_first 0 4096 SEG_NOUNMAP 0 0 st in
       Option.bind (addSegment this_first 0xC0000000 (- 0xC0000000) SEG_NOUNMAP st) (\<lambda>st.
         let st = st\<lparr>frames := (frames st)(dir := frames st (kernelPageDir st))\<rparr>;
             st = st\<lparr>spaceDirs := dir # spaceDirs st\<rparr>
         in Some (\<lparr>pageDir = dir, pageDirMapped = mapped, firstSegment = this_first\<rparr>, st))))"

partial_function (option) unmap_segments :: "user_space \<Rightarrow> addr \<Rightarrow> 'x kmem_scheme \<Rightarrow> 'x kmem_scheme option" where
  "unmap_segments u currentSegment st =
     (if currentSegment = 0 then Some st
      else let cur = segs st currentSegment in
           Option.bind (if seg_flags cur AND SEG_NOUNMAP = 0
                        then AddressSpace_unmapMemory (UserSpace u) (seg_address cur) (seg_size cur) st
                        else Some st)
             (unmap_segments u (seg_next cur)))"

definition AddressSpace_delete :: "user_space \<Rightarrow> 'x kmem_scheme \<Rightarrow> 'x kmem_scheme option" where
  "AddressSpace_delete u st =
     (let st = st\<lparr>spaceDirs := remove1 (pageDir u) (spaceDirs st)\<rparr> in
      Option.bind (unmap_segments u (firstSegment u) st) (pushPageFrame (pageDir u)))"

text \<open>
  \<open>memcpy\<close> between two ranges of the kernel's address space, page by page: the first \<open>n\<close> bytes of
  a frame, little endian, replace those of another.
\<close>

definition copy_frame :: "nat \<Rightarrow> (u32 \<Rightarrow> u32) \<Rightarrow> (u32 \<Rightarrow> u32) \<Rightarrow> u32 \<Rightarrow> u32" where
  "copy_frame n src dst i =
     (let k = 4 * unat i in
      if k + 4 \<le> n then src i
      else if n \<le> k then dst i
      else src i AND mask (8 * (n - k)) OR dst i AND NOT (mask (8 * (n - k))))"

fun copy_pages :: "u32 \<Rightarrow> u32 \<Rightarrow> nat \<Rightarrow> nat \<Rightarrow> 'x kmem_scheme \<Rightarrow> 'x kmem_scheme option" where
  "copy_pages dest source n 0 st = Some st"
| "copy_pages dest source n (Suc k) st =
     Option.bind (kernel_getPhysicalAddress source st) (\<lambda>s.
     Option.bind (kernel_getPhysicalAddress dest st) (\<lambda>d.
       copy_pages (dest + 4096) (source + 4096) (n - 4096) k
         (st\<lparr>frames := (frames st)(d := copy_frame n (frames st s) (frames st d))\<rparr>)))"

partial_function (option) fork_segments ::
  "space \<Rightarrow> space \<Rightarrow> addr \<Rightarrow> 'x kmem_scheme \<Rightarrow> 'x kmem_scheme option" where
  "fork_segments this result segment st =
     (if segment = 0 then Some st
      else let seg = segs st segment; sz = seg_size seg in
        Option.bind
          (if seg_flags seg AND SEG_NOUNMAP = 0 then
             Option.bind (mapMemory_at result (seg_address seg) sz (seg_flags seg) st) (\<lambda>(_, st).
             Option.bind (mapFromOtherAddressSpace KernelSpace this (seg_address seg) sz PROT_READ st) (\<lambda>(source, st).
             Option.bind (mapFromOtherAddressSpace KernelSpace result (seg_address seg) sz PROT_WRITE st) (\<lambda>(dest, st).
             Option.bind (copy_pages dest source (unat sz) ((unat sz + 4095) div 4096) st) (\<lambda>st.
             Option.bind (unmapPhysical KernelSpace source sz st) (unmapPhysical KernelSpace dest sz)))))
           else Some st)
          (\<lambda>st. fork_segments this result (seg_next (segs st segment)) st))"

definition AddressSpace_fork :: "addr \<Rightarrow> user_space \<Rightarrow> 'x kmem_scheme \<Rightarrow> (user_space \<times> 'x kmem_scheme) option" where
  "AddressSpace_fork this_first u st =
     Option.bind (AddressSpace_new this_first st) (\<lambda>(result, st).
       map_option (\<lambda>st. (result, st))
         (fork_segments (UserSpace u) (UserSpace result) (seg_next (segs st (firstSegment u))) st))"

text \<open>
  \<open>AddressSpace::initialize\<close>: the pages of the boot code are unmapped and the seven static segments
  linked.  Their addresses and those of the kernel's image are the parameters.
\<close>

record static_segments =
  userSegment :: addr
  videoSegment :: addr
  readOnlySegment :: addr
  writableSegment :: addr
  temporarySegment :: addr
  physicalMemorySegment :: addr
  recursiveMappingSegment :: addr
  kernelVirtualBegin :: u32
  kernelReadOnlyEnd :: u32
  kernelVirtualEnd :: u32

definition static_segs :: "static_segments \<Rightarrow> 'x kmem_scheme \<Rightarrow> 'x kmem_scheme" where
  "static_segs s st =
     (let st = MemorySegment_init (userSegment s) 0 0xC0000000 0 0 0 st;
          st = MemorySegment_init (videoSegment s) 0xC0000000 4096 (PROT_READ OR PROT_WRITE) (userSegment s) 0 st;
          st = MemorySegment_init (readOnlySegment s) (kernelVirtualBegin s) (kernelReadOnlyEnd s - kernelVirtualBegin s)
                 (PROT_READ OR PROT_EXEC) (videoSegment s) 0 st;
          st = MemorySegment_init (writableSegment s) (kernelReadOnlyEnd s) (kernelVirtualEnd s - kernelReadOnlyEnd s)
                 (PROT_READ OR PROT_WRITE) (readOnlySegment s) 0 st;
          st = MemorySegment_init (temporarySegment s) 0xFF7FF000 4096 0 (writableSegment s) 0 st;
          st = MemorySegment_init (physicalMemorySegment s) (0xFFC00000 - 0x400000) 0x400000
                 (PROT_READ OR PROT_WRITE) (temporarySegment s) 0 st
      in MemorySegment_init (recursiveMappingSegment s) 0xFFC00000 (- 0xFFC00000)
                 (PROT_READ OR PROT_WRITE) (physicalMemorySegment s) 0 st)"

partial_function (option) unmap_boot :: "u32 \<Rightarrow> u32 \<Rightarrow> 'x kmem_scheme \<Rightarrow> 'x kmem_scheme option" where
  "unmap_boot p e st =
     (if p < e then Option.bind (kernel_unMap popPageFrame p st) (unmap_boot (p + 4096) e) else Some st)"

definition link_segment :: "addr \<Rightarrow> addr \<Rightarrow> 'x kmem_scheme \<Rightarrow> 'x kmem_scheme" where
  "link_segment p q = set_seg p (\<lambda>s. s\<lparr>seg_next := q\<rparr>)"

definition AddressSpace_initialize ::
  "u32 \<Rightarrow> boot_layout \<Rightarrow> static_segments \<Rightarrow> 'x kmem_scheme \<Rightarrow> 'x kmem_scheme option" where
  "AddressSpace_initialize kernelPageDirectory l s st =
     (let st = st\<lparr>kernelPageDir := kernelPageDirectory\<rparr> in
      Option.bind (unmap_boot (bootstrapBegin l) (bootstrapEnd l) st) (\<lambda>st.
      Option.bind (kernel_unMap popPageFrame 0xFFC00000 st) (\<lambda>st.
        let st = st\<lparr>kernelFirstSegment := userSegment s\<rparr>;
            st = link_segment (userSegment s) (videoSegment s) st;
            st = link_segment (videoSegment s) (readOnlySegment s) st;
            st = link_segment (readOnlySegment s) (writableSegment s) st;
            st = link_segment (writableSegment s) (temporarySegment s) st;
            st = link_segment (temporarySegment s) (physicalMemorySegment s) st
        in Some (link_segment (physicalMemorySegment s) (recursiveMappingSegment s) st))))"

text \<open>
  \<open>PhysicalMemory::initialize\<close>: the memory map and the list of modules are mapped while the free
  frames are pushed.
\<close>

definition PhysicalMemory_initialize ::
  "boot_layout \<Rightarrow> multiboot_info \<Rightarrow> mmap_entry list \<Rightarrow> 'x kmem_scheme \<Rightarrow> 'x kmem_scheme option" where
  "PhysicalMemory_initialize l multiboot mmap st =
     (if mb_flags multiboot AND 1 = 0 \<or> mb_flags multiboot AND 0x40 = 0 then Some st
      else
        let mmapAligned = page_of (mmap_addr multiboot);
            mmapSize = KALIGN_UP (mmap_addr multiboot - mmapAligned + mmap_length multiboot) 4096;
            modulesAligned = page_of (mods_addr multiboot);
            modulesSize = KALIGN_UP (mods_addr multiboot - modulesAligned + of_nat (length (mb_modules multiboot)) * 16) 4096
        in Option.bind (mapPhysical KernelSpace mmapAligned mmapSize PROT_READ st) (\<lambda>(mmapMapped, st).
           Option.bind (mapPhysical KernelSpace modulesAligned modulesSize PROT_READ st) (\<lambda>(modulesMapped, st).
           Option.bind (push_frames (boot_frames l multiboot mmap) st) (\<lambda>st.
           Option.bind (unmapPhysical KernelSpace mmapMapped mmapSize st)
             (unmapPhysical KernelSpace modulesMapped modulesSize)))))"

declare map_frames.simps [code] map_range.simps [code] unmap_frames.simps [code] unmap_range.simps [code]
  map_other.simps [code] unmap_segments.simps [code] fork_segments.simps [code] unmap_boot.simps [code]

text \<open>What the C library in the kernel calls.\<close>

definition mapMemory_libk :: "u32 \<Rightarrow> 'x kmem_scheme \<Rightarrow> (u32 \<times> 'x kmem_scheme) option" where
  "mapMemory_libk sz st = AddressSpace_mapMemory KernelSpace sz (PROT_READ OR PROT_WRITE) st"

definition unmapMemory_libk :: "addr \<Rightarrow> u32 \<Rightarrow> 'x kmem_scheme \<Rightarrow> 'x kmem_scheme option" where
  "unmapMemory_libk a sz st = AddressSpace_unmapMemory KernelSpace a sz st"

section \<open>Memory of the kernel\<close>

lemma mapAt_kernel: "mapAt KernelSpace = kernel_mapAt popPageFrame"
  and unMap_kernel: "unMap KernelSpace = kernel_unMap popPageFrame"
  by (simp_all add: mapAt_def unMap_def)

lemma map_frames_kernel_more:
  assumes "map_frames KernelSpace va sz prot i st = Some y"
  shows "paging.more (snd y) = paging.more st"
proof -
  have "sp = KernelSpace \<longrightarrow> paging.more (snd y) = paging.more st"
    if "map_frames sp va sz prot i st = Some y" for sp and va sz prot i and st :: "'a kmem_scheme" and y
  proof (rule map_frames.raw_induct
      [of "\<lambda>sp va sz prot i st y. sp = KernelSpace \<longrightarrow> paging.more (snd y) = paging.more st"
          sp va sz prot i st y, OF _ that], goal_cases)
    case (1 map_frames sp va sz prot i st y)
    show ?case
    proof (cases "i < sz")
      case True
      then obtain pa st1 where pop: "popPageFrame st = Some (pa, st1)"
        and rest: "(if pa = 0 then Some (False, st1)
          else Option.bind (mapAt sp (va + i) pa prot st1) (\<lambda>(a, st). if a = 0 then Some (False, st)
                 else map_frames sp va sz prot (i + 4096) st)) = Some y"
        using 1(2) by (auto simp: bind_eq_Some_conv)
      have more1: "paging.more st1 = paging.more st" by (rule keepsD [OF popPageFrame_keeps pop])
      show ?thesis
      proof (cases "pa = 0")
        case False
        then obtain a st2 where map: "mapAt sp (va + i) pa prot st1 = Some (a, st2)"
          and rest2: "(if a = 0 then Some (False, st2) else map_frames sp va sz prot (i + 4096) st2) = Some y"
          using rest by (auto simp: bind_eq_Some_conv)
        have "sp = KernelSpace \<longrightarrow> paging.more st2 = paging.more st1"
          using keepsD [OF kernel_mapAt_keeps [OF popPageFrame_keeps]] map by (auto simp: mapAt_kernel)
        then show ?thesis using 1(1) rest2 more1 by (cases "a = 0") auto
      qed (use rest more1 in auto)
    qed (use 1(2) in auto)
  qed
  then show ?thesis using assms by blast
qed

lemma unmap_frames_kernel_more:
  assumes "unmap_frames KernelSpace va sz i st = Some st'"
  shows "paging.more st' = paging.more st"
proof -
  have "sp = KernelSpace \<longrightarrow> paging.more y = paging.more st"
    if "unmap_frames sp va sz i st = Some y" for sp and va sz i and st :: "'a kmem_scheme" and y
  proof (rule unmap_frames.raw_induct
      [of "\<lambda>sp va sz i st y. sp = KernelSpace \<longrightarrow> paging.more y = paging.more st"
          sp va sz i st y, OF _ that], goal_cases)
    case (1 unmap_frames sp va sz i st y)
    show ?case
    proof (cases "i < sz")
      case True
      then obtain pa st1 st2 st3 where get: "getPhysicalAddress sp (va + i) st = Some (pa, st1)"
        and unmap: "unMap sp (va + i) st1 = Some st2" and push: "pushPageFrame pa st2 = Some st3"
        and rest: "unmap_frames sp va sz (i + 4096) st3 = Some y"
        using 1(2) by (auto simp: bind_eq_Some_conv)
      have "sp = KernelSpace \<longrightarrow> st1 = st" using get by (auto simp: getPhysicalAddress_def)
      moreover have "sp = KernelSpace \<longrightarrow> paging.more st2 = paging.more st1"
        using kernel_unMap_more [OF popPageFrame_keeps] unmap by (auto simp: unMap_kernel)
      ultimately show ?thesis using 1(1) [OF rest] pushPageFrame_more [OF push] by auto
    qed (use 1(2) in auto)
  qed
  then show ?thesis using assms by blast
qed

section \<open>The segments after initialization\<close>

definition static_nodes :: "static_segments \<Rightarrow> snode list" where
  "static_nodes s =
     [Node (userSegment s) 0 0xC0000000 0,
      Node (videoSegment s) 0xC0000000 0xC0001000 (PROT_READ OR PROT_WRITE),
      Node (readOnlySegment s) (unat (kernelVirtualBegin s)) (unat (kernelReadOnlyEnd s)) (PROT_READ OR PROT_EXEC),
      Node (writableSegment s) (unat (kernelReadOnlyEnd s)) (unat (kernelVirtualEnd s)) (PROT_READ OR PROT_WRITE),
      Node (temporarySegment s) 0xFF7FF000 0xFF800000 0,
      Node (physicalMemorySegment s) 0xFF800000 0xFFC00000 (PROT_READ OR PROT_WRITE),
      Node (recursiveMappingSegment s) 0xFFC00000 (2 ^ 32) (PROT_READ OR PROT_WRITE)]"

text \<open>
  The layout of the kernel's image: the static records and the first page of the pool lie in the
  writable part, and the records are distinct and not in that page.
\<close>

definition static_ptrs :: "static_segments \<Rightarrow> addr list" where
  "static_ptrs s = [userSegment s, videoSegment s, readOnlySegment s, writableSegment s, temporarySegment s,
     physicalMemorySegment s, recursiveMappingSegment s]"

definition layout_ok :: "static_segments \<Rightarrow> addr \<Rightarrow> bool" where
  "layout_ok s page \<longleftrightarrow>
     0xC0001000 \<le> kernelVirtualBegin s \<and> kernelVirtualBegin s < kernelReadOnlyEnd s \<and>
     kernelReadOnlyEnd s < kernelVirtualEnd s \<and> kernelVirtualEnd s \<le> 0xFF7FF000 \<and>
     kernelVirtualBegin s AND 0xFFF = 0 \<and> kernelReadOnlyEnd s AND 0xFFF = 0 \<and> kernelVirtualEnd s AND 0xFFF = 0 \<and>
     page AND 0xFFF = 0 \<and> kernelReadOnlyEnd s \<le> page \<and> page < kernelVirtualEnd s \<and>
     distinct (static_ptrs s) \<and>
     list_all (\<lambda>p. kernelReadOnlyEnd s \<le> p \<and> p < kernelVirtualEnd s \<and> (p < page \<or> page + 4096 \<le> p)) (static_ptrs s)"

lemma set_seg_apply: "segs (set_seg p f st) q = (if q = p then f (segs st p) else segs st q)"
  by simp

lemma link_segment_apply:
  "segs (link_segment p r st) p = (segs st p)\<lparr>seg_next := r\<rparr>"
  "q \<noteq> p \<Longrightarrow> segs (link_segment p r st) q = segs st q"
  "p \<noteq> q \<Longrightarrow> segs (link_segment p r st) q = segs st q"
  by (simp_all add: link_segment_def)

lemma static_segs_at:
  assumes "distinct (static_ptrs s)" "list_all (\<lambda>p. p \<noteq> 0) (static_ptrs s)"
    and "kernelVirtualBegin s \<le> kernelReadOnlyEnd s" "kernelReadOnlyEnd s \<le> kernelVirtualEnd s"
    and seg: "segs st = segs (static_segs s st0)"
  shows "segs_at (segs (link_segment (physicalMemorySegment s) (recursiveMappingSegment s)
      (link_segment (temporarySegment s) (physicalMemorySegment s) (link_segment (writableSegment s) (temporarySegment s)
      (link_segment (readOnlySegment s) (writableSegment s) (link_segment (videoSegment s) (readOnlySegment s)
      (link_segment (userSegment s) (videoSegment s) (st\<lparr>kernelFirstSegment := userSegment s\<rparr>)))))))) 0 (static_nodes s) 0"
proof -
  have w: "w32 0xC0000000 = 0xC0000000" "w32 0x1000 = 0x1000" "w32 0xFF7FF000 = 0xFF7FF000" "w32 0xFF800000 = 0xFF800000"
    "w32 0x400000 = 0x400000" "w32 0xFFC00000 = 0xFFC00000"
    by (simp_all add: w32_def)
  have sizes: "kernelReadOnlyEnd s - kernelVirtualBegin s = w32 (unat (kernelReadOnlyEnd s) - unat (kernelVirtualBegin s))"
    "kernelVirtualEnd s - kernelReadOnlyEnd s = w32 (unat (kernelVirtualEnd s) - unat (kernelReadOnlyEnd s))"
    using assms(3,4) w32_diff [of "unat (kernelVirtualBegin s)" "unat (kernelReadOnlyEnd s)"]
      w32_diff [of "unat (kernelReadOnlyEnd s)" "unat (kernelVirtualEnd s)"] by (simp_all add: word_le_nat_alt)
  define st1 where "st1 = st\<lparr>kernelFirstSegment := userSegment s\<rparr>"
  have seg1: "segs st1 = segs (static_segs s st0)" by (simp add: st1_def seg)
  note dis = assms(1,2) [unfolded static_ptrs_def, simplified]
  have apply0: "segs st1 (userSegment s) = seg_of (static_nodes s ! 0) 0 0"
    "segs st1 (videoSegment s) = seg_of (static_nodes s ! 1) (userSegment s) 0"
    "segs st1 (readOnlySegment s) = seg_of (static_nodes s ! 2) (videoSegment s) 0"
    "segs st1 (writableSegment s) = seg_of (static_nodes s ! 3) (readOnlySegment s) 0"
    "segs st1 (temporarySegment s) = seg_of (static_nodes s ! 4) (writableSegment s) 0"
    "segs st1 (physicalMemorySegment s) = seg_of (static_nodes s ! 5) (temporarySegment s) 0"
    "segs st1 (recursiveMappingSegment s) = seg_of (static_nodes s ! 6) (physicalMemorySegment s) 0"
    unfolding seg1 static_segs_def MemorySegment_init_def Let_def set_seg_apply
    using dis by (simp_all add: static_nodes_def seg_of_def sizes w)
  define fin where "fin = link_segment (physicalMemorySegment s) (recursiveMappingSegment s)
      (link_segment (temporarySegment s) (physicalMemorySegment s) (link_segment (writableSegment s) (temporarySegment s)
      (link_segment (readOnlySegment s) (writableSegment s) (link_segment (videoSegment s) (readOnlySegment s)
      (link_segment (userSegment s) (videoSegment s) st1)))))"
  have apply1: "segs fin (userSegment s) = (segs st1 (userSegment s))\<lparr>seg_next := videoSegment s\<rparr>"
    "segs fin (videoSegment s) = (segs st1 (videoSegment s))\<lparr>seg_next := readOnlySegment s\<rparr>"
    "segs fin (readOnlySegment s) = (segs st1 (readOnlySegment s))\<lparr>seg_next := writableSegment s\<rparr>"
    "segs fin (writableSegment s) = (segs st1 (writableSegment s))\<lparr>seg_next := temporarySegment s\<rparr>"
    "segs fin (temporarySegment s) = (segs st1 (temporarySegment s))\<lparr>seg_next := physicalMemorySegment s\<rparr>"
    "segs fin (physicalMemorySegment s) = (segs st1 (physicalMemorySegment s))\<lparr>seg_next := recursiveMappingSegment s\<rparr>"
    "segs fin (recursiveMappingSegment s) = segs st1 (recursiveMappingSegment s)"
    using dis by (simp_all add: fin_def link_segment_apply)
  have "segs_at (segs fin) 0 (static_nodes s) 0"
    using dis apply0 by (simp add: apply1 static_nodes_def)
  then show ?thesis by (simp only: fin_def st1_def)
qed

lemma unmap_boot_more:
  assumes "unmap_boot p e st = Some st'"
  shows "paging.more st' = paging.more st"
proof (rule unmap_boot.raw_induct [of "\<lambda>p e st y. paging.more y = paging.more st" p e st st', OF _ assms], goal_cases)
  case (1 unmap_boot p e st y)
  show ?case
  proof (cases "p < e")
    case True
    then obtain st1 where "kernel_unMap popPageFrame p st = Some st1" "unmap_boot (p + 4096) e st1 = Some y"
      using 1(2) by (auto simp: bind_eq_Some_conv)
    then show ?thesis using 1(1) kernel_unMap_more [OF popPageFrame_keeps] by metis
  qed (use 1(2) in simp)
qed

lemma link_segment_simps [simp]:
  "nextPage (link_segment p r st) = nextPage st" "segmentsPage (link_segment p r st) = segmentsPage st"
  "kernelFirstSegment (link_segment p r st) = kernelFirstSegment st"
  by (simp_all add: link_segment_def)

lemma static_segs_simps [simp]:
  "nextPage (static_segs s st) = nextPage st" "segmentsPage (static_segs s st) = segmentsPage st"
  by (simp_all add: static_segs_def MemorySegment_init_def Let_def)

lemma static_nodes_ok:
  assumes "layout_ok s page"
  shows "ranges_ok (static_nodes s)" "\<forall>x \<in> set (static_nodes s). 4096 dvd lo x \<and> 4096 dvd hi x"
  using assms
  by (simp_all add: layout_ok_def static_nodes_def ranges_ok_def range_ok_def word_le_nat_alt word_less_nat_alt aligned_dvd)

lemma AddressSpace_initialize_kinv:
  assumes ok: "layout_ok s (segmentsPage st)" "nextPage st (segmentsPage st + 4080) = 0"
    and run: "AddressSpace_initialize dir l s (static_segs s st) = Some st'"
  shows "kinv st' (static_nodes s) [segmentsPage st] (static_nodes s ! 3)"
proof -
  let ?page = "segmentsPage st"
  obtain st1 st2 where st1: "unmap_boot (bootstrapBegin l) (bootstrapEnd l) (static_segs s st\<lparr>kernelPageDir := dir\<rparr>) = Some st1"
    and st2: "kernel_unMap popPageFrame 0xFFC00000 st1 = Some st2"
    and st': "st' = link_segment (physicalMemorySegment s) (recursiveMappingSegment s)
      (link_segment (temporarySegment s) (physicalMemorySegment s) (link_segment (writableSegment s) (temporarySegment s)
      (link_segment (readOnlySegment s) (writableSegment s) (link_segment (videoSegment s) (readOnlySegment s)
      (link_segment (userSegment s) (videoSegment s) (st2\<lparr>kernelFirstSegment := userSegment s\<rparr>))))))"
    using run by (auto simp: AddressSpace_initialize_def bind_eq_Some_conv Let_def)
  have "paging.more (static_segs s st\<lparr>kernelPageDir := dir\<rparr>) = paging.more (static_segs s st)"
    by (cases "static_segs s st") simp
  then have more: "paging.more st2 = paging.more (static_segs s st)"
    using unmap_boot_more [OF st1] kernel_unMap_more [OF popPageFrame_keeps st2] by simp
  note f = kmem_more [OF more]
  have "0 < unat (kernelReadOnlyEnd s)" using ok(1) by (simp add: layout_ok_def word_le_nat_alt word_less_nat_alt)
  moreover have "list_all (\<lambda>p. unat (kernelReadOnlyEnd s) \<le> unat p) (static_ptrs s)"
    using ok(1) by (auto simp: layout_ok_def list_all_iff word_le_nat_alt)
  ultimately have nz: "list_all (\<lambda>p. p \<noteq> 0) (static_ptrs s)" by (auto simp: list_all_iff)
  have at: "segs_at (segs st') 0 (static_nodes s) 0"
    unfolding st' by (rule static_segs_at [OF _ nz _ _ f(1)]) (use ok(1) in \<open>auto simp: layout_ok_def\<close>)
  have ptrs: "map ptr (static_nodes s) = static_ptrs s" by (simp add: static_nodes_def static_ptrs_def)
  have R: "lo (static_nodes s ! 3) = unat (kernelReadOnlyEnd s)" "hi (static_nodes s ! 3) = unat (kernelVirtualEnd s)"
    "static_nodes s ! 3 \<in> set (static_nodes s)"
    by (simp_all add: static_nodes_def)
  have within: "within (unat p) (static_nodes s ! 3) \<longleftrightarrow> kernelReadOnlyEnd s \<le> p \<and> p < kernelVirtualEnd s" for p
    by (simp add: within_def R word_le_nat_alt word_less_nat_alt)
  have page: "within (unat ?page) (static_nodes s ! 3)" "4096 dvd unat ?page" "4096 dvd unat (kernelVirtualEnd s)"
    using ok(1) unfolding within layout_ok_def by (simp_all add: aligned_dvd)
  then have page_end: "unat (?page + 4096) = unat ?page + 4096"
    using ok(1) by (auto simp: layout_ok_def word_le_nat_alt unat_word_ariths within_def R elim!: dvdE)
  have "p \<notin> set (page_entries ?page)" if "p < ?page \<or> ?page + 4096 \<le> p" for p
    using that page_entriesD [OF _ page(2), of p] by (auto simp: word_le_nat_alt word_less_nat_alt page_end)
  then have all: "\<forall>x \<in> set (static_nodes s). ptr x \<notin> set (entries [?page]) \<and> within (unat (ptr x)) (static_nodes s ! 3)"
    using ok(1) unfolding within layout_ok_def by (auto simp: list_all_iff ptrs [symmetric])
  have "within (unat ?page + 4095) (static_nodes s ! 3)" using page unfolding within_def R by (auto elim!: dvdE)
  moreover have "?page \<noteq> 0" using ok(1) \<open>0 < unat (kernelReadOnlyEnd s)\<close>
    by (auto simp: layout_ok_def word_le_nat_alt)
  moreover have "static_nodes s \<noteq> []" "lo (hd (static_nodes s)) = 0" by (simp_all add: static_nodes_def)
  moreover from this have "ptr (hd (static_nodes s)) \<notin> set (entries [?page])" "ptr (last (static_nodes s)) \<notin> set (entries [?page])"
    using all hd_in_set last_in_set by metis+
  moreover have "distinct (map ptr (static_nodes s))" using ok(1) by (simp add: ptrs layout_ok_def)
  moreover have "kernelFirstSegment st' = ptr (hd (static_nodes s))" "segmentsPage st' = ?page" "nextPage st' (?page + 4080) = 0"
    using f ok(2) by (simp_all add: st' static_nodes_def)
  ultimately show ?thesis
    unfolding kinv_def using at static_nodes_ok [OF ok(1)] R(3) all page by simp
qed

section \<open>A kernel that has just started\<close>

definition demo_static :: static_segments where
  "demo_static = \<lparr>userSegment = 0xC010A000, videoSegment = 0xC010A014, readOnlySegment = 0xC010A028,
     writableSegment = 0xC010A03C, temporarySegment = 0xC010A050, physicalMemorySegment = 0xC010A064,
     recursiveMappingSegment = 0xC010A078, kernelVirtualBegin = 0xC0100000, kernelReadOnlyEnd = 0xC0108000,
     kernelVirtualEnd = 0xC0110000\<rparr>"

definition demo_boot :: boot_layout where
  "demo_boot = \<lparr>bootstrapBegin = 0x100000, bootstrapEnd = 0x101000, kernelPhysicalBegin = 0x101000, kernelPhysicalEnd = 0x111000\<rparr>"

text \<open>A page directory at \<open>0x1000\<close> with two tables and eight free frames.\<close>

definition demo_frames :: "u32 \<Rightarrow> u32 \<Rightarrow> u32" where
  "demo_frames f i = (if f = 0x1000 then if i = 0 then 0x3003 else if i = 768 then 0x2003 else if i = 1023 then 0x1003 else 0 else 0)"

definition demo_kmem0 :: kmem where
  "demo_kmem0 = \<lparr>frames = demo_frames, pf_stack = (\<lambda>k. 0x200000 + 0x1000 * k), stackUsed = 8, stackLeft = 1016,
     kernelPageDir = 0, spaceDirs = [],
     segs = (\<lambda>_. \<lparr>seg_address = 0, seg_size = 0, seg_flags = 0, seg_prev = 0, seg_next = 0\<rparr>), nextPage = (\<lambda>_. 0),
     segmentsPage = 0xC0109000, kernelFirstSegment = 0\<rparr>"

definition demo_kmem :: kmem where
  "demo_kmem = the (AddressSpace_initialize 0x1000 demo_boot demo_static (static_segs demo_static demo_kmem0))"

lemma demo_initialize: "AddressSpace_initialize 0x1000 demo_boot demo_static (static_segs demo_static demo_kmem0) \<noteq> None"
  by code_simp

lemma demo_layout: "layout_ok demo_static (segmentsPage demo_kmem0)"
  by code_simp

text \<open>The kernel after the segment for one page is linked.\<close>

definition demo_linked :: kmem where
  "demo_linked = the (Option.bind (allocateSegment 0xC0001000 4096 3 demo_kmem) (\<lambda>(newSegment, st).
     addSegment_link (kernelFirstSegment demo_kmem) newSegment st))"

lemma demo_linked_some:
  "findFreeSegment (kernelFirstSegment demo_kmem) 4096 demo_kmem = Some 0xC0001000"
  "Option.bind (allocateSegment 0xC0001000 4096 3 demo_kmem) (\<lambda>(newSegment, st).
     addSegment_link (kernelFirstSegment demo_kmem) newSegment st) \<noteq> None"
  by code_simp+

lemma demo_linked_pool:
  "segmentsPage demo_linked = 0xC0109000" "nextPage demo_linked (0xC0109000 + 4080) = 0"
  "slot_free demo_linked 0xC0109014" "slot_free demo_linked 0xC0109028"
  by code_simp+

lemma demo_find: "findAndAddNewSegment (kernelFirstSegment demo_kmem) 4096 3 demo_kmem = Some (0xC0001000, demo_linked)"
proof -
  have "0xC0109000 + w32 (20 * k) \<in> set (entries [0xC0109000])" if "k < 204" for k
    using that by (auto simp: page_entries_def)
  from this [of 1] this [of 2] have "0xC0109014 \<in> set (entries [0xC0109000])" "0xC0109028 \<in> set (entries [0xC0109000])"
    by (simp_all add: w32_def)
  then have "verifySegmentList demo_linked = Some demo_linked"
    using demo_linked_pool by (intro verifySegmentList_idle [where ps = "[0xC0109000]" and e = "0xC0109014" and e' = "0xC0109028"]) (simp_all add: aligned_dvd [symmetric])
  then show ?thesis
    using demo_linked_some unfolding findAndAddNewSegment_def demo_linked_def
    by (cases "allocateSegment 0xC0001000 4096 3 demo_kmem") auto
qed

lemma demo_frames_mapped: "map_option fst (map_frames KernelSpace 0xC0001000 4096 3 0 demo_linked) = Some True"
  by code_simp

lemma demo_kinv: "kinv demo_kmem (static_nodes demo_static) [0xC0109000] (static_nodes demo_static ! 3)"
proof -
  have "kinv demo_kmem (static_nodes demo_static) [segmentsPage demo_kmem0] (static_nodes demo_static ! 3)"
    using AddressSpace_initialize_kinv [OF demo_layout, of "0x1000" demo_boot demo_kmem] demo_initialize
    by (auto simp: demo_kmem_def demo_kmem0_def)
  then show ?thesis by (simp add: demo_kmem0_def)
qed

section \<open>Properties\<close>

text \<open>
  C23: \<open>AddressSpace::initialize\<close> establishes the invariant of the kernel's list of segments, for
  every layout of the kernel's image in which the static segments are distinct and the image is
  aligned.
\<close>

theorem segments_initialized:
  assumes "layout_ok s (segmentsPage st)" "nextPage st (segmentsPage st + 4080) = 0"
    and "AddressSpace_initialize dir l s (static_segs s st) = Some st'"
  shows "kinv st' (static_nodes s) [segmentsPage st] (static_nodes s ! 3)"
  by (rule AddressSpace_initialize_kinv [OF assms])

theorem segments_initialized_witness:
  "kinv demo_kmem (static_nodes demo_static) [0xC0109000] (static_nodes demo_static ! 3)"
proof -
  have run: "AddressSpace_initialize 0x1000 demo_boot demo_static (static_segs demo_static demo_kmem0) = Some demo_kmem"
    using demo_initialize by (auto simp: demo_kmem_def)
  have "kinv demo_kmem (static_nodes demo_static) [segmentsPage demo_kmem0] (static_nodes demo_static ! 3)"
    by (rule segments_initialized [OF demo_layout _ run]) (simp add: demo_kmem0_def)
  then show ?thesis by (simp add: demo_kmem0_def)
qed

text \<open>
  C22: memory that the kernel maps for itself is a new segment: aligned, below the end of the
  address space and disjoint from every segment there was; all of those stay, the list stays
  sorted and linked in both directions, and the pool of segments stays well-formed, also when a
  page for the pool had to be mapped on the way.
\<close>

theorem kernel_mapMemory_new:
  assumes inv: "kinv st xs ps R" and run: "mapMemory_libk sz st = Some (a, st')"
    and "a \<noteq> 0" "0 < sz" "4096 dvd unat sz"
  shows "\<exists>xs' ps'. kinv st' xs' ps' R \<and> set xs \<subseteq> set xs' \<and> set ps \<subseteq> set ps' \<and>
    (\<exists>e. Node e (unat a) (unat a + unat sz) (PROT_READ OR PROT_WRITE) \<in> set xs') \<and>
    4096 dvd unat a \<and> unat a + unat sz < 2 ^ 32 \<and> (\<forall>x \<in> set xs. hi x \<le> unat a \<or> unat a + unat sz \<le> lo x)"
proof -
  obtain va st1 ok where find: "findAndAddNewSegment (kernelFirstSegment st) sz (PROT_READ OR PROT_WRITE) st = Some (va, st1)"
    and frames: "map_frames KernelSpace va sz (PROT_READ OR PROT_WRITE) 0 st1 = Some (ok, st')" and "a = (if ok then va else 0)"
    using run by (auto simp: mapMemory_libk_def AddressSpace_mapMemory_def mapMemory_pages_def space_firstSegment_def bind_eq_Some_conv)
  then have va: "va = a" using assms(3) by (auto split: if_splits)
  have "kinv st' xs' ps' R \<longleftrightarrow> kinv st1 xs' ps' R" for xs' ps'
    using map_frames_kernel_more [OF frames] kinv_more [of st' st1] by simp
  then show ?thesis
    using findAndAddNewSegment_inv [OF inv find assms(4,5)] unfolding va grown_def by blast
qed

theorem kernel_mapMemory_new_witness:
  "\<exists>st' xs' ps' R. mapMemory_libk 4096 demo_kmem = Some (0xC0001000, st') \<and> kinv st' xs' ps' R \<and>
     (\<exists>e. Node e 0xC0001000 0xC0002000 (PROT_READ OR PROT_WRITE) \<in> set xs')"
proof -
  obtain st' where "map_frames KernelSpace 0xC0001000 4096 3 0 demo_linked = Some (True, st')"
    using demo_frames_mapped by auto
  then have run: "mapMemory_libk 4096 demo_kmem = Some (0xC0001000, st')"
    using demo_find by (simp add: mapMemory_libk_def AddressSpace_mapMemory_def mapMemory_pages_def
        space_firstSegment_def paging_flags)
  show ?thesis using kernel_mapMemory_new [OF demo_kinv run] run by auto
qed

end
