(* ===== verification/Libc_Malloc.thy ===== *)
theory Libc_Malloc
  imports Libc_String Libc_Errno
begin

text \<open>
  The heap of \<open>libc/src/stdlib\<close>: \<open>malloc.c\<close>, \<open>free.c\<close>, \<open>realloc.c\<close>, \<open>calloc.c\<close>, and \<open>strdup\<close>.
  The control blocks are a store of records by address, the bytes of the program's data are a
  separate memory.  The pages come from \<open>mapMemory\<close> and go back by \<open>unmapMemory\<close>, two operations
  on a state of their own.  \<open>__lockHeap\<close> and \<open>__unlockHeap\<close> are empty in the C library.
\<close>

section \<open>Definitions\<close>

record mcb =
  mcb_magic :: size_t
  mcb_size :: size_t
  mcb_prev :: addr
  mcb_next :: addr

definition MAGIC_BIG_MCB :: size_t where "MAGIC_BIG_MCB = 0xC001C0DE"
definition MAGIC_FREE_MCB :: size_t where "MAGIC_FREE_MCB = 0xBEEFBEEF"
definition MAGIC_USED_MCB :: size_t where "MAGIC_USED_MCB = 0xDEADBEEF"
definition MAGIC_END_MCB :: size_t where "MAGIC_END_MCB = 0xDEADDEAD"
definition PAGESIZE :: size_t where "PAGESIZE = 0x1000"

lemmas MAGIC_defs = MAGIC_BIG_MCB_def MAGIC_FREE_MCB_def MAGIC_USED_MCB_def MAGIC_END_MCB_def

definition ALIGN_UP :: "size_t \<Rightarrow> size_t \<Rightarrow> size_t" where
  "ALIGN_UP v alignment = ((v - 1) AND NOT (alignment - 1)) + alignment"

record 'v heap =
  mcbs :: "addr \<Rightarrow> mcb"
  firstBigBlock :: addr
  heap_mem :: mem
  heap_errno :: int
  pages :: 'v

record 'v page_ops =
  mapMemory :: "size_t \<Rightarrow> 'v \<Rightarrow> addr \<times> 'v"
  unmapMemory :: "addr \<Rightarrow> size_t \<Rightarrow> 'v \<Rightarrow> 'v"

text \<open>An assignment to fields of the control block at an address.\<close>

definition set_mcb :: "addr \<Rightarrow> (mcb \<Rightarrow> mcb) \<Rightarrow> 'v heap \<Rightarrow> 'v heap" where
  "set_mcb p f st = st\<lparr>mcbs := (mcbs st)(p := f (mcbs st p))\<rparr>"

text \<open>The initial heap: the empty big block at the address \<open>e\<close> of \<open>emptyBigBlock\<close>.\<close>

definition emptyBigBlock :: "addr \<Rightarrow> (addr \<Rightarrow> mcb) \<Rightarrow> addr \<Rightarrow> mcb" where
  "emptyBigBlock e h =
     h(e := \<lparr>mcb_magic = MAGIC_BIG_MCB, mcb_size = 32, mcb_prev = 0, mcb_next = 0\<rparr>,
       e + 16 := \<lparr>mcb_magic = MAGIC_END_MCB, mcb_size = 0, mcb_prev = 0, mcb_next = 0\<rparr>)"

text \<open>\<open>None\<close>: the assertion fails.\<close>

definition allocateBigBlock ::
  "'v page_ops \<Rightarrow> addr \<Rightarrow> size_t \<Rightarrow> 'v heap \<Rightarrow> (addr \<times> 'v heap) option" where
  "allocateBigBlock ops lastBigBlock sz st =
     (if mcb_magic (mcbs st lastBigBlock) \<noteq> MAGIC_BIG_MCB then None
      else
        let sz = sz + 3 * 16;
            sz = ALIGN_UP sz PAGESIZE;
            (bigBlock, v) = mapMemory ops sz (pages st);
            st = st\<lparr>pages := v\<rparr>;
            block = bigBlock + 16;
            endBlock = bigBlock + sz - 16;
            st = set_mcb bigBlock (\<lambda>_. \<lparr>mcb_magic = MAGIC_BIG_MCB, mcb_size = sz,
                   mcb_prev = lastBigBlock, mcb_next = 0\<rparr>) st;
            st = set_mcb lastBigBlock (\<lambda>b. b\<lparr>mcb_next := bigBlock\<rparr>) st;
            st = set_mcb block (\<lambda>_. \<lparr>mcb_magic = MAGIC_FREE_MCB, mcb_size = sz - 3 * 16,
                   mcb_prev = 0, mcb_next = endBlock\<rparr>) st;
            st = set_mcb endBlock (\<lambda>_. \<lparr>mcb_magic = MAGIC_END_MCB, mcb_size = 0,
                   mcb_prev = block, mcb_next = 0\<rparr>) st
        in Some (bigBlock, st))"

definition unifyBlocks :: "addr \<Rightarrow> addr \<Rightarrow> 'v heap \<Rightarrow> addr \<times> 'v heap" where
  "unifyBlocks first second st =
     (let st = set_mcb first (\<lambda>b. b\<lparr>mcb_next := mcb_next (mcbs st second)\<rparr>) st;
          st = set_mcb first (\<lambda>b. b\<lparr>mcb_size := mcb_size b + (16 + mcb_size (mcbs st second))\<rparr>) st;
          st = set_mcb (mcb_next (mcbs st second)) (\<lambda>b. b\<lparr>mcb_prev := first\<rparr>) st
      in (first, st))"

definition splitBlock :: "addr \<Rightarrow> size_t \<Rightarrow> 'v heap \<Rightarrow> 'v heap" where
  "splitBlock block sz st =
     (let newBlock = block + 16 + sz;
          st = set_mcb newBlock (\<lambda>_. \<lparr>mcb_magic = MAGIC_FREE_MCB,
                 mcb_size = mcb_size (mcbs st block) - 16 - sz,
                 mcb_prev = block, mcb_next = mcb_next (mcbs st block)\<rparr>) st;
          st = set_mcb block (\<lambda>b. b\<lparr>mcb_size := sz\<rparr>) st;
          st = set_mcb (mcb_next (mcbs st block)) (\<lambda>b. b\<lparr>mcb_prev := newBlock\<rparr>) st;
          st = set_mcb block (\<lambda>b. b\<lparr>mcb_next := newBlock\<rparr>) st
      in st)"

partial_function (option) malloc_loop ::
  "'v page_ops \<Rightarrow> size_t \<Rightarrow> size_t \<Rightarrow> addr \<Rightarrow> addr \<Rightarrow> 'v heap \<Rightarrow> (addr \<times> 'v heap) option"
where
  "malloc_loop ops sz totalSize currentBigBlock currentBlock st =
     (let magic = mcb_magic (mcbs st currentBlock) in
      if magic = MAGIC_FREE_MCB then
        if mcb_size (mcbs st currentBlock) \<ge> sz then
          let st = (if mcb_size (mcbs st currentBlock) > totalSize
                    then splitBlock currentBlock sz st else st);
              st = set_mcb currentBlock (\<lambda>b. b\<lparr>mcb_magic := MAGIC_USED_MCB\<rparr>) st
          in Some (currentBlock + 16, st)
        else malloc_loop ops sz totalSize currentBigBlock (mcb_next (mcbs st currentBlock)) st
      else if magic = MAGIC_USED_MCB then
        malloc_loop ops sz totalSize currentBigBlock (mcb_next (mcbs st currentBlock)) st
      else if magic = MAGIC_END_MCB then
        if mcb_next (mcbs st currentBigBlock) \<noteq> 0 then
          let currentBigBlock = mcb_next (mcbs st currentBigBlock)
          in malloc_loop ops sz totalSize currentBigBlock (currentBigBlock + 16) st
        else
          Option.bind (allocateBigBlock ops currentBigBlock sz st) (\<lambda>(currentBigBlock, st).
            if currentBigBlock = 0 then Some (0, st\<lparr>heap_errno := ENOMEM\<rparr>)
            else malloc_loop ops sz totalSize currentBigBlock (currentBigBlock + 16) st)
      else Some (0, st))"

declare malloc_loop.simps [code]

definition malloc :: "'v page_ops \<Rightarrow> size_t \<Rightarrow> 'v heap \<Rightarrow> (addr \<times> 'v heap) option" where
  "malloc ops sz st =
     (let sz = (if sz = 0 then 1 else sz);
          sz = ALIGN_UP sz 16
      in malloc_loop ops sz (16 + sz) (firstBigBlock st) (firstBigBlock st + 16) st)"

text \<open>The three conditional steps of \<open>free\<close>.\<close>

definition free_merge_prev :: "addr \<Rightarrow> 'v heap \<Rightarrow> addr \<times> 'v heap" where
  "free_merge_prev block st =
     (if mcb_prev (mcbs st block) \<noteq> 0 \<and> mcb_magic (mcbs st (mcb_prev (mcbs st block))) = MAGIC_FREE_MCB
      then unifyBlocks (mcb_prev (mcbs st block)) block st else (block, st))"

definition free_merge_next :: "addr \<Rightarrow> 'v heap \<Rightarrow> addr \<times> 'v heap" where
  "free_merge_next block st =
     (if mcb_magic (mcbs st (mcb_next (mcbs st block))) = MAGIC_FREE_MCB
      then unifyBlocks block (mcb_next (mcbs st block)) st else (block, st))"

definition free_release :: "'v page_ops \<Rightarrow> addr \<Rightarrow> 'v heap \<Rightarrow> 'v heap" where
  "free_release ops block st =
     (if mcb_prev (mcbs st block) = 0 \<and> mcb_magic (mcbs st (mcb_next (mcbs st block))) = MAGIC_END_MCB
      then let bigBlock = block - 16;
               st = (if mcb_prev (mcbs st bigBlock) \<noteq> 0
                     then set_mcb (mcb_prev (mcbs st bigBlock))
                            (\<lambda>b. b\<lparr>mcb_next := mcb_next (mcbs st bigBlock)\<rparr>) st else st);
               st = (if mcb_next (mcbs st bigBlock) \<noteq> 0
                     then set_mcb (mcb_next (mcbs st bigBlock))
                            (\<lambda>b. b\<lparr>mcb_prev := mcb_prev (mcbs st bigBlock)\<rparr>) st else st)
           in st\<lparr>pages := unmapMemory ops bigBlock (mcb_size (mcbs st bigBlock)) (pages st)\<rparr>
      else st)"

definition free :: "'v page_ops \<Rightarrow> addr \<Rightarrow> 'v heap \<Rightarrow> 'v heap" where
  "free ops addr st =
     (if addr = 0 then st
      else
        let block = addr - 16;
            st = set_mcb block (\<lambda>b. b\<lparr>mcb_magic := MAGIC_FREE_MCB\<rparr>) st;
            (block, st) = free_merge_prev block st;
            (block, st) = free_merge_next block st
        in free_release ops block st)"

definition changeChunkSize :: "addr \<Rightarrow> size_t \<Rightarrow> 'v heap \<Rightarrow> 'v heap" where
  "changeChunkSize chunk sizeDiff st =
     (let nxt = mcb_next (mcbs st chunk);
          newNextChunk = nxt + sizeDiff;
          st = set_mcb newNextChunk (\<lambda>_. mcbs st nxt) st;
          st = set_mcb chunk (\<lambda>b. b\<lparr>mcb_next := newNextChunk\<rparr>) st;
          st = set_mcb chunk (\<lambda>b. b\<lparr>mcb_size := mcb_size b + sizeDiff\<rparr>) st;
          st = set_mcb newNextChunk (\<lambda>b. b\<lparr>mcb_size := mcb_size b - sizeDiff\<rparr>) st
      in st)"

text \<open>
  \<open>realloc\<close>: \<open>sizeDiff\<close> is signed; in \<open>next->size > sizeDiff + sizeof(Mem_Ctrl_Blk)\<close> it is
  converted to \<open>size_t\<close>.
\<close>

definition realloc :: "'v page_ops \<Rightarrow> addr \<Rightarrow> size_t \<Rightarrow> 'v heap \<Rightarrow> (addr \<times> 'v heap) option" where
  "realloc ops addr sz st =
     (if addr = 0 then malloc ops sz st
      else
        let chunk = addr - 16 in
        if mcb_magic (mcbs st chunk) \<noteq> MAGIC_USED_MCB then None
        else
          let sz = (if sz = 0 then 1 else sz);
              sz = ALIGN_UP sz 16;
              sizeDiff = sz - mcb_size (mcbs st chunk);
              nxt = mcb_next (mcbs st chunk)
          in if sizeDiff = 0 then Some (addr, st)
             else if mcb_magic (mcbs st nxt) = MAGIC_FREE_MCB \<and>
               (sint sizeDiff > 0 \<and> mcb_size (mcbs st nxt) > sizeDiff + 16 \<or> sint sizeDiff < 0)
             then Some (addr, changeChunkSize chunk sizeDiff st)
             else
               Option.bind (malloc ops sz st) (\<lambda>(newAddr, st).
                 if newAddr = 0 then Some (0, st)
                 else let copySize = (if sint sizeDiff < 0 then sz else mcb_size (mcbs st chunk));
                          st = st\<lparr>heap_mem := memcpy (heap_mem st) newAddr addr copySize\<rparr>
                      in Some (newAddr, free ops addr st)))"

definition calloc :: "'v page_ops \<Rightarrow> size_t \<Rightarrow> size_t \<Rightarrow> 'v heap \<Rightarrow> (addr \<times> 'v heap) option" where
  "calloc ops num sz st =
     map_option (\<lambda>(result, st).
         (result, if result \<noteq> 0 then st\<lparr>heap_mem := memset (heap_mem st) result 0 (num * sz)\<rparr> else st))
       (malloc ops (num * sz) st)"

definition strdup :: "'v page_ops \<Rightarrow> addr \<Rightarrow> 'v heap \<Rightarrow> (addr \<times> 'v heap) option" where
  "strdup ops str st =
     Option.bind (strlen (heap_mem st) str) (\<lambda>len.
       map_option (\<lambda>(result, st).
           (result, st\<lparr>heap_mem := memcpy (heap_mem st) result str (len + 1)\<rparr>))
         (malloc ops (len + 1) st))"

section \<open>Chains of chunks\<close>

text \<open>
  The abstract view of a big block: its address and the list of its chunks, each with a flag (in
  use or free) and the size of its data.  Addresses are natural numbers here, so that positions
  in a block do not wrap around.
\<close>

type_synonym chunk = "bool \<times> nat"

definition span :: "chunk list \<Rightarrow> nat" where
  "span cs = sum_list (map (\<lambda>(u, n). 16 + n) cs)"

lemma span_simps [simp]:
  "span [] = 0" "span ((u, n) # cs) = 16 + n + span cs" "span (xs @ ys) = span xs + span ys"
  by (simp_all add: span_def)

definition chunk_mcb :: "bool \<Rightarrow> nat \<Rightarrow> nat \<Rightarrow> nat \<Rightarrow> mcb" where
  "chunk_mcb u n pv nx = \<lparr>mcb_magic = (if u then MAGIC_USED_MCB else MAGIC_FREE_MCB),
     mcb_size = w32 n, mcb_prev = w32 pv, mcb_next = w32 nx\<rparr>"

definition end_mcb :: "nat \<Rightarrow> mcb" where
  "end_mcb pv = \<lparr>mcb_magic = MAGIC_END_MCB, mcb_size = 0, mcb_prev = w32 pv, mcb_next = 0\<rparr>"

definition big_mcb :: "nat \<Rightarrow> nat \<Rightarrow> nat \<Rightarrow> mcb" where
  "big_mcb n pv nx = \<lparr>mcb_magic = MAGIC_BIG_MCB, mcb_size = w32 n, mcb_prev = w32 pv, mcb_next = w32 nx\<rparr>"

lemma mcb_sels [simp]:
  "mcb_magic (chunk_mcb u n pv nx) = (if u then MAGIC_USED_MCB else MAGIC_FREE_MCB)"
  "mcb_size (chunk_mcb u n pv nx) = w32 n" "mcb_prev (chunk_mcb u n pv nx) = w32 pv"
  "mcb_next (chunk_mcb u n pv nx) = w32 nx"
  "mcb_magic (end_mcb pv) = MAGIC_END_MCB" "mcb_prev (end_mcb pv) = w32 pv"
  "mcb_magic (big_mcb n pv nx) = MAGIC_BIG_MCB" "mcb_size (big_mcb n pv nx) = w32 n"
  "mcb_prev (big_mcb n pv nx) = w32 pv" "mcb_next (big_mcb n pv nx) = w32 nx"
  by (simp_all add: chunk_mcb_def end_mcb_def big_mcb_def)

lemma mcb_updates [simp]:
  "(chunk_mcb u n pv nx)\<lparr>mcb_magic := MAGIC_USED_MCB\<rparr> = chunk_mcb True n pv nx"
  "(chunk_mcb u n pv nx)\<lparr>mcb_magic := MAGIC_FREE_MCB\<rparr> = chunk_mcb False n pv nx"
  "(chunk_mcb u n pv nx)\<lparr>mcb_size := w32 m\<rparr> = chunk_mcb u m pv nx"
  "(chunk_mcb u n pv nx)\<lparr>mcb_prev := w32 q\<rparr> = chunk_mcb u n q nx"
  "(chunk_mcb u n pv nx)\<lparr>mcb_next := w32 q\<rparr> = chunk_mcb u n pv q"
  "(end_mcb pv)\<lparr>mcb_prev := w32 q\<rparr> = end_mcb q"
  "(big_mcb n pv nx)\<lparr>mcb_prev := w32 q\<rparr> = big_mcb n q nx"
  "(big_mcb n pv nx)\<lparr>mcb_next := w32 q\<rparr> = big_mcb n pv q"
  by (simp_all add: chunk_mcb_def end_mcb_def big_mcb_def)

lemma magic_distinct [simp]:
  "MAGIC_USED_MCB \<noteq> MAGIC_FREE_MCB" "MAGIC_FREE_MCB \<noteq> MAGIC_USED_MCB"
  "MAGIC_END_MCB \<noteq> MAGIC_FREE_MCB" "MAGIC_FREE_MCB \<noteq> MAGIC_END_MCB"
  "MAGIC_END_MCB \<noteq> MAGIC_USED_MCB" "MAGIC_USED_MCB \<noteq> MAGIC_END_MCB"
  by (simp_all add: MAGIC_defs)

text \<open>A segment of a chain, starting at \<open>p\<close> after the chunk at \<open>pv\<close>.\<close>

fun seg_at :: "(addr \<Rightarrow> mcb) \<Rightarrow> nat \<Rightarrow> nat \<Rightarrow> chunk list \<Rightarrow> bool" where
  "seg_at h pv p [] \<longleftrightarrow> True"
| "seg_at h pv p ((u, n) # cs) \<longleftrightarrow>
     h (w32 p) = chunk_mcb u n pv (p + 16 + n) \<and> seg_at h p (p + 16 + n) cs"

text \<open>The last header of a segment, or the one before it.\<close>

fun last_header :: "nat \<Rightarrow> nat \<Rightarrow> chunk list \<Rightarrow> nat" where
  "last_header pv p [] = pv"
| "last_header pv p ((u, n) # cs) = last_header p (p + 16 + n) cs"

definition chunks_at :: "(addr \<Rightarrow> mcb) \<Rightarrow> nat \<Rightarrow> nat \<Rightarrow> chunk list \<Rightarrow> bool" where
  "chunks_at h pv p cs \<longleftrightarrow>
     seg_at h pv p cs \<and> h (w32 (p + span cs)) = end_mcb (last_header pv p cs)"

lemma seg_at_append:
  "seg_at h pv p (xs @ ys) \<longleftrightarrow> seg_at h pv p xs \<and> seg_at h (last_header pv p xs) (p + span xs) ys"
  by (induction xs arbitrary: pv p) (auto simp: add.assoc)

lemma last_header_append: "last_header pv p (xs @ ys) = last_header (last_header pv p xs) (p + span xs) ys"
  by (induction xs arbitrary: pv p) (auto simp: add.assoc)

lemma chunks_at_append:
  "chunks_at h pv p (xs @ ys) \<longleftrightarrow> seg_at h pv p xs \<and> chunks_at h (last_header pv p xs) (p + span xs) ys"
  by (auto simp: chunks_at_def seg_at_append last_header_append add.assoc)

lemma chunks_at_Nil: "chunks_at h pv p [] \<longleftrightarrow> h (w32 p) = end_mcb pv"
  by (simp add: chunks_at_def)

lemma chunks_at_Cons:
  "chunks_at h pv p ((u, n) # cs) \<longleftrightarrow>
     h (w32 p) = chunk_mcb u n pv (p + 16 + n) \<and> chunks_at h p (p + 16 + n) cs"
  by (auto simp: chunks_at_def add.assoc)

text \<open>Stores that agree on a range of addresses.\<close>

definition agree :: "nat set \<Rightarrow> (addr \<Rightarrow> mcb) \<Rightarrow> (addr \<Rightarrow> mcb) \<Rightarrow> bool" where
  "agree A h h' \<longleftrightarrow> (\<forall>a \<in> A. h' (w32 a) = h (w32 a))"

lemma agree_subset: "agree A h h' \<Longrightarrow> B \<subseteq> A \<Longrightarrow> agree B h h'"
  by (auto simp: agree_def)

lemma agree_trans: "agree A h h' \<Longrightarrow> agree A h' h'' \<Longrightarrow> agree A h h''"
  by (auto simp: agree_def)

lemma agree_refl [simp]: "agree A h h"
  by (simp add: agree_def)

lemma seg_at_agree: "seg_at h pv p cs \<Longrightarrow> agree {p..<p + span cs} h h' \<Longrightarrow> seg_at h' pv p cs"
proof (induction cs arbitrary: pv p)
  case (Cons c cs)
  obtain u n where c: "c = (u, n)" by (cases c)
  have "agree {p + 16 + n..<p + 16 + n + span cs} h h'"
    using Cons.prems(2) c by (auto elim: agree_subset)
  then have "seg_at h' p (p + 16 + n) cs" using Cons c by auto
  then show ?case using Cons.prems c by (auto simp: agree_def)
qed simp

lemma chunks_at_agree:
  assumes "chunks_at h pv p cs" "agree {p..<p + span cs + 16} h h'"
  shows "chunks_at h' pv p cs"
proof -
  have "agree {p..<p + span cs} h h'" using assms(2) by (rule agree_subset) auto
  then show ?thesis using assms by (auto simp: chunks_at_def agree_def intro: seg_at_agree)
qed

lemma agree_upd: "b < 2 ^ 32 \<Longrightarrow> b \<notin> A \<Longrightarrow> \<forall>a \<in> A. a < 2 ^ 32 \<Longrightarrow> agree A h (h(w32 b := v))"
  by (auto simp: agree_def w32_eq_iff)

lemma set_mcb_simps [simp]:
  "mcbs (set_mcb p f st) = (mcbs st)(p := f (mcbs st p))"
  "firstBigBlock (set_mcb p f st) = firstBigBlock st" "heap_mem (set_mcb p f st) = heap_mem st"
  "heap_errno (set_mcb p f st) = heap_errno st" "pages (set_mcb p f st) = pages st"
  by (simp_all add: set_mcb_def)

text \<open>Everything but the control blocks.\<close>

definition same_rest :: "'v heap \<Rightarrow> 'v heap \<Rightarrow> bool" where
  "same_rest st st' \<longleftrightarrow> firstBigBlock st' = firstBigBlock st \<and> heap_mem st' = heap_mem st \<and>
     heap_errno st' = heap_errno st \<and> pages st' = pages st"

lemma set_prev:
  assumes "chunks_at h pv p cs" "p + span cs + 16 \<le> 2 ^ 32"
  shows "chunks_at (h(w32 p := (h (w32 p))\<lparr>mcb_prev := w32 q\<rparr>)) q p cs"
proof (cases cs)
  case Nil
  then show ?thesis using assms by (simp add: chunks_at_Nil)
next
  case (Cons c ds)
  obtain u n where c: "c = (u, n)" by (cases c)
  let ?h = "h(w32 p := (h (w32 p))\<lparr>mcb_prev := w32 q\<rparr>)"
  have "agree {p + 16 + n..<p + 16 + n + span ds + 16} h ?h"
    using assms(2) Cons c by (intro agree_upd) auto
  then have "chunks_at ?h p (p + 16 + n) ds"
    using assms(1) Cons c by (auto simp: chunks_at_Cons intro: chunks_at_agree)
  then show ?thesis using assms(1) Cons c by (simp add: chunks_at_Cons)
qed

lemma splitBlock_chain:
  assumes "chunks_at (mcbs st) pv p ((u, n) # ys)" "m + 16 < n" "p + 16 + n + span ys + 16 \<le> 2 ^ 32"
  defines "st' \<equiv> splitBlock (w32 p) (w32 m) st"
  shows "chunks_at (mcbs st') pv p ((u, m) # (False, n - m - 16) # ys)"
    and "agree (- {p..<p + 16 + n + 16} \<inter> {..<2 ^ 32}) (mcbs st) (mcbs st')"
    and "same_rest st st'"
proof -
  let ?h = "mcbs st" and ?q = "p + 16 + m" and ?r = "p + 16 + n"
  have hp: "?h (w32 p) = chunk_mcb u n pv ?r" and tail: "chunks_at ?h p ?r ys"
    using assms(1) by (simp_all add: chunks_at_Cons)
  have bounds: "p < 2 ^ 32" "?q < 2 ^ 32" "?r < 2 ^ 32" using assms(2,3) by auto
  have addr: "w32 p + 16 + w32 m = w32 ?q" "w32 n - 16 - w32 m = w32 (n - m - 16)"
    using assms(2) by (simp_all add: w32_arith add.commute)
  have neq: "w32 p \<noteq> w32 ?q" "w32 p \<noteq> w32 ?r" "w32 ?q \<noteq> w32 ?r"
    using bounds assms(2) by (simp_all only: w32_eq_iff)
  have pos: "p + 16 + m + 16 + (n - m - 16) = ?r" using assms(2) by simp
  let ?h' = "?h(w32 ?r := (?h (w32 ?r))\<lparr>mcb_prev := w32 ?q\<rparr>)"
  have mcbs': "mcbs st' = ?h'(w32 ?q := chunk_mcb False (n - m - 16) p ?r, w32 p := chunk_mcb u m pv ?q)"
    unfolding st'_def splitBlock_def Let_def addr
    using neq neq [symmetric] by (auto simp: hp addr fun_eq_iff chunk_mcb_def)
  have "chunks_at ?h' ?q ?r ys" by (rule set_prev [OF tail]) (use assms(3) in simp)
  moreover have "agree {?r..<?r + span ys + 16} ?h' (mcbs st')"
    unfolding mcbs' by (rule agree_trans; rule agree_upd) (use assms(2,3) bounds in auto)
  ultimately have "chunks_at (mcbs st') ?q ?r ys" by (rule chunks_at_agree)
  then show "chunks_at (mcbs st') pv p ((u, m) # (False, n - m - 16) # ys)"
    unfolding chunks_at_Cons pos using neq by (simp add: mcbs')
  show "agree (- {p..<p + 16 + n + 16} \<inter> {..<2 ^ 32}) ?h (mcbs st')"
    unfolding mcbs' agree_def using bounds assms(2) by (auto simp: w32_eq_iff)
  show "same_rest st st'"
    by (simp add: same_rest_def st'_def splitBlock_def Let_def)
qed

lemma unifyBlocks_chain:
  assumes "chunks_at (mcbs st) pv p ((u, n) # (v, k) # ys)" "p + 16 + n + 16 + k + span ys + 16 \<le> 2 ^ 32"
  defines "st' \<equiv> snd (unifyBlocks (w32 p) (w32 (p + 16 + n)) st)"
  shows "chunks_at (mcbs st') pv p ((u, n + 16 + k) # ys)"
    and "agree (- {p..<p + 16 + n + 16 + k + 16} \<inter> {..<2 ^ 32}) (mcbs st) (mcbs st')"
    and "same_rest st st'"
proof -
  let ?h = "mcbs st" and ?q = "p + 16 + n" and ?r = "p + 16 + n + 16 + k"
  have hp: "?h (w32 p) = chunk_mcb u n pv ?q" "?h (w32 ?q) = chunk_mcb v k p ?r"
    and tail: "chunks_at ?h ?q ?r ys"
    using assms(1) by (simp_all add: chunks_at_Cons)
  have bounds: "p < 2 ^ 32" "?q < 2 ^ 32" "?r < 2 ^ 32" using assms(2) by auto
  have neq: "w32 p \<noteq> w32 ?q" "w32 p \<noteq> w32 ?r" "w32 ?q \<noteq> w32 ?r"
    using bounds by (simp_all only: w32_eq_iff)
  have addr: "w32 n + (16 + w32 k) = w32 (n + 16 + k)" by (simp add: w32_arith add.assoc)
  let ?h' = "?h(w32 ?r := (?h (w32 ?r))\<lparr>mcb_prev := w32 p\<rparr>)"
  have mcbs': "mcbs st' = ?h'(w32 p := chunk_mcb u (n + 16 + k) pv ?r)"
    unfolding st'_def unifyBlocks_def Let_def snd_conv
    using neq neq [symmetric] by (auto simp: hp addr fun_eq_iff chunk_mcb_def)
  have "chunks_at ?h' p ?r ys" by (rule set_prev [OF tail]) (use assms(2) in simp)
  moreover have "agree {?r..<?r + span ys + 16} ?h' (mcbs st')"
    unfolding mcbs' by (rule agree_upd) (use assms(2) bounds in auto)
  ultimately have "chunks_at (mcbs st') p ?r ys" by (rule chunks_at_agree)
  then show "chunks_at (mcbs st') pv p ((u, n + 16 + k) # ys)"
    by (simp add: chunks_at_Cons mcbs' add.assoc)
  show "agree (- {p..<p + 16 + n + 16 + k + 16} \<inter> {..<2 ^ 32}) ?h (mcbs st')"
    unfolding mcbs' agree_def using bounds by (auto simp: w32_eq_iff)
  show "same_rest st st'"
    by (simp add: same_rest_def st'_def unifyBlocks_def Let_def)
qed

lemma set_magic_chain:
  fixes v :: bool
  assumes "chunks_at (mcbs st) pv p ((u, n) # ys)" "p + 16 + n + span ys + 16 \<le> 2 ^ 32"
  defines "st' \<equiv> set_mcb (w32 p) (\<lambda>b. b\<lparr>mcb_magic := if v then MAGIC_USED_MCB else MAGIC_FREE_MCB\<rparr>) st"
  shows "chunks_at (mcbs st') pv p ((v, n) # ys)"
    and "agree (- {p} \<inter> {..<2 ^ 32}) (mcbs st) (mcbs st')"
    and "same_rest st st'"
proof -
  have hp: "mcbs st (w32 p) = chunk_mcb u n pv (p + 16 + n)" and "chunks_at (mcbs st) p (p + 16 + n) ys"
    using assms(1) by (simp_all add: chunks_at_Cons)
  have mcbs': "mcbs st' = (mcbs st)(w32 p := chunk_mcb v n pv (p + 16 + n))"
    by (simp add: st'_def hp)
  have "chunks_at (mcbs st') p (p + 16 + n) ys"
    unfolding mcbs' by (rule chunks_at_agree [OF \<open>chunks_at (mcbs st) p (p + 16 + n) ys\<close> agree_upd]) (use assms(2) in auto)
  then show "chunks_at (mcbs st') pv p ((v, n) # ys)" by (simp add: chunks_at_Cons mcbs')
  show "agree (- {p} \<inter> {..<2 ^ 32}) (mcbs st) (mcbs st')"
    unfolding mcbs' by (rule agree_upd) (use assms(2) in auto)
  show "same_rest st st'" by (simp add: same_rest_def st'_def)
qed

section \<open>Chains of big blocks\<close>

type_synonym big = "nat \<times> chunk list"

definition big_region :: "big \<Rightarrow> nat set" where
  "big_region B = {fst B..<fst B + 32 + span (snd B)}"

fun first_big :: "big list \<Rightarrow> nat \<Rightarrow> nat" where
  "first_big [] nx = nx"
| "first_big (B # bs) nx = fst B"

definition last_big :: "nat \<Rightarrow> big list \<Rightarrow> nat" where
  "last_big pv bs = (if bs = [] then pv else fst (last bs))"

fun bigs_at :: "(addr \<Rightarrow> mcb) \<Rightarrow> nat \<Rightarrow> big list \<Rightarrow> nat \<Rightarrow> bool" where
  "bigs_at h pv [] nx \<longleftrightarrow> True"
| "bigs_at h pv ((b, cs) # bs) nx \<longleftrightarrow>
     h (w32 b) = big_mcb (32 + span cs) pv (first_big bs nx) \<and> chunks_at h 0 (b + 16) cs \<and>
     bigs_at h b bs nx"

lemma last_big_simps [simp]: "last_big pv [] = pv" "last_big pv (B # bs) = last_big (fst B) bs"
  by (simp_all add: last_big_def)

lemma last_big_append [simp]: "last_big pv (xs @ ys) = last_big (last_big pv xs) ys"
  by (simp add: last_big_def)

lemma first_big_append [simp]: "first_big (xs @ ys) nx = first_big xs (first_big ys nx)"
  by (cases xs) auto

lemma bigs_at_append:
  "bigs_at h pv (xs @ ys) nx \<longleftrightarrow> bigs_at h pv xs (first_big ys nx) \<and> bigs_at h (last_big pv xs) ys nx"
proof (induction xs arbitrary: pv)
  case (Cons B xs)
  then show ?case by (cases B) simp
qed simp

lemma bigs_at_agree:
  "bigs_at h pv bs nx \<Longrightarrow> agree (\<Union> (big_region ` set bs)) h h' \<Longrightarrow> bigs_at h' pv bs nx"
proof (induction bs arbitrary: pv)
  case (Cons B bs)
  obtain b cs where B: "B = (b, cs)" by (cases B)
  have "agree (\<Union> (big_region ` set bs)) h h'" using Cons.prems(2) by (rule agree_subset) auto
  then have "bigs_at h' b bs nx" using Cons B by auto
  moreover have "agree {b + 16..<b + 16 + span cs + 16} h h'"
    by (rule agree_subset [OF Cons.prems(2)]) (use B in \<open>auto simp: big_region_def\<close>)
  then have "chunks_at h' 0 (b + 16) cs" using Cons.prems(1) B by (auto intro: chunks_at_agree)
  moreover have "b \<in> \<Union> (big_region ` set (B # bs))" using B by (simp add: big_region_def)
  then have "h' (w32 b) = h (w32 b)" using Cons.prems(2) by (auto simp: agree_def)
  ultimately show ?case using Cons.prems(1) B by simp
qed simp

text \<open>
  Well-formed heaps: chunk sizes are positive multiples of 16, no two neighbours are both free,
  the blocks lie in the address space, do not overlap and start at multiples of 16.  The first
  block is the static empty one; every other block has a chunk in use.
\<close>

definition chunk_ok :: "chunk \<Rightarrow> bool" where
  "chunk_ok c \<longleftrightarrow> 16 dvd snd c \<and> 0 < snd c"

fun no_adjacent_free :: "chunk list \<Rightarrow> bool" where
  "no_adjacent_free (c # d # cs) \<longleftrightarrow> (fst c \<or> fst d) \<and> no_adjacent_free (d # cs)"
| "no_adjacent_free _ \<longleftrightarrow> True"

definition big_ok :: "big \<Rightarrow> bool" where
  "big_ok B \<longleftrightarrow> 0 < fst B \<and> 16 dvd fst B \<and> fst B + 32 + span (snd B) \<le> 2 ^ 32 \<and>
     list_all chunk_ok (snd B) \<and> no_adjacent_free (snd B)"

definition big_disjoint :: "big \<Rightarrow> big \<Rightarrow> bool" where
  "big_disjoint B C \<longleftrightarrow> big_region B \<inter> big_region C = {}"

definition heap_at :: "'v heap \<Rightarrow> big list \<Rightarrow> bool" where
  "heap_at st bs \<longleftrightarrow> bs \<noteq> [] \<and> snd (hd bs) = [] \<and> firstBigBlock st = w32 (fst (hd bs)) \<and>
     bigs_at (mcbs st) 0 bs 0 \<and> list_all big_ok bs \<and> sorted_wrt big_disjoint bs \<and>
     (\<forall>B \<in> set (tl bs). \<exists>c \<in> set (snd B). fst c)"

lemma big_disjoint_sym: "big_disjoint B C \<longleftrightarrow> big_disjoint C B"
  by (auto simp: big_disjoint_def)

lemma no_adjacent_free_append:
  "no_adjacent_free (xs @ ys) \<longleftrightarrow> no_adjacent_free xs \<and> no_adjacent_free ys \<and>
     (xs = [] \<or> ys = [] \<or> fst (last xs) \<or> fst (hd ys))"
  by (induction xs rule: no_adjacent_free.induct) (cases ys, auto)+

lemma no_adjacent_free_Cons:
  "no_adjacent_free (c # cs) \<longleftrightarrow> no_adjacent_free cs \<and> (cs = [] \<or> fst c \<or> fst (hd cs))"
  by (cases cs) auto

lemma big_region_bound: "big_ok B \<Longrightarrow> a \<in> big_region B \<Longrightarrow> a < 2 ^ 32"
  by (auto simp: big_ok_def big_region_def)

lemma bigs_at_replace:
  assumes at: "bigs_at h pv (As @ (b, cs) # Bs) nx"
    and ok: "list_all big_ok (As @ (b, cs) # Bs)" "sorted_wrt big_disjoint (As @ (b, cs) # Bs)"
    and new: "chunks_at h' 0 (b + 16) cs'" "span cs' = span cs"
    and frame: "agree (- {b + 16..<b + 32 + span cs} \<inter> {..<2 ^ 32}) h h'"
  shows "bigs_at h' pv (As @ (b, cs') # Bs) nx"
proof -
  have other: "agree (\<Union> (big_region ` set Cs)) h h'"
    if "\<forall>C \<in> set Cs. big_ok C \<and> big_disjoint C (b, cs)" for Cs
  proof (rule agree_subset [OF frame])
    have "big_region C \<subseteq> - {b + 16..<b + 32 + span cs} \<inter> {..<2 ^ 32}" if "C \<in> set Cs" for C
      using big_region_bound [of C] \<open>\<forall>C \<in> set Cs. _ C\<close> that
      by (auto simp: big_disjoint_def big_region_def [of "(b, cs)"] disjoint_iff)
    then show "\<Union> (big_region ` set Cs) \<subseteq> - {b + 16..<b + 32 + span cs} \<inter> {..<2 ^ 32}" by blast
  qed
  have "bigs_at h' pv As b"
    using at ok other [of As] by (auto simp: bigs_at_append sorted_wrt_append list_all_iff intro!: bigs_at_agree [of h])
  moreover have "bigs_at h' b Bs nx"
    using at ok other [of Bs]
    by (auto simp: bigs_at_append sorted_wrt_append list_all_iff big_disjoint_sym [of _ "(b, cs)"] intro!: bigs_at_agree [of h])
  moreover have "h' (w32 b) = h (w32 b)"
    using frame ok(1) by (auto simp: agree_def big_ok_def)
  ultimately show ?thesis using at new by (simp add: bigs_at_append)
qed

lemma heap_at_replace:
  assumes "heap_at st (As @ (b, cs) # Bs)" "As \<noteq> []" "same_rest st st'"
    and "chunks_at (mcbs st') 0 (b + 16) cs'" "span cs' = span cs"
    and "agree (- {b + 16..<b + 32 + span cs} \<inter> {..<2 ^ 32}) (mcbs st) (mcbs st')"
    and "list_all chunk_ok cs'" "no_adjacent_free cs'" "\<exists>c \<in> set cs'. fst c"
  shows "heap_at st' (As @ (b, cs') # Bs)"
proof -
  have at: "bigs_at (mcbs st) 0 (As @ (b, cs) # Bs) 0" and ok: "list_all big_ok (As @ (b, cs) # Bs)"
    and dis: "sorted_wrt big_disjoint (As @ (b, cs) # Bs)"
    using assms(1) by (simp_all add: heap_at_def)
  have region: "big_disjoint (b, cs') C = big_disjoint (b, cs) C" "big_disjoint C (b, cs') = big_disjoint C (b, cs)" for C
    using assms(5) by (simp_all add: big_region_def big_disjoint_def)
  have "bigs_at (mcbs st') 0 (As @ (b, cs') # Bs) 0"
    by (rule bigs_at_replace [OF at ok dis assms(4-6)])
  moreover have "list_all big_ok (As @ (b, cs') # Bs)"
    using ok assms(5,7,8) by (simp add: big_ok_def)
  moreover have "sorted_wrt big_disjoint (As @ (b, cs') # Bs)"
    using dis by (simp add: sorted_wrt_append region)
  moreover obtain A As' where "As = A # As'" using assms(2) by (cases As) auto
  ultimately show ?thesis
    using assms(1,3,9) by (simp add: heap_at_def same_rest_def ball_Un)
qed

section \<open>Alignment\<close>

lemma ALIGN_UP_w32:
  assumes "0 < n" "n < 2 ^ 32" "a - 1 = mask k" "a = w32 (2 ^ k)"
  shows "ALIGN_UP (w32 n) a = w32 (round_up k n)"
proof -
  have "w32 n - 1 = w32 (n - 1)" using assms(1) by (simp add: w32_def of_nat_diff)
  moreover have "unat (w32 (n - 1)) = n - 1" using assms(2) by (simp add: unat_w32)
  ultimately show ?thesis
    using assms(3) by (simp add: ALIGN_UP_def align_mask round_up_def w32_add) (simp add: assms(4) w32_add)
qed

lemma ALIGN_UP_16: "0 < n \<Longrightarrow> n < 2 ^ 32 \<Longrightarrow> ALIGN_UP (w32 n) 16 = w32 (round_up 4 n)"
  by (rule ALIGN_UP_w32) (simp_all add: w32_def mask_eq_exp_minus_1)

lemma ALIGN_UP_page: "0 < n \<Longrightarrow> n < 2 ^ 32 \<Longrightarrow> ALIGN_UP (w32 n) PAGESIZE = w32 (round_up 12 n)"
  by (rule ALIGN_UP_w32) (simp_all add: w32_def mask_eq_exp_minus_1 PAGESIZE_def)

section \<open>The search of \<open>malloc\<close>\<close>

definition unfit :: "nat \<Rightarrow> chunk \<Rightarrow> bool" where
  "unfit m c \<longleftrightarrow> fst c \<or> snd c < m"

definition place :: "nat \<Rightarrow> nat \<Rightarrow> chunk list" where
  "place m n = (if m + 16 < n then [(True, m), (False, n - m - 16)] else [(True, n)])"

lemma span_place [simp]: "m \<le> n \<Longrightarrow> span (place m n) = 16 + n"
  by (auto simp: place_def)

lemma malloc_loop_skip:
  assumes "seg_at (mcbs st) pv p xs" "list_all (unfit m) xs" "p + span xs \<le> 2 ^ 32" "m < 2 ^ 32"
  shows "malloc_loop ops (w32 m) t B (w32 p) st = malloc_loop ops (w32 m) t B (w32 (p + span xs)) st"
  using assms
proof (induction xs arbitrary: pv p)
  case (Cons c xs)
  obtain u n where c: "c = (u, n)" by (cases c)
  then have hp: "mcbs st (w32 p) = chunk_mcb u n pv (p + 16 + n)" and "seg_at (mcbs st) p (p + 16 + n) xs"
    using Cons.prems(1) by simp_all
  then have IH: "malloc_loop ops (w32 m) t B (w32 (p + 16 + n)) st =
      malloc_loop ops (w32 m) t B (w32 (p + 16 + n + span xs)) st"
    using Cons c by (intro Cons.IH) auto
  have "\<not> w32 m \<le> w32 n" if "\<not> u"
    using Cons.prems c that by (simp add: unfit_def w32_le_iff)
  then have "malloc_loop ops (w32 m) t B (w32 p) st = malloc_loop ops (w32 m) t B (w32 (p + 16 + n)) st"
    by (subst malloc_loop.simps) (simp add: hp)
  then show ?case using IH c by (simp add: add.assoc)
qed simp

lemma malloc_loop_fit:
  assumes at: "chunks_at (mcbs st) pv p ((False, n) # ys)"
    and "m \<le> n" "m + 16 < 2 ^ 32" "p + 16 + n + span ys + 16 \<le> 2 ^ 32"
  obtains st' where "malloc_loop ops (w32 m) (w32 (m + 16)) B (w32 p) st = Some (w32 (p + 16), st')"
    "chunks_at (mcbs st') pv p (place m n @ ys)"
    "agree (- {p..<p + 16 + n + 16} \<inter> {..<2 ^ 32}) (mcbs st) (mcbs st')" "same_rest st st'"
proof -
  have hp: "mcbs st (w32 p) = chunk_mcb False n pv (p + 16 + n)" using at by (simp add: chunks_at_Cons)
  have cmp: "w32 m \<le> w32 n" "w32 (m + 16) < w32 n \<longleftrightarrow> m + 16 < n"
    using assms(2-4) by (simp_all add: w32_le_iff w32_less_iff)
  define st1 where "st1 = (if m + 16 < n then splitBlock (w32 p) (w32 m) st else st)"
  define st' where "st' = set_mcb (w32 p) (\<lambda>b. b\<lparr>mcb_magic := if True then MAGIC_USED_MCB else MAGIC_FREE_MCB\<rparr>) st1"
  have "malloc_loop ops (w32 m) (w32 (m + 16)) B (w32 p) st = Some (w32 (p + 16), st')"
    unfolding st'_def st1_def by (subst malloc_loop.simps) (simp add: hp cmp w32_arith)
  moreover have st1: "chunks_at (mcbs st1) pv p ((False, if m + 16 < n then m else n) # tl (place m n) @ ys)"
    "agree (- {p..<p + 16 + n + 16} \<inter> {..<2 ^ 32}) (mcbs st) (mcbs st1)" "same_rest st st1"
    using splitBlock_chain [OF at, of m] assms by (auto simp: st1_def place_def same_rest_def)
  have "p + 16 + (if m + 16 < n then m else n) + span (tl (place m n) @ ys) + 16 \<le> 2 ^ 32"
    using assms(4) by (auto simp: place_def)
  note magic = set_magic_chain [OF st1(1) this, of True, folded st'_def]
  have "chunks_at (mcbs st') pv p (place m n @ ys)"
    using magic(1) by (simp add: place_def split: if_splits)
  moreover have "agree (- {p..<p + 16 + n + 16} \<inter> {..<2 ^ 32}) (mcbs st) (mcbs st')"
    using st1(2) agree_subset [OF magic(2)] by (rule agree_trans) auto
  moreover have "same_rest st st'" using st1(3) magic(3) by (simp add: same_rest_def)
  ultimately show thesis using that by blast
qed

lemma malloc_loop_end:
  assumes "bigs_at (mcbs st) pv ((b, cs) # bs) nx" "big_ok (b, cs)" "list_all (unfit m) cs" "m < 2 ^ 32"
  shows "malloc_loop ops (w32 m) t (w32 b) (w32 (b + 16)) st =
    (if w32 (first_big bs nx) \<noteq> 0
     then malloc_loop ops (w32 m) t (w32 (first_big bs nx)) (w32 (first_big bs nx) + 16) st
     else Option.bind (allocateBigBlock ops (w32 b) (w32 m) st) (\<lambda>(currentBigBlock, st).
            if currentBigBlock = 0 then Some (0, st\<lparr>heap_errno := ENOMEM\<rparr>)
            else malloc_loop ops (w32 m) t currentBigBlock (currentBigBlock + 16) st))"
proof -
  have at: "mcbs st (w32 b) = big_mcb (32 + span cs) pv (first_big bs nx)"
    "seg_at (mcbs st) 0 (b + 16) cs" "mcbs st (w32 (b + 16 + span cs)) = end_mcb (last_header 0 (b + 16) cs)"
    using assms(1) by (simp_all add: chunks_at_def)
  have "malloc_loop ops (w32 m) t (w32 b) (w32 (b + 16)) st =
      malloc_loop ops (w32 m) t (w32 b) (w32 (b + 16 + span cs)) st"
    using assms by (intro malloc_loop_skip [OF at(2)]) (auto simp: big_ok_def)
  then show ?thesis by (subst (asm) (2) malloc_loop.simps) (simp add: at Let_def)
qed

lemma malloc_loop_skip_bigs:
  assumes "bigs_at (mcbs st) pv (As @ C # Bs) nx" "list_all big_ok (As @ C # Bs)"
    "\<forall>A \<in> set As. list_all (unfit m) (snd A)" "m < 2 ^ 32"
  shows "malloc_loop ops (w32 m) t (w32 (first_big (As @ C # Bs) nx)) (w32 (first_big (As @ C # Bs) nx) + 16) st =
    malloc_loop ops (w32 m) t (w32 (fst C)) (w32 (fst C) + 16) st"
  using assms
proof (induction As arbitrary: pv)
  case (Cons A As)
  obtain b cs where A: "A = (b, cs)" by (cases A)
  let ?n = "first_big (As @ C # Bs) nx"
  have n: "0 < ?n" "?n < 2 ^ 32" using Cons.prems(2) by (cases As; auto simp: big_ok_def)+
  then have "w32 ?n \<noteq> 0" using w32_eq_iff [of ?n 0] by simp
  moreover have "w32 b + 16 = w32 (b + 16)" by (simp add: w32_arith)
  ultimately have "malloc_loop ops (w32 m) t (w32 b) (w32 b + 16) st = malloc_loop ops (w32 m) t (w32 ?n) (w32 ?n + 16) st"
    using malloc_loop_end [of st pv b cs "As @ C # Bs" nx m ops t] Cons.prems A by simp
  moreover have "malloc_loop ops (w32 m) t (w32 ?n) (w32 ?n + 16) st = malloc_loop ops (w32 m) t (w32 (fst C)) (w32 (fst C) + 16) st"
    using Cons.prems A by (intro Cons.IH [of b]) auto
  ultimately show ?case using A by simp
qed simp

text \<open>A new big block, placed after the last one.\<close>

lemma allocateBigBlock_chain:
  assumes at: "bigs_at (mcbs st) pv (As @ [(b, cs)]) 0" and ok: "list_all big_ok (As @ [(b, cs)])"
    and dis: "sorted_wrt big_disjoint (As @ [(b, cs)])"
    and page: "m + 48 + 2 ^ 12 \<le> 2 ^ 32" "s = round_up 12 (m + 48)"
      "mapMemory ops (w32 s) (pages st) = (w32 a, v)" "0 < a" "a + s \<le> 2 ^ 32"
    and fresh: "\<forall>B \<in> set (As @ [(b, cs)]). big_region B \<inter> {a..<a + s} = {}"
  obtains st' where "allocateBigBlock ops (w32 b) (w32 m) st = Some (w32 a, st')"
    "bigs_at (mcbs st') pv (As @ [(b, cs), (a, [(False, s - 48)])]) 0"
    "pages st' = v" "firstBigBlock st' = firstBigBlock st" "heap_mem st' = heap_mem st"
    "heap_errno st' = heap_errno st"
proof -
  let ?h = "mcbs st"
  have s: "m + 48 \<le> s" "s < 2 ^ 32" "64 \<le> s"
    using page(1,2) round_up_ge [of "m + 48" 12] round_up_less [of "m + 48" 12] round_up_def [of 12] by auto
  have sz: "ALIGN_UP (w32 m + 3 * 16) PAGESIZE = w32 s"
  proof -
    have "w32 m + 3 * 16 = w32 (m + 48)" by (simp add: w32_def)
    then show ?thesis using page(1,2) ALIGN_UP_page [of "m + 48"] by simp
  qed
  have b: "?h (w32 b) = big_mcb (32 + span cs) (last_big pv As) 0" "chunks_at ?h 0 (b + 16) cs"
    "bigs_at ?h pv As b" "big_ok (b, cs)"
    using at ok by (auto simp: bigs_at_append)
  have addr: "w32 a + 16 = w32 (a + 16)" "w32 a + w32 s - 16 = w32 (a + s - 16)" "w32 s - 3 * 16 = w32 (s - 48)"
    using s by (simp_all add: w32_def of_nat_diff)
  define h1 where "h1 = ?h(w32 a := big_mcb s b 0, w32 b := big_mcb (32 + span cs) (last_big pv As) a,
      w32 (a + 16) := chunk_mcb False (s - 48) 0 (a + s - 16), w32 (a + s - 16) := end_mcb (a + 16))"
  have bb: "b < 2 ^ 32" "b \<notin> {a..<a + s}" "a < 2 ^ 32"
    using b(4) fresh page(5) s by (auto simp: big_ok_def big_region_def disjoint_iff)
  then have ne: "w32 b \<noteq> w32 a" by (simp add: w32_eq_iff) (use s in auto)
  define st' where "st' = st\<lparr>pages := v, mcbs := h1\<rparr>"
  have alloc: "allocateBigBlock ops (w32 b) (w32 m) st = Some (w32 a, st')"
    unfolding allocateBigBlock_def Let_def sz page(3) prod.case addr
    using b(1) ne by (simp add: st'_def h1_def set_mcb_def big_mcb_def chunk_mcb_def end_mcb_def)
  have frame: "agree A ?h h1" if "\<forall>x \<in> A. x < 2 ^ 32 \<and> x \<noteq> b \<and> x \<notin> {a..<a + s}" for A
    using that bb s page(5) unfolding agree_def h1_def by (auto simp: w32_eq_iff)
  have "agree (\<Union> (big_region ` set As)) ?h h1"
  proof (rule frame, rule ballI)
    fix x assume "x \<in> \<Union> (big_region ` set As)"
    then obtain B where B: "B \<in> set As" "x \<in> big_region B" by auto
    moreover have "big_disjoint B (b, cs)" using dis B(1) by (simp add: sorted_wrt_append)
    then have "b \<notin> big_region B" by (auto simp: big_disjoint_def big_region_def disjoint_iff)
    moreover have "x < 2 ^ 32" using ok B big_region_bound [of B x] by (auto simp: list_all_iff)
    ultimately show "x < 2 ^ 32 \<and> x \<noteq> b \<and> x \<notin> {a..<a + s}" using fresh B by (auto simp: disjoint_iff)
  qed
  then have "bigs_at h1 pv As b" by (rule bigs_at_agree [OF b(3)])
  moreover have "agree {b + 16..<b + 16 + span cs + 16} ?h h1"
    using b(4) fresh by (intro frame) (auto simp: big_ok_def big_region_def disjoint_iff)
  then have "chunks_at h1 0 (b + 16) cs" by (rule chunks_at_agree [OF b(2)])
  moreover have "chunks_at h1 0 (a + 16) [(False, s - 48)]"
    using s page(5) by (simp add: chunks_at_def h1_def w32_eq_iff)
  moreover have "h1 (w32 a) = big_mcb s b 0" "h1 (w32 b) = big_mcb (32 + span cs) (last_big pv As) a"
    using s page(5) bb by (auto simp: h1_def w32_eq_iff)
  ultimately have "bigs_at h1 pv (As @ [(b, cs), (a, [(False, s - 48)])]) 0"
    using s by (simp add: bigs_at_append)
  then show thesis using that [of st'] alloc by (simp add: st'_def)
qed

section \<open>The blocks in use\<close>

fun used_in :: "nat \<Rightarrow> chunk list \<Rightarrow> (nat \<times> nat) set" where
  "used_in p [] = {}"
| "used_in p ((u, n) # cs) = (if u then {(p + 16, n)} else {}) \<union> used_in (p + 16 + n) cs"

definition used_blocks :: "big list \<Rightarrow> (nat \<times> nat) set" where
  "used_blocks bs = (\<Union>(b, cs) \<in> set bs. used_in (b + 16) cs)"

lemma used_in_append [simp]: "used_in p (xs @ ys) = used_in p xs \<union> used_in (p + span xs) ys"
  by (induction xs arbitrary: p) (auto simp: add.assoc)

lemma used_in_bounds: "(q, k) \<in> used_in p cs \<Longrightarrow> p + 16 \<le> q \<and> q + k \<le> p + span cs"
  by (induction cs arbitrary: p) (fastforce split: if_splits)+

lemma used_in_split:
  "(q, k) \<in> used_in p cs \<Longrightarrow> \<exists>xs ys. cs = xs @ (True, k) # ys \<and> q = p + span xs + 16"
proof (induction cs arbitrary: p)
  case (Cons c cs)
  obtain u n where c: "c = (u, n)" by (cases c)
  consider "u" "q = p + 16" "k = n" | "(q, k) \<in> used_in (p + 16 + n) cs"
    using Cons.prems c by (auto split: if_splits)
  then show ?case
  proof cases
    case 1
    then show ?thesis using c by (intro exI [of _ "[]"] exI [of _ cs]) simp
  next
    case 2
    then obtain xs ys where "cs = xs @ (True, k) # ys" "q = p + 16 + n + span xs + 16" using Cons.IH by blast
    then show ?thesis using c by (intro exI [of _ "c # xs"] exI [of _ ys]) simp
  qed
qed simp

lemma used_in_place: "m \<le> n \<Longrightarrow> used_in p (place m n) = {(p + 16, if m + 16 < n then m else n)}"
  by (simp add: place_def)

lemma used_blocks_Nil [simp]: "used_blocks [] = {}"
  by (simp add: used_blocks_def)

lemma used_blocks_append [simp]: "used_blocks (xs @ ys) = used_blocks xs \<union> used_blocks ys"
  by (auto simp: used_blocks_def)

lemma used_blocks_Cons [simp]: "used_blocks ((b, cs) # bs) = used_in (b + 16) cs \<union> used_blocks bs"
  by (auto simp: used_blocks_def)

lemma used_blocks_region:
  assumes "(q, k) \<in> used_blocks bs"
  shows "\<exists>B \<in> set bs. fst B + 32 \<le> q \<and> q + k \<le> fst B + 16 + span (snd B)"
proof -
  obtain b cs where "(b, cs) \<in> set bs" "(q, k) \<in> used_in (b + 16) cs"
    using assms by (auto simp: used_blocks_def)
  then show ?thesis using used_in_bounds [of q k "b + 16" cs] by (intro bexI [of _ "(b, cs)"]) auto
qed

text \<open>Blocks that share no byte.\<close>

definition apart :: "nat \<times> nat \<Rightarrow> nat \<times> nat \<Rightarrow> bool" where
  "apart x y \<longleftrightarrow> fst x + snd x \<le> fst y \<or> fst y + snd y \<le> fst x"

lemma big_disjoint_iff:
  "big_disjoint B C \<longleftrightarrow> fst B + 32 + span (snd B) \<le> fst C \<or> fst C + 32 + span (snd C) \<le> fst B"
proof
  assume d: "big_disjoint B C"
  have "max (fst B) (fst C) \<notin> big_region B \<inter> big_region C" using d by (simp add: big_disjoint_def)
  then show "fst B + 32 + span (snd B) \<le> fst C \<or> fst C + 32 + span (snd C) \<le> fst B"
    by (auto simp: big_region_def max_def split: if_splits)
qed (auto simp: big_disjoint_def big_region_def)

lemma span_dvd: "list_all chunk_ok cs \<Longrightarrow> 16 dvd span cs"
  by (induction cs) (auto simp: chunk_ok_def)

lemma used_blocks_other:
  assumes "x \<in> used_blocks Cs" "\<forall>C \<in> set Cs. big_disjoint C (b, cs)" "b + 32 \<le> q" "q + k \<le> b + 16 + span cs"
  shows "apart x (q, k)"
  using used_blocks_region [of "fst x" "snd x" Cs] assms by (fastforce simp: apart_def big_disjoint_iff)

lemma used_after_place:
  assumes at: "heap_at st (As @ (b, xs @ place m n @ ys) # Bs)" and "m \<le> n"
  defines "p \<equiv> b + 16 + span xs + 16" and "k \<equiv> (if m + 16 < n then m else n)"
    and "old \<equiv> used_blocks (As @ (b, xs @ (False, n) # ys) # Bs)"
  shows "used_blocks (As @ (b, xs @ place m n @ ys) # Bs) = insert (p, k) old"
    and "\<forall>x \<in> old. apart x (p, k)" and "16 dvd p" and "0 < p" and "p + k < 2 ^ 32" and "m \<le> k"
proof -
  let ?cs = "xs @ place m n @ ys"
  have ok: "list_all big_ok (As @ (b, ?cs) # Bs)" and dis: "sorted_wrt big_disjoint (As @ (b, ?cs) # Bs)"
    using at by (simp_all add: heap_at_def)
  have big: "big_ok (b, ?cs)" using ok by simp
  show "used_blocks (As @ (b, ?cs) # Bs) = insert (p, k) old"
    using assms(2) by (auto simp: old_def p_def k_def used_in_place add.assoc)
  show "m \<le> k" using assms(2) by (simp add: k_def)
  have pk: "p + k \<le> b + 16 + span ?cs" "b + 32 \<le> p" using assms(2) by (auto simp: p_def k_def)
  then show "p + k < 2 ^ 32" "0 < p" using big by (auto simp: big_ok_def)
  have "16 dvd span xs" "16 dvd b" using big span_dvd [of xs] by (simp_all add: big_ok_def)
  then show "16 dvd p" by (simp add: p_def)
  show "\<forall>x \<in> old. apart x (p, k)"
  proof
    fix x
    assume "x \<in> old"
    then consider "x \<in> used_blocks (As @ Bs)" | "x \<in> used_in (b + 16) xs" | "x \<in> used_in (b + 16 + span xs + 16 + n) ys"
      by (auto simp: old_def)
    then show "apart x (p, k)"
    proof cases
      case 1
      have "\<forall>C \<in> set (As @ Bs). big_disjoint C (b, ?cs)"
        using dis by (auto simp: sorted_wrt_append big_disjoint_sym [of _ "(b, ?cs)"])
      then show ?thesis using used_blocks_other [OF 1 _ pk(2,1)] by simp
    next
      case 2
      then show ?thesis using used_in_bounds [of "fst x" "snd x" "b + 16" xs] by (auto simp: apart_def p_def)
    next
      case 3
      then show ?thesis
        using used_in_bounds [of "fst x" "snd x" "b + 16 + span xs + 16 + n" ys] assms(2)
        by (auto simp: apart_def p_def k_def)
    qed
  qed
qed

text \<open>The size \<open>malloc\<close> looks for, and the first chunk that has it.\<close>

definition request :: "size_t \<Rightarrow> nat" where
  "request sz = round_up 4 (max 1 (unat sz))"

lemma request_props:
  assumes "unat sz + 2 ^ 13 \<le> 2 ^ 32"
  shows "ALIGN_UP (if sz = 0 then 1 else sz) 16 = w32 (request sz)" "unat sz \<le> request sz"
    "request sz + 48 + 2 ^ 12 \<le> 2 ^ 32" "chunk_ok (True, request sz)"
proof -
  have sz: "(if sz = 0 then 1 else sz) = w32 (max 1 (unat sz))"
    by (cases "sz = 0") (auto simp: w32_def max_def unat_gt_0 Suc_le_eq)
  show "ALIGN_UP (if sz = 0 then 1 else sz) 16 = w32 (request sz)"
    unfolding sz request_def using assms by (intro ALIGN_UP_16) auto
  show "unat sz \<le> request sz" "request sz + 48 + 2 ^ 12 \<le> 2 ^ 32"
  proof -
    have "max 1 (unat sz) \<le> 2 ^ 32 - 2 ^ 13" "0 < max 1 (unat sz)" using assms by auto
    then show "unat sz \<le> request sz" "request sz + 48 + 2 ^ 12 \<le> 2 ^ 32"
      using round_up_ge [of "max 1 (unat sz)" 4] round_up_less [of "max 1 (unat sz)" 4]
      by (simp_all add: request_def)
  qed
  show "chunk_ok (True, request sz)" by (simp add: chunk_ok_def request_def round_up_16)
qed

lemma first_fit_cases:
  obtains (none) "\<forall>B \<in> set bs. list_all (unfit m) (snd B)"
  | (found) As b xs n ys Bs where "bs = As @ (b, xs @ (False, n) # ys) # Bs"
      "\<forall>A \<in> set As. list_all (unfit m) (snd A)" "list_all (unfit m) xs" "m \<le> n"
proof (cases "\<exists>B \<in> set bs. \<not> list_all (unfit m) (snd B)")
  case True
  then obtain As B Bs where bs: "bs = As @ B # Bs" "\<not> list_all (unfit m) (snd B)"
    "\<forall>A \<in> set As. list_all (unfit m) (snd A)"
    using split_list_first_prop [of bs "\<lambda>B. \<not> list_all (unfit m) (snd B)"] by auto
  then have "\<exists>c \<in> set (snd B). \<not> unfit m c" by (auto simp: list_all_iff)
  then obtain xs c ys where "snd B = xs @ c # ys" "\<not> unfit m c" "list_all (unfit m) xs"
    using split_list_first_prop [of "snd B" "\<lambda>c. \<not> unfit m c"] by (auto simp: list_all_iff)
  then show thesis using bs found [of As "fst B" xs "snd c" ys Bs] by (cases B; cases c) (auto simp: unfit_def)
qed (use none in auto)

section \<open>Merging free chunks\<close>

lemma chain_context:
  assumes "chunks_at h pv p (xs @ cs)" "chunks_at h' (last_header pv p xs) (p + span xs) cs'"
    "agree (- A \<inter> {..<2 ^ 32}) h h'" "A \<subseteq> {p + span xs..}" "p + span xs \<le> 2 ^ 32"
  shows "chunks_at h' pv p (xs @ cs')"
proof -
  have "agree {p..<p + span xs} h h'" using assms(3) by (rule agree_subset) (use assms(4,5) in auto)
  then show ?thesis using assms(1,2) by (auto simp: chunks_at_append intro: seg_at_agree)
qed

lemma last_header_snoc: "last_header pv p (xs @ [c]) = p + span xs"
  by (induction xs arbitrary: pv p) (cases c, auto simp: add.assoc)

lemma used_in_free_snoc: "\<not> u \<Longrightarrow> used_in p (xs @ [(u, k)]) = used_in p xs"
  by simp

text \<open>A chain of chunks \<open>cs\<close> from \<open>p\<close> has become the chain \<open>ds\<close>.\<close>

definition rechained :: "nat \<Rightarrow> 'v heap \<Rightarrow> chunk list \<Rightarrow> 'v heap \<Rightarrow> chunk list \<Rightarrow> bool" where
  "rechained p st cs st' ds \<longleftrightarrow> chunks_at (mcbs st') 0 p ds \<and> span ds = span cs \<and>
     used_in p ds = used_in p cs \<and> list_all chunk_ok ds \<and> same_rest st st' \<and>
     agree (- {p..<p + span cs + 16} \<inter> {..<2 ^ 32}) (mcbs st) (mcbs st')"

lemma rechained_refl: "chunks_at (mcbs st) 0 p cs \<Longrightarrow> list_all chunk_ok cs \<Longrightarrow> rechained p st cs st cs"
  by (simp add: rechained_def same_rest_def)

lemma rechained_trans: "rechained p st cs st1 ds \<Longrightarrow> rechained p st1 ds st2 es \<Longrightarrow> rechained p st cs st2 es"
  by (auto simp: rechained_def same_rest_def intro: agree_trans)

lemma unify_rechained:
  assumes "chunks_at (mcbs st) 0 p (xs @ (False, k) # (False, n) # ys)"
    "list_all chunk_ok (xs @ (False, k) # (False, n) # ys)"
    "p + span (xs @ (False, k) # (False, n) # ys) + 16 \<le> 2 ^ 32"
  shows "rechained p st (xs @ (False, k) # (False, n) # ys)
      (snd (unifyBlocks (w32 (p + span xs)) (w32 (p + span xs + 16 + k)) st)) (xs @ (False, k + 16 + n) # ys)"
proof -
  let ?q = "p + span xs" and ?st' = "snd (unifyBlocks (w32 (p + span xs)) (w32 (p + span xs + 16 + k)) st)"
  have "chunks_at (mcbs st) (last_header 0 p xs) ?q ((False, k) # (False, n) # ys)"
    using assms(1) by (simp add: chunks_at_append)
  moreover have "?q + 16 + k + 16 + n + span ys + 16 \<le> 2 ^ 32" using assms(3) by simp
  ultimately have u: "chunks_at (mcbs ?st') (last_header 0 p xs) ?q ((False, k + 16 + n) # ys)"
    "agree (- {?q..<?q + 16 + k + 16 + n + 16} \<inter> {..<2 ^ 32}) (mcbs st) (mcbs ?st')" "same_rest st ?st'"
    by (rule unifyBlocks_chain)+
  have "chunks_at (mcbs ?st') 0 p (xs @ (False, k + 16 + n) # ys)"
    by (rule chain_context [OF assms(1) u(1,2)]) (use assms(3) in auto)
  moreover have "agree (- {p..<p + span (xs @ (False, k) # (False, n) # ys) + 16} \<inter> {..<2 ^ 32}) (mcbs st) (mcbs ?st')"
    by (rule agree_subset [OF u(2)]) auto
  ultimately show ?thesis using u(3) assms(2) by (auto simp: rechained_def chunk_ok_def add.assoc add.left_commute)
qed

lemma free_left:
  assumes at: "chunks_at (mcbs st) 0 p (xs @ (False, n) # ys)" and ok: "list_all chunk_ok (xs @ (False, n) # ys)"
    and bound: "0 < p" "p + span (xs @ (False, n) # ys) + 16 \<le> 2 ^ 32" and adj: "no_adjacent_free xs"
  defines "block \<equiv> w32 (p + span xs)"
  shows "\<exists>X N st'. free_merge_prev block st = (w32 (p + span X), st') \<and>
    rechained p st (xs @ (False, n) # ys) st' (X @ (False, N) # ys) \<and>
    (X = [] \<or> fst (last X)) \<and> no_adjacent_free X"
proof -
  have hb: "mcbs st block = chunk_mcb False n (last_header 0 p xs) (p + span xs + 16 + n)"
    using at by (simp add: chunks_at_append chunks_at_Cons block_def)
  show ?thesis
  proof (cases xs rule: rev_cases)
    case Nil
    then have "mcb_prev (mcbs st block) = 0" using hb by simp
    then show ?thesis
      using Nil rechained_refl [OF at ok] by (intro exI [of _ "[]"] exI [of _ n] exI [of _ st]) (simp add: block_def free_merge_prev_def)
  next
    case (snoc zs c)
    obtain u k where c: "c = (u, k)" by (cases c)
    have prev: "mcb_prev (mcbs st block) = w32 (p + span zs)" using hb snoc by (simp add: last_header_snoc)
    have "p + span zs < 2 ^ 32" using bound(2) snoc c by simp
    then have nz: "w32 (p + span zs) \<noteq> 0" using bound(1) w32_eq_iff [of "p + span zs" 0] by simp
    have magic: "mcb_magic (mcbs st (w32 (p + span zs))) = (if u then MAGIC_USED_MCB else MAGIC_FREE_MCB)"
      using at snoc c by (simp add: chunks_at_append chunks_at_Cons)
    show ?thesis
    proof (cases u)
      case True
      then show ?thesis
        using prev nz magic rechained_refl [OF at ok] snoc c adj
        by (intro exI [of _ xs] exI [of _ n] exI [of _ st]) (simp add: block_def free_merge_prev_def)
    next
      case False
      have block: "block = w32 (p + span zs + 16 + k)" using snoc c by (simp add: block_def add.assoc)
      have "rechained p st (zs @ (False, k) # (False, n) # ys)
          (snd (unifyBlocks (w32 (p + span zs)) block st)) (zs @ (False, k + 16 + n) # ys)"
        unfolding block using at ok bound(2) snoc c False by (intro unify_rechained) simp_all
      moreover have "zs = [] \<or> fst (last zs)" "no_adjacent_free zs"
        using adj snoc c False by (auto simp: no_adjacent_free_append)
      moreover have "fst (unifyBlocks q r st) = q" for q r by (simp add: unifyBlocks_def Let_def)
      ultimately show ?thesis
        using prev nz magic snoc c False
        by (intro exI [of _ zs] exI [of _ "k + 16 + n"] exI [of _ "snd (unifyBlocks (w32 (p + span zs)) block st)"])
           (simp add: prod_eq_iff free_merge_prev_def)
    qed
  qed
qed

lemma free_right:
  assumes at: "chunks_at (mcbs st) 0 p (X @ (False, N) # ys)" and ok: "list_all chunk_ok (X @ (False, N) # ys)"
    and bound: "p + span (X @ (False, N) # ys) + 16 \<le> 2 ^ 32" and adj: "no_adjacent_free ys"
  defines "block \<equiv> w32 (p + span X)"
  shows "\<exists>M Y st'. free_merge_next block st = (block, st') \<and>
    rechained p st (X @ (False, N) # ys) st' (X @ (False, M) # Y) \<and>
    (Y = [] \<or> fst (hd Y)) \<and> no_adjacent_free Y"
proof -
  have hb: "mcb_next (mcbs st block) = w32 (p + span X + 16 + N)"
    and tail: "chunks_at (mcbs st) (p + span X) (p + span X + 16 + N) ys"
    using at by (simp_all add: chunks_at_append chunks_at_Cons block_def)
  show ?thesis
  proof (cases ys)
    case Nil
    then show ?thesis
      using hb tail rechained_refl [OF at ok] by (intro exI [of _ N] exI [of _ "[]"] exI [of _ st]) (simp add: chunks_at_Nil free_merge_next_def)
  next
    case (Cons c zs)
    obtain u k where c: "c = (u, k)" by (cases c)
    have magic: "mcb_magic (mcbs st (w32 (p + span X + 16 + N))) = (if u then MAGIC_USED_MCB else MAGIC_FREE_MCB)"
      using tail Cons c by (simp add: chunks_at_Cons)
    show ?thesis
    proof (cases u)
      case True
      then show ?thesis
        using hb magic rechained_refl [OF at ok] Cons c adj
        by (intro exI [of _ N] exI [of _ ys] exI [of _ st]) (simp add: free_merge_next_def)
    next
      case False
      have "rechained p st (X @ (False, N) # (False, k) # zs)
          (snd (unifyBlocks block (w32 (p + span X + 16 + N)) st)) (X @ (False, N + 16 + k) # zs)"
        unfolding block_def using at ok bound Cons c False by (intro unify_rechained) simp_all
      moreover have "zs = [] \<or> fst (hd zs)" "no_adjacent_free zs"
        using adj Cons c False by (auto simp: no_adjacent_free_Cons)
      moreover have "fst (unifyBlocks q r st) = q" for q r by (simp add: unifyBlocks_def Let_def)
      ultimately show ?thesis
        using hb magic Cons c False
        by (intro exI [of _ "N + 16 + k"] exI [of _ zs] exI [of _ "snd (unifyBlocks block (w32 (p + span X + 16 + N)) st)"])
           (simp add: prod_eq_iff free_merge_next_def)
    qed
  qed
qed

section \<open>Unlinking a big block\<close>

lemma big_header_frame:
  assumes "big_ok (a, cs)" "\<forall>B \<in> set bs. big_ok B \<and> big_disjoint B (a, cs)"
  shows "agree (\<Union> (big_region ` set bs)) h (h(w32 a := v))"
proof (rule agree_upd)
  show "a < 2 ^ 32" using assms(1) by (simp add: big_ok_def)
  show "a \<notin> \<Union> (big_region ` set bs)"
    using assms(2) by (auto simp: big_disjoint_def big_region_def disjoint_iff)
  show "\<forall>x \<in> \<Union> (big_region ` set bs). x < 2 ^ 32" using assms(2) big_region_bound by blast
qed

lemma chunks_header_frame:
  assumes "chunks_at h 0 (a + 16) cs" "big_ok (a, cs)"
  shows "chunks_at (h(w32 a := v)) 0 (a + 16) cs"
  by (rule chunks_at_agree [OF assms(1) agree_upd]) (use assms(2) in \<open>auto simp: big_ok_def\<close>)

lemma set_next_big:
  assumes "bigs_at h pv (As @ [(a, cs)]) nx" "list_all big_ok (As @ [(a, cs)])" "sorted_wrt big_disjoint (As @ [(a, cs)])"
  shows "bigs_at (h(w32 a := (h (w32 a))\<lparr>mcb_next := w32 nx'\<rparr>)) pv (As @ [(a, cs)]) nx'"
proof -
  let ?h = "h(w32 a := (h (w32 a))\<lparr>mcb_next := w32 nx'\<rparr>)"
  have a: "h (w32 a) = big_mcb (32 + span cs) (last_big pv As) nx" "chunks_at h 0 (a + 16) cs" "bigs_at h pv As a"
    "big_ok (a, cs)" using assms(1,2) by (simp_all add: bigs_at_append)
  have "agree (\<Union> (big_region ` set As)) h ?h"
    using assms(2,3) by (intro big_header_frame [of a cs]) (auto simp: list_all_iff sorted_wrt_append)
  then have "bigs_at ?h pv As a" by (rule bigs_at_agree [OF a(3)])
  moreover have "chunks_at ?h 0 (a + 16) cs" by (rule chunks_header_frame [OF a(2,4)])
  ultimately show ?thesis using a(1) by (simp add: bigs_at_append)
qed

lemma set_prev_big:
  assumes "bigs_at h pv ((c, cs) # Cs) nx" "list_all big_ok ((c, cs) # Cs)" "sorted_wrt big_disjoint ((c, cs) # Cs)"
  shows "bigs_at (h(w32 c := (h (w32 c))\<lparr>mcb_prev := w32 q\<rparr>)) q ((c, cs) # Cs) nx"
proof -
  let ?h = "h(w32 c := (h (w32 c))\<lparr>mcb_prev := w32 q\<rparr>)"
  have a: "h (w32 c) = big_mcb (32 + span cs) pv (first_big Cs nx)" "chunks_at h 0 (c + 16) cs" "bigs_at h c Cs nx"
    "big_ok (c, cs)" using assms(1,2) by simp_all
  have "agree (\<Union> (big_region ` set Cs)) h ?h"
    using assms(2,3) by (intro big_header_frame [of c cs]) (auto simp: list_all_iff big_disjoint_sym)
  then have "bigs_at ?h c Cs nx" by (rule bigs_at_agree [OF a(3)])
  moreover have "chunks_at ?h 0 (c + 16) cs" by (rule chunks_header_frame [OF a(2,4)])
  ultimately show ?thesis using a(1) by simp
qed

text \<open>The two assignments of \<open>free\<close> that take the big block at \<open>b\<close> out of the list.\<close>

definition unlink_big :: "addr \<Rightarrow> (addr \<Rightarrow> mcb) \<Rightarrow> addr \<Rightarrow> mcb" where
  "unlink_big b h =
     (let h = (if mcb_prev (h b) \<noteq> 0
               then h(mcb_prev (h b) := (h (mcb_prev (h b)))\<lparr>mcb_next := mcb_next (h b)\<rparr>) else h)
      in if mcb_next (h b) \<noteq> 0
         then h(mcb_next (h b) := (h (mcb_next (h b)))\<lparr>mcb_prev := mcb_prev (h b)\<rparr>) else h)"

lemma unlink_big_chain:
  assumes at: "bigs_at h 0 (As @ (b, cs) # Bs) 0" and ok: "list_all big_ok (As @ (b, cs) # Bs)"
    and dis: "sorted_wrt big_disjoint (As @ (b, cs) # Bs)" and "As \<noteq> []"
  shows "bigs_at (unlink_big (w32 b) h) 0 (As @ Bs) 0"
    and "unlink_big (w32 b) h (w32 b) = h (w32 b)"
proof -
  obtain As' a acs where As: "As = As' @ [(a, acs)]" using \<open>As \<noteq> []\<close> by (metis prod.exhaust rev_exhaust)
  have hb: "h (w32 b) = big_mcb (32 + span cs) a (first_big Bs 0)" using at As by (simp add: bigs_at_append)
  have small: "0 < a" "a < 2 ^ 32" "b < 2 ^ 32" "a \<noteq> b"
    using ok dis As by (auto simp: big_ok_def sorted_wrt_append big_disjoint_iff)
  let ?h1 = "h(w32 a := (h (w32 a))\<lparr>mcb_next := w32 (first_big Bs 0)\<rparr>)"
  have a: "w32 a \<noteq> 0" "w32 a \<noteq> w32 b" using small w32_eq_iff [of a 0] w32_eq_iff [of a b] by simp_all
  have As1: "bigs_at ?h1 0 As (first_big Bs 0)"
    using set_next_big [of h 0 As' a acs b "first_big Bs 0"] at ok dis As
    by (simp add: bigs_at_append sorted_wrt_append)
  have "agree (\<Union> (big_region ` set Bs)) h ?h1"
    using ok dis As
    by (intro big_header_frame [of a acs]) (auto simp: list_all_iff sorted_wrt_append big_disjoint_sym [of _ "(a, acs)"])
  then have Bs1: "bigs_at ?h1 b Bs 0" using at by (auto simp: bigs_at_append intro: bigs_at_agree)
  have "bigs_at (unlink_big (w32 b) h) 0 (As @ Bs) 0 \<and> unlink_big (w32 b) h (w32 b) = h (w32 b)"
  proof (cases Bs)
    case Nil
    then have "unlink_big (w32 b) h = ?h1" using a hb by (simp add: unlink_big_def)
    then show ?thesis using As1 Nil a by simp
  next
    case (Cons C Cs)
    obtain c ccs where C: "C = (c, ccs)" by (cases C)
    have c: "0 < c" "c < 2 ^ 32" "c \<noteq> b" using ok dis Cons C by (auto simp: big_ok_def sorted_wrt_append big_disjoint_iff)
    then have c': "w32 c \<noteq> 0" "w32 c \<noteq> w32 b" using small w32_eq_iff [of c 0] w32_eq_iff [of c b] by simp_all
    let ?h2 = "?h1(w32 c := (?h1 (w32 c))\<lparr>mcb_prev := w32 a\<rparr>)"
    have h2: "unlink_big (w32 b) h = ?h2" using a c' hb Cons C by (simp add: unlink_big_def)
    have "bigs_at ?h2 a Bs 0"
      using set_prev_big [of ?h1 b c ccs Cs 0 a] Bs1 ok dis Cons C by (simp add: sorted_wrt_append)
    moreover have "agree (\<Union> (big_region ` set As)) ?h1 ?h2"
      using ok dis Cons C by (intro big_header_frame [of c ccs]) (auto simp: list_all_iff sorted_wrt_append)
    then have "bigs_at ?h2 0 As (first_big Bs 0)" by (rule bigs_at_agree [OF As1])
    ultimately show ?thesis
      using h2 As a c' by (simp add: bigs_at_append)
  qed
  then show "bigs_at (unlink_big (w32 b) h) 0 (As @ Bs) 0" "unlink_big (w32 b) h (w32 b) = h (w32 b)" by simp_all
qed

text \<open>\<open>free\<close> up to the test whether the big block is empty.\<close>

lemma free_merges:
  assumes at: "chunks_at (mcbs st) 0 p (xs @ (True, n) # ys)" and ok: "list_all chunk_ok (xs @ (True, n) # ys)"
    and adj: "no_adjacent_free (xs @ (True, n) # ys)"
    and bound: "0 < p" "p + span (xs @ (True, n) # ys) + 16 \<le> 2 ^ 32"
  obtains X M Y st' where
    "free ops (w32 (p + span xs + 16)) st =
       (if X = [] \<and> Y = []
        then let st = st'\<lparr>mcbs := unlink_big (w32 p - 16) (mcbs st')\<rparr>
             in st\<lparr>pages := unmapMemory ops (w32 p - 16) (mcb_size (mcbs st (w32 p - 16))) (pages st)\<rparr>
        else st')"
    "chunks_at (mcbs st') 0 p (X @ (False, M) # Y)" "span (X @ (False, M) # Y) = span (xs @ (True, n) # ys)"
    "used_in p (X @ (False, M) # Y) = used_in p xs \<union> used_in (p + span xs + 16 + n) ys"
    "list_all chunk_ok (X @ (False, M) # Y)" "no_adjacent_free (X @ (False, M) # Y)" "same_rest st st'"
    "agree (- {p..<p + span (xs @ (True, n) # ys) + 16} \<inter> {..<2 ^ 32}) (mcbs st) (mcbs st')"
    "X = [] \<or> fst (last X)" "Y = [] \<or> fst (hd Y)"
proof -
  let ?q = "p + span xs"
  define st1 where "st1 = set_mcb (w32 ?q) (\<lambda>b. b\<lparr>mcb_magic := if False then MAGIC_USED_MCB else MAGIC_FREE_MCB\<rparr>) st"
  have m1: "chunks_at (mcbs st1) (last_header 0 p xs) ?q ((False, n) # ys)"
    "agree (- {?q} \<inter> {..<2 ^ 32}) (mcbs st) (mcbs st1)" "same_rest st st1"
    using set_magic_chain [of st "last_header 0 p xs" ?q True n ys False] at bound
    by (simp_all add: chunks_at_append st1_def)
  have c1: "chunks_at (mcbs st1) 0 p (xs @ (False, n) # ys)"
    by (rule chain_context [OF at m1(1,2)]) (use bound in auto)
  have ok1: "list_all chunk_ok (xs @ (False, n) # ys)" using ok by (simp add: chunk_ok_def)
  have adj': "no_adjacent_free xs" "no_adjacent_free ys"
    using adj by (auto simp: no_adjacent_free_append no_adjacent_free_Cons)
  from free_left [OF c1 ok1 bound(1)] obtain X N st2 where
    l: "free_merge_prev (w32 ?q) st1 = (w32 (p + span X), st2)"
      "rechained p st1 (xs @ (False, n) # ys) st2 (X @ (False, N) # ys)" "X = [] \<or> fst (last X)" "no_adjacent_free X"
    using bound(2) adj' by auto
  have c2: "chunks_at (mcbs st2) 0 p (X @ (False, N) # ys)" "list_all chunk_ok (X @ (False, N) # ys)"
    "p + span (X @ (False, N) # ys) + 16 \<le> 2 ^ 32"
    using l(2) bound(2) by (auto simp: rechained_def)
  from free_right [OF c2 adj'(2)] obtain M Y st3 where
    r: "free_merge_next (w32 (p + span X)) st2 = (w32 (p + span X), st3)"
      "rechained p st2 (X @ (False, N) # ys) st3 (X @ (False, M) # Y)" "Y = [] \<or> fst (hd Y)" "no_adjacent_free Y"
    by blast
  have re: "rechained p st1 (xs @ (False, n) # ys) st3 (X @ (False, M) # Y)" by (rule rechained_trans [OF l(2) r(2)])
  then have c3: "chunks_at (mcbs st3) 0 p (X @ (False, M) # Y)" by (simp add: rechained_def)
  have prev: "mcb_prev (mcbs st3 (w32 (p + span X))) = 0 \<longleftrightarrow> X = []"
  proof (cases X rule: rev_cases)
    case (snoc zs c)
    have "p + span zs < 2 ^ 32" using re snoc bound(2) by (cases c) (simp add: rechained_def)
    then show ?thesis using c3 snoc bound(1) w32_eq_iff [of "p + span zs" 0]
      by (simp add: chunks_at_append [of _ _ _ "zs @ [c]", simplified] chunks_at_Cons last_header_snoc)
  qed (use c3 in \<open>simp add: chunks_at_Cons\<close>)
  have nxt: "mcb_magic (mcbs st3 (mcb_next (mcbs st3 (w32 (p + span X))))) = MAGIC_END_MCB \<longleftrightarrow> Y = []"
    using c3 by (cases Y) (auto simp: chunks_at_append chunks_at_Cons chunks_at_Nil split: if_splits)
  have ptr: "w32 (?q + 16) \<noteq> 0" "w32 (?q + 16) - 16 = w32 ?q"
    using bound w32_eq_iff [of "?q + 16" 0] by (auto simp: w32_def)
  have "free ops (w32 (?q + 16)) st = free_release ops (w32 (p + span X)) st3"
    using ptr l(1) r(1) by (simp add: free_def st1_def)
  also have "\<dots> = (if X = [] \<and> Y = []
        then let st = st3\<lparr>mcbs := unlink_big (w32 p - 16) (mcbs st3)\<rparr>
             in st\<lparr>pages := unmapMemory ops (w32 p - 16) (mcb_size (mcbs st (w32 p - 16))) (pages st)\<rparr>
        else st3)"
    using prev nxt by (simp add: free_release_def unlink_big_def set_mcb_def Let_def)
  finally show thesis
  proof (rule that)
    show "agree (- {p..<p + span (xs @ (True, n) # ys) + 16} \<inter> {..<2 ^ 32}) (mcbs st) (mcbs st3)"
    proof (rule agree_trans)
      show "agree (- {p..<p + span (xs @ (True, n) # ys) + 16} \<inter> {..<2 ^ 32}) (mcbs st) (mcbs st1)"
        by (rule agree_subset [OF m1(2)]) auto
      show "agree (- {p..<p + span (xs @ (True, n) # ys) + 16} \<inter> {..<2 ^ 32}) (mcbs st1) (mcbs st3)"
        using re by (simp add: rechained_def)
    qed
    show "no_adjacent_free (X @ (False, M) # Y)"
      using l(3,4) r(3,4) by (auto simp: no_adjacent_free_append no_adjacent_free_Cons)
  qed (use re l(3) r(3) m1(3) in \<open>auto simp: rechained_def same_rest_def add.assoc\<close>)
qed

text \<open>With no two free neighbours, the blocks in use and the length determine the chunks.\<close>

lemma first_used:
  assumes "list_all chunk_ok cs" "no_adjacent_free ((False, n) # cs)" "cs \<noteq> []"
  shows "\<exists>k. (p + 16, k) \<in> used_in p cs"
  using assms by (cases cs) auto

lemma first_free_unique:
  assumes sets: "used_in (p + n) cs = used_in (p + k) es" and len: "n + span cs = k + span es"
    and ok: "list_all chunk_ok cs" "list_all chunk_ok es"
    and adj: "no_adjacent_free ((False, n') # cs)" "no_adjacent_free ((False, k') # es)"
  shows "n = k"
proof (cases "cs = [] \<or> es = []")
  case True
  have "cs = []" if "es = []" using first_used [OF ok(1) adj(1), of "p + n"] sets that by auto
  moreover have "es = []" if "cs = []" using first_used [OF ok(2) adj(2), of "p + k"] sets that by auto
  ultimately show ?thesis using True len by auto
next
  case False
  obtain m where "(p + n + 16, m) \<in> used_in (p + k) es"
    using first_used [OF ok(1) adj(1), of "p + n"] False sets by auto
  moreover obtain m' where "(p + k + 16, m') \<in> used_in (p + n) cs"
    using first_used [OF ok(2) adj(2), of "p + k"] False sets by auto
  ultimately show ?thesis
    using used_in_bounds [of "p + n + 16" m "p + k" es] used_in_bounds [of "p + k + 16" m' "p + n" cs] by linarith
qed

lemma used_in_first: "(p + 16, m) \<in> used_in p ((u, n) # cs) \<longleftrightarrow> u \<and> m = n"
  using used_in_bounds [of "p + 16" m "p + 16 + n" cs] by auto

lemma used_in_rest: "used_in (p + 16 + n) cs = used_in p ((u, n) # cs) - {(p + 16, n)}"
  using used_in_bounds [of "p + 16" n "p + 16 + n" cs] by auto

lemma layout_unique:
  assumes "used_in p cs = used_in p ds" "span cs = span ds" "list_all chunk_ok cs" "list_all chunk_ok ds"
    "no_adjacent_free cs" "no_adjacent_free ds"
  shows "cs = ds"
  using assms
proof (induction cs arbitrary: p ds)
  case Nil
  then show ?case by (cases ds) auto
next
  case (Cons c cs)
  obtain u n where c: "c = (u, n)" by (cases c)
  obtain v k es where ds: "ds = (v, k) # es" using Cons.prems(2) c by (cases ds) auto
  have adj: "no_adjacent_free cs" "no_adjacent_free es" "list_all chunk_ok cs" "list_all chunk_ok es"
    using Cons.prems c ds by (simp_all add: no_adjacent_free_Cons)
  have used: "used_in p ((u, n) # cs) = used_in p ((v, k) # es)" using Cons.prems(1) unfolding c ds .
  have first: "u \<and> m = n \<longleftrightarrow> v \<and> m = k" for m
    using arg_cong [OF used, of "\<lambda>A. (p + 16, m) \<in> A"] unfolding used_in_first .
  have eq: "u = v" "n = k"
  proof -
    show "u = v" using first by blast
    show "n = k"
    proof (cases u)
      case False
      then have "\<not> v" using \<open>u = v\<close> by simp
      have "used_in (p + 16 + n) cs = used_in (p + 16 + k) es" using Cons.prems(1) c ds False \<open>\<not> v\<close> by simp
      moreover have "n + span cs = k + span es" using Cons.prems(2) c ds by simp
      ultimately show ?thesis
        by (rule first_free_unique [OF _ _ adj(3,4)]) (use Cons.prems(5,6) c ds False \<open>\<not> v\<close> in simp_all)
    qed (use first in blast)
  qed
  have "used_in (p + 16 + n) cs = used_in (p + 16 + n) es"
    using arg_cong [OF used, of "\<lambda>A. A - {(p + 16, n)}"] unfolding eq used_in_rest [symmetric] .
  then have "cs = es" using Cons.IH [of "p + 16 + n" es] Cons.prems(2) adj c ds eq by simp
  then show ?case using c ds eq by simp
qed

section \<open>The contract of the page source\<close>

definition big_range :: "big \<Rightarrow> nat \<times> nat" where
  "big_range B = (fst B, 32 + span (snd B))"

text \<open>
  The invariant of the heap on a page source whose states satisfy \<open>valid\<close> and have handed out the
  ranges \<open>owned\<close>: the heap owns its big blocks, and the static block lies in the image of the
  program (\<open>reserved\<close>), ranges the source knows about and never hands out.
\<close>

definition heap_inv ::
  "('v \<Rightarrow> bool) \<Rightarrow> ('v \<Rightarrow> (nat \<times> nat) set) \<Rightarrow> ('v \<Rightarrow> (nat \<times> nat) set) \<Rightarrow> 'v heap \<Rightarrow> big list \<Rightarrow> bool"
where
  "heap_inv valid owned reserved st bs \<longleftrightarrow> heap_at st bs \<and> valid (pages st) \<and>
     big_range ` set (tl bs) \<subseteq> owned (pages st) \<and>
     (\<exists>s n. (s, n) \<in> reserved (pages st) \<and> s \<le> fst (hd bs) \<and> fst (hd bs) + 32 \<le> s + n)"

text \<open>
  What the heap relies on: pages that are mapped are aligned, not null and overlap nothing the
  source has handed out before; a failed request gives a null pointer; unmapping a range leaves
  the others handed out.  The source may take pages for its own tables on either call.
\<close>

locale page_source =
  fixes ops :: "'v page_ops" and valid :: "'v \<Rightarrow> bool"
    and owned reserved :: "'v \<Rightarrow> (nat \<times> nat) set"
  assumes map_valid: "valid v \<Longrightarrow> mapMemory ops s v = (a, v') \<Longrightarrow> a \<noteq> 0 \<Longrightarrow> 0 < s \<Longrightarrow> 4096 dvd unat s \<Longrightarrow> valid v'"
    and map_owned: "valid v \<Longrightarrow> mapMemory ops s v = (a, v') \<Longrightarrow> a \<noteq> 0 \<Longrightarrow> 0 < s \<Longrightarrow> 4096 dvd unat s \<Longrightarrow>
      insert (unat a, unat s) (owned v) \<subseteq> owned v'"
    and map_reserved: "valid v \<Longrightarrow> mapMemory ops s v = (a, v') \<Longrightarrow> a \<noteq> 0 \<Longrightarrow> 0 < s \<Longrightarrow> 4096 dvd unat s \<Longrightarrow>
      reserved v \<subseteq> reserved v'"
    and map_aligned: "valid v \<Longrightarrow> mapMemory ops s v = (a, v') \<Longrightarrow> a \<noteq> 0 \<Longrightarrow> 0 < s \<Longrightarrow> 4096 dvd unat s \<Longrightarrow>
      4096 dvd unat a \<and> unat a + unat s \<le> 2 ^ 32"
    and map_fresh: "valid v \<Longrightarrow> mapMemory ops s v = (a, v') \<Longrightarrow> a \<noteq> 0 \<Longrightarrow> 0 < s \<Longrightarrow> 4096 dvd unat s \<Longrightarrow>
      x \<in> owned v \<union> reserved v \<Longrightarrow> apart x (unat a, unat s)"
    and unmap_valid: "valid v \<Longrightarrow> (unat a, unat s) \<in> owned v \<Longrightarrow> valid (unmapMemory ops a s v)"
    and unmap_owned: "valid v \<Longrightarrow> (unat a, unat s) \<in> owned v \<Longrightarrow>
      owned v - {(unat a, unat s)} \<subseteq> owned (unmapMemory ops a s v)"
    and unmap_reserved: "valid v \<Longrightarrow> (unat a, unat s) \<in> owned v \<Longrightarrow> reserved v \<subseteq> reserved (unmapMemory ops a s v)"
begin

abbreviation hinv :: "'v heap \<Rightarrow> big list \<Rightarrow> bool" where
  "hinv \<equiv> heap_inv valid owned reserved"

lemma heap_inv_fresh:
  assumes "hinv st bs" "mapMemory ops s (pages st) = (a, v')" "a \<noteq> 0" "0 < s" "4096 dvd unat s" "B \<in> set bs"
  shows "big_region B \<inter> {unat a..<unat a + unat s} = {}"
proof -
  have inv: "heap_at st bs" "valid (pages st)" "big_range ` set (tl bs) \<subseteq> owned (pages st)"
    using assms(1) by (simp_all add: heap_inv_def)
  note fresh = map_fresh [OF inv(2) assms(2-5)]
  show ?thesis
  proof (cases "B \<in> set (tl bs)")
    case True
    then have "apart (big_range B) (unat a, unat s)" using inv(3) by (intro fresh) auto
    then show ?thesis by (auto simp: apart_def big_range_def big_region_def)
  next
    case False
    then have "B = hd bs" "snd B = []" using assms(6) inv(1) by (cases bs; auto simp: heap_at_def)+
    moreover obtain p n where "(p, n) \<in> reserved (pages st)" "p \<le> fst (hd bs)" "fst (hd bs) + 32 \<le> p + n"
      using assms(1) by (auto simp: heap_inv_def)
    ultimately show ?thesis using fresh [of "(p, n)"] by (auto simp: apart_def big_region_def)
  qed
qed

text \<open>First fit in an existing block.\<close>

lemma malloc_loop_finds:
  assumes inv: "hinv st (As @ (b, xs @ (False, n) # ys) # Bs)"
    and before: "\<forall>A \<in> set As. list_all (unfit m) (snd A)" "list_all (unfit m) xs"
    and fits: "m \<le> n" "m + 16 < 2 ^ 32" "chunk_ok (True, m)"
  obtains st' where "malloc_loop ops (w32 m) (w32 (m + 16)) (firstBigBlock st) (firstBigBlock st + 16) st =
      Some (w32 (b + 16 + span xs + 16), st')"
    "hinv st' (As @ (b, xs @ place m n @ ys) # Bs)" "heap_mem st' = heap_mem st"
proof -
  let ?cs = "xs @ (False, n) # ys" and ?p = "b + 16 + span xs"
  have at: "heap_at st (As @ (b, ?cs) # Bs)" using inv by (simp add: heap_inv_def)
  then have "As \<noteq> []" by (auto simp: heap_at_def)
  have bigs: "bigs_at (mcbs st) 0 (As @ (b, ?cs) # Bs) 0" "list_all big_ok (As @ (b, ?cs) # Bs)"
    "big_ok (b, ?cs)" "firstBigBlock st = w32 (first_big (As @ (b, ?cs) # Bs) 0)"
    using at \<open>As \<noteq> []\<close> by (cases As; simp add: heap_at_def)+
  have chain: "seg_at (mcbs st) 0 (b + 16) xs" "chunks_at (mcbs st) (last_header 0 (b + 16) xs) ?p ((False, n) # ys)"
    using bigs(1) by (auto simp: bigs_at_append chunks_at_append)
  have bound: "?p + 16 + n + span ys + 16 \<le> 2 ^ 32" using bigs(3) by (simp add: big_ok_def)
  obtain st' where st': "malloc_loop ops (w32 m) (w32 (m + 16)) (w32 b) (w32 ?p) st = Some (w32 (?p + 16), st')"
    "chunks_at (mcbs st') (last_header 0 (b + 16) xs) ?p (place m n @ ys)"
    "agree (- {?p..<?p + 16 + n + 16} \<inter> {..<2 ^ 32}) (mcbs st) (mcbs st')" "same_rest st st'"
    using malloc_loop_fit [OF chain(2) fits(1,2) bound] .
  have "malloc_loop ops (w32 m) (w32 (m + 16)) (firstBigBlock st) (firstBigBlock st + 16) st =
      malloc_loop ops (w32 m) (w32 (m + 16)) (w32 b) (w32 (b + 16)) st"
    using malloc_loop_skip_bigs [OF bigs(1,2) before(1), of ops] fits(2) bigs(4) by (simp add: w32_arith)
  also have "\<dots> = malloc_loop ops (w32 m) (w32 (m + 16)) (w32 b) (w32 ?p) st"
    using bound fits(2) by (intro malloc_loop_skip [OF chain(1) before(2)]) auto
  finally have result: "malloc_loop ops (w32 m) (w32 (m + 16)) (firstBigBlock st) (firstBigBlock st + 16) st =
      Some (w32 (?p + 16), st')" using st'(1) by simp
  have "seg_at (mcbs st') 0 (b + 16) xs"
    by (rule seg_at_agree [OF chain(1)], rule agree_subset [OF st'(3)]) (use bound in auto)
  then have "chunks_at (mcbs st') 0 (b + 16) (xs @ place m n @ ys)"
    using st'(2) by (simp add: chunks_at_append)
  moreover have "list_all chunk_ok (xs @ place m n @ ys)" "no_adjacent_free (xs @ place m n @ ys)"
    using bigs(3) fits by (auto simp: big_ok_def place_def chunk_ok_def no_adjacent_free_append no_adjacent_free_Cons dvd_diff_nat)
  moreover have "agree (- {b + 16..<b + 32 + span ?cs} \<inter> {..<2 ^ 32}) (mcbs st) (mcbs st')"
    by (rule agree_subset [OF st'(3)]) auto
  moreover have "\<exists>c \<in> set (xs @ place m n @ ys). fst c" by (auto simp: place_def)
  ultimately have "heap_at st' (As @ (b, xs @ place m n @ ys) # Bs)"
    using heap_at_replace [OF at \<open>As \<noteq> []\<close> st'(4)] fits(1) by simp
  then have "hinv st' (As @ (b, xs @ place m n @ ys) # Bs)"
    using inv st'(4) fits(1) \<open>As \<noteq> []\<close> by (cases As) (auto simp: heap_inv_def same_rest_def big_range_def)
  then show thesis using that result st'(4) by (simp add: same_rest_def)
qed

text \<open>Nothing fits: a new big block.\<close>

lemma malloc_loop_grows:
  assumes inv: "hinv st bs" and unfit: "\<forall>B \<in> set bs. list_all (unfit m) (snd B)"
    and m: "m + 48 + 2 ^ 12 \<le> 2 ^ 32" "chunk_ok (True, m)"
    and map: "s = round_up 12 (m + 48)" "mapMemory ops (w32 s) (pages st) = (a, v)" "a \<noteq> 0"
  obtains st' where "malloc_loop ops (w32 m) (w32 (m + 16)) (firstBigBlock st) (firstBigBlock st + 16) st =
      Some (a + 32, st')"
    "hinv st' (bs @ [(unat a, place m (s - 48))])" "heap_mem st' = heap_mem st"
proof -
  have s: "m + 48 \<le> s" "s < 2 ^ 32" "4096 dvd s" "16 dvd s"
    using m(1) map(1) round_up_ge [of "m + 48" 12] round_up_less [of "m + 48" 12] round_up_dvd [of 12 "m + 48"]
      round_up_16(3) [of "m + 48"] by auto
  have ws: "unat (w32 s) = s" "0 < w32 s" using s w32_less_iff [of 0 s] by (simp_all add: unat_w32)
  have at: "heap_at st bs" and valid: "valid (pages st)" using inv by (simp_all add: heap_inv_def)
  obtain A where a: "a = w32 A" "A < 2 ^ 32" "unat a = A" using that [of "unat a"] by simp
  have src: "valid v" "insert (A, s) (owned (pages st)) \<subseteq> owned v" "reserved (pages st) \<subseteq> reserved v" "4096 dvd A" "A + s \<le> 2 ^ 32" "0 < A"
    using map_valid [OF valid map(2,3)] map_owned [OF valid map(2,3)] map_reserved [OF valid map(2,3)]
      map_aligned [OF valid map(2,3)] ws s a map(3)
    by (cases "A = 0"; auto)+
  have "16 dvd A" using src(4) by (rule dvd_trans [rotated]) simp
  have fresh: "\<forall>B \<in> set bs. big_region B \<inter> {A..<A + s} = {}"
    using heap_inv_fresh [OF inv map(2,3)] ws s a by simp
  have "bs \<noteq> []" using at by (simp add: heap_at_def)
  then obtain As b cs where bs: "bs = As @ [(b, cs)]" by (metis prod.exhaust rev_exhaust)
  have bigs: "bigs_at (mcbs st) 0 (As @ [(b, cs)]) 0" "list_all big_ok (As @ [(b, cs)])"
    "sorted_wrt big_disjoint (As @ [(b, cs)])" "firstBigBlock st = w32 (first_big (As @ [(b, cs)]) 0)"
    using at bs by (cases As; simp add: heap_at_def)+
  obtain st1 where st1: "allocateBigBlock ops (w32 b) (w32 m) st = Some (w32 A, st1)"
    "bigs_at (mcbs st1) 0 (As @ [(b, cs), (A, [(False, s - 48)])]) 0"
    "pages st1 = v" "firstBigBlock st1 = firstBigBlock st" "heap_mem st1 = heap_mem st"
    "heap_errno st1 = heap_errno st"
    using allocateBigBlock_chain [OF bigs(1-3) m(1) map(1) map(2) [unfolded a(1)] src(6,5)] fresh bs by blast
  have new: "chunks_at (mcbs st1) 0 (A + 16) [(False, s - 48)]" using st1(2) by (simp add: bigs_at_append)
  have n: "m \<le> s - 48" "m + 16 < 2 ^ 32" "A + 16 + 16 + (s - 48) + span [] + 16 \<le> 2 ^ 32"
    using s m(1) src(5) by auto
  obtain st' where st': "malloc_loop ops (w32 m) (w32 (m + 16)) (w32 A) (w32 (A + 16)) st1 = Some (w32 (A + 16 + 16), st')"
    "chunks_at (mcbs st') 0 (A + 16) (place m (s - 48) @ [])"
    "agree (- {A + 16..<A + 16 + 16 + (s - 48) + 16} \<inter> {..<2 ^ 32}) (mcbs st1) (mcbs st')" "same_rest st1 st'"
    using malloc_loop_fit [OF new n] .
  have "malloc_loop ops (w32 m) (w32 (m + 16)) (firstBigBlock st) (firstBigBlock st + 16) st =
      malloc_loop ops (w32 m) (w32 (m + 16)) (w32 b) (w32 (b + 16)) st"
    using malloc_loop_skip_bigs [OF bigs(1,2), of m ops] unfit bs n(2) bigs(4) by (simp add: w32_arith)
  also have "\<dots> = malloc_loop ops (w32 m) (w32 (m + 16)) (w32 A) (w32 (A + 16)) st1"
    using malloc_loop_end [of st "last_big 0 As" b cs "[]" 0 m ops] bigs(1,2) unfit bs n(2) st1(1) map(3) a(1)
    by (simp add: bigs_at_append w32_arith)
  finally have result: "malloc_loop ops (w32 m) (w32 (m + 16)) (firstBigBlock st) (firstBigBlock st + 16) st = Some (a + 32, st')"
    using st'(1) a(1) by (simp add: w32_def)
  have big: "big_ok (A, [(False, s - 48)])" "list_all big_ok (bs @ [(A, [(False, s - 48)])])"
    using src s m \<open>16 dvd A\<close> bigs(2) bs by (auto simp: big_ok_def chunk_ok_def dvd_diff_nat)
  have dis: "sorted_wrt big_disjoint (bs @ [(A, [(False, s - 48)])])"
    using bigs(3) bs fresh s by (auto simp: sorted_wrt_append big_disjoint_def big_region_def [of "(A, _)"])
  have "bigs_at (mcbs st1) 0 (bs @ (A, [(False, s - 48)]) # []) 0" using st1(2) bs by simp
  moreover have "agree (- {A + 16..<A + 32 + span [(False, s - 48)]} \<inter> {..<2 ^ 32}) (mcbs st1) (mcbs st')"
    by (rule agree_subset [OF st'(3)]) auto
  ultimately have "bigs_at (mcbs st') 0 (bs @ (A, place m (s - 48)) # []) 0"
    using bigs_at_replace [of "mcbs st1" 0 bs A "[(False, s - 48)]" "[]" 0] big(2) dis st'(2) n(1) by simp
  moreover have "big_ok (A, place m (s - 48))"
    using big(1) n(1) m(2) s by (auto simp: big_ok_def place_def chunk_ok_def dvd_diff_nat)
  moreover have "big_disjoint B (A, place m (s - 48)) = big_disjoint B (A, [(False, s - 48)])" for B
    using n(1) by (simp add: big_disjoint_def big_region_def)
  ultimately have "heap_at st' (bs @ [(A, place m (s - 48))])"
    using at dis big(2) st1(4) st'(4) \<open>bs \<noteq> []\<close>
    by (auto simp: heap_at_def same_rest_def sorted_wrt_append place_def)
  then have "hinv st' (bs @ [(A, place m (s - 48))])"
  proof -
    obtain p k where image: "(p, k) \<in> reserved (pages st)"
      "p \<le> fst (hd bs)" "fst (hd bs) + 32 \<le> p + k"
      using inv by (auto simp: heap_inv_def)
    have "big_range (A, place m (s - 48)) = (A, s)" using n(1) s by (simp add: big_range_def)
    moreover have "pages st' = v" using st1(3) st'(4) by (simp add: same_rest_def)
    moreover have "big_range ` set (tl bs) \<subseteq> owned (pages st)" using inv by (simp add: heap_inv_def)
    ultimately show ?thesis
      using \<open>heap_at st' _\<close> src(1-3) image \<open>bs \<noteq> []\<close> unfolding heap_inv_def
      by (intro conjI exI [of _ p] exI [of _ k]) auto
  qed
  then show thesis using that result st1(5) st'(4) a(3) by (simp add: same_rest_def)
qed

lemma malloc_result:
  assumes inv: "hinv st bs" and sz: "unat sz + 2 ^ 13 \<le> 2 ^ 32"
    and mapped: "fst (mapMemory ops (w32 (round_up 12 (request sz + 48))) (pages st)) \<noteq> 0"
  obtains As b xs n ys Bs st' where "malloc ops sz st = Some (w32 (b + 16 + span xs + 16), st')"
    "hinv st' (As @ (b, xs @ place (request sz) n @ ys) # Bs)" "request sz \<le> n"
    "bs = As @ (b, xs @ (False, n) # ys) # Bs \<or> bs = As \<and> xs = [] \<and> ys = [] \<and> Bs = []"
    "heap_mem st' = heap_mem st"
proof -
  let ?m = "request sz"
  note req = request_props [OF sz]
  have malloc: "malloc ops sz st =
      malloc_loop ops (w32 ?m) (w32 (?m + 16)) (firstBigBlock st) (firstBigBlock st + 16) st"
    using req(1) by (simp add: malloc_def Let_def w32_arith add.commute)
  show thesis
  proof (cases rule: first_fit_cases [of bs ?m])
    case none
    obtain a v where map: "mapMemory ops (w32 (round_up 12 (?m + 48))) (pages st) = (a, v)" "a \<noteq> 0"
      using mapped by (metis prod.collapse)
    let ?s = "round_up 12 (?m + 48)"
    obtain st' where st': "malloc ops sz st = Some (a + 32, st')"
      "hinv st' (bs @ [(unat a, place ?m (?s - 48))])" "heap_mem st' = heap_mem st"
      using malloc_loop_grows [OF inv none req(3,4) refl map] malloc by metis
    have "?m \<le> ?s - 48" using round_up_ge [of "?m + 48" 12] by simp
    moreover have "w32 (unat a + 16 + span [] + 16) = a + 32" by (simp add: w32_def)
    ultimately show thesis using st' that [of "unat a" "[]" st' bs "?s - 48" "[]" "[]"] by simp
  next
    case (found As b xs n ys Bs)
    obtain st' where "malloc ops sz st = Some (w32 (b + 16 + span xs + 16), st')"
      "hinv st' (As @ (b, xs @ place ?m n @ ys) # Bs)" "heap_mem st' = heap_mem st"
      using malloc_loop_finds [of st As b xs n ys Bs ?m] inv found req malloc by auto
    then show thesis using that found by blast
  qed
qed

lemma malloc_correct:
  assumes inv: "hinv st bs" and sz: "unat sz + 2 ^ 13 \<le> 2 ^ 32"
    and mapped: "fst (mapMemory ops (w32 (round_up 12 (request sz + 48))) (pages st)) \<noteq> 0"
  shows "\<exists>p n st' bs'. malloc ops sz st = Some (w32 p, st') \<and> hinv st' bs' \<and> heap_mem st' = heap_mem st \<and>
    0 < p \<and> p + n < 2 ^ 32 \<and> 16 dvd p \<and> unat sz \<le> n \<and>
    used_blocks bs' = insert (p, n) (used_blocks bs) \<and> (\<forall>x \<in> used_blocks bs. apart x (p, n))"
proof -
  obtain As b xs n ys Bs st' where m: "malloc ops sz st = Some (w32 (b + 16 + span xs + 16), st')"
    "hinv st' (As @ (b, xs @ place (request sz) n @ ys) # Bs)" "request sz \<le> n"
    "bs = As @ (b, xs @ (False, n) # ys) # Bs \<or> bs = As \<and> xs = [] \<and> ys = [] \<and> Bs = []"
    "heap_mem st' = heap_mem st"
    by (rule malloc_result [OF inv sz mapped]) (rule that; assumption)
  let ?p = "b + 16 + span xs + 16" and ?k = "if request sz + 16 < n then request sz else n"
  have "heap_at st' (As @ (b, xs @ place (request sz) n @ ys) # Bs)" using m(2) by (simp add: heap_inv_def)
  moreover have "used_blocks (As @ (b, xs @ (False, n) # ys) # Bs) = used_blocks bs" using m(4) by auto
  ultimately have new: "used_blocks (As @ (b, xs @ place (request sz) n @ ys) # Bs) = insert (?p, ?k) (used_blocks bs)"
    "\<forall>x \<in> used_blocks bs. apart x (?p, ?k)" "16 dvd ?p" "0 < ?p" "?p + ?k < 2 ^ 32"
    using used_after_place [OF _ m(3)] by metis+
  have "unat sz \<le> ?k" using m(3) request_props(2) [OF sz] by simp
  then show ?thesis
    using m(1,2,5) new
    by (intro exI [of _ ?p] exI [of _ ?k] exI [of _ st'] exI [of _ "As @ (b, xs @ place (request sz) n @ ys) # Bs"] conjI)
qed

text \<open>Giving a big block back to the page source.\<close>

lemma heap_inv_unmap:
  assumes inv: "hinv st (As @ (b, cs) # Bs)" and "As \<noteq> []"
    and at: "heap_at st' (As @ Bs)" and pages: "pages st' = unmapMemory ops (w32 b) (w32 (32 + span cs)) (pages st)"
  shows "hinv st' (As @ Bs)"
proof -
  obtain A As' where As: "As = A # As'" using \<open>As \<noteq> []\<close> by (cases As) auto
  have h: "heap_at st (As @ (b, cs) # Bs)" "valid (pages st)" and owned: "(b, 32 + span cs) \<in> owned (pages st)"
    using inv As by (auto simp: heap_inv_def big_range_def)
  have big: "big_ok (b, cs)" using h(1) by (simp add: heap_at_def)
  then have "b < 2 ^ 32" by (simp add: big_ok_def)
  moreover have "32 + span cs < 2 ^ 32" using big by (simp add: big_ok_def)
  ultimately have range: "(unat (w32 b), unat (w32 (32 + span cs))) = (b, 32 + span cs)" by (simp add: unat_w32)
  have src: "valid (pages st')" "owned (pages st) - {(b, 32 + span cs)} \<subseteq> owned (pages st')"
    "reserved (pages st) \<subseteq> reserved (pages st')"
    using unmap_valid [of "pages st" "w32 b" "w32 (32 + span cs)"] unmap_owned [of "pages st" "w32 b" "w32 (32 + span cs)"]
      unmap_reserved [of "pages st" "w32 b" "w32 (32 + span cs)"]
      h(2) owned range pages by auto
  have "big_range B \<noteq> (b, 32 + span cs)" if "B \<in> set As' \<union> set Bs" for B
  proof -
    have "big_disjoint B (b, cs)"
      using h(1) that As big_disjoint_sym by (auto simp: heap_at_def sorted_wrt_append)
    then show ?thesis by (auto simp: big_disjoint_iff big_range_def)
  qed
  then have ne: "(b, 32 + span cs) \<notin> big_range ` (set As' \<union> set Bs)" by (metis imageE)
  have bs: "tl (As @ Bs) = As' @ Bs" "hd (As @ Bs) = A" "tl (As @ (b, cs) # Bs) = As' @ (b, cs) # Bs"
    "hd (As @ (b, cs) # Bs) = A" using As by simp_all
  obtain p k where image: "(p, k) \<in> reserved (pages st)" "p \<le> fst A" "fst A + 32 \<le> p + k"
    using inv unfolding heap_inv_def bs by (auto simp: big_range_def [of "(b, cs)"])
  have "big_range ` (set As' \<union> set Bs) \<subseteq> owned (pages st)" using inv unfolding heap_inv_def bs by auto
  then show ?thesis
    using at src ne image unfolding heap_inv_def bs set_append
    by (intro conjI exI [of _ p] exI [of _ k]) (auto simp del: image_Un)
qed

text \<open>\<open>free\<close> of a block in use, by its place in the heap.\<close>

lemma free_chunk:
  assumes inv: "hinv st (As @ (b, xs @ (True, n) # ys) # Bs)"
  obtains X M Y st' where "free ops (w32 (b + 16 + span xs + 16)) st = st'"
    "hinv st' (if X = [] \<and> Y = [] then As @ Bs else As @ (b, X @ (False, M) # Y) # Bs)"
    "heap_mem st' = heap_mem st" "span (X @ (False, M) # Y) = span (xs @ (True, n) # ys)"
    "used_in (b + 16) (X @ (False, M) # Y) = used_in (b + 16) xs \<union> used_in (b + 16 + span xs + 16 + n) ys"
    "no_adjacent_free (X @ (False, M) # Y)" "list_all chunk_ok (X @ (False, M) # Y)"
proof -
  let ?cs = "xs @ (True, n) # ys" and ?p = "b + 16"
  have at: "heap_at st (As @ (b, ?cs) # Bs)" using inv by (simp add: heap_inv_def)
  then have "As \<noteq> []" by (auto simp: heap_at_def)
  have bigs: "bigs_at (mcbs st) 0 (As @ (b, ?cs) # Bs) 0" "list_all big_ok (As @ (b, ?cs) # Bs)"
    "sorted_wrt big_disjoint (As @ (b, ?cs) # Bs)" "big_ok (b, ?cs)"
    using at by (simp_all add: heap_at_def)
  have chain: "chunks_at (mcbs st) 0 ?p ?cs" using bigs(1) by (simp add: bigs_at_append)
  have ok: "list_all chunk_ok ?cs" "no_adjacent_free ?cs" "0 < ?p" "?p + span ?cs + 16 \<le> 2 ^ 32"
    using bigs(4) by (simp_all add: big_ok_def)
  obtain X M Y st3 where
    fr: "free ops (w32 (?p + span xs + 16)) st =
       (if X = [] \<and> Y = []
        then let st = st3\<lparr>mcbs := unlink_big (w32 ?p - 16) (mcbs st3)\<rparr>
             in st\<lparr>pages := unmapMemory ops (w32 ?p - 16) (mcb_size (mcbs st (w32 ?p - 16))) (pages st)\<rparr>
        else st3)"
    and c3: "chunks_at (mcbs st3) 0 ?p (X @ (False, M) # Y)" and sp: "span (X @ (False, M) # Y) = span ?cs"
    and used: "used_in ?p (X @ (False, M) # Y) = used_in ?p xs \<union> used_in (?p + span xs + 16 + n) ys"
    and ok3: "list_all chunk_ok (X @ (False, M) # Y)" "no_adjacent_free (X @ (False, M) # Y)"
    and rest: "same_rest st st3" and frame: "agree (- {?p..<?p + span ?cs + 16} \<inter> {..<2 ^ 32}) (mcbs st) (mcbs st3)"
    and ends: "X = [] \<or> fst (last X)" "Y = [] \<or> fst (hd Y)"
    by (rule free_merges [OF chain ok, of ops]) (rule that; assumption)
  have frame': "agree (- {b + 16..<b + 32 + span ?cs} \<inter> {..<2 ^ 32}) (mcbs st) (mcbs st3)"
    by (rule agree_subset [OF frame]) auto
  show thesis
  proof (cases "X = [] \<and> Y = []")
    case False
    then have "\<exists>c \<in> set (X @ (False, M) # Y). fst c"
      using ends by (cases "X = []") (auto intro: bexI [of _ "hd Y"] bexI [of _ "last X"])
    then have "heap_at st3 (As @ (b, X @ (False, M) # Y) # Bs)"
      by (rule heap_at_replace [OF at \<open>As \<noteq> []\<close> rest c3 sp frame' ok3])
    then have "hinv st3 (As @ (b, X @ (False, M) # Y) # Bs)"
      using inv rest sp \<open>As \<noteq> []\<close> by (cases As) (auto simp: heap_inv_def same_rest_def big_range_def)
    moreover have "free ops (w32 (?p + span xs + 16)) st = st3" unfolding fr using False by (rule if_not_P)
    ultimately show thesis
      using that [of st3 X Y M] rest sp used ok3 unfolding if_not_P [OF False] same_rest_def by blast
  next
    case True
    let ?ds = "[(False, M)]" and ?h = "unlink_big (w32 b) (mcbs st3)"
    have ds: "X @ (False, M) # Y = ?ds" using True by simp
    define st' where "st' = st3\<lparr>mcbs := ?h, pages := unmapMemory ops (w32 b) (w32 (32 + span ?cs)) (pages st3)\<rparr>"
    have b3: "bigs_at (mcbs st3) 0 (As @ (b, ?ds) # Bs) 0"
      using bigs_at_replace [OF bigs(1-3) c3 sp frame'] ds by simp
    have ok3': "list_all big_ok (As @ (b, ?ds) # Bs)" using bigs(2) ok3 sp ds by (simp add: big_ok_def)
    have dis: "big_disjoint (b, ?ds) C = big_disjoint (b, ?cs) C" "big_disjoint C (b, ?ds) = big_disjoint C (b, ?cs)" for C
      using sp ds by (simp_all add: big_disjoint_iff)
    have dis3: "sorted_wrt big_disjoint (As @ (b, ?ds) # Bs)" using bigs(3) by (simp add: sorted_wrt_append dis)
    note un = unlink_big_chain [OF b3 ok3' dis3 \<open>As \<noteq> []\<close>]
    have "mcb_size (?h (w32 b)) = w32 (32 + span ?cs)" using un(2) b3 sp ds by (simp add: bigs_at_append)
    moreover have "w32 ?p - 16 = w32 b" by (simp add: w32_def)
    ultimately have "free ops (w32 (?p + span xs + 16)) st = st'" using fr True by (simp add: st'_def)
    moreover have "heap_at st' (As @ Bs)"
      using at un(1) rest \<open>As \<noteq> []\<close> by (cases As) (auto simp: heap_at_def st'_def same_rest_def sorted_wrt_append)
    then have "hinv st' (As @ Bs)"
      using heap_inv_unmap [OF inv \<open>As \<noteq> []\<close>] rest by (simp add: st'_def same_rest_def)
    ultimately show thesis using that [of st' X Y M] True rest sp used ok3 by (simp add: st'_def same_rest_def)
  qed
qed

lemma free_correct:
  assumes inv: "hinv st bs" and blk: "(p, n) \<in> used_blocks bs"
  shows "\<exists>bs'. hinv (free ops (w32 p) st) bs' \<and> used_blocks bs' = used_blocks bs - {(p, n)} \<and>
    heap_mem (free ops (w32 p) st) = heap_mem st"
proof -
  obtain As B Bs where "bs = As @ B # Bs" "(p, n) \<in> used_in (fst B + 16) (snd B)"
    using blk unfolding used_blocks_def by (fastforce dest: split_list)
  then obtain b cs where bs: "bs = As @ (b, cs) # Bs" "(p, n) \<in> used_in (b + 16) cs" by (cases B) auto
  then obtain xs ys where cs: "cs = xs @ (True, n) # ys" "p = b + 16 + span xs + 16" using used_in_split by blast
  obtain X M Y st' where st': "free ops (w32 (b + 16 + span xs + 16)) st = st'"
    "hinv st' (if X = [] \<and> Y = [] then As @ Bs else As @ (b, X @ (False, M) # Y) # Bs)"
    "heap_mem st' = heap_mem st" "span (X @ (False, M) # Y) = span (xs @ (True, n) # ys)"
    "used_in (b + 16) (X @ (False, M) # Y) = used_in (b + 16) xs \<union> used_in (b + 16 + span xs + 16 + n) ys"
    by (rule free_chunk [OF inv [unfolded bs cs]]) (rule that; assumption)
  have at: "heap_at st (As @ (b, cs) # Bs)" using inv bs by (simp add: heap_inv_def)
  have "(p, n) \<notin> used_blocks (As @ Bs)"
  proof
    assume *: "(p, n) \<in> used_blocks (As @ Bs)"
    have "\<forall>C \<in> set (As @ Bs). big_disjoint C (b, cs)"
      using at by (auto simp: heap_at_def sorted_wrt_append big_disjoint_sym [of _ "(b, cs)"])
    moreover have "0 < n" using at cs by (auto simp: heap_at_def big_ok_def chunk_ok_def)
    ultimately show False
      using used_blocks_other [OF *, of b cs p n] used_in_bounds [OF bs(2)] by (auto simp: apart_def)
  qed
  moreover have "(p, n) \<notin> used_in (b + 16) xs" "(p, n) \<notin> used_in (b + 16 + span xs + 16 + n) ys"
    using used_in_bounds [of p n "b + 16" xs] used_in_bounds [of p n "b + 16 + span xs + 16 + n" ys] cs(2) by auto
  ultimately have "used_blocks (if X = [] \<and> Y = [] then As @ Bs else As @ (b, X @ (False, M) # Y) # Bs) =
      used_blocks bs - {(p, n)}"
  proof -
    assume new: "(p, n) \<notin> used_blocks (As @ Bs)" "(p, n) \<notin> used_in (b + 16) xs"
      "(p, n) \<notin> used_in (b + 16 + span xs + 16 + n) ys"
    have old: "used_blocks bs = insert (p, n) (used_blocks (As @ Bs) \<union> used_in (b + 16) xs \<union> used_in (b + 16 + span xs + 16 + n) ys)"
      unfolding bs(1) cs by (auto simp: add.assoc)
    have "used_blocks (if X = [] \<and> Y = [] then As @ Bs else As @ (b, X @ (False, M) # Y) # Bs) =
        used_blocks (As @ Bs) \<union> used_in (b + 16) (X @ (False, M) # Y)"
      by auto
    then show ?thesis unfolding old st'(5) using new by blast
  qed
  then show ?thesis using st'(1-3) unfolding cs(2) by blast
qed

text \<open>Freeing what was just allocated gives back the heap as it was.\<close>

lemma malloc_free_roundtrip:
  assumes inv: "hinv st bs" and sz: "unat sz + 2 ^ 13 \<le> 2 ^ 32"
    and mapped: "fst (mapMemory ops (w32 (round_up 12 (request sz + 48))) (pages st)) \<noteq> 0"
  shows "\<exists>p st'. malloc ops sz st = Some (p, st') \<and> hinv (free ops p st') bs"
proof -
  obtain As b xs n ys Bs st' where m: "malloc ops sz st = Some (w32 (b + 16 + span xs + 16), st')"
    "hinv st' (As @ (b, xs @ place (request sz) n @ ys) # Bs)" "request sz \<le> n"
    "bs = As @ (b, xs @ (False, n) # ys) # Bs \<or> bs = As \<and> xs = [] \<and> ys = [] \<and> Bs = []"
    by (rule malloc_result [OF inv sz mapped]) (rule that; assumption)
  let ?m = "request sz" and ?old = "xs @ (False, n) # ys"
  define k zs where "k = (if ?m + 16 < n then ?m else n)" "zs = (if ?m + 16 < n then [(False, n - ?m - 16)] else []) @ ys"
  have place: "xs @ place ?m n @ ys = xs @ (True, k) # zs" by (simp add: k_zs_def place_def)
  obtain X M Y st2 where f: "free ops (w32 (b + 16 + span xs + 16)) st' = st2"
    "hinv st2 (if X = [] \<and> Y = [] then As @ Bs else As @ (b, X @ (False, M) # Y) # Bs)"
    "span (X @ (False, M) # Y) = span (xs @ (True, k) # zs)"
    "used_in (b + 16) (X @ (False, M) # Y) = used_in (b + 16) xs \<union> used_in (b + 16 + span xs + 16 + k) zs"
    "no_adjacent_free (X @ (False, M) # Y)" "list_all chunk_ok (X @ (False, M) # Y)"
    by (rule free_chunk [OF m(2) [unfolded place]]) (rule that; assumption)
  have "big_ok (b, xs @ place ?m n @ ys)" using m(2) by (simp add: heap_inv_def heap_at_def)
  then have "list_all chunk_ok ?old" "no_adjacent_free ?old"
    using m(3,4) inv round_up_16(2) [of "max 1 (unat sz)"]
    by (auto simp: heap_inv_def heap_at_def big_ok_def place_def chunk_ok_def request_def split: if_splits dest: dvd_diffD)
  moreover have "used_in (b + 16) (X @ (False, M) # Y) = used_in (b + 16) ?old"
    unfolding f(4) using m(3) by (auto simp: k_zs_def add.assoc)
  moreover have "span (X @ (False, M) # Y) = span ?old"
    unfolding f(3) using m(3) by (auto simp: k_zs_def)
  ultimately have eq: "X @ (False, M) # Y = ?old" using f(5,6) by (intro layout_unique [of "b + 16"])
  have "hinv st2 bs"
    using m(4)
  proof
    assume bs: "bs = As @ (b, ?old) # Bs"
    then have "\<exists>c \<in> set ?old. fst c" using inv by (cases As) (auto simp: heap_inv_def heap_at_def)
    then have ne: "\<not> (X = [] \<and> Y = [])" unfolding eq [symmetric] by auto
    show ?thesis using f(2) unfolding if_not_P [OF ne] eq bs .
  next
    assume "bs = As \<and> xs = [] \<and> ys = [] \<and> Bs = []"
    moreover from this have "X = [] \<and> Y = []" using eq by (cases X) auto
    ultimately show ?thesis using f(2) by simp
  qed
  then show ?thesis using m(1) f(1) by blast
qed

end

end
