(* ===== verification/Kernel_Heap.thy ===== *)
theory Kernel_Heap
  imports Kernel_AddressSpace Libc_Malloc
begin

text \<open>
  The heap of the kernel: the C library's \<open>malloc\<close> and \<open>free\<close> on the pages of the kernel's address
  space.  \<open>__mapMemory\<close> and \<open>__unmapMemory\<close> of \<open>kernel/src/addressspace.cpp\<close> meet the contract of a
  page source, so the theorems on the heap hold for the kernel.
\<close>

section \<open>The kernel's address space is a page source\<close>

text \<open>A call that stops the kernel (\<open>None\<close>) gives no memory and leaves the state as it was.\<close>

definition libk_ops :: "'x kmem_scheme page_ops" where
  "libk_ops = \<lparr>mapMemory = (\<lambda>s st. case mapMemory_libk s st of Some r \<Rightarrow> r | None \<Rightarrow> (0, st)),
     unmapMemory = (\<lambda>a s st. case unmapMemory_libk a s st of Some st' \<Rightarrow> st' | None \<Rightarrow> st)\<rparr>"

definition kvalid :: "'x kmem_scheme \<Rightarrow> bool" where
  "kvalid st \<longleftrightarrow> (\<exists>xs ps R. kinv st xs ps R)"

definition range_of :: "snode \<Rightarrow> nat \<times> nat" where
  "range_of x = (lo x, hi x - lo x)"

text \<open>The segments from the pool, less the pages of the pool itself, and the kernel's static data.\<close>

definition pool_ranges :: "snode list \<Rightarrow> addr list \<Rightarrow> (nat \<times> nat) set" where
  "pool_ranges xs ps = range_of ` {x \<in> set xs. ptr x \<in> set (entries ps) \<and> w32 (lo x) \<notin> set ps}"

definition kowned :: "'x kmem_scheme \<Rightarrow> (nat \<times> nat) set" where
  "kowned st = {r. \<exists>xs ps R. kinv st xs ps R \<and> r \<in> pool_ranges xs ps}"

definition kreserved :: "'x kmem_scheme \<Rightarrow> (nat \<times> nat) set" where
  "kreserved st = {r. \<exists>xs ps R. kinv st xs ps R \<and> r = range_of R}"

lemma kowned_eq: "kinv st xs ps R \<Longrightarrow> kowned st = pool_ranges xs ps"
  using kinv_unique unfolding kowned_def by blast

lemma kreserved_eq: "kinv st xs ps R \<Longrightarrow> kreserved st = {range_of R}"
  using kinv_unique(3) unfolding kreserved_def by blast

lemma pool_ranges_grown: "grown xs ps xs' ps' \<Longrightarrow> pool_ranges xs ps \<subseteq> pool_ranges xs' ps'"
  by (auto simp: grown_def pool_ranges_def entries_def)

lemma libk_map:
  assumes "kinv st xs ps R" "mapMemory libk_ops s st = (a, st')" "a \<noteq> 0" "0 < s" "4096 dvd unat s"
  obtains xs' ps' where "kinv st' xs' ps' R" "insert (unat a, unat s) (pool_ranges xs ps) \<subseteq> pool_ranges xs' ps'"
    "4096 dvd unat a" "unat a + unat s < 2 ^ 32" "\<forall>x \<in> set xs. hi x \<le> unat a \<or> unat a + unat s \<le> lo x"
proof -
  have "mapMemory_libk s st = Some (a, st')"
    using assms(2,3) by (cases "mapMemory_libk s st") (auto simp: libk_ops_def)
  then obtain va st1 ok where find: "findAndAddNewSegment (kernelFirstSegment st) s (PROT_READ OR PROT_WRITE) st = Some (va, st1)"
    and frames: "map_frames KernelSpace va s (PROT_READ OR PROT_WRITE) 0 st1 = Some (ok, st')" and "a = (if ok then va else 0)"
    by (auto simp: mapMemory_libk_def AddressSpace_mapMemory_def mapMemory_pages_def space_firstSegment_def bind_eq_Some_conv)
  then have va: "va = a" using assms(3) by (auto split: if_splits)
  obtain xs' ps' e where k: "kinv st1 xs' ps' R" "grown xs ps xs' ps'" "e \<in> set (entries ps')"
    "Node e (unat a) (unat a + unat s) (PROT_READ OR PROT_WRITE) \<in> set xs'" "a \<notin> set ps'"
    "4096 dvd unat a" "unat a + unat s < 2 ^ 32" "\<forall>x \<in> set xs. hi x \<le> unat a \<or> unat a + unat s \<le> lo x"
    using findAndAddNewSegment_inv [OF assms(1) find assms(4,5)] va by blast
  have "kinv st' xs' ps' R" using k(1) map_frames_kernel_more [OF frames] kinv_more [of st' st1] by simp
  moreover have "(unat a, unat s) \<in> pool_ranges xs' ps'"
    unfolding pool_ranges_def using k(3-5) by (intro image_eqI [OF _ CollectI]) (auto simp: range_of_def)
  ultimately show thesis using that k pool_ranges_grown [OF k(2)] by blast
qed

lemma libk_unmap:
  assumes "kinv st xs ps R" "(unat a, unat s) \<in> pool_ranges xs ps"
  obtains xs' ps' where "kinv (unmapMemory libk_ops a s st) xs' ps' R"
    "pool_ranges xs ps - {(unat a, unat s)} \<subseteq> pool_ranges xs' ps'"
proof (cases "unmapMemory_libk a s st")
  case None
  then have "unmapMemory libk_ops a s st = st" by (simp add: libk_ops_def)
  then show thesis using assms(1) by (intro that [of xs ps]) auto
next
  case (Some st')
  obtain x where x: "x \<in> set xs" "ptr x \<in> set (entries ps)" "w32 (lo x) \<notin> set ps" "lo x = unat a" "hi x - lo x = unat s"
  proof -
    obtain x where "(unat a, unat s) = range_of x" "x \<in> {x \<in> set xs. ptr x \<in> set (entries ps) \<and> w32 (lo x) \<notin> set ps}"
      using assms(2) unfolding pool_ranges_def by (rule imageE)
    then show thesis by (intro that [of x]) (simp_all add: range_of_def)
  qed
  obtain st1 where un: "unmap_frames KernelSpace a s 0 st = Some st1"
    and rem: "removeSegment (kernelFirstSegment st1) a s st1 = Some st'"
    using Some by (auto simp: unmapMemory_libk_def AddressSpace_unmapMemory_def space_firstSegment_def bind_eq_Some_conv)
  have k1: "kinv st1 xs ps R" using assms(1) unmap_frames_kernel_more [OF un] kinv_more [of st1 st] by simp
  obtain xs' ps' where k: "kinv st' xs' ps' R" "grown (remove1 x xs) ps xs' ps'"
  proof -
    have "removeSegment (kernelFirstSegment st1) (w32 (lo x)) (w32 (hi x - lo x)) st1 = Some st'"
      unfolding x(4) x(5) [unfolded x(4)] w32_unat by (rule rem)
    then show thesis using removeSegment_inv [OF k1 x(1-3)] that by blast
  qed
  have "distinct xs" using kinvD(2) [OF k1] by (simp add: distinct_map)
  then have rest: "set (remove1 x xs) = set xs - {x}" by (rule set_remove1_eq)
  have "range_of x = (unat a, unat s)" using x(4,5) by (simp add: range_of_def)
  then have "pool_ranges xs ps - {(unat a, unat s)} \<subseteq> pool_ranges (remove1 x xs) ps"
    unfolding pool_ranges_def rest by blast
  moreover have "unmapMemory libk_ops a s st = st'" using Some by (simp add: libk_ops_def)
  ultimately show thesis using that [of xs' ps'] k(1) pool_ranges_grown [OF k(2)] by blast
qed

interpretation libk: page_source libk_ops kvalid kowned kreserved
proof
  fix v v' :: "'x kmem_scheme" and s :: u32 and a :: addr and x
  assume v: "kvalid v" and map: "mapMemory libk_ops s v = (a, v')" "a \<noteq> 0" "0 < s" "4096 dvd unat s"
  obtain xs ps R where k: "kinv v xs ps R" using v by (auto simp: kvalid_def)
  obtain xs' ps' where k': "kinv v' xs' ps' R" "insert (unat a, unat s) (pool_ranges xs ps) \<subseteq> pool_ranges xs' ps'"
    "4096 dvd unat a" "unat a + unat s < 2 ^ 32" "\<forall>x \<in> set xs. hi x \<le> unat a \<or> unat a + unat s \<le> lo x"
    by (rule libk_map [OF k map]) (rule that; assumption)
  show "kvalid v'" using k'(1) by (auto simp: kvalid_def)
  show "insert (unat a, unat s) (kowned v) \<subseteq> kowned v'" using k'(2) kowned_eq k k'(1) by metis
  show "kreserved v \<subseteq> kreserved v'" using kreserved_eq k k'(1) by blast
  show "4096 dvd unat a \<and> unat a + unat s \<le> 2 ^ 32" using k'(3,4) by simp
  assume "x \<in> kowned v \<union> kreserved v"
  then obtain z where "z \<in> set xs" "x = range_of z"
    using kowned_eq [OF k] kreserved_eq [OF k] kinvD(13) [OF k] by (auto simp: pool_ranges_def)
  moreover have "range_ok z" using kinvD(3) [OF k] \<open>z \<in> set xs\<close> by (auto simp: ranges_ok_def list_all_iff)
  ultimately show "apart x (unat a, unat s)" using k'(5) by (fastforce simp: apart_def range_of_def range_ok_def)
next
  fix v :: "'x kmem_scheme" and s :: u32 and a :: addr
  assume v: "kvalid v" and own: "(unat a, unat s) \<in> kowned v"
  obtain xs ps R where k: "kinv v xs ps R" using v by (auto simp: kvalid_def)
  obtain xs' ps' where k': "kinv (unmapMemory libk_ops a s v) xs' ps' R"
    "pool_ranges xs ps - {(unat a, unat s)} \<subseteq> pool_ranges xs' ps'"
    by (rule libk_unmap [OF k own [unfolded kowned_eq [OF k]]]) (rule that; assumption)
  show "kvalid (unmapMemory libk_ops a s v)" using k'(1) by (auto simp: kvalid_def)
  show "kowned v - {(unat a, unat s)} \<subseteq> kowned (unmapMemory libk_ops a s v)"
    using k'(2) kowned_eq k k'(1) by metis
  show "kreserved v \<subseteq> kreserved (unmapMemory libk_ops a s v)" using kreserved_eq k k'(1) by blast
qed

section \<open>A heap that is empty\<close>

lemma demo_map: "fst (mapMemory libk_ops 4096 demo_kmem) = 0xC0001000"
proof -
  obtain st' where "map_frames KernelSpace 0xC0001000 4096 3 0 demo_linked = Some (True, st')"
    using demo_frames_mapped by auto
  then show ?thesis
    using demo_find by (simp add: libk_ops_def mapMemory_libk_def AddressSpace_mapMemory_def mapMemory_pages_def
        space_firstSegment_def paging_flags)
qed

definition demo_heap :: "kmem heap" where
  "demo_heap = \<lparr>mcbs = emptyBigBlock 0xC010B000 (\<lambda>_. \<lparr>mcb_magic = 0, mcb_size = 0, mcb_prev = 0, mcb_next = 0\<rparr>),
     firstBigBlock = 0xC010B000, heap_mem = (\<lambda>_. 0), heap_errno = 0, pages = demo_kmem\<rparr>"

lemma demo_heap_inv: "heap_inv kvalid kowned kreserved demo_heap [(0xC010B000, [])]"
proof -
  have "heap_at demo_heap [(0xC010B000, [])]"
    by (simp add: heap_at_def demo_heap_def emptyBigBlock_def big_ok_def chunks_at_Nil end_mcb_def big_mcb_def w32_def)
  moreover have "kvalid demo_kmem" using demo_kinv by (auto simp: kvalid_def)
  moreover have "kreserved demo_kmem = {(0xC0108000, 0x8000)}"
    unfolding kreserved_eq [OF demo_kinv] by (simp add: range_of_def static_nodes_def demo_static_def)
  ultimately show ?thesis by (simp add: heap_inv_def demo_heap_def)
qed

section \<open>The kernel's heap\<close>

text \<open>
  C19: \<open>malloc\<close> in the kernel gives a block of at least the size asked for, aligned, not null,
  apart from every block in use, and keeps the heap's invariant, as long as the address space has
  a page range to give when one is needed.
\<close>

theorem kernel_malloc:
  assumes "heap_inv kvalid kowned kreserved st bs" "unat sz + 2 ^ 13 \<le> 2 ^ 32"
    and "fst (mapMemory libk_ops (w32 (round_up 12 (request sz + 48))) (pages st)) \<noteq> 0"
  shows "\<exists>p n st' bs'. malloc libk_ops sz st = Some (w32 p, st') \<and> heap_inv kvalid kowned kreserved st' bs' \<and>
    heap_mem st' = heap_mem st \<and> 0 < p \<and> p + n < 2 ^ 32 \<and> 16 dvd p \<and> unat sz \<le> n \<and>
    used_blocks bs' = insert (p, n) (used_blocks bs) \<and> (\<forall>x \<in> used_blocks bs. apart x (p, n))"
  by (rule libk.malloc_correct [OF assms])



lemma demo_request: "w32 (round_up 12 (request 100 + 48)) = 4096" "unat (100 :: u32) + 2 ^ 13 \<le> 2 ^ 32"
  by (simp_all add: request_def round_up_def w32_def)

lemma demo_mapped: "fst (mapMemory libk_ops (w32 (round_up 12 (request 100 + 48))) (pages demo_heap)) \<noteq> 0"
  unfolding demo_request(1) using demo_map by (simp add: demo_heap_def)

theorem kernel_malloc_witness:
  "\<exists>p n st' bs'. malloc libk_ops 100 demo_heap = Some (w32 p, st') \<and> heap_inv kvalid kowned kreserved st' bs' \<and>
     100 \<le> n \<and> used_blocks bs' = {(p, n)}"
  using kernel_malloc [OF demo_heap_inv demo_request(2) demo_mapped] by auto



end
