(* ===== verification/Kernel_Frame.thy ===== *)
theory Kernel_Frame
  imports Kernel_AddressSpace
begin

text \<open>
  What the memory operations of the kernel leave alone: everything that extends the state of its
  memory, that is, the processes and the file system.  One lemma per operation, collected in
  \<open>kmem_frame\<close>; the loops by induction on their runs.
\<close>

named_theorems kmem_frame \<open>operations that only change the memory of the kernel\<close>

lemma kmem_more_paging: "paging.more st' = paging.more st \<Longrightarrow> kmem.more st' = kmem.more st"
  by (cases st; cases st') simp

lemma kmem_more_updates [simp]:
  "kmem.more (set_seg p f st) = kmem.more st"
  "kmem.more (st\<lparr>nextPage := n\<rparr>) = kmem.more st" "kmem.more (st\<lparr>segs := s\<rparr>) = kmem.more st"
  "kmem.more (st\<lparr>kernelFirstSegment := k\<rparr>) = kmem.more st"
  "kmem.more (st\<lparr>frames := f'\<rparr>) = kmem.more st" "kmem.more (st\<lparr>spaceDirs := d\<rparr>) = kmem.more st"
  "kmem.more (set_frame a i x st) = kmem.more st"
  by (cases st; simp add: set_seg_def set_frame_def)+

lemma clear_pool_page_frame [simp]: "kmem.more (clear_pool_page p st) = kmem.more st"
  by (simp add: clear_pool_page_def)

lemma MemorySegment_init_frame [simp]: "kmem.more (MemorySegment_init p a s f q n st) = kmem.more st"
  by (simp add: MemorySegment_init_def)

section \<open>Page tables\<close>

lemma popPageFrame_frame [kmem_frame]: "popPageFrame st = Some (a, st') \<Longrightarrow> kmem.more st' = kmem.more st"
  by (rule kmem_more_paging [OF keepsD [OF popPageFrame_keeps]])

lemma pushPageFrame_frame [kmem_frame]: "pushPageFrame a st = Some st' \<Longrightarrow> kmem.more st' = kmem.more st"
  by (rule kmem_more_paging [OF pushPageFrame_more])

lemma kernel_mapAt_frame [kmem_frame]:
  "kernel_mapAt popPageFrame va pa prot st = Some (a, st') \<Longrightarrow> kmem.more st' = kmem.more st"
  by (rule kmem_more_paging [OF keepsD [OF kernel_mapAt_keeps [OF popPageFrame_keeps]]])

lemma kernel_unMap_frame [kmem_frame]:
  "kernel_unMap popPageFrame va st = Some st' \<Longrightarrow> kmem.more st' = kmem.more st"
  by (rule kmem_more_paging [OF kernel_unMap_more [OF popPageFrame_keeps]])

lemma mapTemporarily_frame [kmem_frame]:
  "mapTemporarily pa prot st = Some (a, st') \<Longrightarrow> kmem.more st' = kmem.more st"
  unfolding mapTemporarily_def by (rule kernel_mapAt_frame)

lemma user_mapAtWithFlags_frame [kmem_frame]:
  "user_mapAtWithFlags dir pd pt pa flags st = Some (a, st') \<Longrightarrow> kmem.more st' = kmem.more st"
  unfolding user_mapAtWithFlags_def Let_def
  by (auto simp: bind_eq_Some_conv dest!: kmem_frame split: if_splits)

lemma user_mapAt_frame [kmem_frame]: "user_mapAt dir va pa prot st = Some (a, st') \<Longrightarrow> kmem.more st' = kmem.more st"
  unfolding user_mapAt_def by (auto simp: bind_eq_Some_conv dest!: kmem_frame split: if_splits)

lemma user_unMap_frame [kmem_frame]: "user_unMap dir va st = Some st' \<Longrightarrow> kmem.more st' = kmem.more st"
  unfolding user_unMap_def by (auto simp: bind_eq_Some_conv dest!: kmem_frame split: if_splits)

lemma user_getPhysicalAddress_frame [kmem_frame]:
  "user_getPhysicalAddress dir va st = Some (a, st') \<Longrightarrow> kmem.more st' = kmem.more st"
  unfolding user_getPhysicalAddress_def Let_def
  by (auto simp: bind_eq_Some_conv dest!: kmem_frame split: if_splits)

lemma mapAt_frame [kmem_frame]: "mapAt sp va pa prot st = Some (a, st') \<Longrightarrow> kmem.more st' = kmem.more st"
  and unMap_frame [kmem_frame]: "unMap sp va st = Some st' \<Longrightarrow> kmem.more st' = kmem.more st"
  and getPhysicalAddress_frame [kmem_frame]:
    "getPhysicalAddress sp va st = Some (a, st') \<Longrightarrow> kmem.more st' = kmem.more st"
  by (cases sp; auto simp: mapAt_def unMap_def getPhysicalAddress_def dest: kmem_frame)+

section \<open>Segments\<close>

lemma addSegment_link_frame [kmem_frame]: "addSegment_link p q st = Some st' \<Longrightarrow> kmem.more st' = kmem.more st"
  unfolding addSegment_link_def Let_def by (auto simp: bind_eq_Some_conv split: if_splits)

lemma allocateSegment_frame [kmem_frame]: "allocateSegment a s f st = Some (p, st') \<Longrightarrow> kmem.more st' = kmem.more st"
  by (auto simp: allocateSegment_def)

lemma verifySegmentList_frame [kmem_frame]: "verifySegmentList st = Some st' \<Longrightarrow> kmem.more st' = kmem.more st"
  unfolding verifySegmentList_def Let_def
  by (auto simp: bind_eq_Some_conv dest!: kmem_frame split: if_splits)

lemma addSegment_frame [kmem_frame]: "addSegment p a s f st = Some st' \<Longrightarrow> kmem.more st' = kmem.more st"
  unfolding addSegment_def by (auto simp: bind_eq_Some_conv dest!: kmem_frame)

lemma findAndAddNewSegment_frame [kmem_frame]:
  "findAndAddNewSegment p s f st = Some (a, st') \<Longrightarrow> kmem.more st' = kmem.more st"
  unfolding findAndAddNewSegment_def by (auto simp: bind_eq_Some_conv dest!: kmem_frame)

lemma unlink_segment_frame [simp]: "kmem.more (unlink_segment p st) = kmem.more st"
  by (simp add: unlink_segment_def deallocateSegment_def Let_def)

lemma shrink_segment_frame [kmem_frame]:
  "shrink_segment p a s st = Some (a', s', st') \<Longrightarrow> kmem.more st' = kmem.more st"
  unfolding shrink_segment_def Let_def by (auto dest!: kmem_frame split: if_splits)

lemma remove_loop_frame [kmem_frame]:
  assumes "remove_loop p a s st = Some st'"
  shows "kmem.more st' = kmem.more st"
proof (rule remove_loop.raw_induct [of "\<lambda>p a s st st'. kmem.more st' = kmem.more st" p a s st st', OF _ assms], goal_cases)
  case (1 remove_loop p a s st y)
  from 1(2) show ?case
    by (auto simp: Let_def bind_eq_Some_conv dest!: kmem_frame 1(1) split: if_splits)
qed

lemma removeSegment_frame [kmem_frame]: "removeSegment p a s st = Some st' \<Longrightarrow> kmem.more st' = kmem.more st"
  unfolding removeSegment_def by (auto simp: bind_eq_Some_conv dest!: kmem_frame)

section \<open>Address spaces\<close>

lemma map_frames_frame [kmem_frame]:
  assumes "map_frames sp va sz prot i st = Some (ok, st')"
  shows "kmem.more st' = kmem.more st"
proof -
  have "kmem.more (snd (ok, st')) = kmem.more st"
  proof (rule map_frames.raw_induct
      [of "\<lambda>sp va sz prot i st y. kmem.more (snd y) = kmem.more st" sp va sz prot i st, OF _ assms], goal_cases)
    case (1 map_frames sp va sz prot i st y)
    from 1(2) show ?case
      by (auto simp: bind_eq_Some_conv dest!: kmem_frame 1(1) split: if_splits)
  qed
  then show ?thesis by simp
qed

lemma map_range_frame [kmem_frame]:
  assumes "map_range sp va pa sz prot i st = Some (ok, st')"
  shows "kmem.more st' = kmem.more st"
proof -
  have "kmem.more (snd (ok, st')) = kmem.more st"
  proof (rule map_range.raw_induct
      [of "\<lambda>sp va pa sz prot i st y. kmem.more (snd y) = kmem.more st" sp va pa sz prot i st, OF _ assms], goal_cases)
    case (1 map_range sp va pa sz prot i st y)
    from 1(2) show ?case
      by (auto simp: bind_eq_Some_conv dest!: kmem_frame 1(1) split: if_splits)
  qed
  then show ?thesis by simp
qed

lemma unmap_frames_frame [kmem_frame]:
  assumes "unmap_frames sp va sz i st = Some st'"
  shows "kmem.more st' = kmem.more st"
proof (rule unmap_frames.raw_induct
    [of "\<lambda>sp va sz i st st'. kmem.more st' = kmem.more st" sp va sz i st st', OF _ assms], goal_cases)
  case (1 unmap_frames sp va sz i st y)
  from 1(2) show ?case
    by (auto simp: bind_eq_Some_conv dest!: kmem_frame 1(1) split: if_splits)
qed

lemma unmap_range_frame [kmem_frame]:
  assumes "unmap_range sp va sz i st = Some st'"
  shows "kmem.more st' = kmem.more st"
proof (rule unmap_range.raw_induct
    [of "\<lambda>sp va sz i st st'. kmem.more st' = kmem.more st" sp va sz i st st', OF _ assms], goal_cases)
  case (1 unmap_range sp va sz i st y)
  from 1(2) show ?case
    by (auto simp: bind_eq_Some_conv dest!: kmem_frame 1(1) split: if_splits)
qed

lemma map_other_frame [kmem_frame]:
  assumes "map_other sp sp' va dst sz prot i st = Some st'"
  shows "kmem.more st' = kmem.more st"
proof (rule map_other.raw_induct
    [of "\<lambda>sp sp' va dst sz prot i st st'. kmem.more st' = kmem.more st" sp sp' va dst sz prot i st st', OF _ assms], goal_cases)
  case (1 map_other sp sp' va dst sz prot i st y)
  from 1(2) show ?case
    by (auto simp: bind_eq_Some_conv dest!: kmem_frame 1(1) split: if_splits)
qed

lemma space_frames [kmem_frame]:
  "AddressSpace_mapMemory sp sz prot st = Some (a, st') \<Longrightarrow> kmem.more st' = kmem.more st"
  "mapMemory_at sp va sz prot st = Some (a, st') \<Longrightarrow> kmem.more st' = kmem.more st"
  "mapPhysical sp pa sz prot st = Some (a, st') \<Longrightarrow> kmem.more st' = kmem.more st"
  "AddressSpace_unmapMemory sp va sz st = Some st' \<Longrightarrow> kmem.more st' = kmem.more st"
  "unmapPhysical sp va sz st = Some st' \<Longrightarrow> kmem.more st' = kmem.more st"
  "mapFromOtherAddressSpace sp sp' va sz prot st = Some (a, st') \<Longrightarrow> kmem.more st' = kmem.more st"
  unfolding AddressSpace_mapMemory_def mapMemory_at_def mapMemory_pages_def mapPhysical_def
    AddressSpace_unmapMemory_def unmapPhysical_def mapFromOtherAddressSpace_def
  by (auto simp: bind_eq_Some_conv dest!: kmem_frame)

lemma AddressSpace_new_frame [kmem_frame]: "AddressSpace_new p st = Some (u, st') \<Longrightarrow> kmem.more st' = kmem.more st"
  unfolding AddressSpace_new_def Let_def by (auto simp: bind_eq_Some_conv dest!: kmem_frame)

lemma unmap_segments_frame [kmem_frame]:
  assumes "unmap_segments u p st = Some st'"
  shows "kmem.more st' = kmem.more st"
proof (rule unmap_segments.raw_induct
    [of "\<lambda>u p st st'. kmem.more st' = kmem.more st" u p st st', OF _ assms], goal_cases)
  case (1 unmap_segments u p st y)
  from 1(2) show ?case
    by (auto simp: Let_def bind_eq_Some_conv dest!: kmem_frame 1(1) split: if_splits)
qed

lemma AddressSpace_delete_frame [kmem_frame]: "AddressSpace_delete u st = Some st' \<Longrightarrow> kmem.more st' = kmem.more st"
  unfolding AddressSpace_delete_def Let_def by (auto simp: bind_eq_Some_conv dest!: kmem_frame)

lemma copy_pages_frame [kmem_frame]: "copy_pages d s n k st = Some st' \<Longrightarrow> kmem.more st' = kmem.more st"
  by (induction d s n k st rule: copy_pages.induct) (auto simp: bind_eq_Some_conv)

lemma fork_segments_frame [kmem_frame]:
  assumes "fork_segments sp sp' p st = Some st'"
  shows "kmem.more st' = kmem.more st"
proof (rule fork_segments.raw_induct
    [of "\<lambda>sp sp' p st st'. kmem.more st' = kmem.more st" sp sp' p st st', OF _ assms], goal_cases)
  case (1 fork_segments sp sp' p st y)
  from 1(2) show ?case
    by (auto simp: Let_def bind_eq_Some_conv dest!: kmem_frame 1(1) split: if_splits)
qed

lemma AddressSpace_fork_frame [kmem_frame]: "AddressSpace_fork p u st = Some (u', st') \<Longrightarrow> kmem.more st' = kmem.more st"
  unfolding AddressSpace_fork_def by (auto simp: bind_eq_Some_conv dest!: kmem_frame)

end
