(* ===== verification/Kernel_Vga.thy ===== *)
theory Kernel_Vga
  imports Libc_String
begin

text \<open>
  The VGA text terminal: \<open>kernel/src/vgaterminal.cpp\<close>.  The video memory is the part of the address
  space at \<open>0xC0000000\<close>, 25 lines of 80 cells of a character and a colour byte; the writes to the
  VGA ports are a log.  The escape sequences are a state machine on the characters printed.
\<close>

section \<open>Definitions\<close>

definition HEIGHT :: u32 where "HEIGHT = 25"
definition WIDTH :: u32 where "WIDTH = 80"
definition VIDEO_SIZE :: u32 where "VIDEO_SIZE = 2 * WIDTH * HEIGHT"
definition MAX_PARAMS :: u32 where "MAX_PARAMS = 16"
definition DEFAULT_BACKGROUND_COLOR :: byte where "DEFAULT_BACKGROUND_COLOR = 0x8"
definition DEFAULT_FOREGROUND_COLOR :: byte where "DEFAULT_FOREGROUND_COLOR = 0x3"
definition DEFAULT_COLOR :: byte where
  "DEFAULT_COLOR = push_bit 4 DEFAULT_BACKGROUND_COLOR OR DEFAULT_FOREGROUND_COLOR"
definition video :: addr where "video = 0xC0000000"

lemmas vga_consts = HEIGHT_def WIDTH_def VIDEO_SIZE_def MAX_PARAMS_def

datatype TerminalStatus = NORMAL | ESCAPED | CSI

record vga =
  vmem :: mem
  fontColor :: byte
  cursorPosX :: u32
  cursorPosY :: u32
  savedX :: u32
  savedY :: u32
  params :: "u32 list"
  paramSpecified :: "bool list"
  paramIndex :: u32
  status :: TerminalStatus
  vga_ports :: "(u32 \<times> byte) list"

definition vga_start :: "mem \<Rightarrow> vga" where
  "vga_start m = \<lparr>vmem = m, fontColor = DEFAULT_COLOR, cursorPosX = 0, cursorPosY = 0, savedX = 0, savedY = 0,
     params = replicate 16 0, paramSpecified = replicate 16 False, paramIndex = 0, status = NORMAL, vga_ports = []\<rparr>"

definition videoOffset :: "u32 \<Rightarrow> u32 \<Rightarrow> addr" where
  "videoOffset line column = video + 2 * line * WIDTH + 2 * column"

definition put_cell :: "u32 \<Rightarrow> u32 \<Rightarrow> byte \<Rightarrow> byte \<Rightarrow> mem \<Rightarrow> mem" where
  "put_cell line column ch color m = m(videoOffset line column := ch, videoOffset line column + 1 := color)"

definition VgaTerminal_backspace :: "vga \<Rightarrow> vga" where
  "VgaTerminal_backspace st =
     (let st = (if cursorPosX st = 0 \<and> cursorPosY st > 0
                then st\<lparr>cursorPosX := WIDTH - 1, cursorPosY := cursorPosY st - 1\<rparr>
                else st\<lparr>cursorPosX := cursorPosX st - 1\<rparr>)
      in st\<lparr>vmem := put_cell (cursorPosY st) (cursorPosX st) 0 (fontColor st) (vmem st)\<rparr>)"

text \<open>The switch of \<open>setGraphicsRendition\<close> on one parameter.\<close>

definition sgr_color :: "u32 \<Rightarrow> byte \<Rightarrow> byte" where
  "sgr_color p color =
     (if p = 0 then DEFAULT_COLOR
      else if p = 1 then color OR 0x08
      else if p = 22 then color AND NOT 0x08
      else if p = 30 then color AND 0xF8 OR 0x00
      else if p = 31 then color AND 0xF8 OR 0x04
      else if p = 32 then color AND 0xF8 OR 0x02
      else if p = 33 then color AND 0xF8 OR 0x06
      else if p = 34 then color AND 0xF8 OR 0x01
      else if p = 35 then color AND 0xF8 OR 0x05
      else if p = 36 then color AND 0xF8 OR 0x03
      else if p = 37 then color AND 0xF8 OR 0x07
      else if p = 39 then color AND 0xF8 OR DEFAULT_FOREGROUND_COLOR
      else if p = 40 then color AND 0x0F OR 0x00
      else if p = 41 then color AND 0x0F OR 0x40
      else if p = 42 then color AND 0x0F OR 0x20
      else if p = 43 then color AND 0x0F OR 0x60
      else if p = 44 then color AND 0x0F OR 0x10
      else if p = 45 then color AND 0x0F OR 0x50
      else if p = 46 then color AND 0x0F OR 0x30
      else if p = 47 then color AND 0x0F OR 0x70
      else if p = 49 then color AND 0x0F OR DEFAULT_COLOR
      else color)"

definition setGraphicsRendition :: "vga \<Rightarrow> vga" where
  "setGraphicsRendition st =
     for_up 0 MAX_PARAMS (\<lambda>i st. if paramSpecified st ! unat i
       then st\<lparr>fontColor := sgr_color (params st ! unat i) (fontColor st)\<rparr> else st) st"

definition fillRect :: "u32 \<Rightarrow> u32 \<Rightarrow> u32 \<Rightarrow> u32 \<Rightarrow> byte \<Rightarrow> byte \<Rightarrow> mem \<Rightarrow> mem" where
  "fillRect x1 x2 y1 y2 ch color m =
     (if x2 > WIDTH \<or> y2 > HEIGHT then m
      else
        let x2 = (if x1 = x2 then x2 + 1 else x2);
            y2 = (if y1 = y2 then y2 + 1 else y2)
        in for_up y1 y2 (\<lambda>i. for_up x1 x2 (\<lambda>j. put_cell i j ch color)) m)"

definition param :: "nat \<Rightarrow> u32 \<Rightarrow> vga \<Rightarrow> u32" where
  "param i d st = (if paramSpecified st ! i then params st ! i else d)"

definition cursor_up :: "u32 \<Rightarrow> vga \<Rightarrow> vga" where
  "cursor_up n st = st\<lparr>cursorPosY := (if cursorPosY st < n then 0 else cursorPosY st - n)\<rparr>"

definition cursor_down :: "u32 \<Rightarrow> vga \<Rightarrow> vga" where
  "cursor_down n st = st\<lparr>cursorPosY := (if cursorPosY st + n \<ge> HEIGHT then HEIGHT - 1 else cursorPosY st + n)\<rparr>"

definition cursor_forward :: "u32 \<Rightarrow> vga \<Rightarrow> vga" where
  "cursor_forward n st = st\<lparr>cursorPosX := (if cursorPosX st + n \<ge> WIDTH then 0 else cursorPosX st + n)\<rparr>"

definition cursor_back :: "u32 \<Rightarrow> vga \<Rightarrow> vga" where
  "cursor_back n st = st\<lparr>cursorPosX := (if cursorPosX st < n then 0 else cursorPosX st - n)\<rparr>"

definition erase_display :: "vga \<Rightarrow> vga" where
  "erase_display st =
     (let p = param 0 0 st; at = videoOffset (cursorPosY st) (cursorPosX st) in
      if p = 0 then st\<lparr>vmem := memset (vmem st) at 0 (VIDEO_SIZE - (at - video))\<rparr>
      else if p = 1 then st\<lparr>vmem := memset (vmem st) video 0 (at - video)\<rparr>
      else if p = 2 then st\<lparr>vmem := memset (vmem st) video 0 VIDEO_SIZE\<rparr>
      else st)"

definition erase_line :: "vga \<Rightarrow> vga" where
  "erase_line st =
     (let p = param 0 0 st; x = cursorPosX st; y = cursorPosY st in
      if p = 0 then st\<lparr>vmem := fillRect x WIDTH y y 0 (fontColor st) (vmem st)\<rparr>
      else if p = 1 then st\<lparr>vmem := fillRect 0 x y y 0 (fontColor st) (vmem st)\<rparr>
      else if p = 2 then st\<lparr>vmem := fillRect 0 WIDTH y y 0 (fontColor st) (vmem st)\<rparr>
      else st)"

definition scroll_up :: "u32 \<Rightarrow> vga \<Rightarrow> vga" where
  "scroll_up n st =
     (let m = memmove (vmem st) video (videoOffset n 0) (2 * (HEIGHT - n) * WIDTH)
      in st\<lparr>vmem := fillRect 0 WIDTH (HEIGHT - n) HEIGHT 0 (fontColor st) m\<rparr>)"

definition scroll_down :: "u32 \<Rightarrow> vga \<Rightarrow> vga" where
  "scroll_down n st =
     (let m = memmove (vmem st) (videoOffset n 0) video (2 * (HEIGHT - n) * WIDTH)
      in st\<lparr>vmem := fillRect 0 WIDTH 0 n 0 (fontColor st) m\<rparr>)"

definition cursor_position :: "vga \<Rightarrow> vga" where
  "cursor_position st =
     (let x = param 1 1 st; y = param 0 1 st in
      if 0 < x \<and> x < WIDTH \<and> 0 < y \<and> y < HEIGHT
      then st\<lparr>cursorPosX := x - 1, cursorPosY := y - 1\<rparr> else st)"

text \<open>The switch on the final byte of a control sequence.\<close>

definition csi_final :: "byte \<Rightarrow> vga \<Rightarrow> vga" where
  "csi_final c st =
     (let p = param 0 1 st in
      if c = 65 then cursor_up p st
      else if c = 66 then cursor_down p st
      else if c = 67 then cursor_forward p st
      else if c = 68 then cursor_back p st
      else if c = 69 then (cursor_down p st)\<lparr>cursorPosX := 0\<rparr>
      else if c = 70 then (cursor_up p st)\<lparr>cursorPosX := 0\<rparr>
      else if c = 71 then if 0 < p \<and> p < WIDTH then st\<lparr>cursorPosX := p - 1\<rparr> else st
      else if c = 72 \<or> c = 102 then cursor_position st
      else if c = 74 then erase_display st
      else if c = 75 then erase_line st
      else if c = 83 then scroll_up p st
      else if c = 84 then scroll_down p st
      else if c = 100 then if 0 < p \<and> p < HEIGHT then st\<lparr>cursorPosY := p - 1\<rparr> else st
      else if c = 109 then setGraphicsRendition st
      else if c = 115 then st\<lparr>savedX := cursorPosX st, savedY := cursorPosY st\<rparr>
      else if c = 117 then st\<lparr>cursorPosX := savedX st, cursorPosY := savedY st\<rparr>
      else st)"

definition printEscapeCode :: "byte \<Rightarrow> vga \<Rightarrow> vga" where
  "printEscapeCode c st =
     (case status st of
        NORMAL \<Rightarrow> st\<lparr>status := ESCAPED\<rparr>
      | ESCAPED \<Rightarrow>
          if c = 91 then
            (for_up 0 MAX_PARAMS (\<lambda>i st. st\<lparr>params := (params st)[unat i := 0],
                 paramSpecified := (paramSpecified st)[unat i := False]\<rparr>) (st\<lparr>status := CSI\<rparr>))
              \<lparr>paramIndex := 0\<rparr>
          else if c = 99 then
            st\<lparr>vmem := memset (vmem st) video 0 VIDEO_SIZE, cursorPosX := 0, cursorPosY := 0, savedX := 0, savedY := 0,
               fontColor := DEFAULT_COLOR, status := NORMAL\<rparr>
          else st\<lparr>status := NORMAL\<rparr>
      | CSI \<Rightarrow>
          if c \<ge> 48 \<and> c \<le> 57 then
            (let i = unat (paramIndex st) in
             st\<lparr>params := (params st)[i := params st ! i * 10 + ucast c - 48],
                paramSpecified := (paramSpecified st)[i := True]\<rparr>)
          else if c = 59 then
            (let st = st\<lparr>paramIndex := paramIndex st + 1\<rparr> in
             if paramIndex st \<ge> MAX_PARAMS then st\<lparr>status := NORMAL\<rparr> else st)
          else (csi_final c st)\<lparr>status := NORMAL\<rparr>)"

text \<open>The start of a new line: \<open>printCharacterRaw\<close> up to the test for the newline character.\<close>

definition line_feed :: "vga \<Rightarrow> vga" where
  "line_feed st =
     (let st = st\<lparr>cursorPosX := 0, cursorPosY := cursorPosY st + 1\<rparr> in
      if cursorPosY st > HEIGHT - 1
      then st\<lparr>vmem := fillRect 0 WIDTH (HEIGHT - 1) (HEIGHT - 1) 0 (fontColor st)
                (memmove (vmem st) video (videoOffset 1 0) (2 * (HEIGHT - 1) * WIDTH)),
              cursorPosY := HEIGHT - 1\<rparr>
      else st)"

definition printCharacterRaw :: "byte \<Rightarrow> vga \<Rightarrow> vga" where
  "printCharacterRaw c st =
     (let st = (if c = 10 \<or> cursorPosX st > WIDTH - 1 then line_feed st else st) in
      if c = 10 then st
      else st\<lparr>vmem := put_cell (cursorPosY st) (cursorPosX st) c (fontColor st) (vmem st),
              cursorPosX := cursorPosX st + 1\<rparr>)"

definition printCharacter :: "byte \<Rightarrow> vga \<Rightarrow> vga" where
  "printCharacter c st =
     (if status st = NORMAL \<and> c \<noteq> 27 then printCharacterRaw c st else printEscapeCode c st)"

definition setCursorVisibility :: "bool \<Rightarrow> vga \<Rightarrow> vga" where
  "setCursorVisibility v st =
     st\<lparr>vga_ports := vga_ports st @ [(0x3D4, 0x0A), (0x3D5, if v then 0x0E else 0x20)]\<rparr>"

definition VgaTerminal_init :: "vga \<Rightarrow> vga" where
  "VgaTerminal_init st =
     (let st = setCursorVisibility True st in
      st\<lparr>vmem := fillRect 0 WIDTH 0 HEIGHT 0 DEFAULT_COLOR (vmem st), cursorPosX := 0, cursorPosY := 0\<rparr>)"

definition VgaTerminal_warnTerminal :: "vga \<Rightarrow> vga" where
  "VgaTerminal_warnTerminal st =
     (let st = st\<lparr>fontColor := 0xCF\<rparr> in
      st\<lparr>vmem := for_up 0 HEIGHT (\<lambda>i. for_up 0 WIDTH (\<lambda>j m. m(videoOffset i j + 1 := fontColor st))) (vmem st)\<rparr>)"

text \<open>\<open>position\<close> is a 16-bit number.\<close>

definition updateCursorPosition :: "vga \<Rightarrow> vga" where
  "updateCursorPosition st =
     (let position = (ucast (cursorPosX st + cursorPosY st * WIDTH) :: 16 word) in
      st\<lparr>vga_ports := vga_ports st @
        [(0x3D4, 0x0E), (0x3D5, ucast (drop_bit 8 position)), (0x3D4, 0x0F), (0x3D5, ucast position)]\<rparr>)"

section \<open>The cursor stays on the screen\<close>

definition vga_ok :: "vga \<Rightarrow> bool" where
  "vga_ok st \<longleftrightarrow> unat (cursorPosX st) \<le> 80 \<and> unat (cursorPosY st) < 25 \<and>
     unat (savedX st) \<le> 80 \<and> unat (savedY st) < 25 \<and>
     length (params st) = 16 \<and> length (paramSpecified st) = 16 \<and> (status st = CSI \<longrightarrow> unat (paramIndex st) < 16)"

lemma vga_okD:
  assumes "vga_ok st"
  shows "unat (cursorPosX st) \<le> 80" "unat (cursorPosY st) < 25" "unat (savedX st) \<le> 80" "unat (savedY st) < 25"
    "length (params st) = 16" "length (paramSpecified st) = 16" "status st = CSI \<Longrightarrow> unat (paramIndex st) < 16"
  using assms by (simp_all add: vga_ok_def)

text \<open>Operations that move the cursor or change the screen leave the rest of the state machine alone.\<close>

definition same_mode :: "vga \<Rightarrow> vga \<Rightarrow> bool" where
  "same_mode st st' \<longleftrightarrow> params st' = params st \<and> paramSpecified st' = paramSpecified st \<and>
     paramIndex st' = paramIndex st \<and> status st' = status st"

lemma setGraphicsRendition_frame: "\<exists>color. setGraphicsRendition st = st\<lparr>fontColor := color\<rparr>"
proof -
  have "\<exists>color. fold (\<lambda>k st. if paramSpecified st ! unat (of_nat k :: u32)
       then st\<lparr>fontColor := sgr_color (params st ! unat (of_nat k :: u32)) (fontColor st)\<rparr> else st) ks st = st\<lparr>fontColor := color\<rparr>" for ks
  proof (induction ks arbitrary: st)
    case Nil
    show ?case by (rule exI [of _ "fontColor st"]) simp
  next
    case (Cons k ks)
    obtain c where c: "(if paramSpecified st ! unat (of_nat k :: u32)
       then st\<lparr>fontColor := sgr_color (params st ! unat (of_nat k :: u32)) (fontColor st)\<rparr> else st) = st\<lparr>fontColor := c\<rparr>"
      using that [of "fontColor st"] that [of "sgr_color (params st ! unat (of_nat k :: u32)) (fontColor st)"]
      by (cases "paramSpecified st ! unat (of_nat k :: u32)") simp_all
    show ?case using Cons.IH [of "st\<lparr>fontColor := c\<rparr>"] c by auto
  qed
  then show ?thesis by (simp add: setGraphicsRendition_def for_up_fold)
qed

lemma cursor_moves:
  assumes "unat (cursorPosX st) \<le> 80" "unat (cursorPosY st) < 25"
  shows "unat (cursorPosY (cursor_up n st)) < 25" "unat (cursorPosY (cursor_down n st)) < 25"
    "unat (cursorPosX (cursor_forward n st)) \<le> 80" "unat (cursorPosX (cursor_back n st)) \<le> 80"
  using assms
  by (auto simp: cursor_up_def cursor_down_def cursor_forward_def cursor_back_def vga_consts word_le_nat_alt
      word_less_nat_alt not_le not_less unat_sub)

lemma unat_pred_less: "0 < x \<Longrightarrow> x < n \<Longrightarrow> unat (x - 1 :: u32) < unat n"
  by (simp add: unat_pred word_less_nat_alt less_imp_diff_less)

lemma csi_final_ok:
  assumes "vga_ok st"
  shows "vga_ok ((csi_final c st)\<lparr>status := NORMAL\<rparr>)"
proof -
  note ok = vga_okD [OF assms]
  obtain color where sgr: "setGraphicsRendition st = st\<lparr>fontColor := color\<rparr>" using setGraphicsRendition_frame by blast
  note moves = cursor_moves [OF ok(1,2)]
  have small: "unat (x - 1) < 80" if "0 < x" "x < WIDTH" for x using unat_pred_less [OF that] by (simp add: WIDTH_def)
  have small': "unat (x - 1) < 25" if "0 < x" "x < HEIGHT" for x using unat_pred_less [OF that] by (simp add: HEIGHT_def)
  have "vga_ok ((cursor_up p st)\<lparr>status := NORMAL\<rparr>)" "vga_ok ((cursor_down p st)\<lparr>status := NORMAL\<rparr>)"
    "vga_ok ((cursor_forward p st)\<lparr>status := NORMAL\<rparr>)" "vga_ok ((cursor_back p st)\<lparr>status := NORMAL\<rparr>)"
    "vga_ok ((cursor_up p st)\<lparr>cursorPosX := 0, status := NORMAL\<rparr>)"
    "vga_ok ((cursor_down p st)\<lparr>cursorPosX := 0, status := NORMAL\<rparr>)" for p
    using ok moves [of p]
    by (simp_all add: vga_ok_def cursor_up_def cursor_down_def cursor_forward_def cursor_back_def)
  moreover have "vga_ok ((cursor_position st)\<lparr>status := NORMAL\<rparr>)"
    using ok small small' by (auto simp: cursor_position_def vga_ok_def Let_def less_imp_le)
  moreover have "vga_ok ((erase_display st)\<lparr>status := NORMAL\<rparr>)" "vga_ok ((erase_line st)\<lparr>status := NORMAL\<rparr>)"
    using ok by (simp_all add: erase_display_def erase_line_def vga_ok_def Let_def)
  moreover have "vga_ok ((scroll_up p st)\<lparr>status := NORMAL\<rparr>)" "vga_ok ((scroll_down p st)\<lparr>status := NORMAL\<rparr>)" for p
    using ok by (simp_all add: scroll_up_def scroll_down_def vga_ok_def Let_def)
  moreover have "vga_ok (st\<lparr>cursorPosX := p - 1, status := NORMAL\<rparr>)" if "0 < p" "p < WIDTH" for p
    using ok small [OF that] by (simp add: vga_ok_def less_imp_le)
  moreover have "vga_ok (st\<lparr>cursorPosY := p - 1, status := NORMAL\<rparr>)" if "0 < p" "p < HEIGHT" for p
    using ok small' [OF that] by (simp add: vga_ok_def)
  moreover have "vga_ok (st\<lparr>savedX := cursorPosX st, savedY := cursorPosY st, status := NORMAL\<rparr>)"
    "vga_ok (st\<lparr>cursorPosX := savedX st, cursorPosY := savedY st, status := NORMAL\<rparr>)"
    "vga_ok (st\<lparr>status := NORMAL\<rparr>)" "vga_ok (st\<lparr>fontColor := color, status := NORMAL\<rparr>)"
    using ok by (simp_all add: vga_ok_def)
  ultimately show ?thesis unfolding csi_final_def Let_def sgr by simp
qed

lemma reset_params:
  "\<exists>ps qs. length ps = length (params st) \<and> length qs = length (paramSpecified st) \<and>
     for_up 0 n (\<lambda>i st. st\<lparr>params := (params st)[unat i := 0],
       paramSpecified := (paramSpecified st)[unat i := False]\<rparr>) st = st\<lparr>params := ps, paramSpecified := qs\<rparr>"
proof -
  have "\<exists>ps qs. length ps = length (params st) \<and> length qs = length (paramSpecified st) \<and>
     fold (\<lambda>k st. st\<lparr>params := (params st)[unat (of_nat k :: u32) := 0],
       paramSpecified := (paramSpecified st)[unat (of_nat k :: u32) := False]\<rparr>) ks st = st\<lparr>params := ps, paramSpecified := qs\<rparr>" for ks
  proof (induction ks arbitrary: st)
    case Nil
    show ?case by (rule exI [of _ "params st"], rule exI [of _ "paramSpecified st"]) simp
  next
    case (Cons k ks)
    show ?case
      using Cons.IH [of "st\<lparr>params := (params st)[unat (of_nat k :: u32) := 0],
        paramSpecified := (paramSpecified st)[unat (of_nat k :: u32) := False]\<rparr>"] by auto
  qed
  then show ?thesis by (simp add: for_up_fold)
qed

lemma printEscapeCode_ok:
  assumes "vga_ok st"
  shows "vga_ok (printEscapeCode c st)"
proof (cases "status st")
  case NORMAL
  then show ?thesis using assms by (simp add: printEscapeCode_def vga_ok_def)
next
  case ESCAPED
  obtain ps qs where "length ps = 16" "length qs = 16"
    "for_up 0 MAX_PARAMS (\<lambda>i st. st\<lparr>params := (params st)[unat i := 0],
       paramSpecified := (paramSpecified st)[unat i := False]\<rparr>) (st\<lparr>status := CSI\<rparr>) =
     st\<lparr>status := CSI, params := ps, paramSpecified := qs\<rparr>"
    using reset_params [of "st\<lparr>status := CSI\<rparr>" MAX_PARAMS] vga_okD [OF assms] by auto
  then show ?thesis using ESCAPED vga_okD [OF assms] by (simp add: printEscapeCode_def vga_ok_def)
next
  case CSI
  note ok = vga_okD [OF assms]
  have "unat (paramIndex st + 1) = Suc (unat (paramIndex st))" using ok(7) [OF CSI]
    by (simp add: unat_word_ariths)
  then show ?thesis
    using CSI ok csi_final_ok [OF assms]
    by (auto simp: printEscapeCode_def vga_ok_def Let_def MAX_PARAMS_def word_le_nat_alt)
qed

lemma line_feed_simps:
  assumes "unat (cursorPosY st) < 25"
  shows "cursorPosX (line_feed st) = 0"
    "unat (cursorPosY (line_feed st)) = (if unat (cursorPosY st) = 24 then 24 else unat (cursorPosY st) + 1)"
    "fontColor (line_feed st) = fontColor st"
  using assms by (simp_all add: line_feed_def Let_def HEIGHT_def word_less_nat_alt unat_word_ariths)

lemma line_feed_ok: "vga_ok st \<Longrightarrow> vga_ok (line_feed st)"
  using line_feed_simps [of st] by (simp add: vga_ok_def) (simp add: line_feed_def Let_def)

lemma printCharacterRaw_ok:
  assumes "vga_ok st"
  shows "vga_ok (printCharacterRaw c st)"
proof -
  let ?st = "if c = 10 \<or> cursorPosX st > WIDTH - 1 then line_feed st else st"
  have ok: "vga_ok ?st" using assms line_feed_ok by simp
  show ?thesis
  proof (cases "c = 10")
    case False
    have "unat (cursorPosX ?st) < 80"
      using line_feed_simps(1) [OF vga_okD(2) [OF assms]] by (simp add: WIDTH_def word_less_nat_alt)
    then have "unat (cursorPosX ?st + 1) \<le> 80" by (simp add: unat_word_ariths)
    then show ?thesis using False ok by (simp add: printCharacterRaw_def Let_def vga_ok_def)
  qed (use ok in \<open>simp add: printCharacterRaw_def\<close>)
qed

lemma printCharacter_ok: "vga_ok st \<Longrightarrow> vga_ok (printCharacter c st)"
  by (simp add: printCharacter_def printCharacterRaw_ok printEscapeCode_ok)


section \<open>The screen\<close>

text \<open>The abstract screen: 25 lines of 80 cells, a position for the next character, and a colour.\<close>

record screen =
  cells :: "nat \<Rightarrow> nat \<Rightarrow> byte \<times> byte"
  col :: nat
  row :: nat
  ink :: byte

definition on_screen :: "nat \<Rightarrow> nat \<Rightarrow> bool" where
  "on_screen y x \<longleftrightarrow> y < 25 \<and> x < 80"

definition feed :: "screen \<Rightarrow> screen" where
  "feed s = (if row s = 24
     then s\<lparr>col := 0, cells := (\<lambda>y x. if on_screen (Suc y) x then cells s (Suc y) x
            else if on_screen y x then (0, ink s) else cells s y x)\<rparr>
     else s\<lparr>col := 0, row := row s + 1\<rparr>)"

definition put :: "byte \<Rightarrow> screen \<Rightarrow> screen" where
  "put c s =
     (let s = (if c = 10 \<or> col s = 80 then feed s else s) in
      if c = 10 then s
      else s\<lparr>cells := (\<lambda>y x. if y = row s \<and> x = col s then (c, ink s) else cells s y x), col := col s + 1\<rparr>)"

definition cell :: "mem \<Rightarrow> nat \<Rightarrow> nat \<Rightarrow> byte \<times> byte" where
  "cell m y x = (if on_screen y x
     then (m (video + w32 (160 * y + 2 * x)), m (video + w32 (160 * y + 2 * x + 1))) else (0, 0))"

definition screen_of :: "vga \<Rightarrow> screen" where
  "screen_of st = \<lparr>cells = cell (vmem st), col = unat (cursorPosX st), row = unat (cursorPosY st), ink = fontColor st\<rparr>"

lemma videoOffset_w32: "videoOffset (w32 y) (w32 x) = video + w32 (160 * y + 2 * x)"
  by (simp add: videoOffset_def w32_def WIDTH_def)

lemma video_eq_iff: "a < 2 ^ 32 \<Longrightarrow> b < 2 ^ 32 \<Longrightarrow> video + w32 a = video + w32 b \<longleftrightarrow> a = b"
  by (simp add: w32_eq_iff)

lemma put_cell_at:
  assumes "y \<le> 25" "x \<le> 80" "k < 2 ^ 32"
  shows "put_cell (w32 y) (w32 x) ch color m (video + w32 k) =
    (if k = 160 * y + 2 * x then ch else if k = 160 * y + 2 * x + 1 then color else m (video + w32 k))"
proof -
  let ?n = "160 * y + 2 * x"
  have n: "?n + 1 < 2 ^ 32" using assms by simp
  have "videoOffset (w32 y) (w32 x) + 1 = video + w32 (?n + 1)" unfolding videoOffset_w32 by (simp add: w32_def)
  moreover have "video + w32 k = video + w32 ?n \<longleftrightarrow> k = ?n" "video + w32 k = video + w32 (?n + 1) \<longleftrightarrow> k = ?n + 1"
    using n assms(3) by (simp_all only: video_eq_iff)
  ultimately show ?thesis by (simp add: put_cell_def videoOffset_w32)
qed

lemma fill_row:
  assumes "y \<le> 25" "b \<le> 80" "k < 2 ^ 32"
  shows "fold (\<lambda>j. put_cell (w32 y) (w32 j) ch color) [0..<b] m (video + w32 k) =
    (if 160 * y \<le> k \<and> k < 160 * y + 2 * b then if even k then ch else color else m (video + w32 k))"
  using assms(2)
proof (induction b)
  case (Suc b)
  then have IH: "fold (\<lambda>j. put_cell (w32 y) (w32 j) ch color) [0..<b] m (video + w32 k) =
    (if 160 * y \<le> k \<and> k < 160 * y + 2 * b then if even k then ch else color else m (video + w32 k))" by simp
  have "fold (\<lambda>j. put_cell (w32 y) (w32 j) ch color) [0..<Suc b] m (video + w32 k) =
    (if k = 160 * y + 2 * b then ch else if k = 160 * y + 2 * b + 1 then color
     else fold (\<lambda>j. put_cell (w32 y) (w32 j) ch color) [0..<b] m (video + w32 k))"
    using put_cell_at [of y b k ch color] assms Suc.prems by simp
  then show ?case unfolding IH by auto
qed auto

lemma fillRect_line:
  assumes "y \<le> 25" "k < 2 ^ 32"
  shows "fillRect 0 WIDTH (w32 y) (w32 y) ch color m (video + w32 k) =
    (if 160 * y \<le> k \<and> k < 160 * y + 160 then if even k then ch else color else m (video + w32 k))"
proof -
  have "\<not> w32 y > HEIGHT" using assms(1) by (simp add: HEIGHT_def word_less_nat_alt unat_w32)
  moreover have "w32 y + 1 = w32 (Suc y)" by (simp add: w32_def)
  moreover have "unat (w32 y) = y" "unat (w32 (Suc y)) = Suc y" using assms(1) by (simp_all add: unat_w32)
  ultimately have "fillRect 0 WIDTH (w32 y) (w32 y) ch color m = fold (\<lambda>j. put_cell (w32 y) (w32 j) ch color) [0..<80] m"
    by (simp add: fillRect_def for_up_fold WIDTH_def flip: w32_def)
  then show ?thesis using fill_row [OF assms(1) _ assms(2), of 80] by simp
qed

lemma scroll_line:
  assumes "k < 2 ^ 32"
  shows "fillRect 0 WIDTH (HEIGHT - 1) (HEIGHT - 1) 0 color
      (memmove m video (videoOffset 1 0) (2 * (HEIGHT - 1) * WIDTH)) (video + w32 k) =
    (if k < 3840 then m (video + w32 (k + 160)) else if k < 4000 then if even k then 0 else color
     else m (video + w32 k))"
proof -
  have cs: "HEIGHT - 1 = w32 24" "2 * (HEIGHT - 1) * WIDTH = 3840" "videoOffset 1 0 = video + 160"
    by (simp_all add: vga_consts w32_def videoOffset_def)
  have "memmove m video (video + 160) 3840 = mem_write m video (mem_read m (video + 160) 3840)"
    using memmove_block [of video 3840 "video + 160" m] by (simp add: video_def)
  moreover have "unat (video + w32 k - video) = k" using assms by (simp add: unat_w32)
  ultimately have "memmove m video (video + 160) 3840 (video + w32 k) =
      (if k < 3840 then m (video + w32 (k + 160)) else m (video + w32 k))"
    by (simp add: mem_write_def) (simp add: w32_def add_ac)
  then show ?thesis unfolding cs(2) unfolding cs(1,3) using fillRect_line [OF _ assms, of 24] by auto
qed

lemma cell_index:
  fixes x y x' y' :: nat
  assumes "x < 80" "x' < 80"
  shows "160 * y + 2 * x = 160 * y' + 2 * x' \<longleftrightarrow> y = y' \<and> x = x'"
proof
  assume eq: "160 * y + 2 * x = 160 * y' + 2 * x'"
  have "(160 * y + 2 * x) div 160 = y" "(160 * y' + 2 * x') div 160 = y'" using assms by simp_all
  then show "y = y' \<and> x = x'" using eq by simp
qed simp

lemma cell_parity: "160 * y + 2 * x \<noteq> 160 * y' + 2 * x' + (1 :: nat)"
proof
  assume eq: "160 * y + 2 * x = 160 * y' + 2 * x' + 1"
  have "even (160 * y + 2 * x)" by simp
  then show False unfolding eq by simp
qed

lemma cell_frame: "\<forall>k < 4000. m' (video + w32 k) = m (video + w32 k) \<Longrightarrow> cell m' = cell m"
  by (auto simp: cell_def on_screen_def fun_eq_iff)

lemma line_feed_screen:
  assumes "vga_ok st"
  shows "screen_of (line_feed st) = feed (screen_of st)"
    and "4000 \<le> k \<Longrightarrow> k < 2 ^ 32 \<Longrightarrow> vmem (line_feed st) (video + w32 k) = vmem st (video + w32 k)"
proof -
  note ok = vga_okD [OF assms]
  have last: "HEIGHT - 1 < cursorPosY st + 1 \<longleftrightarrow> unat (cursorPosY st) = 24"
    using ok(2) by (auto simp: HEIGHT_def word_less_nat_alt unat_word_ariths)
  define m where "m = fillRect 0 WIDTH (HEIGHT - 1) (HEIGHT - 1) 0 (fontColor st)
      (memmove (vmem st) video (videoOffset 1 0) (2 * (HEIGHT - 1) * WIDTH))"
  have mem: "vmem (line_feed st) = (if unat (cursorPosY st) = 24 then m else vmem st)"
    using last by (simp add: line_feed_def Let_def m_def)
  have m: "m (video + w32 k) = (if k < 3840 then vmem st (video + w32 (k + 160))
      else if k < 4000 then if even k then 0 else fontColor st else vmem st (video + w32 k))" if "k < 2 ^ 32" for k
    unfolding m_def by (rule scroll_line [OF that])
  show "4000 \<le> k \<Longrightarrow> k < 2 ^ 32 \<Longrightarrow> vmem (line_feed st) (video + w32 k) = vmem st (video + w32 k)"
    using m [of k] mem by simp
  have "cell m y x = (if on_screen (Suc y) x then cell (vmem st) (Suc y) x
      else if on_screen y x then (0, fontColor st) else cell (vmem st) y x)" for y x
  proof (cases "on_screen (Suc y) x")
    case True
    then have "160 * y + 2 * x + 1 < 3840" by (auto simp: on_screen_def)
    then show ?thesis
      using True m [of "160 * y + 2 * x"] m [of "160 * y + 2 * x + 1"]
      by (simp add: cell_def on_screen_def add_ac)
  next
    case False
    show ?thesis
    proof (cases "on_screen y x")
      case True
      then have "y = 24" "x < 80" using False by (auto simp: on_screen_def)
      then show ?thesis
        using False True m [of "160 * y + 2 * x"] m [of "160 * y + 2 * x + 1"] by (simp add: cell_def)
    qed (simp add: cell_def False)
  qed
  then have "cell m = (\<lambda>y x. if on_screen (Suc y) x then cell (vmem st) (Suc y) x
      else if on_screen y x then (0, fontColor st) else cell (vmem st) y x)" by (intro ext)
  then show "screen_of (line_feed st) = feed (screen_of st)"
    using line_feed_simps [OF ok(2)] mem by (simp add: screen_of_def feed_def cong: if_cong)
qed

lemma printCharacterRaw_screen:
  assumes "vga_ok st"
  shows "screen_of (printCharacterRaw c st) = put c (screen_of st)"
    and "4000 \<le> k \<Longrightarrow> k < 2 ^ 32 \<Longrightarrow> vmem (printCharacterRaw c st) (video + w32 k) = vmem st (video + w32 k)"
proof -
  note ok = vga_okD [OF assms]
  define st1 where "st1 = (if c = 10 \<or> cursorPosX st > WIDTH - 1 then line_feed st else st)"
  have full: "cursorPosX st > WIDTH - 1 \<longleftrightarrow> unat (cursorPosX st) = 80"
    using ok(1) by (auto simp: WIDTH_def word_less_nat_alt)
  have s1: "screen_of st1 = (if c = 10 \<or> col (screen_of st) = 80 then feed (screen_of st) else screen_of st)"
    using line_feed_screen(1) [OF assms] full by (simp add: st1_def screen_of_def)
  have f1: "4000 \<le> k \<Longrightarrow> k < 2 ^ 32 \<Longrightarrow> vmem st1 (video + w32 k) = vmem st (video + w32 k)"
    using line_feed_screen(2) [OF assms] by (simp add: st1_def)
  have ok1: "vga_ok st1" using assms line_feed_ok by (simp add: st1_def)
  have run: "printCharacterRaw c st = (if c = 10 then st1 else
      st1\<lparr>vmem := put_cell (cursorPosY st1) (cursorPosX st1) c (fontColor st1) (vmem st1), cursorPosX := cursorPosX st1 + 1\<rparr>)"
    by (simp add: printCharacterRaw_def st1_def Let_def)
  have "screen_of (printCharacterRaw c st) = put c (screen_of st) \<and>
    (4000 \<le> k \<longrightarrow> k < 2 ^ 32 \<longrightarrow> vmem (printCharacterRaw c st) (video + w32 k) = vmem st (video + w32 k))"
  proof (cases "c = 10")
    case True
    then show ?thesis using s1 f1 run by (simp add: put_def)
  next
    case False
    let ?y = "unat (cursorPosY st1)" and ?x = "unat (cursorPosX st1)"
    have pos: "?y < 25" "?x < 80"
      using vga_okD(2) [OF ok1] line_feed_simps(1) [OF ok(2)] full ok(1) False
      by (auto simp: st1_def split: if_splits)
    then have x1: "unat (cursorPosX st1 + 1) = ?x + 1" by (simp add: unat_word_ariths)
    let ?m = "put_cell (cursorPosY st1) (cursorPosX st1) c (fontColor st1) (vmem st1)"
    have m: "?m (video + w32 j) = (if j = 160 * ?y + 2 * ?x then c else if j = 160 * ?y + 2 * ?x + 1 then fontColor st1
        else vmem st1 (video + w32 j))" if "j < 2 ^ 32" for j
      using put_cell_at [of ?y ?x j c "fontColor st1" "vmem st1"] pos that by simp
    have "cell ?m y x = (if y = ?y \<and> x = ?x then (c, fontColor st1) else cell (vmem st1) y x)" for y x
    proof (cases "on_screen y x")
      case True
      then have "160 * y + 2 * x + 1 < 4000" by (auto simp: on_screen_def)
      moreover have "160 * y + 2 * x = 160 * ?y + 2 * ?x \<longleftrightarrow> y = ?y \<and> x = ?x"
        using True pos by (intro cell_index) (auto simp: on_screen_def)
      moreover have "160 * y + 2 * x \<noteq> 160 * ?y + 2 * ?x + 1" "160 * y + 2 * x + 1 \<noteq> 160 * ?y + 2 * ?x"
        using cell_parity cell_parity [symmetric] by blast+
      ultimately show ?thesis
        using True m [of "160 * y + 2 * x"] m [of "160 * y + 2 * x + 1"] by (simp add: cell_def)
    qed (use pos in \<open>auto simp: cell_def on_screen_def\<close>)
    then have "cell ?m = (\<lambda>y x. if y = ?y \<and> x = ?x then (c, fontColor st1) else cell (vmem st1) y x)" by (intro ext)
    then have "screen_of (printCharacterRaw c st) = put c (screen_of st)"
      unfolding put_def Let_def s1 [symmetric] using False x1 run by (simp add: screen_of_def cong: if_cong)
    moreover have "4000 \<le> k \<longrightarrow> k < 2 ^ 32 \<longrightarrow> vmem (printCharacterRaw c st) (video + w32 k) = vmem st (video + w32 k)"
      using m [of k] f1 pos False run by auto
    ultimately show ?thesis by blast
  qed
  then show "screen_of (printCharacterRaw c st) = put c (screen_of st)"
    "4000 \<le> k \<Longrightarrow> k < 2 ^ 32 \<Longrightarrow> vmem (printCharacterRaw c st) (video + w32 k) = vmem st (video + w32 k)" by auto
qed

text \<open>
  C31: printing characters is what it looks like on the screen: each character and the current
  colour go to the next cell, a newline or a full line moves on to the next line, and at the last
  line the screen moves up by one line with a blank line in the current colour; no byte outside
  the video memory is written.
\<close>

theorem printCharacterRaw_refines:
  assumes "vga_ok st"
  shows "screen_of (fold printCharacterRaw cs st) = fold put cs (screen_of st) \<and>
    (\<forall>a. 4000 \<le> unat (a - video) \<longrightarrow> vmem (fold printCharacterRaw cs st) a = vmem st a)"
  using assms
proof (induction cs arbitrary: st)
  case (Cons c cs)
  have "vmem (printCharacterRaw c st) a = vmem st a" if "4000 \<le> unat (a - video)" for a
    using printCharacterRaw_screen(2) [OF Cons.prems that] by simp
  then show ?case
    using Cons.IH [OF printCharacterRaw_ok [OF Cons.prems], of c] printCharacterRaw_screen(1) [OF Cons.prems] by simp
qed simp

theorem printCharacterRaw_refines_witness:
  "cells (screen_of (fold printCharacterRaw (bytes ''hi'') (vga_start (\<lambda>_. 0)))) 0 1 = (105, 0x83)"
proof -
  have "vga_ok (vga_start (\<lambda>_. 0))" by (simp add: vga_ok_def vga_start_def)
  then have "cells (screen_of (fold printCharacterRaw (bytes ''hi'') (vga_start (\<lambda>_. 0)))) 0 1 =
      cells (fold put (bytes ''hi'') (screen_of (vga_start (\<lambda>_. 0)))) 0 1"
    using printCharacterRaw_refines by metis
  also have "\<dots> = (105, 0x83)"
    by (simp add: put_def Let_def screen_of_def vga_start_def DEFAULT_COLOR_def DEFAULT_BACKGROUND_COLOR_def DEFAULT_FOREGROUND_COLOR_def)
  finally show ?thesis .
qed

text \<open>
  C32: the control sequence \<open>ESC [ 0 S\<close> writes past the video memory: scrolling by no line fills
  the line below the last one.
\<close>

theorem scroll_zero_overruns:
  "vmem (fold printCharacter [27, 91, 48, 83] (vga_start m)) (video + 4001) = 0x83"
proof -
  let ?st = "(vga_start m)\<lparr>status := CSI\<rparr>"
  have upd: "(replicate n x)[i := x] = replicate n x" for n i and x :: 'a
    by (cases "i < n") (metis list_update_id nth_replicate, simp add: list_update_beyond)
  have "fold (\<lambda>k st. st\<lparr>params := (params st)[unat (of_nat k :: u32) := 0],
       paramSpecified := (paramSpecified st)[unat (of_nat k :: u32) := False]\<rparr>) ks ?st = ?st" for ks
    by (induction ks) (simp_all add: vga_start_def upd)
  then have reset: "for_up 0 MAX_PARAMS (\<lambda>i st. st\<lparr>params := (params st)[unat i := 0],
       paramSpecified := (paramSpecified st)[unat i := False]\<rparr>) ?st = ?st"
    by (simp add: for_up_fold)
  have csi: "fold printCharacter [27, 91] (vga_start m) = ?st"
    using reset by (simp add: printCharacter_def printEscapeCode_def vga_start_def)
  define st where "st = printCharacter 48 ?st"
  have st: "param 0 1 st = 0" "status st = CSI" "vmem st = m" "fontColor st = 0x83"
    by (simp_all add: st_def printCharacter_def printEscapeCode_def vga_start_def param_def Let_def
        DEFAULT_COLOR_def DEFAULT_BACKGROUND_COLOR_def DEFAULT_FOREGROUND_COLOR_def)
  have "printCharacter 83 st = (scroll_up 0 st)\<lparr>status := NORMAL\<rparr>"
    using st by (simp add: printCharacter_def printEscapeCode_def csi_final_def)
  moreover have "HEIGHT - 0 = w32 25" "HEIGHT = w32 25" by (simp_all add: HEIGHT_def w32_def)
  ultimately have "vmem (printCharacter 83 st) (video + w32 4001) = 0x83"
    using fillRect_line [of 25 4001 0 "0x83"] st by (simp add: scroll_up_def Let_def)
  then show ?thesis using csi by (simp add: st_def w32_def)
qed

end
