(* ===== verification/Kernel_Keyboard.thy ===== *)
theory Kernel_Keyboard
  imports Inwox_Prelude
begin

text \<open>
  The keyboard: \<open>kernel/src/keyboard.cpp\<close> (characters and escape sequences of keys) and the
  interrupt handler of \<open>kernel/src/ps2keyboard.cpp\<close>.  Keys are scan codes of set 1, negative when
  released; the commands sent to the keyboard are a log.
\<close>

section \<open>Definitions\<close>

definition S1_KB_LSHIFT :: int where "S1_KB_LSHIFT = 0x2A"
definition S1_KB_RSHIFT :: int where "S1_KB_RSHIFT = 0x36"
definition S1_KB_CAPSLOCK :: int where "S1_KB_CAPSLOCK = 0x3A"
definition S1_KB_LCONTROL :: int where "S1_KB_LCONTROL = 0x1D"
definition S1_KB_RCONTROL :: int where "S1_KB_RCONTROL = 0x9D"
definition S1_KB_NUMPAD_ENTER :: int where "S1_KB_NUMPAD_ENTER = 0x9C"
definition S1_KB_NUMPAD_DIV :: int where "S1_KB_NUMPAD_DIV = 0xB5"
definition S1_KB_UP :: int where "S1_KB_UP = 0xC8"
definition S1_KB_DOWN :: int where "S1_KB_DOWN = 0xD0"
definition S1_KB_RIGHT :: int where "S1_KB_RIGHT = 0xCD"
definition S1_KB_LEFT :: int where "S1_KB_LEFT = 0xCB"
definition S1_KB_HOME :: int where "S1_KB_HOME = 0xC7"
definition S1_KB_INSERT :: int where "S1_KB_INSERT = 0xD2"
definition S1_KB_DELETE :: int where "S1_KB_DELETE = 0xD3"
definition S1_KB_END :: int where "S1_KB_END = 0xCF"
definition S1_KB_PAGEUP :: int where "S1_KB_PAGEUP = 0xC9"
definition S1_KB_PAGEDOWN :: int where "S1_KB_PAGEDOWN = 0xD1"
definition S1_KB_F1 :: int where "S1_KB_F1 = 0x3B"
definition S1_KB_F2 :: int where "S1_KB_F2 = 0x3C"
definition S1_KB_F3 :: int where "S1_KB_F3 = 0x3D"
definition S1_KB_F4 :: int where "S1_KB_F4 = 0x3E"
definition S1_KB_F5 :: int where "S1_KB_F5 = 0x3F"
definition S1_KB_F6 :: int where "S1_KB_F6 = 0x40"
definition S1_KB_F7 :: int where "S1_KB_F7 = 0x41"
definition S1_KB_F8 :: int where "S1_KB_F8 = 0x42"
definition S1_KB_F9 :: int where "S1_KB_F9 = 0x43"
definition S1_KB_F10 :: int where "S1_KB_F10 = 0x44"
definition S1_KB_F11 :: int where "S1_KB_F11 = 0x57"
definition S1_KB_F12 :: int where "S1_KB_F12 = 0x58"

lemmas S1_KB_defs = S1_KB_LSHIFT_def S1_KB_RSHIFT_def S1_KB_CAPSLOCK_def S1_KB_LCONTROL_def S1_KB_RCONTROL_def
  S1_KB_NUMPAD_ENTER_def S1_KB_NUMPAD_DIV_def S1_KB_UP_def S1_KB_DOWN_def S1_KB_RIGHT_def
  S1_KB_LEFT_def S1_KB_HOME_def S1_KB_INSERT_def S1_KB_DELETE_def S1_KB_END_def
  S1_KB_PAGEUP_def S1_KB_PAGEDOWN_def S1_KB_F1_def S1_KB_F2_def S1_KB_F3_def
  S1_KB_F4_def S1_KB_F5_def S1_KB_F6_def S1_KB_F7_def S1_KB_F8_def
  S1_KB_F9_def S1_KB_F10_def S1_KB_F11_def S1_KB_F12_def

definition KBLAYOUT_US :: "byte list" where
  "KBLAYOUT_US =
     [96, 126, 0, 0, 49, 33, 50, 64, 51, 35, 52, 36, 53, 37, 54, 94,
      55, 38, 56, 42, 57, 40, 48, 41, 45, 95, 61, 43, 8, 8, 32, 32,
      113, 81, 119, 87, 101, 69, 114, 82, 116, 84, 121, 89, 117, 85, 105, 73,
      111, 79, 112, 80, 91, 123, 93, 125, 10, 10, 0, 0, 97, 65, 115, 83,
      100, 68, 102, 70, 103, 71, 104, 72, 106, 74, 107, 75, 108, 76, 59, 58,
      39, 34, 96, 126, 0, 0, 92, 124, 122, 90, 120, 88, 99, 67, 118, 86,
      98, 66, 110, 78, 109, 77, 44, 60, 46, 62, 47, 63, 0, 0, 0, 0,
      0, 0, 32, 32, 0, 0, 0, 0, 0, 0, 0, 0, 0, 0, 0, 0]"

definition KB_CSI :: "byte list" where "KB_CSI = [27, 91]"

definition sequences :: "(int \<times> byte list) list" where
  "sequences =
     [(S1_KB_UP, KB_CSI @ bytes ''A''),
      (S1_KB_DOWN, KB_CSI @ bytes ''B''),
      (S1_KB_RIGHT, KB_CSI @ bytes ''C''),
      (S1_KB_LEFT, KB_CSI @ bytes ''D''),
      (S1_KB_HOME, KB_CSI @ bytes ''1~''),
      (S1_KB_INSERT, KB_CSI @ bytes ''2~''),
      (S1_KB_DELETE, KB_CSI @ bytes ''3~''),
      (S1_KB_END, KB_CSI @ bytes ''4~''),
      (S1_KB_PAGEUP, KB_CSI @ bytes ''5~''),
      (S1_KB_PAGEDOWN, KB_CSI @ bytes ''6~''),
      (S1_KB_F1, KB_CSI @ bytes ''OP''),
      (S1_KB_F2, KB_CSI @ bytes ''OQ''),
      (S1_KB_F3, KB_CSI @ bytes ''OR''),
      (S1_KB_F4, KB_CSI @ bytes ''OS''),
      (S1_KB_F5, KB_CSI @ bytes ''15~''),
      (S1_KB_F6, KB_CSI @ bytes ''17~''),
      (S1_KB_F7, KB_CSI @ bytes ''18~''),
      (S1_KB_F8, KB_CSI @ bytes ''19~''),
      (S1_KB_F9, KB_CSI @ bytes ''20~''),
      (S1_KB_F10, KB_CSI @ bytes ''21~''),
      (S1_KB_F11, KB_CSI @ bytes ''23~''),
      (S1_KB_F12, KB_CSI @ bytes ''24~'')]"

record kbd =
  leftShift :: bool
  rightShift :: bool
  capsLock :: bool
  leftControl :: bool
  rightControl :: bool

text \<open>The first half of \<open>getCharFromKey\<close>: the static variables for the modifier keys.\<close>

definition modifiers :: "int \<Rightarrow> kbd \<Rightarrow> kbd" where
  "modifiers key k =
     (if key = S1_KB_LSHIFT then k\<lparr>leftShift := True\<rparr>
      else if key = S1_KB_RSHIFT then k\<lparr>rightShift := True\<rparr>
      else if key = S1_KB_CAPSLOCK then k\<lparr>capsLock := \<not> capsLock k\<rparr>
      else if key = S1_KB_LCONTROL then k\<lparr>leftControl := True\<rparr>
      else if key = S1_KB_RCONTROL then k\<lparr>rightControl := True\<rparr>
      else if key = - S1_KB_LSHIFT then k\<lparr>leftShift := False\<rparr>
      else if key = - S1_KB_RSHIFT then k\<lparr>rightShift := False\<rparr>
      else if key = - S1_KB_LCONTROL then k\<lparr>leftControl := False\<rparr>
      else if key = - S1_KB_RCONTROL then k\<lparr>rightControl := False\<rparr>
      else k)"

definition getCharFromKey :: "int \<Rightarrow> kbd \<Rightarrow> byte \<times> kbd" where
  "getCharFromKey key k =
     (let k = modifiers key k in
      if key < 0 then (0, k)
      else
        let index = 2 * nat key + (if (leftShift k \<or> rightShift k) \<noteq> capsLock k then 1 else 0);
            result = (if index < length KBLAYOUT_US then KBLAYOUT_US ! index
                      else if key = S1_KB_NUMPAD_ENTER then 10
                      else if key = S1_KB_NUMPAD_DIV then 47
                      else 0)
        in (if leftControl k \<or> rightControl k then result AND 0x1F else result, k))"

definition getSequenceFromkey :: "int \<Rightarrow> byte list option" where
  "getSequenceFromkey key = map_of sequences key"

text \<open>The interrupt handler; the result is the key for the listener, if any.\<close>

datatype ps2_state = STATE_NORMAL | STATE_ESCAPED

record ps2kbd =
  ps2_mode :: ps2_state
  ledState :: byte
  ps2_listener :: bool
  ps2_commands :: "(byte \<times> byte) list"

definition handleKey :: "int \<Rightarrow> ps2kbd \<Rightarrow> int option \<times> ps2kbd" where
  "handleKey keycode st =
     (let newLed = (if keycode = 0x45 then ledState st XOR 2
                    else if keycode = 0x3A then ledState st XOR 4
                    else if keycode = 0x46 then ledState st XOR 1
                    else ledState st);
          st = (if newLed \<noteq> ledState st
                then st\<lparr>ledState := newLed, ps2_commands := ps2_commands st @ [(0xED, newLed)]\<rparr> else st)
      in (if ps2_listener st then Some keycode else None, st))"

definition irqHandler :: "byte \<Rightarrow> ps2kbd \<Rightarrow> int option \<times> ps2kbd" where
  "irqHandler data st =
     (if data = 0xFA \<or> data = 0xFE then (None, st)
      else if data = 0xE0 then (None, st\<lparr>ps2_mode := STATE_ESCAPED\<rparr>)
      else
        let (keycode, st) = (case ps2_mode st of
              STATE_NORMAL \<Rightarrow> (uint (data AND 0x7F), st)
            | STATE_ESCAPED \<Rightarrow> (uint (data OR 0x80), st\<lparr>ps2_mode := STATE_NORMAL\<rparr>));
            released = data AND 0x80 \<noteq> 0
        in handleKey (if released then - keycode else keycode) st)"

end
