(* ===== verification/Kernel_Terminal.thy ===== *)
theory Kernel_Terminal
  imports Kernel_Vga Kernel_Keyboard
begin

text \<open>
  The terminal device: \<open>kernel/src/terminal.cpp\<close>.  Characters from the keyboard go through the line
  discipline into a circular buffer, from which \<open>read\<close> takes them; with echo they are printed on
  the VGA terminal.  A \<open>write\<close> to a full buffer waits for a reader inside the interrupt handler:
  \<open>None\<close> stands for this wait, which does not end.
\<close>

section \<open>Definitions\<close>

definition CIRCULAR_BUFFER_SIZE :: u32 where "CIRCULAR_BUFFER_SIZE = 4096"

record TerminalBuffer =
  circularBuffer :: "u32 \<Rightarrow> byte"
  readIndex :: u32
  lineIndex :: u32
  writeIndex :: u32

definition buffer_reset :: "TerminalBuffer \<Rightarrow> TerminalBuffer" where
  "buffer_reset b = b\<lparr>readIndex := 0, lineIndex := 0, writeIndex := 0\<rparr>"

definition available :: "TerminalBuffer \<Rightarrow> u32" where
  "available b = (if lineIndex b \<ge> readIndex b then lineIndex b - readIndex b else readIndex b - lineIndex b)"

definition buffer_backspace :: "TerminalBuffer \<Rightarrow> bool \<times> TerminalBuffer" where
  "buffer_backspace b =
     (if lineIndex b = writeIndex b then (False, b)
      else if writeIndex b \<noteq> 0 then (True, b\<lparr>writeIndex := (writeIndex b - 1) mod CIRCULAR_BUFFER_SIZE\<rparr>)
      else (True, b\<lparr>writeIndex := CIRCULAR_BUFFER_SIZE - 1\<rparr>))"

definition buffer_write :: "byte \<Rightarrow> TerminalBuffer \<Rightarrow> TerminalBuffer option" where
  "buffer_write c b =
     (if (writeIndex b + 1) mod CIRCULAR_BUFFER_SIZE = readIndex b then None
      else Some (b\<lparr>circularBuffer := (circularBuffer b)(writeIndex b := c),
                   writeIndex := (writeIndex b + 1) mod CIRCULAR_BUFFER_SIZE\<rparr>))"

definition buffer_read :: "TerminalBuffer \<Rightarrow> byte \<times> TerminalBuffer" where
  "buffer_read b = (circularBuffer b (readIndex b), b\<lparr>readIndex := (readIndex b + 1) mod CIRCULAR_BUFFER_SIZE\<rparr>)"

definition endLine :: "TerminalBuffer \<Rightarrow> TerminalBuffer" where
  "endLine b = b\<lparr>lineIndex := writeIndex b\<rparr>"

definition hasIncompleteLine :: "TerminalBuffer \<Rightarrow> bool" where
  "hasIncompleteLine b \<longleftrightarrow> lineIndex b \<noteq> writeIndex b"

definition ECHO :: u32 where "ECHO = 1"
definition ICANON :: u32 where "ICANON = 2"
definition VEOF :: nat where "VEOF = 0"
definition VEOL :: nat where "VEOL = 1"
definition VERASE :: nat where "VERASE = 2"
definition VINTR :: nat where "VINTR = 3"
definition VKILL :: nat where "VKILL = 4"
definition VMIN :: nat where "VMIN = 5"
definition VQUIT :: nat where "VQUIT = 6"
definition VSTART :: nat where "VSTART = 7"
definition VSTOP :: nat where "VSTOP = 8"
definition VSUSP :: nat where "VSUSP = 9"
definition VTIME :: nat where "VTIME = 10"
definition TCSAFLUSH :: int where "TCSAFLUSH = 0"

lemmas termios_consts = ECHO_def ICANON_def VEOF_def VEOL_def VERASE_def VINTR_def VKILL_def VMIN_def
  VQUIT_def VSTART_def VSTOP_def VSUSP_def VTIME_def TCSAFLUSH_def

record termios =
  c_iflag :: u32
  c_oflag :: u32
  c_cflag :: u32
  c_lflag :: u32
  c_cc :: "byte list"

record terminal =
  terminalBuffer :: TerminalBuffer
  termio :: termios
  numEof :: u32
  tvga :: vga
  tkbd :: kbd

definition CTRL :: "byte \<Rightarrow> byte" where "CTRL c = c AND 0x1F"

text \<open>The constructor: the control characters in the order of their indices.\<close>

definition default_termios :: termios where
  "default_termios = \<lparr>c_iflag = 0, c_oflag = 0, c_cflag = 0, c_lflag = ECHO OR ICANON,
     c_cc = [CTRL 68, 0, 8, CTRL 67, CTRL 85, 1, CTRL 92, CTRL 81, CTRL 83, CTRL 90, 0]\<rparr>"

definition Terminal_new :: "(u32 \<Rightarrow> byte) \<Rightarrow> vga \<Rightarrow> kbd \<Rightarrow> terminal" where
  "Terminal_new contents v k =
     \<lparr>terminalBuffer = buffer_reset \<lparr>circularBuffer = contents, readIndex = 0, lineIndex = 0, writeIndex = 0\<rparr>,
      termio = default_termios, numEof = 0, tvga = v, tkbd = k\<rparr>"

text \<open>\<open>c == termio.c_cc[i]\<close>: a signed character compared with an unsigned one.\<close>

definition is_cc :: "nat \<Rightarrow> byte \<Rightarrow> terminal \<Rightarrow> bool" where
  "is_cc i c st \<longleftrightarrow> sint c = uint (c_cc (termio st) ! i)"

definition canonical :: "terminal \<Rightarrow> bool" where
  "canonical st \<longleftrightarrow> c_lflag (termio st) AND ICANON \<noteq> 0"

definition echo :: "terminal \<Rightarrow> bool" where
  "echo st \<longleftrightarrow> c_lflag (termio st) AND ECHO \<noteq> 0"

definition echo_char :: "byte \<Rightarrow> terminal \<Rightarrow> terminal" where
  "echo_char c st = (if echo st then st\<lparr>tvga := printCharacterRaw c (tvga st)\<rparr> else st)"

definition put_char :: "byte \<Rightarrow> terminal \<Rightarrow> terminal option" where
  "put_char c st = map_option (\<lambda>b. st\<lparr>terminalBuffer := b\<rparr>) (buffer_write c (terminalBuffer st))"

definition end_line :: "terminal \<Rightarrow> terminal" where
  "end_line st = st\<lparr>terminalBuffer := endLine (terminalBuffer st)\<rparr>"

definition handleCharacter :: "byte \<Rightarrow> terminal \<Rightarrow> terminal option" where
  "handleCharacter c st =
     (if canonical st then
        if is_cc VEOF c st then
          Some (if hasIncompleteLine (terminalBuffer st) then end_line st else st\<lparr>numEof := numEof st + 1\<rparr>)
        else if is_cc VEOL c st then Some st
        else if is_cc VERASE c st then
          (let (erased, b) = buffer_backspace (terminalBuffer st); st = st\<lparr>terminalBuffer := b\<rparr> in
           Some (if erased \<and> echo st then st\<lparr>tvga := VgaTerminal_backspace (tvga st)\<rparr> else st))
        else if is_cc VINTR c st \<or> is_cc VKILL c st \<or> is_cc VQUIT c st \<or> is_cc VSTART c st \<or>
                is_cc VSTOP c st \<or> is_cc VSUSP c st then Some st
        else map_option (\<lambda>st. if c = 10 then end_line st else st) (put_char c (echo_char c st))
      else map_option end_line (put_char c (echo_char c st)))"

fun put_sequence :: "byte list \<Rightarrow> terminal \<Rightarrow> terminal option" where
  "put_sequence [] st = Some st"
| "put_sequence (c # cs) st = Option.bind (put_char c (echo_char c st)) (put_sequence cs)"

definition handleSequence :: "byte list \<Rightarrow> terminal \<Rightarrow> terminal option" where
  "handleSequence sequence st =
     (if \<not> canonical st then map_option end_line (put_sequence sequence st) else Some st)"

definition onKeyboardEvent :: "int \<Rightarrow> terminal \<Rightarrow> terminal option" where
  "onKeyboardEvent key st =
     (let (c, k) = getCharFromKey key (tkbd st); st = st\<lparr>tkbd := k\<rparr> in
      map_option (\<lambda>st. st\<lparr>tvga := updateCursorPosition (tvga st)\<rparr>)
        (if c \<noteq> 0 then handleCharacter c st
         else case getSequenceFromkey key of Some s \<Rightarrow> handleSequence s st | None \<Rightarrow> Some st))"

text \<open>
  \<open>Terminal::read\<close>: \<open>Yield\<close> is a call of \<open>sched_yield\<close> with what was read so far; after it the loop
  goes on with the state that the interrupts have left.
\<close>

datatype read_outcome = Returned "byte list" terminal | Yield "byte list" terminal

function read_loop :: "u32 \<Rightarrow> byte list \<Rightarrow> terminal \<Rightarrow> read_outcome" where
  "read_loop sz buf st =
     (if length buf < unat sz then
        if available (terminalBuffer st) = 0 \<and> numEof st = 0 then
          if (if canonical st then buf \<noteq> [] else length buf \<ge> unat (c_cc (termio st) ! VMIN))
          then Returned buf st else Yield buf st
        else if numEof st \<noteq> 0 then
          if buf \<noteq> [] then Returned buf st else Returned [] (st\<lparr>numEof := numEof st - 1\<rparr>)
        else
          let (c, b) = buffer_read (terminalBuffer st); st = st\<lparr>terminalBuffer := b\<rparr> in
          if canonical st \<and> c = 10 then Returned (buf @ [c]) st else read_loop sz (buf @ [c]) st
      else Returned buf st)"
  by pat_completeness auto
termination
  by (relation "measure (\<lambda>(sz, buf, st). unat sz - length buf)") auto

declare read_loop.simps [simp del]

definition Terminal_read :: "u32 \<Rightarrow> terminal \<Rightarrow> read_outcome" where
  "Terminal_read sz st = read_loop sz [] st"

definition Terminal_write :: "byte list \<Rightarrow> terminal \<Rightarrow> int \<times> terminal" where
  "Terminal_write buffer st =
     (sint (w32 (length buffer)), st\<lparr>tvga := updateCursorPosition (fold printCharacter buffer (tvga st))\<rparr>)"

definition Terminal_tcgetattr :: "terminal \<Rightarrow> termios" where
  "Terminal_tcgetattr st = termio st"

definition Terminal_tcsetattr :: "int \<Rightarrow> termios \<Rightarrow> terminal \<Rightarrow> terminal" where
  "Terminal_tcsetattr flags t st =
     (let st = st\<lparr>termio := t\<rparr> in
      if flags = TCSAFLUSH then st\<lparr>terminalBuffer := buffer_reset (terminalBuffer st), numEof := 0\<rparr> else st)"

definition initTerminal :: "terminal \<Rightarrow> terminal" where
  "initTerminal st = st\<lparr>tvga := VgaTerminal_init (tvga st)\<rparr>"

definition warnTerminal :: "terminal \<Rightarrow> terminal" where
  "warnTerminal st = st\<lparr>tvga := VgaTerminal_warnTerminal (tvga st)\<rparr>"

section \<open>The circular buffer\<close>

text \<open>
  The contract of the buffer: a queue of characters of finished lines and the characters of the
  line being edited.
\<close>

locale line_buffer =
  fixes lines :: "'b \<Rightarrow> byte list" and pending :: "'b \<Rightarrow> byte list" and valid :: "'b \<Rightarrow> bool"
    and avail :: "'b \<Rightarrow> u32" and incomplete :: "'b \<Rightarrow> bool"
    and add :: "byte \<Rightarrow> 'b \<Rightarrow> 'b option" and erase :: "'b \<Rightarrow> bool \<times> 'b" and commit :: "'b \<Rightarrow> 'b" and take1 :: "'b \<Rightarrow> byte \<times> 'b"
    and capacity :: nat
  assumes avail_0: "valid b \<Longrightarrow> avail b = 0 \<longleftrightarrow> lines b = []"
    and incomplete_iff: "valid b \<Longrightarrow> incomplete b \<longleftrightarrow> pending b \<noteq> []"
    and add_room: "valid b \<Longrightarrow> length (lines b) + length (pending b) < capacity \<Longrightarrow>
      \<exists>b'. add c b = Some b' \<and> valid b' \<and> lines b' = lines b \<and> pending b' = pending b @ [c]"
    and add_full: "valid b \<Longrightarrow> length (lines b) + length (pending b) = capacity \<Longrightarrow> add c b = None"
    and bounded: "valid b \<Longrightarrow> length (lines b) + length (pending b) \<le> capacity"
    and erase_law: "valid b \<Longrightarrow> erase b = (e, b') \<Longrightarrow>
      e = (pending b \<noteq> []) \<and> valid b' \<and> lines b' = lines b \<and> pending b' = butlast (pending b)"
    and commit_law: "valid b \<Longrightarrow> valid (commit b) \<and> lines (commit b) = lines b @ pending b \<and> pending (commit b) = []"
    and take_law: "valid b \<Longrightarrow> lines b = c # cs \<Longrightarrow> \<exists>b'. take1 b = (c, b') \<and> valid b' \<and> lines b' = cs \<and> pending b' = pending b"
begin

text \<open>A line typed into the buffer comes out again, after what was there before.\<close>

lemma add_all:
  assumes "valid b" "length (lines b) + length (pending b) + length cs \<le> capacity"
  shows "\<exists>b'. fold (\<lambda>c r. Option.bind r (add c)) cs (Some b) = Some b' \<and> valid b' \<and> lines b' = lines b \<and>
    pending b' = pending b @ cs"
  using assms
proof (induction cs arbitrary: b)
  case (Cons c cs)
  then obtain b1 where b1: "add c b = Some b1" "valid b1" "lines b1 = lines b" "pending b1 = pending b @ [c]"
    using add_room [of b c] by auto
  then show ?case using Cons.IH [of b1] Cons.prems by auto
qed simp

end

definition idx :: "nat \<Rightarrow> u32" where "idx n = w32 (n mod 4096)"

text \<open>The characters of the buffer from index \<open>i\<close> up to index \<open>j\<close>.\<close>

definition dist :: "u32 \<Rightarrow> u32 \<Rightarrow> nat" where
  "dist i j = (unat j + 4096 - unat i) mod 4096"

definition between :: "TerminalBuffer \<Rightarrow> u32 \<Rightarrow> u32 \<Rightarrow> byte list" where
  "between b i j = map (\<lambda>k. circularBuffer b (idx (unat i + k))) [0..<dist i j]"

definition buffer_ok :: "TerminalBuffer \<Rightarrow> bool" where
  "buffer_ok b \<longleftrightarrow> unat (readIndex b) < 4096 \<and> unat (lineIndex b) < 4096 \<and> unat (writeIndex b) < 4096 \<and>
     dist (readIndex b) (lineIndex b) + dist (lineIndex b) (writeIndex b) \<le> 4095"

definition buffer_lines :: "TerminalBuffer \<Rightarrow> byte list" where
  "buffer_lines b = between b (readIndex b) (lineIndex b)"

definition buffer_pending :: "TerminalBuffer \<Rightarrow> byte list" where
  "buffer_pending b = between b (lineIndex b) (writeIndex b)"

text \<open>The indices as positions in an endless sequence of cells.\<close>

definition buffer_at :: "TerminalBuffer \<Rightarrow> nat \<Rightarrow> nat \<Rightarrow> nat \<Rightarrow> bool" where
  "buffer_at b r m n \<longleftrightarrow> readIndex b = idx r \<and> lineIndex b = idx (r + m) \<and> writeIndex b = idx (r + m + n) \<and> m + n \<le> 4095"

lemma unat_idx: "unat (idx n) = n mod 4096"
proof -
  have "n mod 4096 < 4096" by simp
  then have "n mod 4096 < 4294967296" by linarith
  then show ?thesis by (simp add: idx_def unat_w32)
qed

lemma idx_eq_iff: "idx a = idx b \<longleftrightarrow> a mod 4096 = b mod 4096"
  by (metis unat_idx idx_def)

lemma idx_offset_eq: "i < 4096 \<Longrightarrow> j < 4096 \<Longrightarrow> idx (r + i) = idx (r + j) \<longleftrightarrow> i = j"
proof -
  assume ij: "i < 4096" "j < 4096"
  have "(r + i) mod 4096 = (r + j) mod 4096 \<longleftrightarrow> i mod 4096 = j mod 4096"
    unfolding nat_mod_eq_iff by (simp add: add.assoc)
  then show ?thesis using ij by (simp add: idx_eq_iff)
qed

lemma idx_Suc: "(idx n + 1) mod CIRCULAR_BUFFER_SIZE = idx (Suc n)"
proof -
  have "unat (idx n + 1) = n mod 4096 + 1"
    using unat_idx [of n] by (simp add: unat_word_ariths)
  then have "unat ((idx n + 1) mod CIRCULAR_BUFFER_SIZE) = (n mod 4096 + 1) mod 4096"
    by (simp add: CIRCULAR_BUFFER_SIZE_def unat_mod)
  also have "\<dots> = Suc n mod 4096" by (simp add: mod_Suc_eq)
  finally show ?thesis using unat_idx [of "Suc n"] by (metis w32_unat)
qed

lemma idx_pred:
  assumes "n = Suc k"
  shows "idx n = 0 \<Longrightarrow> CIRCULAR_BUFFER_SIZE - 1 = idx k"
    "idx n \<noteq> 0 \<Longrightarrow> (idx n - 1) mod CIRCULAR_BUFFER_SIZE = idx k"
proof -
  have ms: "Suc k mod 4096 = (if Suc (k mod 4096) = 4096 then 0 else Suc (k mod 4096))" by (rule mod_Suc)
  have u: "unat (idx n) = (if Suc (k mod 4096) = 4096 then 0 else Suc (k mod 4096))" by (simp only: unat_idx assms ms)
  show "CIRCULAR_BUFFER_SIZE - 1 = idx k" if "idx n = 0"
  proof -
    have "unat (idx n) = 0" using that by simp
    then have "k mod 4096 = 4095" using u by (cases "Suc (k mod 4096) = 4096") auto
    then show ?thesis by (simp only: idx_def) (simp add: CIRCULAR_BUFFER_SIZE_def w32_def)
  qed
  show "(idx n - 1) mod CIRCULAR_BUFFER_SIZE = idx k" if "idx n \<noteq> 0"
  proof -
    have "unat (idx n) \<noteq> 0" using that by (simp only: unat_eq_zero) simp
    then have "unat (idx n) = Suc (k mod 4096)" using u by presburger
    then have "unat (idx n - 1) = k mod 4096" using unat_minus_one [OF that] by simp
    then have "unat ((idx n - 1) mod 4096) = unat (idx k)" by (simp only: unat_mod unat_idx) simp
    then have "w32 (unat ((idx n - 1) mod 4096)) = w32 (unat (idx k))" by (rule arg_cong)
    then show ?thesis unfolding CIRCULAR_BUFFER_SIZE_def w32_unat .
  qed
qed

lemma dist_idx: "m < 4096 \<Longrightarrow> dist (idx r) (idx (r + m)) = m"
proof -
  assume m: "m < 4096"
  have "(r + m) mod 4096 + 4096 - r mod 4096 = (if r mod 4096 + m < 4096 then m + 4096 else m)"
    using m mod_add_left_eq [of r 4096 m] by (auto simp: mod_if [of "r mod 4096 + m"])
  then show ?thesis using m by (simp add: dist_def unat_idx)
qed

lemma buffer_at_lists:
  assumes "buffer_at b r m n"
  shows "buffer_lines b = map (\<lambda>k. circularBuffer b (idx (r + k))) [0..<m]"
    "buffer_pending b = map (\<lambda>k. circularBuffer b (idx (r + m + k))) [0..<n]"
proof -
  have idx: "idx (unat (idx i) + k) = idx (i + k)" for i k by (simp add: unat_idx idx_eq_iff mod_add_left_eq)
  show "buffer_lines b = map (\<lambda>k. circularBuffer b (idx (r + k))) [0..<m]"
    "buffer_pending b = map (\<lambda>k. circularBuffer b (idx (r + m + k))) [0..<n]"
    using assms by (simp_all add: buffer_at_def buffer_lines_def buffer_pending_def between_def dist_idx idx)
qed

lemma buffer_ok_iff: "buffer_ok b \<longleftrightarrow> (\<exists>r m n. buffer_at b r m n)"
proof
  assume ok: "buffer_ok b"
  have idx: "idx (unat i) = i" if "unat i < 4096" for i using that by (simp add: idx_def)
  have step: "j = idx (unat i + dist i j)" if "unat i < 4096" "unat j < 4096" for i j
  proof -
    have "(unat i + dist i j) mod 4096 = (unat i + (unat j + 4096 - unat i)) mod 4096" by (simp add: dist_def mod_add_right_eq)
    then have "idx (unat i + dist i j) = idx (unat j)" using that by (simp add: idx_eq_iff)
    then show ?thesis using idx [OF that(2)] by simp
  qed
  let ?r = "readIndex b" and ?l = "lineIndex b" and ?w = "writeIndex b"
  have bounds: "unat ?r < 4096" "unat ?l < 4096" "unat ?w < 4096" "dist ?r ?l + dist ?l ?w \<le> 4095"
    using ok by (simp_all add: buffer_ok_def)
  have l: "?l = idx (unat ?r + dist ?r ?l)" by (rule step [OF bounds(1,2)])
  have "?w = idx (unat ?l + dist ?l ?w)" by (rule step [OF bounds(2,3)])
  also have "\<dots> = idx (unat ?r + dist ?r ?l + dist ?l ?w)"
    using arg_cong [OF l, of unat] by (simp add: unat_idx idx_eq_iff) (metis mod_add_left_eq)
  finally have "buffer_at b (unat ?r) (dist ?r ?l) (dist ?l ?w)"
    using l idx [OF bounds(1)] bounds(4) by (simp add: buffer_at_def)
  then show "\<exists>r m n. buffer_at b r m n" by blast
next
  assume "\<exists>r m n. buffer_at b r m n"
  then obtain r m n where "buffer_at b r m n" by blast
  then show "buffer_ok b"
    using dist_idx [of m r] dist_idx [of n "r + m"] by (simp add: buffer_ok_def buffer_at_def unat_idx)
qed

lemma buffer_write_at:
  assumes "buffer_at b r m n" "m + n < 4095"
  shows "\<exists>b'. buffer_write c b = Some b' \<and> buffer_at b' r m (Suc n) \<and> buffer_lines b' = buffer_lines b \<and>
    buffer_pending b' = buffer_pending b @ [c]"
proof -
  have at: "readIndex b = idx r" "writeIndex b = idx (r + (m + n))" using assms(1) by (simp_all add: buffer_at_def add.assoc)
  have "idx (r + Suc (m + n)) \<noteq> idx (r + 0)" using assms(2) by (subst idx_offset_eq) auto
  then have run: "buffer_write c b = Some (b\<lparr>circularBuffer := (circularBuffer b)(writeIndex b := c), writeIndex := idx (r + Suc (m + n))\<rparr>)"
    by (simp add: buffer_write_def at idx_Suc)
  let ?b = "b\<lparr>circularBuffer := (circularBuffer b)(writeIndex b := c), writeIndex := idx (r + Suc (m + n))\<rparr>"
  have at': "buffer_at ?b r m (Suc n)" using assms by (simp add: buffer_at_def add.assoc)
  have other: "idx (r + k) \<noteq> writeIndex b" if "k < m + n" for k
    unfolding at using idx_offset_eq [of k "m + n" r] that assms(2) by auto
  have "buffer_lines ?b = buffer_lines b"
    unfolding buffer_at_lists [OF at'] buffer_at_lists [OF assms(1)] using other by simp
  moreover have "buffer_pending ?b = buffer_pending b @ [c]"
    unfolding buffer_at_lists [OF at'] buffer_at_lists [OF assms(1)] using other at(2) by (simp add: add.assoc)
  ultimately show ?thesis using run at' by blast
qed

lemma buffer_at_facts:
  assumes "buffer_at b r m n"
  shows "length (buffer_lines b) = m" "length (buffer_pending b) = n" "m + n \<le> 4095"
    "lineIndex b = readIndex b \<longleftrightarrow> m = 0" "lineIndex b = writeIndex b \<longleftrightarrow> n = 0"
    "readIndex b = idx r" "lineIndex b = idx (r + m)" "writeIndex b = idx (r + m + n)"
proof -
  note i = assms [unfolded buffer_at_def]
  show "length (buffer_lines b) = m" "length (buffer_pending b) = n" by (simp_all add: buffer_at_lists [OF assms])
  show "lineIndex b = readIndex b \<longleftrightarrow> m = 0" using idx_offset_eq [of m 0 r] i by simp
  show "lineIndex b = writeIndex b \<longleftrightarrow> n = 0" using idx_offset_eq [of 0 n "r + m"] i by auto
qed (use assms in \<open>simp_all add: buffer_at_def\<close>)

lemma endLine_at:
  assumes "buffer_at b r m n"
  shows "buffer_at (endLine b) r (m + n) 0" "buffer_lines (endLine b) = buffer_lines b @ buffer_pending b"
    "buffer_pending (endLine b) = []"
proof -
  show at': "buffer_at (endLine b) r (m + n) 0" using assms by (simp add: buffer_at_def endLine_def add.assoc)
  have "[0..<m + n] = [0..<m] @ map (\<lambda>k. m + k) [0..<n]"
    by (simp add: upt_add_eq_append [of 0 m n, simplified] map_add_upt add.commute)
  then show "buffer_lines (endLine b) = buffer_lines b @ buffer_pending b"
    unfolding buffer_at_lists [OF at'] buffer_at_lists [OF assms] by (simp add: endLine_def add.assoc)
  show "buffer_pending (endLine b) = []" unfolding buffer_at_lists [OF at'] by simp
qed

lemma buffer_backspace_at:
  assumes at: "buffer_at b r m (Suc n)"
  shows "buffer_backspace b = (True, b\<lparr>writeIndex := idx (r + m + n)\<rparr>)"
    "buffer_at (b\<lparr>writeIndex := idx (r + m + n)\<rparr>) r m n"
    "buffer_lines (b\<lparr>writeIndex := idx (r + m + n)\<rparr>) = buffer_lines b"
    "buffer_pending (b\<lparr>writeIndex := idx (r + m + n)\<rparr>) = butlast (buffer_pending b)"
proof -
  note f = buffer_at_facts [OF at]
  have pred: "r + m + Suc n = Suc (r + m + n)" by simp
  have "lineIndex b \<noteq> writeIndex b" using f(5) by simp
  then show "buffer_backspace b = (True, b\<lparr>writeIndex := idx (r + m + n)\<rparr>)"
    using idx_pred [OF pred] f(8) by (cases "writeIndex b = 0") (simp_all add: buffer_backspace_def)
  show at': "buffer_at (b\<lparr>writeIndex := idx (r + m + n)\<rparr>) r m n" using at by (simp add: buffer_at_def)
  show "buffer_lines (b\<lparr>writeIndex := idx (r + m + n)\<rparr>) = buffer_lines b"
    "buffer_pending (b\<lparr>writeIndex := idx (r + m + n)\<rparr>) = butlast (buffer_pending b)"
    unfolding buffer_at_lists [OF at] buffer_at_lists [OF at'] by simp_all
qed

lemma buffer_read_at:
  assumes at: "buffer_at b r (Suc m) n"
  shows "buffer_read b = (circularBuffer b (idx r), b\<lparr>readIndex := idx (Suc r)\<rparr>)"
    "buffer_at (b\<lparr>readIndex := idx (Suc r)\<rparr>) (Suc r) m n"
    "buffer_lines b = circularBuffer b (idx r) # buffer_lines (b\<lparr>readIndex := idx (Suc r)\<rparr>)"
    "buffer_pending (b\<lparr>readIndex := idx (Suc r)\<rparr>) = buffer_pending b"
proof -
  show "buffer_read b = (circularBuffer b (idx r), b\<lparr>readIndex := idx (Suc r)\<rparr>)"
    using at by (simp add: buffer_read_def buffer_at_def idx_Suc)
  show at': "buffer_at (b\<lparr>readIndex := idx (Suc r)\<rparr>) (Suc r) m n" using at by (simp add: buffer_at_def)
  have "map (\<lambda>k. circularBuffer b (idx (r + k))) [0..<Suc m] =
      circularBuffer b (idx r) # map (\<lambda>k. circularBuffer b (idx (Suc r + k))) [0..<m]"
    by (subst upt_conv_Cons) (simp_all add: map_Suc_upt [symmetric] comp_def del: upt_Suc)
  then show "buffer_lines b = circularBuffer b (idx r) # buffer_lines (b\<lparr>readIndex := idx (Suc r)\<rparr>)"
    unfolding buffer_at_lists [OF at] buffer_at_lists [OF at'] by simp
  show "buffer_pending (b\<lparr>readIndex := idx (Suc r)\<rparr>) = buffer_pending b"
    unfolding buffer_at_lists [OF at] buffer_at_lists [OF at'] by simp
qed

lemma buffer_okE:
  assumes "buffer_ok b"
  obtains r m n where "buffer_at b r m n"
  using assms buffer_ok_iff by blast

lemma buffer_okI: "buffer_at b r m n \<Longrightarrow> buffer_ok b"
  using buffer_ok_iff by blast

lemma buffer_write_full:
  assumes at: "buffer_at b r m n" and "m + n = 4095"
  shows "buffer_write c b = None"
proof -
  have "idx (Suc (r + m + n)) = idx r" using assms(2) by (simp add: idx_eq_iff add.assoc flip: add_Suc_right)
  then show ?thesis using buffer_at_facts [OF at] idx_Suc [of "r + m + n"] by (simp add: buffer_write_def)
qed

interpretation tb: line_buffer buffer_lines buffer_pending buffer_ok available hasIncompleteLine
  buffer_write buffer_backspace endLine buffer_read 4095
proof (unfold_locales, goal_cases)
  case (1 b)
  then obtain r m n where at: "buffer_at b r m n" by (rule buffer_okE)
  have "available b = 0 \<longleftrightarrow> lineIndex b = readIndex b" by (auto simp: available_def)
  then show ?case using buffer_at_facts(1,4) [OF at] by auto
next
  case (2 b)
  then obtain r m n where at: "buffer_at b r m n" by (rule buffer_okE)
  show ?case using buffer_at_facts(2,5) [OF at] by (auto simp: hasIncompleteLine_def)
next
  case (3 b c)
  obtain r m n where at: "buffer_at b r m n" using 3(1) by (rule buffer_okE)
  then show ?case using buffer_write_at [OF at, of c] 3(2) buffer_at_facts(1,2) [OF at] buffer_okI by metis
next
  case (4 b c)
  obtain r m n where at: "buffer_at b r m n" using 4(1) by (rule buffer_okE)
  then show ?case using buffer_write_full [OF at] 4(2) buffer_at_facts(1,2) [OF at] by simp
next
  case (5 b)
  then obtain r m n where at: "buffer_at b r m n" by (rule buffer_okE)
  show ?case using buffer_at_facts(1-3) [OF at] by simp
next
  case (6 b e b')
  obtain r m n where at: "buffer_at b r m n" using 6(1) by (rule buffer_okE)
  show ?case
  proof (cases n)
    case 0
    then have "buffer_pending b = []" "lineIndex b = writeIndex b" using buffer_at_facts(2,5) [OF at] by auto
    then show ?thesis using 6 by (simp add: buffer_backspace_def)
  next
    case (Suc n')
    have "buffer_pending b \<noteq> []" using buffer_at_facts(2) [OF at] Suc by auto
    then show ?thesis using buffer_backspace_at [OF at [unfolded Suc]] 6(2) buffer_okI by auto
  qed
next
  case (7 b)
  then obtain r m n where at: "buffer_at b r m n" by (rule buffer_okE)
  show ?case using endLine_at [OF at] buffer_okI by auto
next
  case (8 b c cs)
  obtain r m n where at: "buffer_at b r m n" using 8(1) by (rule buffer_okE)
  obtain m' where "m = Suc m'" using buffer_at_facts(1) [OF at] 8(2) by (cases m) auto
  then show ?case using buffer_read_at [OF at [unfolded \<open>m = Suc m'\<close>]] 8(2) buffer_okI by auto
qed

section \<open>The line discipline\<close>

text \<open>The reference: the finished lines, and the line being edited.\<close>

definition edit :: "byte \<Rightarrow> byte list \<times> byte list \<Rightarrow> byte list \<times> byte list" where
  "edit c s = (case s of (ls, ps) \<Rightarrow>
     if c = 8 then (ls, butlast ps) else if c = 10 then (ls @ ps @ [10], []) else (ls, ps @ [c]))"

text \<open>Characters without a function of their own: all but the control characters for end of file, signals and flow control.\<close>

definition ordinary :: "byte \<Rightarrow> bool" where
  "ordinary c \<longleftrightarrow> c \<notin> {4, 0, 3, 21, 28, 17, 19, 26}"

definition contents :: "terminal \<Rightarrow> byte list \<times> byte list" where
  "contents st = (buffer_lines (terminalBuffer st), buffer_pending (terminalBuffer st))"

definition terminal_ok :: "terminal \<Rightarrow> bool" where
  "terminal_ok st \<longleftrightarrow> buffer_ok (terminalBuffer st) \<and> termio st = default_termios"

lemma sint_uint_eq: "sint (d :: byte) = uint d \<Longrightarrow> sint (c :: byte) = uint d \<longleftrightarrow> c = d"
  by (metis signed_word_eqI)

lemma is_cc_default:
  assumes "termio st = default_termios"
  shows "is_cc VEOF c st \<longleftrightarrow> c = 4" "is_cc VEOL c st \<longleftrightarrow> c = 0" "is_cc VERASE c st \<longleftrightarrow> c = 8" "is_cc VINTR c st \<longleftrightarrow> c = 3"
    "is_cc VKILL c st \<longleftrightarrow> c = 21" "is_cc VQUIT c st \<longleftrightarrow> c = 28" "is_cc VSTART c st \<longleftrightarrow> c = 17" "is_cc VSTOP c st \<longleftrightarrow> c = 19"
    "is_cc VSUSP c st \<longleftrightarrow> c = 26" "canonical st"
  using sint_uint_eq [of 4 c] sint_uint_eq [of 0 c] sint_uint_eq [of 8 c] sint_uint_eq [of 3 c] sint_uint_eq [of 21 c]
    sint_uint_eq [of 28 c] sint_uint_eq [of 17 c] sint_uint_eq [of 19 c] sint_uint_eq [of 26 c]
  by (simp_all add: is_cc_def assms default_termios_def termios_consts CTRL_def canonical_def)

lemma echo_char_simps [simp]:
  "terminalBuffer (echo_char c st) = terminalBuffer st" "termio (echo_char c st) = termio st" "numEof (echo_char c st) = numEof st"
  by (simp_all add: echo_char_def)

lemma handleCharacter_edit:
  assumes ok: "terminal_ok st" and c: "ordinary c"
    and room: "length (fst (contents st)) + length (snd (contents st)) < 4095"
  shows "\<exists>st'. handleCharacter c st = Some st' \<and> terminal_ok st' \<and> numEof st' = numEof st \<and> contents st' = edit c (contents st)"
proof -
  let ?b = "terminalBuffer st"
  have buf: "buffer_ok ?b" and default: "termio st = default_termios" using ok by (simp_all add: terminal_ok_def)
  note cc = is_cc_default [OF default]
  have plain: "c \<noteq> 4" "c \<noteq> 0" "c \<noteq> 3" "c \<noteq> 21" "c \<noteq> 28" "c \<noteq> 17" "c \<noteq> 19" "c \<noteq> 26"
    using c by (simp_all add: ordinary_def)
  show ?thesis
  proof (cases "c = 8")
    case True
    obtain e b where b: "buffer_backspace ?b = (e, b)" by (cases "buffer_backspace ?b")
    have "handleCharacter c st = Some (if e \<and> echo (st\<lparr>terminalBuffer := b\<rparr>)
        then (st\<lparr>terminalBuffer := b\<rparr>)\<lparr>tvga := VgaTerminal_backspace (tvga st)\<rparr> else st\<lparr>terminalBuffer := b\<rparr>)"
      using True cc b by (simp add: handleCharacter_def Let_def)
    then show ?thesis using tb.erase_law [OF buf b] True default by (simp add: terminal_ok_def contents_def edit_def)
  next
    case False
    obtain b where b: "buffer_write c ?b = Some b" "buffer_ok b" "buffer_lines b = buffer_lines ?b" "buffer_pending b = buffer_pending ?b @ [c]"
      using tb.add_room [OF buf, of c] room by (auto simp: contents_def)
    have run: "handleCharacter c st = Some (if c = 10 then end_line ((echo_char c st)\<lparr>terminalBuffer := b\<rparr>) else (echo_char c st)\<lparr>terminalBuffer := b\<rparr>)"
      using False cc plain b(1) by (simp add: handleCharacter_def put_char_def)
    show ?thesis
      using run tb.commit_law [OF b(2)] b(2-4) default False
      by (auto simp: terminal_ok_def contents_def edit_def end_line_def)
  qed
qed

lemma edit_length: "length (fst (edit c s)) + length (snd (edit c s)) \<le> Suc (length (fst s) + length (snd s))"
  by (cases s) (auto simp: edit_def)

fun type_text :: "byte list \<Rightarrow> terminal \<Rightarrow> terminal option" where
  "type_text [] st = Some st"
| "type_text (c # cs) st = Option.bind (handleCharacter c st) (type_text cs)"

lemma type_text_edit:
  assumes "terminal_ok st" "\<forall>c \<in> set cs. ordinary c"
    and "length (fst (contents st)) + length (snd (contents st)) + length cs \<le> 4095"
  shows "\<exists>st'. type_text cs st = Some st' \<and> terminal_ok st' \<and> numEof st' = numEof st \<and> contents st' = fold edit cs (contents st)"
  using assms
proof (induction cs arbitrary: st)
  case (Cons c cs)
  then obtain st1 where st1: "handleCharacter c st = Some st1" "terminal_ok st1" "numEof st1 = numEof st" "contents st1 = edit c (contents st)"
    using handleCharacter_edit [of st c] by auto
  have "length (fst (contents st1)) + length (snd (contents st1)) + length cs \<le> 4095"
    using edit_length [of c "contents st"] Cons.prems(3) st1(4) by simp
  then show ?case using Cons.IH [OF st1(2)] Cons.prems(2) st1 by auto
qed simp

text \<open>Reading a line.\<close>

lemma read_loop_line:
  assumes "terminal_ok st" "numEof st = 0" "fst (contents st) = l @ 10 # rest" "10 \<notin> set l" "length buf + length l < unat sz"
  shows "\<exists>st'. read_loop sz buf st = Returned (buf @ l @ [10]) st' \<and> terminal_ok st' \<and> numEof st' = 0 \<and>
    contents st' = (rest, snd (contents st))"
  using assms
proof (induction l arbitrary: buf st)
  case Nil
  have buf_ok: "buffer_ok (terminalBuffer st)" "termio st = default_termios" using Nil.prems(1) by (simp_all add: terminal_ok_def)
  have lines: "buffer_lines (terminalBuffer st) = 10 # rest" using Nil.prems(3) by (simp add: contents_def)
  obtain b where b: "buffer_read (terminalBuffer st) = (10, b)" "buffer_ok b" "buffer_lines b = rest" "buffer_pending b = buffer_pending (terminalBuffer st)"
    using tb.take_law [OF buf_ok(1) lines] by blast
  have "available (terminalBuffer st) \<noteq> 0" using tb.avail_0 [OF buf_ok(1)] lines by simp
  moreover have "canonical (st\<lparr>terminalBuffer := b\<rparr>)" by (rule is_cc_default(10)) (simp add: buf_ok(2))
  ultimately have "read_loop sz buf st = Returned (buf @ [10]) (st\<lparr>terminalBuffer := b\<rparr>)"
    using Nil.prems(2,5) b(1) by (subst read_loop.simps) simp
  then show ?case using b Nil.prems(2) buf_ok(2) by (simp add: terminal_ok_def contents_def)
next
  case (Cons c l)
  have buf_ok: "buffer_ok (terminalBuffer st)" "termio st = default_termios" using Cons.prems(1) by (simp_all add: terminal_ok_def)
  have lines: "buffer_lines (terminalBuffer st) = c # (l @ 10 # rest)" using Cons.prems(3) by (simp add: contents_def)
  obtain b where b: "buffer_read (terminalBuffer st) = (c, b)" "buffer_ok b" "buffer_lines b = l @ 10 # rest"
    "buffer_pending b = buffer_pending (terminalBuffer st)"
    using tb.take_law [OF buf_ok(1) lines] by blast
  have "available (terminalBuffer st) \<noteq> 0" using tb.avail_0 [OF buf_ok(1)] lines by simp
  moreover have "c \<noteq> 10" using Cons.prems(4) by auto
  ultimately have step: "read_loop sz buf st = read_loop sz (buf @ [c]) (st\<lparr>terminalBuffer := b\<rparr>)"
    using Cons.prems(2,5) b(1) by (subst read_loop.simps) simp
  have "terminal_ok (st\<lparr>terminalBuffer := b\<rparr>)" using b(2) buf_ok(2) by (simp add: terminal_ok_def)
  then show ?case
    using step Cons.IH [of "st\<lparr>terminalBuffer := b\<rparr>" "buf @ [c]"] Cons.prems b by (simp add: contents_def)
qed

lemma fold_edit_plain: "\<forall>c \<in> set cs. c \<noteq> 8 \<and> c \<noteq> 10 \<Longrightarrow> fold edit cs (ls, ps) = (ls, ps @ cs)"
  by (induction cs arbitrary: ps) (simp_all add: edit_def)

text \<open>
  C29: in canonical mode the keyboard edits lines as a reference editor does: characters are
  appended to the line, backspace takes the last one back but never into a finished line, and a
  newline finishes the line; the circular buffer never loses or reorders a character while it has
  room.
\<close>

theorem canonical_editing:
  assumes "terminal_ok st" "\<forall>c \<in> set cs. ordinary c"
    and "length (fst (contents st)) + length (snd (contents st)) + length cs \<le> 4095"
  shows "\<exists>st'. type_text cs st = Some st' \<and> terminal_ok st' \<and> numEof st' = numEof st \<and> contents st' = fold edit cs (contents st)"
  by (rule type_text_edit [OF assms])

text \<open>
  a line typed on an empty terminal is what the next \<open>read\<close> with a large enough buffer returns,
  with its newline, and the terminal is empty again.
\<close>

theorem typed_line_is_read:
  assumes "terminal_ok st" "contents st = ([], [])" "numEof st = 0"
    and "\<forall>c \<in> set cs. ordinary c \<and> c \<noteq> 8 \<and> c \<noteq> 10" "length cs < 4095" "length cs < unat sz"
  shows "\<exists>st' st''. type_text (cs @ [10]) st = Some st' \<and> Terminal_read sz st' = Returned (cs @ [10]) st'' \<and>
    contents st'' = ([], [])"
proof -
  have "\<forall>c \<in> set (cs @ [10]). ordinary c" using assms(4) by (simp add: ordinary_def)
  then obtain st' where st': "type_text (cs @ [10]) st = Some st'" "terminal_ok st'" "numEof st' = 0"
    "contents st' = fold edit (cs @ [10]) ([], [])"
    using type_text_edit [of st "cs @ [10]"] assms by auto
  then have "contents st' = (cs @ [10], [])" using fold_edit_plain [of cs "[]" "[]"] assms(4) by (simp add: edit_def)
  moreover have "10 \<notin> set cs" using assms(4) by auto
  ultimately obtain st'' where "read_loop sz [] st' = Returned (cs @ [10]) st''" "contents st'' = ([], [])"
    using read_loop_line [of st' cs "[]" "[]" sz] st'(2,3) assms(6) by auto
  then show ?thesis using st'(1) by (simp add: Terminal_read_def)
qed

definition demo_terminal :: terminal where
  "demo_terminal = Terminal_new (\<lambda>_. 0) (vga_start (\<lambda>_. 0))
     \<lparr>leftShift = False, rightShift = False, capsLock = False, leftControl = False, rightControl = False\<rparr>"

lemma demo_terminal_ok: "terminal_ok demo_terminal" "contents demo_terminal = ([], [])" "numEof demo_terminal = 0"
  by (simp_all add: terminal_ok_def demo_terminal_def Terminal_new_def buffer_reset_def buffer_ok_def contents_def
      buffer_lines_def buffer_pending_def between_def dist_def)

theorem canonical_editing_witness:
  "\<exists>st'. type_text [104, 105, 8, 111, 10] demo_terminal = Some st' \<and> contents st' = ([104, 111, 10], [])"
proof -
  have "\<forall>c \<in> set [104, 105, 8, 111, 10]. ordinary c" by (simp add: ordinary_def)
  then show ?thesis
    using canonical_editing [OF demo_terminal_ok(1), of "[104, 105, 8, 111, 10]"] by (auto simp: demo_terminal_ok edit_def)
qed

theorem typed_line_is_read_witness:
  "\<exists>st' st''. type_text [104, 105, 10] demo_terminal = Some st' \<and> Terminal_read 100 st' = Returned [104, 105, 10] st''"
  using typed_line_is_read [OF demo_terminal_ok, of "[104, 105]" 100] by (auto simp: ordinary_def)

end
