(* ===== verification/Kernel_Vfs.thy ===== *)
theory Kernel_Vfs
  imports Kernel_Terminal Libc_Errno
begin

text \<open>
  The file system in memory: \<open>kernel/src/vnode.cpp\<close>, \<open>file.cpp\<close>, \<open>directory.cpp\<close> and
  \<open>filedescription.cpp\<close>.  A vnode is known by its identity, a reference; its class is a value of
  \<open>vobject\<close>, and each virtual function is one definition that selects the override by the class and
  falls back to the default of \<open>Vnode\<close>.  Strings are byte lists without a zero byte.  What the heap
  does is a parameter: whether it gives a block of a size, and what a new block holds.  The mutexes
  only order the calls.
\<close>

section \<open>Definitions\<close>

definition S_IFMT :: u32 where "S_IFMT = 0xF000"
definition S_IFREG :: u32 where "S_IFREG = 0x8000"
definition S_IFDIR :: u32 where "S_IFDIR = 0x4000"
definition S_IFCHR :: u32 where "S_IFCHR = 0x2000"
definition O_CREAT :: u32 where "O_CREAT = 0x20"
definition O_TRUNC :: u32 where "O_TRUNC = 0x1000"

definition S_ISREG :: "u32 \<Rightarrow> bool" where "S_ISREG m \<longleftrightarrow> m AND S_IFMT = S_IFREG"
definition S_ISDIR :: "u32 \<Rightarrow> bool" where "S_ISDIR m \<longleftrightarrow> m AND S_IFMT = S_IFDIR"

lemmas mode_defs = S_IFMT_def S_IFREG_def S_IFDIR_def S_IFCHR_def S_ISREG_def S_ISDIR_def

type_synonym vref = nat

datatype vobject =
    FileVnode (file_data: "byte list")
  | DirectoryVnode (dir_entries: "(byte list \<times> vref) list") (dir_parent: "vref option")
  | TerminalVnode

record vnode =
  vn_dev :: u32
  vn_ino :: u64
  vn_mode :: u32
  vn_object :: vobject

record vfs =
  vnodes :: "vref \<Rightarrow> vnode"
  vn_fresh :: vref
  nextIno :: u64
  vterm :: terminal
  verrno :: int

record stat =
  st_dev :: u32
  st_ino :: u64
  st_mode :: u32

record dirent =
  d_dev :: u32
  d_ino :: u64
  d_reclen :: u32
  d_name :: "byte list"

record allocator =
  gives :: "nat \<Rightarrow> bool"
  new_bytes :: "nat \<Rightarrow> byte"

text \<open>
  What a call does: it returns, it waits in \<open>sched_yield\<close> with the bytes read so far, or it accesses
  memory outside its objects.
\<close>

datatype 'a outcome = Ret 'a | Wait "byte list" vfs | Fault

text \<open>A size returned as \<open>ssize_t\<close>, and a result stored in \<open>errno\<close>.\<close>

definition ssize :: "nat \<Rightarrow> int" where
  "ssize n = sint (w32 n)"

definition fail :: "int \<Rightarrow> vfs \<Rightarrow> vfs" where
  "fail e st = st\<lparr>verrno := e\<rparr>"

abbreviation object :: "vfs \<Rightarrow> vref \<Rightarrow> vobject" where
  "object st r \<equiv> vn_object (vnodes st r)"

definition set_object :: "vref \<Rightarrow> vobject \<Rightarrow> vfs \<Rightarrow> vfs" where
  "set_object r ob st = st\<lparr>vnodes := (vnodes st)(r := (vnodes st r)\<lparr>vn_object := ob\<rparr>)\<rparr>"

subsection \<open>Vnodes\<close>

definition Vnode_new :: "u32 \<Rightarrow> u32 \<Rightarrow> u64 \<Rightarrow> vobject \<Rightarrow> vfs \<Rightarrow> vref \<times> vfs" where
  "Vnode_new mode dev ino ob st =
     (let r = vn_fresh st;
          (ino, st) = (if ino = 0 then (nextIno st, st\<lparr>nextIno := nextIno st + 1\<rparr>) else (ino, st))
      in (r, st\<lparr>vnodes := (vnodes st)(r := \<lparr>vn_dev = dev, vn_ino = ino, vn_mode = mode, vn_object = ob\<rparr>),
                vn_fresh := r + 1\<rparr>))"

definition FileVnode_new :: "byte list \<Rightarrow> u32 \<Rightarrow> u32 \<Rightarrow> u64 \<Rightarrow> vfs \<Rightarrow> vref \<times> vfs" where
  "FileVnode_new data mode dev ino = Vnode_new (S_IFREG OR mode) dev ino (FileVnode data)"

definition DirectoryVnode_new :: "vref option \<Rightarrow> u32 \<Rightarrow> u32 \<Rightarrow> u64 \<Rightarrow> vfs \<Rightarrow> vref \<times> vfs" where
  "DirectoryVnode_new parent mode dev ino = Vnode_new (S_IFDIR OR mode) dev ino (DirectoryVnode [] parent)"

definition Vnode_isSeekable :: "vref \<Rightarrow> vfs \<Rightarrow> bool" where
  "Vnode_isSeekable r st = (case object st r of FileVnode _ \<Rightarrow> True | _ \<Rightarrow> False)"

definition Vnode_stat :: "vref \<Rightarrow> vfs \<Rightarrow> stat" where
  "Vnode_stat r st = \<lparr>st_dev = vn_dev (vnodes st r), st_ino = vn_ino (vnodes st r), st_mode = vn_mode (vnodes st r)\<rparr>"

definition Vnode_read :: "vref \<Rightarrow> u32 \<Rightarrow> vfs \<Rightarrow> (int \<times> byte list \<times> vfs) outcome" where
  "Vnode_read r sz st =
     (case object st r of
        TerminalVnode \<Rightarrow>
          (case Terminal_read sz (vterm st) of
             Returned bs t \<Rightarrow> Ret (ssize (length bs), bs, st\<lparr>vterm := t\<rparr>)
           | Yield bs t \<Rightarrow> Wait bs (st\<lparr>vterm := t\<rparr>))
      | _ \<Rightarrow> Ret (- 1, [], fail EBADF st))"

definition Vnode_write :: "vref \<Rightarrow> byte list \<Rightarrow> vfs \<Rightarrow> int \<times> vfs" where
  "Vnode_write r buffer st =
     (case object st r of
        TerminalVnode \<Rightarrow> (let (n, t) = Terminal_write buffer (vterm st) in (n, st\<lparr>vterm := t\<rparr>))
      | _ \<Rightarrow> (- 1, fail EBADF st))"

definition Vnode_tcgetattr :: "vref \<Rightarrow> vfs \<Rightarrow> int \<times> termios option \<times> vfs" where
  "Vnode_tcgetattr r st =
     (case object st r of
        TerminalVnode \<Rightarrow> (0, Some (Terminal_tcgetattr (vterm st)), st)
      | _ \<Rightarrow> (- 1, None, fail ENOTTY st))"

definition Vnode_tcsetattr :: "vref \<Rightarrow> int \<Rightarrow> termios \<Rightarrow> vfs \<Rightarrow> int \<times> vfs" where
  "Vnode_tcsetattr r flags t st =
     (case object st r of
        TerminalVnode \<Rightarrow> (0, st\<lparr>vterm := Terminal_tcsetattr flags t (vterm st)\<rparr>)
      | _ \<Rightarrow> (- 1, fail ENOTTY st))"

subsection \<open>Files\<close>

text \<open>The block that \<open>realloc\<close> gives: the old data, then bytes that nobody has written.\<close>

definition realloc_data :: "allocator \<Rightarrow> byte list \<Rightarrow> nat \<Rightarrow> byte list" where
  "realloc_data E data n = take n data @ map (new_bytes E) [length data..<n]"

definition Vnode_ftruncate :: "allocator \<Rightarrow> vref \<Rightarrow> int \<Rightarrow> vfs \<Rightarrow> int \<times> vfs" where
  "Vnode_ftruncate E r len st =
     (case object st r of
        FileVnode data \<Rightarrow>
          if len < 0 \<or> len > 2 ^ 32 - 1 then (- 1, fail EINVAL st)
          else if \<not> gives E (nat len) then (- 1, fail ENOSPC st)
          else
            let newData = realloc_data E data (nat len);
                newData = (if len > int (length data)
                           then take (length data) newData @ replicate (nat len - length data) 0 else newData)
            in (0, set_object r (FileVnode newData) st)
      | _ \<Rightarrow> (- 1, fail EBADF st))"

text \<open>The loop of \<open>FileVnode::pread\<close> with \<open>n\<close> bytes to go.\<close>

fun pread_loop :: "byte list \<Rightarrow> int \<Rightarrow> nat \<Rightarrow> byte list option" where
  "pread_loop data pos 0 = Some []"
| "pread_loop data pos (Suc n) =
     (if pos \<ge> int (length data) then Some []
      else if pos < 0 then None
      else map_option (Cons (data ! nat pos)) (pread_loop data (pos + 1) n))"

definition Vnode_pread :: "vref \<Rightarrow> u32 \<Rightarrow> int \<Rightarrow> vfs \<Rightarrow> (int \<times> byte list \<times> vfs) outcome" where
  "Vnode_pread r sz offset st =
     (case object st r of
        FileVnode data \<Rightarrow>
          (case pread_loop data offset (unat sz) of
             None \<Rightarrow> Fault
           | Some bs \<Rightarrow> Ret (ssize (length bs), bs, st))
      | _ \<Rightarrow> Ret (- 1, [], fail EBADF st))"

definition Vnode_pwrite :: "allocator \<Rightarrow> vref \<Rightarrow> byte list \<Rightarrow> int \<Rightarrow> vfs \<Rightarrow> int \<times> vfs" where
  "Vnode_pwrite E r buffer offset st =
     (case object st r of
        FileVnode data \<Rightarrow>
          if offset < 0 then (- 1, fail EINVAL st)
          else
            let newSize = nat offset + length buffer in
            if newSize \<ge> 2 ^ 32 then (- 1, fail ENOSPC st)
            else if newSize > length data \<and> \<not> gives E newSize then (- 1, fail ENOSPC st)
            else
              let data = (if newSize > length data then realloc_data E data newSize else data);
                  data = take (nat offset) data @ buffer @ drop newSize data
              in (ssize (length buffer), set_object r (FileVnode data) st)
      | _ \<Rightarrow> (- 1, fail EBADF st))"

subsection \<open>Directories\<close>

text \<open>\<open>None\<close>: the object that was cast to a directory is none.\<close>

definition addChildNode :: "vref \<Rightarrow> byte list \<Rightarrow> vref \<Rightarrow> vfs \<Rightarrow> vfs option" where
  "addChildNode d path r st =
     (case object st d of
        DirectoryVnode es p \<Rightarrow> Some (set_object d (DirectoryVnode (es @ [(path, r)]) p) st)
      | _ \<Rightarrow> None)"

definition Vnode_getChildNode :: "vref \<Rightarrow> byte list \<Rightarrow> vfs \<Rightarrow> vref option \<times> vfs" where
  "Vnode_getChildNode r path st =
     (case object st r of
        DirectoryVnode es p \<Rightarrow>
          if path = bytes ''.'' then (Some r, st)
          else if path = bytes ''..'' then (Some (case p of Some q \<Rightarrow> q | None \<Rightarrow> r), st)
          else (case map_of es path of Some c \<Rightarrow> (Some c, st) | None \<Rightarrow> (None, fail ENOENT st))
      | _ \<Rightarrow> (None, fail EBADF st))"

definition Vnode_readdir :: "vref \<Rightarrow> u32 \<Rightarrow> u32 \<Rightarrow> vfs \<Rightarrow> int \<times> dirent option \<times> vfs" where
  "Vnode_readdir r offset sz st =
     (case object st r of
        DirectoryVnode es p \<Rightarrow>
          (let entry = \<lambda>(name, v).
                 let structSize = 16 + length name + 1 in
                 (ssize structSize,
                  if unat sz \<ge> structSize
                  then Some \<lparr>d_dev = vn_dev (vnodes st v), d_ino = vn_ino (vnodes st v), d_reclen = sz, d_name = name\<rparr>
                  else None, st)
           in if offset = 0 then entry (bytes ''.'', r)
              else if offset = 1 then entry (bytes ''..'', case p of Some q \<Rightarrow> q | None \<Rightarrow> r)
              else if unat (offset - 2) < length es then entry (es ! unat (offset - 2))
              else if unat (offset - 2) = length es then (0, None, st)
              else (- 1, None, st))
      | _ \<Rightarrow> (- 1, None, fail EBADF st))"

subsection \<open>Paths\<close>

text \<open>The loop of \<open>resolvePath\<close> at the rest of the path: \<open>takeWhile\<close> is the name up to the slash.\<close>

definition no_slash :: "byte \<Rightarrow> bool" where "no_slash c \<longleftrightarrow> c \<noteq> 47"

lemma dropWhile_shorter: "dropWhile P xs = y # ys \<Longrightarrow> length ys < length xs"
  by (metis length_dropWhile_le length_Cons Suc_le_eq)

function resolve_loop :: "vref \<Rightarrow> byte list \<Rightarrow> vfs \<Rightarrow> vref option \<times> vfs" where
  "resolve_loop currentVnode currentName st =
     (let name = takeWhile no_slash currentName in
      case dropWhile no_slash currentName of
        [] \<Rightarrow> if name \<noteq> [] then Vnode_getChildNode currentVnode name st else (Some currentVnode, st)
      | _ # rest \<Rightarrow>
          if name = [] then resolve_loop currentVnode rest st
          else (case Vnode_getChildNode currentVnode name st of
                  (None, st) \<Rightarrow> (None, st)
                | (Some v, st) \<Rightarrow>
                    if \<not> S_ISDIR (vn_mode (vnodes st v)) then (None, fail ENOTDIR st)
                    else resolve_loop v rest st))"
  by pat_completeness auto
termination
  by (relation "measure (\<lambda>(v, p, st). length p)") (auto dest: dropWhile_shorter)

declare resolve_loop.simps [simp del]

definition resolvePath :: "allocator \<Rightarrow> vref \<Rightarrow> byte list \<Rightarrow> vfs \<Rightarrow> vref option \<times> vfs" where
  "resolvePath E r path st =
     (if path = [] then (None, fail ENOENT st)
      else if \<not> gives E (length path + 1) then (None, fail ENFILE st)
      else resolve_loop r path st)"

subsection \<open>File descriptions\<close>

record fdesc =
  fd_vnode :: vref
  fd_offset :: int

definition FileDescription_new :: "vref \<Rightarrow> fdesc" where
  "FileDescription_new r = \<lparr>fd_vnode = r, fd_offset = 0\<rparr>"

text \<open>The directory and the name of a file to create: the path is cut at its last slash.\<close>

definition split_last :: "byte list \<Rightarrow> byte list \<times> byte list" where
  "split_last path = (let name = rev (takeWhile no_slash (rev path)) in
     (take (length path - length name - 1) path, name))"

text \<open>\<open>Fault\<close>: the parent is not a directory, and its memory is overwritten.\<close>

definition openat_create :: "allocator \<Rightarrow> vref \<Rightarrow> byte list \<Rightarrow> u32 \<Rightarrow> vfs \<Rightarrow> (vref option \<times> vfs) outcome" where
  "openat_create E v path mode st =
     (let (dir, newFileName) = split_last path;
          (node, st) = (if dir = [] then (Some v, st) else resolvePath E v dir st)
      in case node of
           None \<Rightarrow> Ret (None, st)
         | Some node \<Rightarrow>
             (let (file, st) = FileVnode_new [] (mode AND 0x1FF) (vn_dev (vnodes st v)) 0 st in
              case addChildNode node newFileName file st of
                None \<Rightarrow> Fault
              | Some st \<Rightarrow> Ret (Some file, st)))"

definition FileDescription_openat ::
  "allocator \<Rightarrow> fdesc \<Rightarrow> byte list \<Rightarrow> u32 \<Rightarrow> u32 \<Rightarrow> vfs \<Rightarrow> (fdesc option \<times> vfs) outcome" where
  "FileDescription_openat E f path flags mode st =
     (let truncate = (\<lambda>node st. if flags AND O_TRUNC \<noteq> 0 then snd (Vnode_ftruncate E node 0 st) else st) in
      case resolvePath E (fd_vnode f) path st of
        (Some node, st) \<Rightarrow> Ret (Some (FileDescription_new node), truncate node st)
      | (None, st) \<Rightarrow>
          if flags AND O_CREAT = 0 then Ret (None, st)
          else (case openat_create E (fd_vnode f) path mode st of
                  Ret (Some node, st) \<Rightarrow> Ret (Some (FileDescription_new node), truncate node st)
                | Ret (None, st) \<Rightarrow> Ret (None, st)
                | Wait bs st \<Rightarrow> Wait bs st
                | Fault \<Rightarrow> Fault))"

definition advance_offset :: "int \<Rightarrow> fdesc \<Rightarrow> fdesc" where
  "advance_offset result f = (if result \<noteq> - 1 then f\<lparr>fd_offset := fd_offset f + result\<rparr> else f)"

definition FileDescription_read :: "fdesc \<Rightarrow> u32 \<Rightarrow> vfs \<Rightarrow> (int \<times> byte list \<times> fdesc \<times> vfs) outcome" where
  "FileDescription_read f sz st =
     (if Vnode_isSeekable (fd_vnode f) st then
        (case Vnode_pread (fd_vnode f) sz (fd_offset f) st of
           Ret (result, bs, st) \<Rightarrow> Ret (result, bs, advance_offset result f, st)
         | Wait bs st \<Rightarrow> Wait bs st
         | Fault \<Rightarrow> Fault)
      else
        (case Vnode_read (fd_vnode f) sz st of
           Ret (result, bs, st) \<Rightarrow> Ret (result, bs, f, st)
         | Wait bs st \<Rightarrow> Wait bs st
         | Fault \<Rightarrow> Fault))"

definition FileDescription_write :: "allocator \<Rightarrow> fdesc \<Rightarrow> byte list \<Rightarrow> vfs \<Rightarrow> int \<times> fdesc \<times> vfs" where
  "FileDescription_write E f buffer st =
     (if Vnode_isSeekable (fd_vnode f) st then
        (let (result, st) = Vnode_pwrite E (fd_vnode f) buffer (fd_offset f) st in
         (result, advance_offset result f, st))
      else
        (let (result, st) = Vnode_write (fd_vnode f) buffer st in (result, f, st)))"

definition FileDescription_readdir :: "fdesc \<Rightarrow> u32 \<Rightarrow> u32 \<Rightarrow> vfs \<Rightarrow> int \<times> dirent option \<times> vfs" where
  "FileDescription_readdir f = Vnode_readdir (fd_vnode f)"

definition FileDescription_tcgetattr :: "fdesc \<Rightarrow> vfs \<Rightarrow> int \<times> termios option \<times> vfs" where
  "FileDescription_tcgetattr f = Vnode_tcgetattr (fd_vnode f)"

definition FileDescription_tcsetattr :: "fdesc \<Rightarrow> int \<Rightarrow> termios \<Rightarrow> vfs \<Rightarrow> int \<times> vfs" where
  "FileDescription_tcsetattr f = Vnode_tcsetattr (fd_vnode f)"

section \<open>Files\<close>

lemma ssize_small [simp]: "n < 2 ^ 31 \<Longrightarrow> ssize n = int n"
  by (simp add: ssize_def w32_def sint_uint unsigned_of_nat take_bit_nat_eq_self signed_take_bit_int_eq_self)

lemma object_set [simp]:
  "object (set_object r ob st) r' = (if r' = r then ob else object st r')"
  "vn_mode (vnodes (set_object r ob st) r') = vn_mode (vnodes st r')"
  "vn_dev (vnodes (set_object r ob st) r') = vn_dev (vnodes st r')"
  "vn_fresh (set_object r ob st) = vn_fresh st"
  "r' \<noteq> r \<Longrightarrow> vnodes (set_object r ob st) r' = vnodes st r'"
  "vterm (set_object r ob st) = vterm st"
  by (auto simp: set_object_def)

lemma vnodes_fail [simp]:
  "vnodes (fail e st) = vnodes st" "vn_fresh (fail e st) = vn_fresh st" "vterm (fail e st) = vterm st"
  by (simp_all add: fail_def)

lemma pread_loop_take: "0 \<le> pos \<Longrightarrow> pread_loop data pos n = Some (take n (drop (nat pos) data))"
proof (induction n arbitrary: pos)
  case (Suc n)
  show ?case
  proof (cases "pos < int (length data)")
    case True
    then have "drop (nat pos) data = data ! nat pos # drop (nat (pos + 1)) data"
      using Suc.prems by (simp add: Cons_nth_drop_Suc nat_add_distrib)
    with True Suc show ?thesis by simp
  qed (use Suc.prems in auto)
qed simp

lemma length_realloc_data [simp]: "length (realloc_data E data n) = n"
  by (simp add: realloc_data_def)

lemma take_realloc_data: "k \<le> n \<Longrightarrow> k \<le> length data \<Longrightarrow> take k (realloc_data E data n) = take k data"
  by (simp add: realloc_data_def min_def)

definition overlay :: "allocator \<Rightarrow> byte list \<Rightarrow> nat \<Rightarrow> byte list \<Rightarrow> byte list" where
  "overlay E data pos buffer =
     (let data = (if pos + length buffer > length data then realloc_data E data (pos + length buffer) else data)
      in take pos data @ buffer @ drop (pos + length buffer) data)"

lemma overlay_simps:
  "length (overlay E data pos buffer) = max (length data) (pos + length buffer)"
  "take (length buffer) (drop pos (overlay E data pos buffer)) = buffer"
  "i < length data \<Longrightarrow> i < pos \<or> pos + length buffer \<le> i \<Longrightarrow> overlay E data pos buffer ! i = data ! i"
  by (auto simp: overlay_def Let_def nth_append realloc_data_def)

lemma overlay_append: "overlay E data (length data) buffer = data @ buffer"
  by (auto simp: overlay_def realloc_data_def)

lemma pwrite_overlay:
  assumes "object st r = FileVnode data" "0 \<le> pos" "nat pos + length buffer < 2 ^ 31"
    and "nat pos + length buffer \<le> length data \<or> gives E (nat pos + length buffer)"
  shows "Vnode_pwrite E r buffer pos st =
    (int (length buffer), set_object r (FileVnode (overlay E data (nat pos) buffer)) st)"
  using assms by (auto simp: Vnode_pwrite_def Let_def overlay_def)

lemma pread_file:
  assumes "object st r = FileVnode data" "0 \<le> pos" "length data < 2 ^ 31"
  shows "Vnode_pread r sz pos st =
    Ret (int (length (take (unat sz) (drop (nat pos) data))), take (unat sz) (drop (nat pos) data), st)"
  using assms by (simp add: Vnode_pread_def pread_loop_take min.strict_coboundedI2)

text \<open>
  what is written to a file at an offset is read back from there; the file grows to the end of
  the written range at most, every other byte of it stays, and so does every other vnode.
\<close>

theorem pwrite_pread:
  assumes "object st r = FileVnode data" "0 \<le> pos" "length data < 2 ^ 31" "nat pos + length buffer < 2 ^ 31"
    and "nat pos + length buffer \<le> length data \<or> gives E (nat pos + length buffer)"
  shows "\<exists>st' data'. Vnode_pwrite E r buffer pos st = (int (length buffer), st') \<and> object st' r = FileVnode data' \<and>
    Vnode_pread r (w32 (length buffer)) pos st' = Ret (int (length buffer), buffer, st') \<and>
    length data' = max (length data) (nat pos + length buffer) \<and>
    (\<forall>i < length data. i < nat pos \<or> nat pos + length buffer \<le> i \<longrightarrow> data' ! i = data ! i) \<and>
    (\<forall>r'. r' \<noteq> r \<longrightarrow> vnodes st' r' = vnodes st r')"
proof -
  let ?d = "overlay E data (nat pos) buffer" and ?st = "set_object r (FileVnode (overlay E data (nat pos) buffer)) st"
  have "unat (w32 (length buffer)) = length buffer" using assms by (simp add: unat_w32)
  moreover have "length ?d < 2 ^ 31" using assms by (simp add: overlay_simps)
  ultimately have "Vnode_pread r (w32 (length buffer)) pos ?st = Ret (int (length buffer), buffer, ?st)"
    using assms by (subst pread_file [where data = ?d]) (auto simp: overlay_simps)
  then show ?thesis
    using pwrite_overlay [OF assms(1, 2, 4, 5)]
    by (intro exI [of _ ?st] exI [of _ ?d]) (simp add: overlay_simps)
qed

definition demo_allocator :: allocator where
  "demo_allocator = \<lparr>gives = (\<lambda>_. True), new_bytes = (\<lambda>_. 0xAA)\<rparr>"

definition demo_vfs :: vfs where
  "demo_vfs = \<lparr>vnodes = (\<lambda>r.
       if r = 0 then \<lparr>vn_dev = 0, vn_ino = 0, vn_mode = S_IFDIR OR 0x1ED,
         vn_object = DirectoryVnode [(bytes ''etc'', 1), (bytes ''a'', 2)] None\<rparr>
       else if r = 1 then \<lparr>vn_dev = 0, vn_ino = 1, vn_mode = S_IFDIR OR 0x1ED, vn_object = DirectoryVnode [] (Some 0)\<rparr>
       else \<lparr>vn_dev = 0, vn_ino = 2, vn_mode = S_IFREG OR 0x1A4, vn_object = FileVnode [1, 2, 3]\<rparr>),
     vn_fresh = 3, nextIno = 3, vterm = demo_terminal, verrno = 0\<rparr>"

text \<open>Bytes 7 and 8 written over the end of a file of three bytes.\<close>

theorem pwrite_pread_witness:
  "\<exists>st' data'. Vnode_pwrite demo_allocator 2 [7, 8] 2 demo_vfs = (2, st') \<and> object st' 2 = FileVnode data' \<and>
    Vnode_pread 2 2 2 st' = Ret (2, [7, 8], st') \<and> length data' = 4 \<and> data' ! 0 = 1 \<and> data' ! 1 = 2"
  using pwrite_pread [of demo_vfs 2 "[1, 2, 3]" 2 "[7, 8]" demo_allocator]
  by (auto simp: demo_vfs_def demo_allocator_def w32_def)

text \<open>A sequence of writes, and a sequence of reads of the given sizes, through one description.\<close>

fun write_all :: "allocator \<Rightarrow> byte list list \<Rightarrow> fdesc \<Rightarrow> vfs \<Rightarrow> fdesc \<times> vfs" where
  "write_all E [] f st = (f, st)"
| "write_all E (b # bs) f st = (let (_, f, st) = FileDescription_write E f b st in write_all E bs f st)"

fun read_all :: "u32 list \<Rightarrow> fdesc \<Rightarrow> vfs \<Rightarrow> byte list list option" where
  "read_all [] f st = Some []"
| "read_all (sz # szs) f st =
     (case FileDescription_read f sz st of
        Ret (_, bs, f, st) \<Rightarrow> map_option (Cons bs) (read_all szs f st)
      | _ \<Rightarrow> None)"

lemma set_object_twice: "set_object r ob (set_object r ob' st) = set_object r ob st"
  by (simp add: set_object_def)

lemma set_object_same: "object st r = ob \<Longrightarrow> set_object r ob st = st"
  by (auto simp: set_object_def)

lemma write_all_appends:
  assumes "object st r = FileVnode data" "length data + length (concat bufs) < 2 ^ 31"
    and "\<forall>n \<le> length data + length (concat bufs). gives E n"
  shows "write_all E bufs \<lparr>fd_vnode = r, fd_offset = int (length data)\<rparr> st =
    (\<lparr>fd_vnode = r, fd_offset = int (length (data @ concat bufs))\<rparr>, set_object r (FileVnode (data @ concat bufs)) st)"
  using assms
proof (induction bufs arbitrary: data st)
  case (Cons b bufs)
  then have w: "Vnode_pwrite E r b (int (length data)) st = (int (length b), set_object r (FileVnode (data @ b)) st)"
    by (subst pwrite_overlay) (auto simp: overlay_append)
  from Cons.prems Cons.IH [of "set_object r (FileVnode (data @ b)) st" "data @ b"] show ?case
    by (simp add: FileDescription_write_def Vnode_isSeekable_def w advance_offset_def set_object_twice add.assoc)
qed (simp add: set_object_same)

lemma read_all_takes:
  assumes "object st r = FileVnode data" "length data < 2 ^ 31"
  shows "\<exists>chunks. read_all szs \<lparr>fd_vnode = r, fd_offset = int pos\<rparr> st = Some chunks \<and>
    concat chunks = take (sum_list (map unat szs)) (drop pos data)"
proof (induction szs arbitrary: pos)
  case (Cons sz szs)
  let ?bs = "take (unat sz) (drop pos data)"
  from Cons.IH [of "pos + length ?bs"] obtain chunks where
    "read_all szs \<lparr>fd_vnode = r, fd_offset = int (pos + length ?bs)\<rparr> st = Some chunks"
    "concat chunks = take (sum_list (map unat szs)) (drop (pos + length ?bs) data)" by blast
  moreover have "FileDescription_read \<lparr>fd_vnode = r, fd_offset = int pos\<rparr> sz st =
      Ret (int (length ?bs), ?bs, \<lparr>fd_vnode = r, fd_offset = int (pos + length ?bs)\<rparr>, st)"
    using assms by (simp add: FileDescription_read_def Vnode_isSeekable_def pread_file advance_offset_def)
  moreover have "take (unat sz) (drop pos data) @ take n (drop (pos + length ?bs) data) =
      take (unat sz + n) (drop pos data)" for n
    by (subst take_add [of "unat sz"]) (auto simp: add.commute min_def)
  ultimately show ?case by simp
qed simp

text \<open>
  C8: what is written to an empty file, in any number of writes, is what is read from the start of
  the file, in reads of any sizes; other vnodes stay.
\<close>

theorem written_is_read:
  assumes "object st r = FileVnode []" "length (concat bufs) < 2 ^ 31" "\<forall>n \<le> length (concat bufs). gives E n"
  shows "\<exists>f st' chunks. write_all E bufs (FileDescription_new r) st = (f, st') \<and>
    read_all szs (FileDescription_new r) st' = Some chunks \<and>
    concat chunks = take (sum_list (map unat szs)) (concat bufs) \<and> (\<forall>r'. r' \<noteq> r \<longrightarrow> vnodes st' r' = vnodes st r')"
  using write_all_appends [of st r "[]" bufs E] assms
    read_all_takes [of "set_object r (FileVnode (concat bufs)) st" r "concat bufs" szs 0]
  by (auto simp: FileDescription_new_def)

theorem written_is_read_witness:
  "\<exists>f st' chunks. write_all demo_allocator [[1, 2], [3, 4, 5]] (FileDescription_new 2)
      (set_object 2 (FileVnode []) demo_vfs) = (f, st') \<and>
    read_all [3, 9] (FileDescription_new 2) st' = Some chunks \<and> concat chunks = [1, 2, 3, 4, 5]"
proof -
  have "object (set_object 2 (FileVnode []) demo_vfs) 2 = FileVnode []" by simp
  from written_is_read [OF this, of "[[1, 2], [3, 4, 5]]" demo_allocator "[3, 9]"] show ?thesis
    by (auto simp: demo_allocator_def)
qed

section \<open>Names\<close>

text \<open>
  The invariant of the tree: the mode says whether a vnode is a directory, and directories refer to
  existing vnodes only.  The order \<open>vfs_le\<close>: nothing that there was has gone.
\<close>

definition is_dir :: "vobject \<Rightarrow> bool" where
  "is_dir ob = (case ob of DirectoryVnode _ _ \<Rightarrow> True | _ \<Rightarrow> False)"

lemma is_dir_simps [simp]:
  "is_dir (DirectoryVnode es p)" "\<not> is_dir (FileVnode d)" "\<not> is_dir TerminalVnode"
  by (simp_all add: is_dir_def)

definition refs_ok :: "vref \<Rightarrow> (vref \<Rightarrow> bool) \<Rightarrow> vobject \<Rightarrow> bool" where
  "refs_ok n dir ob =
     (case ob of
        DirectoryVnode es p \<Rightarrow> (\<forall>e \<in> set es. snd e < n) \<and> (case p of Some q \<Rightarrow> q < n \<and> dir q | None \<Rightarrow> True)
      | _ \<Rightarrow> True)"

definition vfs_ok :: "vfs \<Rightarrow> bool" where
  "vfs_ok st \<longleftrightarrow> (\<forall>r < vn_fresh st. (S_ISDIR (vn_mode (vnodes st r)) \<longleftrightarrow> is_dir (object st r)) \<and>
     refs_ok (vn_fresh st) (\<lambda>q. is_dir (object st q)) (object st r))"

definition object_le :: "vobject \<Rightarrow> vobject \<Rightarrow> bool" where
  "object_le a b =
     (case a of
        FileVnode _ \<Rightarrow> (case b of FileVnode _ \<Rightarrow> True | _ \<Rightarrow> False)
      | DirectoryVnode es p \<Rightarrow> (\<exists>es'. b = DirectoryVnode (es @ es') p)
      | TerminalVnode \<Rightarrow> b = TerminalVnode)"

definition vfs_le :: "vfs \<Rightarrow> vfs \<Rightarrow> bool" where
  "vfs_le st st' \<longleftrightarrow> vn_fresh st \<le> vn_fresh st' \<and>
     (\<forall>r < vn_fresh st. vn_mode (vnodes st' r) = vn_mode (vnodes st r) \<and> object_le (object st r) (object st' r))"

lemma object_le_refl [simp]: "object_le ob ob"
  by (auto simp: object_le_def split: vobject.split)

lemma object_le_trans: "object_le a b \<Longrightarrow> object_le b c \<Longrightarrow> object_le a c"
  by (auto simp: object_le_def split: vobject.splits)

lemma object_le_file [simp]: "object_le (FileVnode d) (FileVnode d')"
  and object_le_dir [simp]: "object_le (DirectoryVnode es p) (DirectoryVnode (es @ es') p)"
  by (simp_all add: object_le_def)

lemma vfs_le_refl [simp]: "vfs_le st st"
  by (simp add: vfs_le_def)

lemma vfs_le_trans: "vfs_le a b \<Longrightarrow> vfs_le b c \<Longrightarrow> vfs_le a c"
  unfolding vfs_le_def by (metis object_le_trans less_le_trans order_trans)

lemma vfs_okD:
  assumes "vfs_ok st" "r < vn_fresh st"
  shows "S_ISDIR (vn_mode (vnodes st r)) \<longleftrightarrow> is_dir (object st r)"
    and "object st r = DirectoryVnode es p \<Longrightarrow> map_of es n = Some c \<Longrightarrow> c < vn_fresh st"
    and "object st r = DirectoryVnode es (Some q) \<Longrightarrow> q < vn_fresh st \<and> is_dir (object st q)"
proof -
  from assms have r: "(S_ISDIR (vn_mode (vnodes st r)) \<longleftrightarrow> is_dir (object st r)) \<and>
      refs_ok (vn_fresh st) (\<lambda>q. is_dir (object st q)) (object st r)"
    by (simp add: vfs_ok_def)
  then show "S_ISDIR (vn_mode (vnodes st r)) \<longleftrightarrow> is_dir (object st r)" by simp
  show "c < vn_fresh st" if "object st r = DirectoryVnode es p" "map_of es n = Some c"
    using r that map_of_SomeD [of es n c] by (force simp: refs_ok_def)
  show "q < vn_fresh st \<and> is_dir (object st q)" if "object st r = DirectoryVnode es (Some q)"
    using r that by (simp add: refs_ok_def)
qed

lemma vfs_leD:
  assumes "vfs_le st st'" "r < vn_fresh st"
  shows "vn_mode (vnodes st' r) = vn_mode (vnodes st r)" "object_le (object st r) (object st' r)"
  using assms by (auto simp: vfs_le_def)

lemma resolve_loop_last:
  "dropWhile no_slash path = [] \<Longrightarrow> resolve_loop r path st =
    (if takeWhile no_slash path \<noteq> [] then Vnode_getChildNode r (takeWhile no_slash path) st else (Some r, st))"
  by (subst resolve_loop.simps) (simp del: dropWhile_eq_Nil_conv)

lemma resolve_loop_empty:
  "dropWhile no_slash path = x # rest \<Longrightarrow> takeWhile no_slash path = [] \<Longrightarrow>
    resolve_loop r path st = resolve_loop r rest st"
  by (subst resolve_loop.simps) simp

lemma resolve_loop_name:
  "dropWhile no_slash path = x # rest \<Longrightarrow> takeWhile no_slash path = n \<Longrightarrow> n \<noteq> [] \<Longrightarrow>
    resolve_loop r path st =
      (case Vnode_getChildNode r n st of
         (None, st) \<Rightarrow> (None, st)
       | (Some v, st) \<Rightarrow> if \<not> S_ISDIR (vn_mode (vnodes st v)) then (None, fail ENOTDIR st) else resolve_loop v rest st)"
  by (subst resolve_loop.simps) simp

text \<open>A look-up that succeeds changes nothing, leads to a vnode, and succeeds in every later state.\<close>

lemma getChildNode_some:
  assumes "vfs_ok st" "r < vn_fresh st" "Vnode_getChildNode r n st = (Some c, st1)"
  shows "st1 = st" "c < vn_fresh st" "vfs_le st st' \<Longrightarrow> Vnode_getChildNode r n st' = (Some c, st')"
proof -
  from assms(3) obtain es p where ob: "object st r = DirectoryVnode es p"
    by (auto simp: Vnode_getChildNode_def split: vobject.splits)
  show "st1 = st" "c < vn_fresh st"
    using assms vfs_okD(2, 3) [OF assms(1, 2)] ob
    by (auto simp: Vnode_getChildNode_def split: if_splits option.splits)
  show "Vnode_getChildNode r n st' = (Some c, st')" if "vfs_le st st'"
  proof -
    from vfs_leD(2) [OF that assms(2)] ob obtain es' where "object st' r = DirectoryVnode (es @ es') p"
      by (auto simp: object_le_def)
    with assms(3) ob show ?thesis
      by (auto simp: Vnode_getChildNode_def split: if_splits option.splits)
  qed
qed

lemma resolve_loop_some:
  assumes "vfs_ok st" "r < vn_fresh st" "resolve_loop r path st = (Some v, st1)"
  shows "st1 = st \<and> v < vn_fresh st \<and> (vfs_le st st' \<longrightarrow> resolve_loop r path st' = (Some v, st'))"
  using assms
proof (induction r path st rule: resolve_loop.induct)
  case (1 r path st)
  note IH = 1(1, 2) and ok = 1(3) and r = 1(4) and run = 1(5)
  let ?n = "takeWhile no_slash path"
  show ?case
  proof (cases "dropWhile no_slash path")
    case Nil
    show ?thesis
    proof (cases "?n = []")
      case False
      with run Nil have "Vnode_getChildNode r ?n st = (Some v, st1)" by (simp add: resolve_loop_last)
      from getChildNode_some [OF ok r this] False Nil show ?thesis by (simp add: resolve_loop_last)
    qed (use run Nil r in \<open>auto simp: resolve_loop_last\<close>)
  next
    case (Cons x rest)
    show ?thesis
    proof (cases "?n = []")
      case True
      from run have "resolve_loop r rest st = (Some v, st1)" by (simp add: resolve_loop_empty [OF Cons True])
      from IH(1) [OF refl Cons True ok r this] show ?thesis by (simp add: resolve_loop_empty [OF Cons True])
    next
      case False
      note step = resolve_loop_name [OF Cons refl False]
      obtain o' st2 where get: "Vnode_getChildNode r ?n st = (o', st2)" by fastforce
      with run obtain c where "o' = Some c" by (cases o') (simp_all add: step)
      with get getChildNode_some(1) [OF ok r] have c: "Vnode_getChildNode r ?n st = (Some c, st)" by blast
      note some = getChildNode_some [OF ok r c]
      from run have dir: "S_ISDIR (vn_mode (vnodes st c))" and rest: "resolve_loop c rest st = (Some v, st1)"
        by (simp_all add: step c split: if_splits)
      have ih: "st1 = st \<and> v < vn_fresh st \<and> (vfs_le st st' \<longrightarrow> resolve_loop c rest st' = (Some v, st'))"
        by (rule IH(2) [OF refl Cons False c [symmetric] refl]) (simp_all add: dir rest some(2) ok)
      have "resolve_loop r path st' = (Some v, st')" if "vfs_le st st'"
        using ih that dir vfs_leD(1) [OF that some(2)] by (simp add: step some(3) [OF that])
      with ih show ?thesis by blast
    qed
  qed
qed

lemma resolvePath_some:
  assumes "vfs_ok st" "r < vn_fresh st" "resolvePath E r path st = (Some v, st1)"
  shows "st1 = st" "v < vn_fresh st" "vfs_le st st' \<Longrightarrow> resolvePath E r path st' = (Some v, st')"
  using assms resolve_loop_some [OF assms(1, 2)] by (auto simp: resolvePath_def split: if_splits)

text \<open>A look-up that fails changes \<open>errno\<close> at most.\<close>

lemma getChildNode_state: "Vnode_getChildNode r n st = (x, st1) \<Longrightarrow> \<exists>e. st1 = fail e st"
  by (auto simp: Vnode_getChildNode_def fail_def split: vobject.splits if_splits option.splits
      intro: exI [of _ "verrno st"])

lemma fail_fail: "fail e (fail e' st) = fail e st"
  by (simp add: fail_def)

lemma fail_same: "\<exists>e. st = fail e st"
  by (rule exI [of _ "verrno st"]) (simp add: fail_def)

lemma resolve_loop_state: "resolve_loop r path st = (x, st1) \<Longrightarrow> \<exists>e. st1 = fail e st"
proof (induction r path st arbitrary: x st1 rule: resolve_loop.induct)
  case (1 r path st)
  note IH = 1(1, 2) and run = 1(3)
  let ?n = "takeWhile no_slash path"
  obtain o' st2 where get: "Vnode_getChildNode r ?n st = (o', st2)" by fastforce
  from getChildNode_state [OF this] obtain e where e: "st2 = fail e st" by blast
  show ?case
  proof (cases "dropWhile no_slash path")
    case Nil
    with run get e show ?thesis using fail_same [of st] by (auto simp: resolve_loop_last split: if_splits)
  next
    case (Cons y rest)
    show ?thesis
    proof (cases "?n = []")
      case True
      from run show ?thesis by (intro IH(1) [OF refl Cons True]) (simp add: resolve_loop_empty [OF Cons True])
    next
      case False
      note step = resolve_loop_name [OF Cons refl False]
      show ?thesis
      proof (cases o')
        case None
        with run get e show ?thesis by (auto simp: step)
      next
        case (Some c)
        show ?thesis
        proof (cases "S_ISDIR (vn_mode (vnodes st2 c))")
          case True
          with run get Some have "resolve_loop c rest st2 = (x, st1)" by (simp add: step)
          from IH(2) [OF refl Cons False _ Some _ this] get True obtain e' where "st1 = fail e' st2" by auto
          with e show ?thesis by (auto simp: fail_fail)
        next
          case False
          with run get Some e show ?thesis by (auto simp: step fail_fail)
        qed
      qed
    qed
  qed
qed

lemma resolvePath_state: "resolvePath E r path st = (x, st1) \<Longrightarrow> \<exists>e. st1 = fail e st"
  by (auto simp: resolvePath_def dest: resolve_loop_state split: if_splits)

text \<open>A step that keeps the tree well-formed and loses nothing.\<close>

definition vfs_ext :: "vfs \<Rightarrow> vfs \<Rightarrow> bool" where
  "vfs_ext st st' \<longleftrightarrow> vfs_le st st' \<and> (vfs_ok st \<longrightarrow> vfs_ok st')"

named_theorems vfs_ext_intros \<open>operations that keep the tree well-formed\<close>

lemma vfs_ext_refl [vfs_ext_intros]: "vfs_ext st st"
  by (simp add: vfs_ext_def)

lemma vfs_ext_trans: "vfs_ext a b \<Longrightarrow> vfs_ext b c \<Longrightarrow> vfs_ext a c"
  unfolding vfs_ext_def by (blast intro: vfs_le_trans)

lemma vfs_ext_fail [vfs_ext_intros]: "vfs_ext st (fail e st)"
  by (simp add: vfs_ext_def vfs_le_def vfs_ok_def)

lemma vfs_ext_term [vfs_ext_intros]: "vfs_ext st (st\<lparr>vterm := t\<rparr>)"
  by (simp add: vfs_ext_def vfs_le_def vfs_ok_def)

lemma is_dir_object_le: "object_le a b \<Longrightarrow> is_dir b = is_dir a"
  by (auto simp: object_le_def is_dir_def split: vobject.splits)

lemma set_object_ext:
  assumes le: "object_le (object st r) ob"
    and refs: "vfs_ok st \<longrightarrow> refs_ok (vn_fresh st) (\<lambda>q. is_dir (object st q)) ob"
  shows "vfs_ext st (set_object r ob st)"
proof -
  have "is_dir (object (set_object r ob st) q) = is_dir (object st q)" for q
    using is_dir_object_le [OF le] by simp
  with le refs show ?thesis by (auto simp: vfs_ext_def vfs_le_def vfs_ok_def)
qed

lemma set_file_ext [vfs_ext_intros]: "object st r = FileVnode d \<Longrightarrow> vfs_ext st (set_object r (FileVnode d') st)"
  by (rule set_object_ext) (simp_all add: refs_ok_def)

lemma refs_ok_mono: "refs_ok n P ob \<Longrightarrow> n \<le> m \<Longrightarrow> (\<And>q. q < n \<Longrightarrow> P q \<Longrightarrow> Q q) \<Longrightarrow> refs_ok m Q ob"
  by (fastforce simp: refs_ok_def split: vobject.splits option.splits)

lemma Vnode_new_simps:
  assumes "Vnode_new mode dev ino ob st = (r, st')"
  shows "r = vn_fresh st" "vn_fresh st' = Suc (vn_fresh st)" "q \<noteq> r \<Longrightarrow> vnodes st' q = vnodes st q"
    "object st' r = ob" "vn_mode (vnodes st' r) = mode" "vterm st' = vterm st"
  using assms by (auto simp: Vnode_new_def Let_def split: if_splits)

lemma Vnode_new_ext:
  assumes new: "Vnode_new mode dev ino ob st = (r, st')" and mode: "S_ISDIR mode \<longleftrightarrow> is_dir ob"
    and refs: "refs_ok (vn_fresh st) (\<lambda>q. is_dir (object st q)) ob"
  shows "vfs_ext st st'"
proof -
  note new = Vnode_new_simps [OF new]
  have old: "vnodes st' q = vnodes st q" if "q < vn_fresh st" for q
    using that new(1, 3) by simp
  have "vfs_ok st'" if "vfs_ok st"
    unfolding vfs_ok_def
  proof (intro allI impI)
    fix q assume q: "q < vn_fresh st'"
    have mono: "refs_ok (vn_fresh st') (\<lambda>q. is_dir (object st' q)) ob'"
      if "refs_ok (vn_fresh st) (\<lambda>q. is_dir (object st q)) ob'" for ob'
      by (rule refs_ok_mono [OF that]) (simp_all add: new(2) old)
    show "(S_ISDIR (vn_mode (vnodes st' q)) \<longleftrightarrow> is_dir (object st' q)) \<and>
        refs_ok (vn_fresh st') (\<lambda>q. is_dir (object st' q)) (object st' q)"
    proof (cases "q = r")
      case True
      with mode mono [OF refs] show ?thesis by (simp only: new(4, 5) simp_thms)
    next
      case False
      with q have "q < vn_fresh st" by (simp add: new)
      with \<open>vfs_ok st\<close> mono show ?thesis by (simp add: old vfs_ok_def)
    qed
  qed
  with old new(2) show ?thesis by (simp add: vfs_ext_def vfs_le_def)
qed

lemma file_mode_not_dir: "\<not> S_ISDIR (S_IFREG OR (mode AND 0x1FF))"
proof
  assume "S_ISDIR (S_IFREG OR (mode AND 0x1FF))"
  then have "bit ((S_IFREG OR (mode AND 0x1FF)) AND S_IFMT) 15 = bit S_IFDIR 15"
    by (simp add: S_ISDIR_def)
  then show False by (simp add: mode_defs bit_simps)
qed

lemma FileVnode_new_ext [vfs_ext_intros]:
  "FileVnode_new [] (mode AND 0x1FF) dev 0 st = (r, st') \<Longrightarrow> vfs_ext st st'"
  unfolding FileVnode_new_def by (erule Vnode_new_ext) (simp_all add: file_mode_not_dir refs_ok_def)

lemma addChildNode_ext:
  assumes "addChildNode d path r st = Some st'" "d < vn_fresh st" "r < vn_fresh st"
  shows "vfs_ext st st'"
proof -
  from assms(1) obtain es p where ob: "object st d = DirectoryVnode es p"
    and st': "st' = set_object d (DirectoryVnode (es @ [(path, r)]) p) st"
    by (auto simp: addChildNode_def split: vobject.splits)
  show ?thesis
    unfolding st'
  proof (rule set_object_ext)
    show "vfs_ok st \<longrightarrow> refs_ok (vn_fresh st) (\<lambda>q. is_dir (object st q)) (DirectoryVnode (es @ [(path, r)]) p)"
      using ob assms(2, 3) by (auto simp: vfs_ok_def refs_ok_def split: vobject.splits)
  qed (simp add: ob)
qed

lemma resolvePath_ext: "resolvePath E r path st = (x, st1) \<Longrightarrow> vfs_ext st st1"
  using resolvePath_state vfs_ext_fail by blast

lemma openat_create_ext:
  assumes "openat_create E v path mode st = Ret (x, st')" "v < vn_fresh st" "vfs_ok st"
  shows "vfs_ext st st'" "x = Some r \<Longrightarrow> r < vn_fresh st'"
proof -
  obtain dir name where split: "split_last path = (dir, name)" by fastforce
  obtain node st1 where node: "(if dir = [] then (Some v, st) else resolvePath E v dir st) = (node, st1)" by fastforce
  have ext1: "vfs_ext st st1"
    using node resolvePath_ext [of E v dir st] by (auto simp: vfs_ext_refl split: if_splits)
  have "vfs_ext st st' \<and> (x = Some r \<longrightarrow> r < vn_fresh st')"
  proof (cases node)
    case None
    with assms(1) split node ext1 show ?thesis by (simp add: openat_create_def)
  next
    case (Some d)
    obtain fnode st2 where new: "FileVnode_new [] (mode AND 0x1FF) (vn_dev (vnodes st1 v)) 0 st1 = (fnode, st2)" by fastforce
    with assms(1) split node Some obtain st3 where add: "addChildNode d name fnode st2 = Some st3"
      and x: "x = Some fnode" and st3: "st' = st3"
      by (auto simp: openat_create_def split: option.splits)
    have d: "d < vn_fresh st"
      using node Some assms(2) resolvePath_some(2) [OF assms(3, 2)] by (auto split: if_splits)
    note fnode = Vnode_new_simps [OF new [unfolded FileVnode_new_def]]
    have le: "vn_fresh st \<le> vn_fresh st1" using ext1 by (simp add: vfs_ext_def vfs_le_def)
    have "vfs_ext st2 st3" by (rule addChildNode_ext [OF add]) (use d le fnode in auto)
    then have "vfs_ext st1 st3" by (rule vfs_ext_trans [OF FileVnode_new_ext [OF new]])
    moreover have "vn_fresh st3 = vn_fresh st2"
      using add by (auto simp: addChildNode_def split: vobject.splits)
    ultimately show ?thesis using vfs_ext_trans [OF ext1] x st3 fnode by auto
  qed
  then show "vfs_ext st st'" "x = Some r \<Longrightarrow> r < vn_fresh st'" by auto
qed

lemma ftruncate_ext [vfs_ext_intros]: "vfs_ext st (snd (Vnode_ftruncate E r len st))"
  by (auto simp: Vnode_ftruncate_def Let_def intro: vfs_ext_intros split: vobject.split)

lemma ftruncate_fresh [simp]: "vn_fresh (snd (Vnode_ftruncate E r len st)) = vn_fresh st"
  by (auto simp: Vnode_ftruncate_def Let_def split: vobject.split)

lemma openat_ext:
  assumes "FileDescription_openat E f path flags mode st = Ret (d, st')" "fd_vnode f < vn_fresh st" "vfs_ok st"
  shows "vfs_ext st st'" "d = Some g \<Longrightarrow> fd_vnode g < vn_fresh st'"
proof -
  obtain x st1 where res: "resolvePath E (fd_vnode f) path st = (x, st1)" by fastforce
  note ext1 = resolvePath_ext [OF res]
  have "vfs_ext st st' \<and> (d = Some g \<longrightarrow> fd_vnode g < vn_fresh st')"
  proof (cases x)
    case (Some node)
    with res have "st1 = st" "node < vn_fresh st"
      using resolvePath_some [OF assms(3, 2)] by auto
    with assms(1) res Some show ?thesis
      by (auto simp: FileDescription_openat_def FileDescription_new_def intro: vfs_ext_intros)
  next
    case None
    have ok1: "fd_vnode f < vn_fresh st1" "vfs_ok st1"
      using ext1 assms(2, 3) by (auto simp: vfs_ext_def vfs_le_def)
    show ?thesis
    proof (cases "flags AND O_CREAT = 0")
      case True
      with assms(1) res None ext1 show ?thesis by (simp add: FileDescription_openat_def)
    next
      case False
      with assms(1) res None obtain y st2 where
        create: "openat_create E (fd_vnode f) path mode st1 = Ret (y, st2)"
        by (auto simp: FileDescription_openat_def split: outcome.splits)
      note ext2 = openat_create_ext [OF create ok1]
      from assms(1) res None False create have
        "y = None \<and> d = None \<and> st' = st2 \<or>
         (\<exists>node. y = Some node \<and> d = Some (FileDescription_new node) \<and>
           st' = (if flags AND O_TRUNC \<noteq> 0 then snd (Vnode_ftruncate E node 0 st2) else st2))"
        by (cases y) (simp_all add: FileDescription_openat_def)
      then show ?thesis
        using vfs_ext_trans [OF ext1 ext2(1)] ext2(2)
        by (auto simp: FileDescription_new_def intro: vfs_ext_trans [OF _ ftruncate_ext])
    qed
  qed
  then show "vfs_ext st st'" "d = Some g \<Longrightarrow> fd_vnode g < vn_fresh st'" by auto
qed

text \<open>The calls that a process can make on open descriptions, as steps of the file system.\<close>

inductive vfs_step :: "allocator \<Rightarrow> vfs \<Rightarrow> vfs \<Rightarrow> bool" for E where
  step_openat: "fd_vnode f < vn_fresh st \<Longrightarrow> FileDescription_openat E f path flags mode st = Ret (d, st') \<Longrightarrow> vfs_step E st st'"
| step_read: "FileDescription_read f sz st = Ret (n, bs, f', st') \<Longrightarrow> vfs_step E st st'"
| step_wait: "FileDescription_read f sz st = Wait bs st' \<Longrightarrow> vfs_step E st st'"
| step_write: "FileDescription_write E f buffer st = (n, f', st') \<Longrightarrow> vfs_step E st st'"
| step_readdir: "FileDescription_readdir f offset sz st = (n, e, st') \<Longrightarrow> vfs_step E st st'"
| step_tcgetattr: "FileDescription_tcgetattr f st = (n, t, st') \<Longrightarrow> vfs_step E st st'"
| step_tcsetattr: "FileDescription_tcsetattr f flags t st = (n, st') \<Longrightarrow> vfs_step E st st'"

lemma pwrite_ext: "Vnode_pwrite E r buffer pos st = (n, st') \<Longrightarrow> vfs_ext st st'"
  by (auto simp: Vnode_pwrite_def Let_def intro: vfs_ext_intros split: vobject.splits if_splits)

lemma write_ext: "FileDescription_write E f buffer st = (n, f', st') \<Longrightarrow> vfs_ext st st'"
  by (auto simp: FileDescription_write_def Vnode_write_def Let_def intro: vfs_ext_intros
      dest: pwrite_ext split: if_splits prod.splits vobject.splits)

lemma read_ext: "FileDescription_read f sz st = Ret (n, bs, f', st') \<Longrightarrow> vfs_ext st st'"
  and read_wait_ext: "FileDescription_read f sz st = Wait bs st' \<Longrightarrow> vfs_ext st st'"
  by (auto simp: FileDescription_read_def Vnode_pread_def Vnode_read_def Let_def intro: vfs_ext_intros
      split: if_splits prod.splits vobject.splits outcome.splits option.splits read_outcome.splits)

lemma readdir_state: "Vnode_readdir r offset sz st = (n, e, st') \<Longrightarrow> st' = st \<or> st' = fail EBADF st"
  by (cases "object st r") (auto simp: Vnode_readdir_def Let_def split: if_splits prod.splits)

lemma readdir_ext: "FileDescription_readdir f offset sz st = (n, e, st') \<Longrightarrow> vfs_ext st st'"
  unfolding FileDescription_readdir_def using readdir_state vfs_ext_intros(1, 2) by metis

lemma vfs_step_ext: "vfs_step E st st' \<Longrightarrow> vfs_ok st \<Longrightarrow> vfs_ext st st'"
  by (erule vfs_step.cases) (auto dest: openat_ext(1) read_ext read_wait_ext write_ext readdir_ext
      simp: FileDescription_tcgetattr_def FileDescription_tcsetattr_def Vnode_tcgetattr_def Vnode_tcsetattr_def
      intro: vfs_ext_intros split: vobject.splits)

lemma vfs_steps_ext: "(vfs_step E)\<^sup>*\<^sup>* st st' \<Longrightarrow> vfs_ok st \<Longrightarrow> vfs_ext st st' \<and> vfs_ok st'"
proof (induction rule: rtranclp_induct)
  case (step st1 st2)
  with vfs_step_ext [of E st1 st2] show ?case using vfs_ext_trans by (auto simp: vfs_ext_def)
qed (simp add: vfs_ext_refl)

text \<open>
  C7: whatever calls processes make, in any order, the tree of files stays well-formed (directories
  refer to existing vnodes and modes tell the kinds of vnodes), and every path that leads to a
  vnode goes on leading to the same one, of the same mode.
\<close>

theorem names_stay:
  assumes "(vfs_step E)\<^sup>*\<^sup>* st st'" "vfs_ok st" "r < vn_fresh st" "fst (resolvePath E r path st) = Some v"
  shows "vfs_ok st' \<and> fst (resolvePath E r path st') = Some v \<and> vn_mode (vnodes st' v) = vn_mode (vnodes st v)"
proof -
  from assms(4) have res: "resolvePath E r path st = (Some v, snd (resolvePath E r path st))"
    by (metis prod.collapse)
  from vfs_steps_ext [OF assms(1, 2)] have le: "vfs_le st st'" "vfs_ok st'" by (simp_all add: vfs_ext_def)
  with resolvePath_some [OF assms(2, 3) res] show ?thesis by (auto simp: vfs_le_def)
qed

lemma demo_vfs_ok: "vfs_ok demo_vfs"
  by (auto simp: demo_vfs_def vfs_ok_def refs_ok_def mode_defs less_Suc_eq numeral_3_eq_3)

theorem names_stay_witness:
  "vfs_ok (snd (snd (FileDescription_write demo_allocator (FileDescription_new 2) [9] demo_vfs))) \<and>
   fst (resolvePath demo_allocator 0 (bytes ''/etc/..//a'')
     (snd (snd (FileDescription_write demo_allocator (FileDescription_new 2) [9] demo_vfs)))) = Some 2"
proof -
  let ?w = "FileDescription_write demo_allocator (FileDescription_new 2) [9] demo_vfs"
  have "vfs_step demo_allocator demo_vfs (snd (snd ?w))"
    by (rule step_write [of _ _ _ _ "fst ?w" "fst (snd ?w)"]) simp
  then have "(vfs_step demo_allocator)\<^sup>*\<^sup>* demo_vfs (snd (snd ?w))" by (rule r_into_rtranclp)
  moreover have "fst (resolvePath demo_allocator 0 (bytes ''/etc/..//a'') demo_vfs) = Some 2"
    by code_simp
  ultimately show ?thesis
    using names_stay [of demo_allocator demo_vfs "snd (snd ?w)" 0 "bytes ''/etc/..//a''" 2] demo_vfs_ok
    by (simp add: demo_vfs_def)
qed

section \<open>Creating files\<close>

lemma split_last_cases:
  assumes "split_last path = (dir, name)"
  shows "(\<forall>c \<in> set name. no_slash c) \<and> (dir = [] \<and> path = name \<or> path = dir @ 47 # name)"
proof -
  let ?n = "takeWhile no_slash (rev path)" and ?d = "dropWhile no_slash (rev path)"
  from assms have name: "name = rev ?n" and dir: "dir = take (length path - length name - 1) path"
    by (auto simp: split_last_def Let_def)
  have slash: "\<forall>c \<in> set name. no_slash c" unfolding name by (auto dest: set_takeWhileD)
  have path: "path = rev ?d @ name" unfolding name by (metis rev_append rev_rev_ident takeWhile_dropWhile_id)
  show ?thesis
  proof (cases ?d)
    case Nil
    with path dir slash show ?thesis by simp
  next
    case (Cons x xs)
    then have "\<not> no_slash x" by (metis hd_dropWhile list.sel(1) list.distinct(1))
    with path Cons have "path = rev xs @ 47 # name" by (simp add: no_slash_def)
    with dir slash show ?thesis by simp
  qed
qed

lemma takeWhile_slash:
  "takeWhile no_slash (n @ 47 # rest) = takeWhile no_slash n"
  "dropWhile no_slash (n @ 47 # rest) = (case dropWhile no_slash n of [] \<Rightarrow> 47 # rest | x # xs \<Rightarrow> x # xs @ 47 # rest)"
  by (induction n) (simp_all add: no_slash_def)

lemma resolve_loop_append:
  assumes "vfs_ok st" "r < vn_fresh st" "resolve_loop r dir st = (Some v, st1)" "S_ISDIR (vn_mode (vnodes st v))"
  shows "resolve_loop r (dir @ 47 # rest) st = resolve_loop v rest st"
  using assms
proof (induction r dir st rule: resolve_loop.induct)
  case (1 r dir st)
  note IH = 1(1, 2) and ok = 1(3) and r = 1(4) and run = 1(5) and isdir = 1(6)
  let ?n = "takeWhile no_slash dir"
  show ?case
  proof (cases "dropWhile no_slash dir")
    case Nil
    note drop = takeWhile_slash(2) [of dir rest, unfolded Nil, simplified]
    show ?thesis
    proof (cases "?n = []")
      case True
      with run Nil have "v = r" by (simp add: resolve_loop_last)
      with True show ?thesis by (simp add: resolve_loop_empty [OF drop] takeWhile_slash)
    next
      case False
      with run Nil have get: "Vnode_getChildNode r ?n st = (Some v, st1)" by (simp add: resolve_loop_last)
      with getChildNode_some(1) [OF ok r] have "st1 = st" by blast
      with get False isdir show ?thesis by (simp add: resolve_loop_name [OF drop takeWhile_slash(1)])
    qed
  next
    case (Cons x xs)
    note drop = takeWhile_slash(2) [of dir rest, unfolded Cons, simplified]
    show ?thesis
    proof (cases "?n = []")
      case True
      from run have "resolve_loop r xs st = (Some v, st1)" by (simp add: resolve_loop_empty [OF Cons True])
      from IH(1) [OF refl Cons True ok r this isdir] True show ?thesis
        by (simp add: resolve_loop_empty [OF drop] takeWhile_slash)
    next
      case False
      obtain o' st2 where get: "Vnode_getChildNode r ?n st = (o', st2)" by fastforce
      with run obtain c where "o' = Some c" by (cases o') (simp_all add: resolve_loop_name [OF Cons refl False])
      with get getChildNode_some(1) [OF ok r] have c: "Vnode_getChildNode r ?n st = (Some c, st)" by blast
      from run have dir: "S_ISDIR (vn_mode (vnodes st c))" and rest: "resolve_loop c xs st = (Some v, st1)"
        by (simp_all add: resolve_loop_name [OF Cons refl False] c split: if_splits)
      have "resolve_loop c (xs @ 47 # rest) st = resolve_loop v rest st"
        by (rule IH(2) [OF refl Cons False c [symmetric] refl])
          (simp_all add: dir rest ok isdir getChildNode_some(2) [OF ok r c])
      with dir False c show ?thesis by (simp add: resolve_loop_name [OF drop takeWhile_slash(1)])
    qed
  qed
qed

text \<open>The name in a directory decides where a path leads, and the directory is found as before.\<close>

lemma resolve_in_dir:
  assumes "vfs_ok st" "r < vn_fresh st" "split_last path = (dir, name)" "name \<noteq> []"
    and "if dir = [] then node = r else resolve_loop r dir st = (Some node, st1)" "is_dir (object st node)"
  shows "resolve_loop r path st = Vnode_getChildNode node name st"
proof -
  from split_last_cases [OF assms(3)] have slash: "\<forall>c \<in> set name. no_slash c"
    and path: "dir = [] \<and> path = name \<or> path = dir @ 47 # name" by blast+
  from slash have "takeWhile no_slash name = name" "dropWhile no_slash name = []" by simp_all
  with assms(4) have last: "resolve_loop q name st = Vnode_getChildNode q name st" for q
    by (simp only: resolve_loop_last simp_thms if_True)
  show ?thesis
  proof (cases "dir = []")
    case True
    with assms(5) have "node = r" by simp
    moreover have "resolve_loop r (47 # name) st = resolve_loop r name st"
      by (rule resolve_loop_empty [of _ 47]) (simp_all add: no_slash_def)
    ultimately show ?thesis using path True last by auto
  next
    case False
    with assms(5) have res: "resolve_loop r dir st = (Some node, st1)" by simp
    with assms(1, 2) have "node < vn_fresh st" using resolve_loop_some by blast
    with assms(1, 6) have "S_ISDIR (vn_mode (vnodes st node))" by (simp add: vfs_okD(1))
    from resolve_loop_append [OF assms(1, 2) res this] path False last show ?thesis by auto
  qed
qed

lemma resolvePath_gives:
  "gives E (Suc (length path)) \<Longrightarrow> path \<noteq> [] \<Longrightarrow> resolvePath E r path st = resolve_loop r path st"
  by (simp add: resolvePath_def)

lemma vfs_le_fail: "vfs_le st (fail e st)"
  using vfs_ext_fail by (simp add: vfs_ext_def)

lemma ftruncate_empty:
  "object st r = FileVnode [] \<Longrightarrow> gives E 0 \<Longrightarrow> snd (Vnode_ftruncate E r 0 st) = st"
  by (simp add: Vnode_ftruncate_def realloc_data_def set_object_same)

lemma openat_create_new:
  assumes ok: "vfs_ok st" and r: "v < vn_fresh st"
    and split: "split_last path = (dir, name)"
    and node: "if dir = [] then node = v else resolvePath E v dir st = (Some node, st)"
    and ob: "object st node = DirectoryVnode es p"
  shows "\<exists>st'. openat_create E v path mode st = Ret (Some (vn_fresh st), st') \<and>
    object st' (vn_fresh st) = FileVnode [] \<and> vn_mode (vnodes st' (vn_fresh st)) = S_IFREG OR (mode AND 0x1FF) \<and>
    object st' node = DirectoryVnode (es @ [(name, vn_fresh st)]) p"
proof -
  obtain fnode st1 where new: "FileVnode_new [] (mode AND 0x1FF) (vn_dev (vnodes st v)) 0 st = (fnode, st1)" by fastforce
  note file_simps = Vnode_new_simps [OF new [unfolded FileVnode_new_def]]
  have "node < vn_fresh st"
    using node r resolvePath_some(2) [OF ok r] by (auto split: if_splits)
  with file_simps ob have node1: "node \<noteq> fnode" "object st1 node = DirectoryVnode es p" by auto
  then have "addChildNode node name fnode st1 = Some (set_object node (DirectoryVnode (es @ [(name, fnode)]) p) st1)"
    by (simp add: addChildNode_def)
  with split node new node1 file_simps(4, 5) show ?thesis
    by (cases "dir = []") (auto simp: openat_create_def file_simps(1) [symmetric])
qed

lemma openat_new:
  assumes ok: "vfs_ok st" and f: "fd_vnode f < vn_fresh st" and E: "\<forall>n \<le> Suc (length path). gives E n"
    and none: "fst (resolvePath E (fd_vnode f) path st) = None" and flags: "flags AND O_CREAT \<noteq> 0"
    and split: "split_last path = (dir, name)" "name \<noteq> []"
    and node: "if dir = [] then node = fd_vnode f else fst (resolvePath E (fd_vnode f) dir st) = Some node"
    and isdir: "is_dir (object st node)"
  shows "\<exists>st'. FileDescription_openat E f path flags mode st = Ret (Some (FileDescription_new (vn_fresh st)), st') \<and>
    object st' (vn_fresh st) = FileVnode [] \<and> vn_mode (vnodes st' (vn_fresh st)) = S_IFREG OR (mode AND 0x1FF) \<and>
    fst (resolvePath E (fd_vnode f) path st') = Some (vn_fresh st)"
proof -
  let ?v = "fd_vnode f"
  obtain e where res: "resolvePath E ?v path st = (None, fail e st)"
    using none resolvePath_state by (metis prod.collapse)
  from split_last_cases [OF split(1)] split(2) E have len: "gives E (Suc (length path))" "path \<noteq> []" "gives E 0"
    "dir \<noteq> [] \<longrightarrow> resolvePath E ?v dir = resolve_loop ?v dir" by (auto simp: fun_eq_iff resolvePath_gives)
  have node': "if dir = [] then node = ?v else resolvePath E ?v dir st = (Some node, st)"
    using node resolvePath_some(1) [OF ok f] by (metis prod.collapse)
  obtain es p where ob: "object st node = DirectoryVnode es p"
    using isdir by (auto simp: is_dir_def split: vobject.splits)
  have get: "fst (Vnode_getChildNode node name st) = None"
    using resolve_in_dir [OF ok f split, of node st] node' isdir none len
    by (simp add: resolvePath_gives split: if_splits)
  have ok1: "vfs_ok (fail e st)" "?v < vn_fresh (fail e st)" using ok f by (simp_all add: vfs_ok_def)
  have "if dir = [] then node = ?v else resolvePath E ?v dir (fail e st) = (Some node, fail e st)"
    using node' resolvePath_some(3) [OF ok f _ vfs_le_fail] by (auto split: if_splits)
  from openat_create_new [OF ok1 split(1) this, of es p mode] ob obtain st' where
    create: "openat_create E ?v path mode (fail e st) = Ret (Some (vn_fresh st), st')"
    and new: "object st' (vn_fresh st) = FileVnode []" "vn_mode (vnodes st' (vn_fresh st)) = S_IFREG OR (mode AND 0x1FF)"
    "object st' node = DirectoryVnode (es @ [(name, vn_fresh st)]) p" by auto
  have ext: "vfs_ext st st'"
    by (rule vfs_ext_trans [OF vfs_ext_fail openat_create_ext(1) [OF create ok1(2, 1)]])
  then have ok': "vfs_ok st'" and le: "vfs_le st st'" and f': "?v < vn_fresh st'"
    using ok f by (auto simp: vfs_ext_def vfs_le_def)
  have "if dir = [] then node = ?v else resolve_loop ?v dir st' = (Some node, st')"
  proof (cases "dir = []")
    case False
    with node' have "resolvePath E ?v dir st = (Some node, st)" by simp
    from resolvePath_some(3) [OF ok f this le] False len(4) show ?thesis by (simp del: split_paired_All)
  qed (use node' in simp)
  from resolve_in_dir [OF ok' f' split this] new(3) get ob
  have "fst (resolve_loop ?v path st') = Some (vn_fresh st)"
    by (auto simp: Vnode_getChildNode_def split: if_splits option.splits)
  moreover have "FileDescription_openat E f path flags mode st = Ret (Some (FileDescription_new (vn_fresh st)), st')"
    using res flags create ftruncate_empty [OF new(1) len(3)] by (simp add: FileDescription_openat_def)
  ultimately show ?thesis using new len by (auto simp: resolvePath_gives)
qed

text \<open>
  opening a path that does not exist with \<open>O_CREAT\<close>, its directory given, creates an empty
  regular file, and from then on the path leads to it.
\<close>

theorem openat_creates:
  assumes ok: "vfs_ok st" and f: "fd_vnode f < vn_fresh st" and E: "\<forall>n \<le> Suc (length path). gives E n"
    and none: "fst (resolvePath E (fd_vnode f) path st) = None" and flags: "flags AND O_CREAT \<noteq> 0"
    and split: "split_last path = (dir, name)" "name \<noteq> []"
    and node: "if dir = [] then node = fd_vnode f else fst (resolvePath E (fd_vnode f) dir st) = Some node"
    and isdir: "is_dir (object st node)"
  shows "\<exists>st'. FileDescription_openat E f path flags mode st = Ret (Some (FileDescription_new (vn_fresh st)), st') \<and>
    object st' (vn_fresh st) = FileVnode [] \<and> vn_mode (vnodes st' (vn_fresh st)) = S_IFREG OR (mode AND 0x1FF) \<and>
    fst (resolvePath E (fd_vnode f) path st') = Some (vn_fresh st)"
  by (rule openat_new [OF assms])

theorem openat_creates_witness:
  "\<exists>st'. FileDescription_openat demo_allocator (FileDescription_new 0) (bytes ''etc/passwd'') O_CREAT 0x1A4 demo_vfs =
      Ret (Some (FileDescription_new 3), st') \<and>
    fst (resolvePath demo_allocator 0 (bytes ''etc/passwd'') st') = Some 3"
proof -
  have "split_last (bytes ''etc/passwd'') = (bytes ''etc'', bytes ''passwd'')" by code_simp
  moreover have "fst (resolvePath demo_allocator 0 (bytes ''etc/passwd'') demo_vfs) = None" by code_simp
  moreover have "fst (resolvePath demo_allocator 0 (bytes ''etc'') demo_vfs) = Some 1" by code_simp
  moreover have "is_dir (object demo_vfs 1)" "vn_fresh demo_vfs = 3" by (simp_all add: demo_vfs_def)
  moreover have "O_CREAT AND O_CREAT \<noteq> 0" by (simp add: O_CREAT_def)
  moreover have "bytes ''passwd'' \<noteq> []" "bytes ''etc'' \<noteq> []" "gives demo_allocator n" for n
    by (simp_all add: demo_allocator_def)
  ultimately show ?thesis
    using openat_creates [OF demo_vfs_ok, of "FileDescription_new 0" "bytes ''etc/passwd''" demo_allocator O_CREAT
        "bytes ''etc''" "bytes ''passwd''" 1 "0x1A4"]
    by (auto simp: FileDescription_new_def simp del: bytes_simps)
qed

end
