(* ===== verification/Kernel_Process.thy ===== *)
theory Kernel_Process
  imports Kernel_Frame Kernel_Vfs
begin

text \<open>
  Processes: \<open>kernel/src/process.cpp\<close>, with the program loader.  The state of the kernel extends
  that of its memory by the processes, the saved register contexts by their addresses, the file
  system and the registers that a context switch sets.  A process is known by its reference, 0 is
  the null pointer.  \<open>None\<close> stands for a failed assertion, an access outside an object or a null
  pointer.  Each open file has a description of its own, so the table of a process holds
  descriptions, not references to them.
\<close>

section \<open>Definitions\<close>

type_synonym pref = nat

record int_context =
  cx_edi :: u32
  cx_esi :: u32
  cx_ebp :: u32
  cx_esp :: u32
  cx_ebx :: u32
  cx_edx :: u32
  cx_ecx :: u32
  cx_eax :: u32
  cx_int_no :: u32
  cx_err_code :: u32
  cx_eip :: u32
  cx_cs :: u32
  cx_eflags :: u32
  cx_useresp :: u32
  cx_ss :: u32

definition OPEN_MAX :: nat where "OPEN_MAX = 20"
definition S_IWGRP :: u32 where "S_IWGRP = 0x10"
definition S_IWOTH :: u32 where "S_IWOTH = 0x2"

record process =
  p_interruptContext :: addr
  p_prev :: pref
  p_next :: pref
  p_kstack :: addr
  p_contextChanged :: bool
  p_fdInitialized :: bool
  p_terminated :: bool
  p_parent :: pref
  p_children :: "pref list"
  p_addressSpace :: "space option"
  p_fd :: "fdesc option list"
  p_rootFd :: "fdesc option"
  p_cwdFd :: "fdesc option"
  p_pid :: u32
  p_status :: int
  p_umask :: u32

record sys = kmem +
  procs :: "pref \<Rightarrow> process"
  proc_fresh :: pref
  current :: pref
  firstProcess :: pref
  idleProcess :: pref
  nextPid :: u32
  contexts :: "addr \<Rightarrow> int_context"
  sys_vfs :: vfs
  tss_esp0 :: u32
  cr3 :: u32

record regfork =
  rf_esp :: u32
  rf_eip :: u32
  rf_eax :: u32
  rf_ebx :: u32
  rf_ecx :: u32
  rf_edx :: u32
  rf_esi :: u32
  rf_edi :: u32
  rf_ebp :: u32

definition set_proc :: "pref \<Rightarrow> (process \<Rightarrow> process) \<Rightarrow> sys \<Rightarrow> sys" where
  "set_proc p f st = st\<lparr>procs := (procs st)(p := f (procs st p))\<rparr>"

definition sys_fail :: "int \<Rightarrow> sys \<Rightarrow> sys" where
  "sys_fail e st = st\<lparr>sys_vfs := fail e (sys_vfs st)\<rparr>"

subsection \<open>The list of processes\<close>

definition new_process :: process where
  "new_process = \<lparr>p_interruptContext = 0, p_prev = 0, p_next = 0, p_kstack = 0, p_contextChanged = False,
     p_fdInitialized = False, p_terminated = False, p_parent = 0, p_children = [], p_addressSpace = None,
     p_fd = replicate OPEN_MAX None, p_rootFd = None, p_cwdFd = None, p_pid = 0, p_status = 0,
     p_umask = S_IWGRP OR S_IWOTH\<rparr>"

definition Process_new :: "sys \<Rightarrow> pref \<times> sys" where
  "Process_new st =
     (let p = proc_fresh st in (p, st\<lparr>procs := (procs st)(p := new_process), proc_fresh := p + 1\<rparr>))"

definition Process_delete :: "pref \<Rightarrow> sys \<Rightarrow> sys option" where
  "Process_delete p st =
     (if \<not> p_terminated (procs st p) then None
      else AddressSpace_unmapMemory KernelSpace (p_kstack (procs st p)) 4096 st)"

text \<open>\<open>ctx\<close> is the memory that \<open>new\<close> gives for the context of the idle process.\<close>

definition Process_initialize :: "addr \<Rightarrow> fdesc \<Rightarrow> sys \<Rightarrow> sys" where
  "Process_initialize ctx rootFd st =
     (let (idle, st) = Process_new (st\<lparr>idleProcess := proc_fresh st\<rparr>);
          st = set_proc idle (\<lambda>p. p\<lparr>p_addressSpace := Some KernelSpace, p_rootFd := Some rootFd,
                 p_interruptContext := ctx\<rparr>) st
      in st\<lparr>current := idle, firstProcess := 0\<rparr>)"

definition addProcess :: "pref \<Rightarrow> sys \<Rightarrow> sys" where
  "addProcess process st =
     (let st = set_proc process (\<lambda>p. p\<lparr>p_pid := nextPid st\<rparr>) (st\<lparr>nextPid := nextPid st + 1\<rparr>);
          st = set_proc process (\<lambda>p. p\<lparr>p_next := firstProcess st\<rparr>) st;
          st = (if firstProcess st \<noteq> 0 then set_proc (firstProcess st) (\<lambda>p. p\<lparr>p_prev := process\<rparr>) st else st)
      in st\<lparr>firstProcess := process\<rparr>)"

definition activate :: "space \<Rightarrow> sys \<Rightarrow> sys" where
  "activate sp st = st\<lparr>cr3 := (case sp of KernelSpace \<Rightarrow> kernelPageDir st | UserSpace u \<Rightarrow> pageDir u)\<rparr>"

definition setKernelStack :: "u32 \<Rightarrow> sys \<Rightarrow> sys" where
  "setKernelStack kstack st = st\<lparr>tss_esp0 := kstack\<rparr>"

definition save_context :: "addr \<Rightarrow> process \<Rightarrow> process" where
  "save_context context p =
     (if \<not> p_contextChanged p then p\<lparr>p_interruptContext := context\<rparr> else p\<lparr>p_contextChanged := False\<rparr>)"

definition next_process :: "sys \<Rightarrow> pref" where
  "next_process st =
     (if p_next (procs st (current st)) \<noteq> 0 then p_next (procs st (current st))
      else if firstProcess st \<noteq> 0 then firstProcess st else idleProcess st)"

definition Process_schedule :: "addr \<Rightarrow> sys \<Rightarrow> (addr \<times> sys) option" where
  "Process_schedule context st =
     (let st = set_proc (current st) (save_context context) st;
          st = st\<lparr>current := next_process st\<rparr>;
          p = procs st (current st);
          st = setKernelStack (p_kstack p + 4096) st
      in map_option (\<lambda>sp. (p_interruptContext p, activate sp st)) (p_addressSpace p))"

subsection \<open>Loading programs\<close>

text \<open>Stores through the page tables of the kernel; \<open>None\<close> is a page fault.\<close>

definition poke :: "u32 \<Rightarrow> byte \<Rightarrow> 'x kmem_scheme \<Rightarrow> 'x kmem_scheme option" where
  "poke va b st =
     Option.bind (kernel_getPhysicalAddress (page_of va) st) (\<lambda>pa.
       if pa = 0 then None
       else let i = drop_bit 2 (va AND 0xFFF); k = 8 * unat (va AND 3); w = frames st pa i in
            Some (set_frame pa i (w AND NOT (push_bit k 0xFF) OR push_bit k (ucast b)) st))"

fun poke_all :: "u32 \<Rightarrow> byte list \<Rightarrow> 'x kmem_scheme \<Rightarrow> 'x kmem_scheme option" where
  "poke_all va [] st = Some st"
| "poke_all va (b # bs) st = Option.bind (poke va b st) (poke_all (va + 1) bs)"

definition word_bytes :: "u32 \<Rightarrow> byte list" where
  "word_bytes w = [ucast w, ucast (drop_bit 8 w), ucast (drop_bit 16 w), ucast (drop_bit 24 w)]"

text \<open>Bytes of the file in memory; \<open>None\<close> is an access behind its end.\<close>

definition slice :: "byte list \<Rightarrow> nat \<Rightarrow> nat \<Rightarrow> byte list option" where
  "slice data k n = (if k + n \<le> length data then Some (take n (drop k data)) else None)"

definition le_value :: "byte list \<Rightarrow> u32" where
  "le_value bs = foldr (\<lambda>b w. push_bit 8 w OR ucast b) bs 0"

record elf_header =
  e_ident :: "byte list"
  e_entry :: u32
  e_phoff :: u32
  e_phnum :: u32

record program_header =
  ph_type :: u32
  ph_offset :: u32
  ph_paddr :: u32
  ph_filesz :: u32
  ph_memsz :: u32

definition PT_LOAD :: u32 where "PT_LOAD = 1"

definition read_elf_header :: "byte list \<Rightarrow> elf_header option" where
  "read_elf_header data =
     map_option (\<lambda>h. \<lparr>e_ident = take 16 h, e_entry = le_value (take 4 (drop 24 h)),
         e_phoff = le_value (take 4 (drop 28 h)), e_phnum = le_value (take 2 (drop 44 h))\<rparr>)
       (slice data 0 52)"

definition read_program_header :: "byte list \<Rightarrow> nat \<Rightarrow> program_header option" where
  "read_program_header data k =
     map_option (\<lambda>h. \<lparr>ph_type = le_value (take 4 h), ph_offset = le_value (take 4 (drop 4 h)),
         ph_paddr = le_value (take 4 (drop 12 h)), ph_filesz = le_value (take 4 (drop 16 h)),
         ph_memsz = le_value (take 4 (drop 20 h))\<rparr>)
       (slice data k 32)"

definition check_elf_magic :: "elf_header \<Rightarrow> bool" where
  "check_elf_magic h \<longleftrightarrow> \<not> (e_ident h ! 0 = 0x7F \<and> e_ident h ! 1 = 69 \<and> e_ident h ! 2 = 76 \<and> e_ident h ! 3 = 70)"

definition load_segment :: "byte list \<Rightarrow> space \<Rightarrow> program_header \<Rightarrow> 'x kmem_scheme \<Rightarrow> 'x kmem_scheme option" where
  "load_segment data newAddressSpace ph st =
     (if ph_type ph \<noteq> PT_LOAD then Some st
      else
        let loadAddressAligned = page_of (ph_paddr ph);
            offset = ph_paddr ph - loadAddressAligned;
            sz = KALIGN_UP (ph_memsz ph + offset) 4096
        in Option.bind (mapMemory_at newAddressSpace loadAddressAligned sz PROT_FLAGS st) (\<lambda>(_, st).
           Option.bind (mapFromOtherAddressSpace KernelSpace newAddressSpace loadAddressAligned sz PROT_WRITE st)
             (\<lambda>(dest, st).
           Option.bind (poke_all (dest + offset) (replicate (unat (ph_memsz ph)) 0) st) (\<lambda>st.
           Option.bind (slice data (unat (ph_offset ph)) (unat (ph_filesz ph))) (\<lambda>src.
           Option.bind (poke_all (dest + offset) src st) (unmapPhysical KernelSpace dest sz))))))"

fun load_segments :: "byte list \<Rightarrow> space \<Rightarrow> nat \<Rightarrow> nat \<Rightarrow> 'x kmem_scheme \<Rightarrow> 'x kmem_scheme option" where
  "load_segments data newAddressSpace k 0 st = Some st"
| "load_segments data newAddressSpace k (Suc n) st =
     Option.bind (read_program_header data k) (\<lambda>ph.
     Option.bind (load_segment data newAddressSpace ph st)
       (load_segments data newAddressSpace (k + 32) n))"

text \<open>The entry point, or \<open>-1\<close> with \<open>EACCES\<close>.\<close>

definition loadELF :: "byte list \<Rightarrow> space \<Rightarrow> sys \<Rightarrow> (u32 \<times> sys) option" where
  "loadELF data newAddressSpace st =
     Option.bind (read_elf_header data) (\<lambda>header.
       if check_elf_magic header then Some (- 1, sys_fail EACCES st)
       else map_option (\<lambda>st. (e_entry header, st))
              (load_segments data newAddressSpace (unat (e_phoff header)) (unat (e_phnum header)) st))"

text \<open>
  \<open>copyArguments\<close>: the strings of \<open>argv\<close> and \<open>envp\<close> one after the other, then the two arrays of
  pointers to them, each ended by a null pointer.
\<close>

fun pointers :: "u32 \<Rightarrow> byte list list \<Rightarrow> u32 list \<times> u32" where
  "pointers next [] = ([], next)"
| "pointers next (s # ss) = (let (ps, e) = pointers (next + w32 (length s + 1)) ss in (next # ps, e))"

definition string_sizes :: "byte list list \<Rightarrow> u32" where
  "string_sizes ss = w32 (sum_list (map (\<lambda>s. length s + 1) ss))"

definition copyArguments ::
  "byte list list \<Rightarrow> byte list list \<Rightarrow> space \<Rightarrow> sys \<Rightarrow> (nat \<times> u32 \<times> u32 \<times> sys) option" where
  "copyArguments argv envp newAddressSpace st =
     (let argc = length argv; envc = length envp;
          stringSizes = KALIGN_UP (string_sizes argv + string_sizes envp) 4;
          sz = KALIGN_UP (stringSizes + w32 (argc + envc + 2) * 4) 4096
      in Option.bind (AddressSpace_mapMemory newAddressSpace sz (PROT_READ OR PROT_WRITE) st) (\<lambda>(page, st).
         Option.bind (mapFromOtherAddressSpace KernelSpace newAddressSpace page sz PROT_WRITE st) (\<lambda>(pageMapped, st).
           let (argp, e) = pointers page argv;
               (envpp, _) = pointers e envp
           in Option.bind (poke_all pageMapped (concat (map (\<lambda>s. s @ [0]) (argv @ envp))) st) (\<lambda>st.
              Option.bind (poke_all (pageMapped + stringSizes)
                  (concat (map word_bytes (argp @ [0] @ envpp @ [0]))) st) (\<lambda>st.
              Option.bind (unmapPhysical KernelSpace pageMapped sz st) (\<lambda>st.
                let newArgv = page + stringSizes in
                Some (argc, newArgv, newArgv + w32 (argc + 1) * 4, st)))))))"

text \<open>
  \<open>Process::execute\<close>: \<open>first\<close> is the memory that \<open>new\<close> gives for the first segment of the new
  address space, and \<open>tty\<close> the vnode of the terminal.
\<close>

definition open_standard :: "vref \<Rightarrow> fdesc option \<Rightarrow> process \<Rightarrow> process" where
  "open_standard tty idleRoot p =
     (if p_fdInitialized p then p
      else p\<lparr>p_fd := (p_fd p)[0 := Some (FileDescription_new tty), 1 := Some (FileDescription_new tty),
               2 := Some (FileDescription_new tty)],
             p_rootFd := idleRoot, p_cwdFd := idleRoot, p_fdInitialized := True\<rparr>)"

definition delete_space :: "space option \<Rightarrow> sys \<Rightarrow> sys option" where
  "delete_space sp st =
     (case sp of Some (UserSpace u) \<Rightarrow> AddressSpace_delete u st | Some KernelSpace \<Rightarrow> None | None \<Rightarrow> Some st)"

definition exec_context :: "nat \<Rightarrow> u32 \<Rightarrow> u32 \<Rightarrow> u32 \<Rightarrow> u32 \<Rightarrow> int_context" where
  "exec_context argc newArgv newEnvp entry stack =
     \<lparr>cx_edi = 0, cx_esi = 0, cx_ebp = 0, cx_esp = 0, cx_ebx = newArgv, cx_edx = 0,
      cx_ecx = newEnvp, cx_eax = w32 argc, cx_int_no = 0, cx_err_code = 0, cx_eip = entry,
      cx_cs = 0x1B, cx_eflags = 0x200, cx_useresp = stack + 4096, cx_ss = 0x23\<rparr>"

text \<open>The end of \<open>execute\<close>: the process takes over the new address space and its kernel stack.\<close>

definition exec_switch :: "vref \<Rightarrow> pref \<Rightarrow> user_space \<Rightarrow> addr \<Rightarrow> addr \<Rightarrow> sys \<Rightarrow> sys option" where
  "exec_switch tty this u newkstack ctx st =
     (let st = set_proc this (open_standard tty (p_rootFd (procs st (idleProcess st)))) st;
          old = p_addressSpace (procs st this);
          st = set_proc this (\<lambda>p. p\<lparr>p_addressSpace := Some (UserSpace u)\<rparr>) st;
          st = (if this = current st then activate (UserSpace u) st else st)
      in Option.bind (delete_space old st) (\<lambda>st.
           let st = (if this = current st then set_proc this (\<lambda>p. p\<lparr>p_contextChanged := True\<rparr>) st else st)
           in Some (set_proc this (\<lambda>p. p\<lparr>p_kstack := newkstack, p_interruptContext := ctx\<rparr>) st)))"

definition Process_execute ::
  "addr \<Rightarrow> vref \<Rightarrow> pref \<Rightarrow> vref \<Rightarrow> byte list list \<Rightarrow> byte list list \<Rightarrow> sys \<Rightarrow> (int \<times> sys) option" where
  "Process_execute first tty this vnode argv envp st =
     (if \<not> S_ISREG (vn_mode (vnodes (sys_vfs st) vnode)) then Some (- 1, sys_fail EACCES st)
      else
        Option.bind (AddressSpace_new first st) (\<lambda>(u, st).
        Option.bind (loadELF (file_data (object (sys_vfs st) vnode)) (UserSpace u) st) (\<lambda>(entry, st).
          if entry = - 1 then Some (- 1, sys_fail ENOEXEC st)
          else
            Option.bind (AddressSpace_mapMemory KernelSpace 4096 (PROT_READ OR PROT_WRITE) st) (\<lambda>(newkstack, st).
            Option.bind (AddressSpace_mapMemory (UserSpace u) 4096 (PROT_READ OR PROT_WRITE) st) (\<lambda>(stack, st).
            Option.bind (copyArguments argv envp (UserSpace u) st) (\<lambda>(argc, newArgv, newEnvp, st).
              let ctx = newkstack + 4096 - 60;
                  st = st\<lparr>contexts := (contexts st)(ctx := exec_context argc newArgv newEnvp entry stack)\<rparr>
              in map_option (\<lambda>st. (0, st)) (exec_switch tty this u newkstack ctx st)))))))"

subsection \<open>Exit, fork and wait\<close>

definition unlink_process :: "pref \<Rightarrow> sys \<Rightarrow> sys" where
  "unlink_process this st =
     (let nxt = p_next (procs st this); prv = p_prev (procs st this);
          st = (if nxt \<noteq> 0 then set_proc nxt (\<lambda>p. p\<lparr>p_prev := prv\<rparr>) st else st);
          st = (if prv \<noteq> 0 then set_proc prv (\<lambda>p. p\<lparr>p_next := nxt\<rparr>) st else st)
      in if this = firstProcess st then st\<lparr>firstProcess := nxt\<rparr> else st)"

text \<open>The descriptions are deleted with the process; the table keeps the stale pointers.\<close>

definition Process_exit :: "pref \<Rightarrow> int \<Rightarrow> sys \<Rightarrow> sys option" where
  "Process_exit this exitStatus st =
     map_option (set_proc this (\<lambda>p. p\<lparr>p_terminated := True, p_status := exitStatus\<rparr>))
       (delete_space (p_addressSpace (procs st this)) (unlink_process this st))"

definition fork_context :: "regfork \<Rightarrow> int_context \<Rightarrow> int_context" where
  "fork_context r c =
     c\<lparr>cx_eax := rf_eax r, cx_ebx := rf_ebx r, cx_ecx := rf_ecx r, cx_edx := rf_edx r, cx_esi := rf_esi r,
       cx_edi := rf_edi r, cx_ebp := rf_ebp r, cx_eip := rf_eip r, cx_esp := rf_esp r,
       cx_int_no := 0, cx_err_code := 0, cx_cs := 0x1B, cx_eflags := 0x200, cx_ss := 0x23\<rparr>"

text \<open>The parts of \<open>Process::regfork\<close>: the new process, its kernel stack with the registers, its descriptors.\<close>

definition fork_process :: "pref \<Rightarrow> sys \<Rightarrow> pref \<times> sys" where
  "fork_process this st =
     (let (process, st) = Process_new st;
          st = set_proc process (\<lambda>p. p\<lparr>p_parent := this\<rparr>) st
      in (process, set_proc this (\<lambda>p. p\<lparr>p_children := p_children p @ [process]\<rparr>) st))"

definition fork_stack :: "pref \<Rightarrow> regfork \<Rightarrow> sys \<Rightarrow> sys option" where
  "fork_stack process registers st =
     map_option (\<lambda>(kstack, st).
         let ctx = kstack + 4096 - 60;
             st = set_proc process (\<lambda>p. p\<lparr>p_kstack := kstack, p_interruptContext := ctx\<rparr>) st
         in st\<lparr>contexts := (contexts st)(ctx := fork_context registers (contexts st ctx))\<rparr>)
       (AddressSpace_mapMemory KernelSpace 4096 (PROT_READ OR PROT_WRITE) st)"

definition fork_space :: "addr \<Rightarrow> pref \<Rightarrow> pref \<Rightarrow> sys \<Rightarrow> sys option" where
  "fork_space first process this st =
     (case p_addressSpace (procs st this) of
        Some (UserSpace u) \<Rightarrow>
          map_option (\<lambda>(u', st). set_proc process (\<lambda>p. p\<lparr>p_addressSpace := Some (UserSpace u')\<rparr>) st)
            (AddressSpace_fork first u st)
      | _ \<Rightarrow> None)"

definition fork_descriptors :: "pref \<Rightarrow> pref \<Rightarrow> sys \<Rightarrow> sys option" where
  "fork_descriptors process this st =
     (let parent = procs st this in
      if p_rootFd parent = None \<or> p_cwdFd parent = None then None
      else Some (set_proc process (\<lambda>p. p\<lparr>p_fd := p_fd parent, p_rootFd := p_rootFd parent,
                   p_cwdFd := p_cwdFd parent, p_fdInitialized := True\<rparr>) st))"

definition Process_regfork :: "addr \<Rightarrow> pref \<Rightarrow> regfork \<Rightarrow> sys \<Rightarrow> (pref \<times> sys) option" where
  "Process_regfork first this registers st =
     (let (process, st) = fork_process this st in
      Option.bind (fork_stack process registers st) (\<lambda>st.
      Option.bind (fork_space first process this st) (\<lambda>st.
      Option.bind (fork_descriptors process this st) (\<lambda>st.
        Some (process, addProcess process st)))))"

text \<open>The lowest free entry of the table.\<close>

fun free_fd :: "fdesc option list \<Rightarrow> nat \<Rightarrow> nat option" where
  "free_fd [] i = None"
| "free_fd (f # fs) i = (if f = None then Some i else free_fd fs (Suc i))"

definition registerFileDescriptor :: "pref \<Rightarrow> fdesc \<Rightarrow> sys \<Rightarrow> int \<times> sys" where
  "registerFileDescriptor this descr st =
     (case free_fd (take 20 (p_fd (procs st this))) 0 of
        Some i \<Rightarrow> (int i, set_proc this (\<lambda>p. p\<lparr>p_fd := (p_fd p)[i := Some descr]\<rparr>) st)
      | None \<Rightarrow> (- 1, sys_fail EMFILE st))"

fun child_index :: "u32 \<Rightarrow> pref list \<Rightarrow> sys \<Rightarrow> nat option" where
  "child_index pid [] st = None"
| "child_index pid (c # cs) st =
     (if p_pid (procs st c) = pid then Some 0 else map_option Suc (child_index pid cs st))"

definition remove_child :: "nat \<Rightarrow> pref list \<Rightarrow> pref list" where
  "remove_child i cs = butlast (if i < length cs - 1 then cs[i := last cs] else cs)"

text \<open>\<open>Process::waitpid\<close>: the child, a wait in \<open>sched_yield\<close>, or an error.\<close>

datatype wait_result = Exited pref sys | StillRunning sys | WaitError sys

definition Process_waitpid :: "pref \<Rightarrow> u32 \<Rightarrow> int \<Rightarrow> sys \<Rightarrow> wait_result" where
  "Process_waitpid this pid flags st =
     (if flags \<noteq> 0 then WaitError (sys_fail EINVAL st)
      else case child_index pid (p_children (procs st this)) st of
             None \<Rightarrow> WaitError (sys_fail ECHILD st)
           | Some i \<Rightarrow>
               let result = p_children (procs st this) ! i in
               if \<not> p_terminated (procs st result) then StillRunning st
               else Exited result (set_proc this (\<lambda>p. p\<lparr>p_children := remove_child i (p_children p)\<rparr>) st))"

end
