(* ===== verification/Kernel_Sched.thy ===== *)
theory Kernel_Sched
  imports Kernel_Process
begin

text \<open>
  The list of processes and the scheduler.  The list is doubly linked through the processes; adding,
  exiting and scheduling keep it.  The interface \<open>round_robin\<close> states what a scheduler promises for
  one step and derives that every process gets its turn; \<open>Process::schedule\<close> is an instance.
\<close>

section \<open>Round robin\<close>

fun run_steps :: "('a \<Rightarrow> 's \<Rightarrow> 's option) \<Rightarrow> 'a list \<Rightarrow> 's \<Rightarrow> 's option" where
  "run_steps step [] s = Some s"
| "run_steps step (a # as) s = Option.bind (step a s) (run_steps step as)"

locale round_robin =
  fixes step :: "'a \<Rightarrow> 's \<Rightarrow> 's option" and cur :: "'s \<Rightarrow> 'p" and queue :: "'s \<Rightarrow> 'p list \<Rightarrow> bool"
  assumes step_next: "queue s ps \<Longrightarrow> i < length ps \<Longrightarrow> cur s = ps ! i \<Longrightarrow>
      \<exists>s'. step a s = Some s' \<and> queue s' ps \<and> cur s' = ps ! (Suc i mod length ps)"
begin

lemma rotates:
  assumes "queue s ps" "i < length ps" "cur s = ps ! i"
  shows "\<exists>s'. run_steps step as s = Some s' \<and> queue s' ps \<and> cur s' = ps ! ((i + length as) mod length ps)"
  using assms
proof (induction as arbitrary: s i)
  case (Cons a as)
  from step_next [OF Cons.prems] obtain s' where s': "step a s = Some s'" "queue s' ps" "cur s' = ps ! (Suc i mod length ps)"
    by blast
  have "Suc i mod length ps < length ps" using Cons.prems(2) by (intro mod_less_divisor) auto
  moreover have "(Suc i mod length ps + length as) mod length ps = (i + length (a # as)) mod length ps"
    by (simp add: mod_add_left_eq)
  ultimately show ?case using Cons.IH [OF s'(2) _ s'(3)] s'(1) by simp
qed simp

lemma fair:
  assumes "queue s ps" "cur s \<in> set ps" "p \<in> set ps"
  shows "\<exists>n. 0 < n \<and> n \<le> length ps \<and>
    (\<forall>as. length as = n \<longrightarrow> (\<exists>s'. run_steps step as s = Some s' \<and> cur s' = p))"
proof -
  from assms(2, 3) obtain i j where i: "i < length ps" "cur s = ps ! i" and j: "j < length ps" "p = ps ! j"
    by (metis in_set_conv_nth)
  define n where "n = (if i < j then j - i else length ps + j - i)"
  have n: "0 < n" "n \<le> length ps" "(i + n) mod length ps = j"
    using i(1) j(1) by (auto simp: n_def)
  show ?thesis using rotates [OF assms(1) i] n j(2) by metis
qed

end

section \<open>The list of processes\<close>

fun first_proc :: "pref list \<Rightarrow> pref \<Rightarrow> pref" where
  "first_proc [] nxt = nxt"
| "first_proc (p # ps) nxt = p"

fun last_proc :: "pref \<Rightarrow> pref list \<Rightarrow> pref" where
  "last_proc prv [] = prv"
| "last_proc prv (p # ps) = last_proc p ps"

fun linked :: "(pref \<Rightarrow> process) \<Rightarrow> pref \<Rightarrow> pref list \<Rightarrow> pref \<Rightarrow> bool" where
  "linked h prv [] nxt = True"
| "linked h prv (p # ps) nxt \<longleftrightarrow>
     p \<noteq> 0 \<and> p_prev (h p) = prv \<and> p_next (h p) = first_proc ps nxt \<and> linked h p ps nxt"

text \<open>The processes that can run, in the order of the list, and the idle process outside of it.\<close>

definition run_queue :: "sys \<Rightarrow> pref list \<Rightarrow> bool" where
  "run_queue st ps \<longleftrightarrow> distinct ps \<and> firstProcess st = first_proc ps 0 \<and> linked (procs st) 0 ps 0 \<and>
     idleProcess st \<notin> set ps \<and> idleProcess st \<noteq> 0 \<and> p_next (procs st (idleProcess st)) = 0 \<and>
     (\<forall>p \<in> set ps \<union> {idleProcess st}. p_addressSpace (procs st p) \<noteq> None)"

lemma first_proc_append [simp]: "first_proc (xs @ ys) nxt = first_proc xs (first_proc ys nxt)"
  by (cases xs) simp_all

lemma linked_append [simp]:
  "linked h prv (xs @ ys) nxt \<longleftrightarrow> linked h prv xs (first_proc ys nxt) \<and> linked h (last_proc prv xs) ys nxt"
  by (induction xs arbitrary: prv) auto

lemma last_proc_snoc [simp]: "last_proc prv (xs @ [x]) = x"
  by (induction xs arbitrary: prv) simp_all

lemma linked_cong:
  "\<forall>p \<in> set ps. p_prev (h' p) = p_prev (h p) \<and> p_next (h' p) = p_next (h p) \<Longrightarrow>
    linked h' prv ps nxt = linked h prv ps nxt"
  by (induction ps arbitrary: prv) auto

lemma linked_nonzero: "linked h prv ps nxt \<Longrightarrow> 0 \<notin> set ps"
  by (induction ps arbitrary: prv) auto

lemma first_proc_zero: "linked h prv ps nxt \<Longrightarrow> first_proc ps 0 = 0 \<longleftrightarrow> ps = []"
  by (cases ps) auto

lemma linked_next:
  "linked h prv ps 0 \<Longrightarrow> i < length ps \<Longrightarrow> p_next (h (ps ! i)) = (if Suc i < length ps then ps ! Suc i else 0)"
proof (induction ps arbitrary: prv i)
  case (Cons p ps)
  then show ?case by (cases i; cases ps) auto
qed simp

lemma set_proc_simps [simp]:
  "procs (set_proc p f st) q = (if q = p then f (procs st p) else procs st q)"
  "firstProcess (set_proc p f st) = firstProcess st" "idleProcess (set_proc p f st) = idleProcess st"
  "current (set_proc p f st) = current st" "nextPid (set_proc p f st) = nextPid st"
  "sys_vfs (set_proc p f st) = sys_vfs st" "proc_fresh (set_proc p f st) = proc_fresh st"
  "contexts (set_proc p f st) = contexts st"
  by (simp_all add: set_proc_def)

lemma sys_frame:
  assumes "kmem.more st' = kmem.more (st :: sys)"
  shows "procs st' = procs st" "firstProcess st' = firstProcess st" "idleProcess st' = idleProcess st"
    "current st' = current st" "nextPid st' = nextPid st" "sys_vfs st' = sys_vfs st"
    "proc_fresh st' = proc_fresh st" "contexts st' = contexts st"
  using assms by (cases st; cases st'; simp)+

lemma run_queue_cong:
  assumes "run_queue st ps" "firstProcess st' = firstProcess st" "idleProcess st' = idleProcess st"
    and "\<forall>p \<in> set ps \<union> {idleProcess st}. p_prev (procs st' p) = p_prev (procs st p) \<and>
      p_next (procs st' p) = p_next (procs st p) \<and> p_addressSpace (procs st' p) = p_addressSpace (procs st p)"
  shows "run_queue st' ps"
  using assms linked_cong [of ps "procs st'" "procs st" 0 0] by (auto simp: run_queue_def)

section \<open>A machine with two processes\<close>

text \<open>The idle process 1, the running process 2 and its parent 3.\<close>

definition demo_user :: user_space where
  "demo_user = \<lparr>pageDir = 0x20000, pageDirMapped = 0xC0200000, firstSegment = 0\<rparr>"

definition demo_process :: "pref \<Rightarrow> pref \<Rightarrow> u32 \<Rightarrow> space \<Rightarrow> process" where
  "demo_process prv nxt n sp = new_process\<lparr>p_prev := prv, p_next := nxt, p_pid := n, p_addressSpace := Some sp,
     p_fd := (replicate OPEN_MAX None)[0 := Some (FileDescription_new 2)], p_rootFd := Some (FileDescription_new 0),
     p_cwdFd := Some (FileDescription_new 1)\<rparr>"

definition demo_registers :: regfork where
  "demo_registers = \<lparr>rf_esp = 0x8000, rf_eip = 0x400000, rf_eax = 0, rf_ebx = 1, rf_ecx = 2, rf_edx = 3,
     rf_esi = 4, rf_edi = 5, rf_ebp = 6\<rparr>"

definition demo_context :: int_context where
  "demo_context = \<lparr>cx_edi = 0, cx_esi = 0, cx_ebp = 0, cx_esp = 0, cx_ebx = 0, cx_edx = 0, cx_ecx = 0, cx_eax = 0,
     cx_int_no = 0, cx_err_code = 0, cx_eip = 0, cx_cs = 0, cx_eflags = 0, cx_useresp = 0, cx_ss = 0\<rparr>"

definition demo_sys :: sys where
  "demo_sys = kmem.extend (demo_kmem0\<lparr>kernelPageDir := 0x1000, segmentsPage := 0xC0109F78, kernelFirstSegment := 0xC010A000,
       segs := (\<lambda>s. if s = 0xC010A000 then \<lparr>seg_address = 0, seg_size = 0xC0001000, seg_flags = 4, seg_prev = 0, seg_next = 0xC010A014\<rparr>
         else if s = 0xC010A014 then \<lparr>seg_address = 0xC0010000, seg_size = 0x3FFF0000, seg_flags = 4, seg_prev = 0xC010A000, seg_next = 0\<rparr>
         else \<lparr>seg_address = 0, seg_size = 0, seg_flags = 0, seg_prev = 0, seg_next = 0\<rparr>)\<rparr>) (sys.fields
     (\<lambda>p. if p = 1 then demo_process 0 0 0 KernelSpace
          else if p = 2 then demo_process 0 3 2 (UserSpace demo_user)
          else if p = 3 then (demo_process 2 0 1 (UserSpace demo_user))\<lparr>p_children := [2]\<rparr> else new_process)
     4 2 2 1 3 (\<lambda>_. demo_context) demo_vfs 0 0)"

lemma demo_queue: "run_queue demo_sys ([] @ 2 # [3])" "run_queue demo_sys [2, 3]"
  by code_simp+

lemma demo_fields: "current demo_sys = 2" "proc_fresh demo_sys = 4" "idleProcess demo_sys = 1" "nextPid demo_sys = 3"
  "p_children (procs demo_sys 3) = [2]" "\<not> p_terminated (procs demo_sys 2)" "p_pid (procs demo_sys 2) = 2"
  "p_fd (procs demo_sys 2) = (replicate OPEN_MAX None)[0 := Some (FileDescription_new 2)]" "p_children (procs demo_sys 2) = []"
  by code_simp+

lemma demo_exit: "\<exists>st'. Process_exit 2 7 demo_sys = Some st'"
proof -
  have "map_option current (Process_exit 2 7 demo_sys) = Some 2" by code_simp
  then show ?thesis by auto
qed

lemma demo_fork: "\<exists>st'. Process_regfork 0xC0300000 2 demo_registers demo_sys = Some (4, st')"
proof -
  have "map_option fst (Process_regfork 0xC0300000 2 demo_registers demo_sys) = Some 4" by code_simp
  then show ?thesis by auto
qed

section \<open>Scheduling\<close>

definition schedule_step :: "addr \<Rightarrow> sys \<Rightarrow> sys option" where
  "schedule_step ctx st = map_option snd (Process_schedule ctx st)"

lemma schedule_simps:
  "schedule_step ctx st = Some st' \<Longrightarrow> current st' = next_process (set_proc (current st) (save_context ctx) st) \<and>
     procs st' = procs (set_proc (current st) (save_context ctx) st) \<and>
     firstProcess st' = firstProcess st \<and> idleProcess st' = idleProcess st \<and> sys_vfs st' = sys_vfs st"
  by (auto simp: schedule_step_def Process_schedule_def setKernelStack_def activate_def Let_def)

lemma save_context_simps [simp]:
  "p_next (save_context c p) = p_next p" "p_prev (save_context c p) = p_prev p"
  "p_addressSpace (save_context c p) = p_addressSpace p" "p_fd (save_context c p) = p_fd p"
  by (simp_all add: save_context_def)

lemma schedule_exists:
  assumes "p_addressSpace (procs st (next_process (set_proc (current st) (save_context ctx) st))) \<noteq> None"
  shows "\<exists>st'. schedule_step ctx st = Some st'"
  using assms by (auto simp: schedule_step_def Process_schedule_def Let_def setKernelStack_def)

lemma next_process_save: "next_process (set_proc (current st) (save_context c) st) = next_process st"
  by (simp add: next_process_def)

lemma schedule_keeps:
  assumes "run_queue st ps" "next_process st \<in> set ps \<union> {idleProcess st}"
  shows "\<exists>st'. schedule_step ctx st = Some st' \<and> run_queue st' ps \<and> current st' = next_process st"
proof -
  have "p_addressSpace (procs st (next_process st)) \<noteq> None" using assms by (auto simp: run_queue_def)
  with schedule_exists [of st ctx] obtain st' where st': "schedule_step ctx st = Some st'"
    by (auto simp: next_process_save)
  note s = schedule_simps [OF this, unfolded next_process_save]
  have "run_queue st' ps" by (rule run_queue_cong [OF assms(1)]) (use s in auto)
  with st' s show ?thesis by blast
qed

interpretation sched: round_robin schedule_step current run_queue
proof
  fix ctx st ps i
  assume q: "run_queue st ps" and i: "i < length ps" "current st = ps ! i"
  then have "next_process st = ps ! (Suc i mod length ps)"
    using linked_next [of "procs st" 0 ps i] linked_nonzero [of "procs st" 0 ps 0]
    by (cases ps) (auto simp: next_process_def run_queue_def mod_Suc in_set_conv_nth)
  moreover have "ps ! (Suc i mod length ps) \<in> set ps" using i(1) by (intro nth_mem mod_less_divisor) auto
  ultimately show "\<exists>st'. schedule_step ctx st = Some st' \<and> run_queue st' ps \<and> current st' = ps ! (Suc i mod length ps)"
    using schedule_keeps [OF q, of ctx] by auto
qed

text \<open>
  C9: no process starves: with any process of the list running, each process of the list becomes the
  current one within as many calls of \<open>Process::schedule\<close> as the list is long, whatever contexts
  are saved on the way.
\<close>

theorem scheduler_fair:
  assumes "run_queue st ps" "current st \<in> set ps" "p \<in> set ps"
  shows "\<exists>n. 0 < n \<and> n \<le> length ps \<and>
    (\<forall>cs. length cs = n \<longrightarrow> (\<exists>st'. run_steps schedule_step cs st = Some st' \<and> current st' = p))"
  using assms by (rule sched.fair)

theorem scheduler_fair_witness:
  "\<exists>n st'. 0 < n \<and> n \<le> 2 \<and> run_steps schedule_step (replicate n 0) demo_sys = Some st' \<and> current st' = 3"
proof -
  from scheduler_fair [OF demo_queue(2), of 3] obtain n where n: "0 < n" "n \<le> 2"
    "\<forall>cs. length cs = n \<longrightarrow> (\<exists>st'. run_steps schedule_step cs demo_sys = Some st' \<and> current st' = 3)"
    by (auto simp: demo_fields numeral_2_eq_2)
  from n(3) [rule_format, of "replicate n 0"] n(1, 2) show ?thesis by auto
qed

section \<open>Adding and exiting\<close>

lemma run_queueD:
  assumes "run_queue st ps"
  shows "distinct ps" "firstProcess st = first_proc ps 0" "linked (procs st) 0 ps 0" "idleProcess st \<notin> set ps"
    "idleProcess st \<noteq> 0" "p_next (procs st (idleProcess st)) = 0"
    "p \<in> set ps \<Longrightarrow> p_addressSpace (procs st p) \<noteq> None" "p_addressSpace (procs st (idleProcess st)) \<noteq> None"
  using assms by (auto simp: run_queue_def)

lemma addProcess_queue:
  assumes q: "run_queue st ps" and p: "p \<notin> set ps" "p \<noteq> 0" "p \<noteq> idleProcess st" "p_prev (procs st p) = 0"
    "p_addressSpace (procs st p) \<noteq> None"
  shows "run_queue (addProcess p st) (p # ps)"
proof -
  note d = run_queueD [OF q]
  show ?thesis
  proof (cases ps)
    case Nil
    with d p show ?thesis by (simp add: addProcess_def run_queue_def Let_def)
  next
    case (Cons x xs)
    have "linked (procs (addProcess p st)) x xs 0 = linked (procs st) x xs 0"
      by (rule linked_cong) (use d p Cons in \<open>auto simp: addProcess_def Let_def\<close>)
    with Cons d p show ?thesis by (auto simp: addProcess_def run_queue_def Let_def)
  qed
qed

lemma linked_unlink:
  assumes l: "linked h prv (xs @ p # ys) 0" and d: "distinct (xs @ p # ys)"
    and h': "\<forall>q \<in> set xs \<union> set ys.
      p_next (h' q) = (if xs \<noteq> [] \<and> q = last xs then first_proc ys 0 else p_next (h q)) \<and>
      p_prev (h' q) = (if ys \<noteq> [] \<and> q = hd ys then last_proc prv xs else p_prev (h q))"
  shows "linked h' prv (xs @ ys) 0"
proof -
  have 1: "linked h' prv xs (first_proc ys 0)"
  proof (cases xs rule: rev_cases)
    case (snoc xs' x)
    have "linked h' prv xs' x = linked h prv xs' x"
      by (rule linked_cong) (use snoc d h' in \<open>auto dest: list.set_sel(1)\<close>)
    with snoc l d h' show ?thesis by (auto dest: list.set_sel(1))
  qed simp
  have 2: "linked h' (last_proc prv xs) ys 0"
  proof (cases ys)
    case (Cons y ys')
    have "linked h' y ys' 0 = linked h y ys' 0"
      by (rule linked_cong) (use Cons d h' in \<open>auto dest: last_in_set\<close>)
    with Cons l d h' show ?thesis by (auto dest: last_in_set)
  qed simp
  from 1 2 show ?thesis by simp
qed

lemma last_proc_last: "xs \<noteq> [] \<Longrightarrow> last_proc prv xs = last xs"
  by (cases xs rule: rev_cases) simp_all

lemma unlink_process_queue:
  assumes q: "run_queue st (xs @ p # ys)"
  shows "run_queue (unlink_process p st) (xs @ ys)"
    and "p_next (procs (unlink_process p st) p) = first_proc ys 0"
    and "p_addressSpace (procs (unlink_process p st) r) = p_addressSpace (procs st r)"
    and "p_pid (procs (unlink_process p st) r) = p_pid (procs st r)"
    and "p_children (procs (unlink_process p st) r) = p_children (procs st r)"
    and "current (unlink_process p st) = current st" "idleProcess (unlink_process p st) = idleProcess st"
proof -
  note d = run_queueD [OF q]
  have nxt: "p_next (procs st p) = first_proc ys 0" and prv: "p_prev (procs st p) = last_proc 0 xs"
    and l: "linked (procs st) p ys 0" using d(3) by simp_all
  have nz: "0 \<notin> set xs" "0 \<notin> set ys" "p \<noteq> 0" using linked_nonzero [OF d(3)] by auto
  have first: "first_proc ys 0 \<noteq> 0 \<longleftrightarrow> ys \<noteq> []" using nz by (cases ys) auto
  have last: "last_proc 0 xs \<noteq> 0 \<longleftrightarrow> xs \<noteq> []" using nz(1) by (cases xs rule: rev_cases) auto
  have procs': "procs (unlink_process p st) r =
      (let x = procs st r; x = (if ys \<noteq> [] \<and> r = hd ys then x\<lparr>p_prev := last_proc 0 xs\<rparr> else x)
       in if xs \<noteq> [] \<and> r = last xs then x\<lparr>p_next := first_proc ys 0\<rparr> else x)" for r
    using first last last_proc_last [of xs 0]
    by (cases ys; cases "xs = []") (auto simp: unlink_process_def Let_def nxt prv)
  have firstP: "firstProcess (unlink_process p st) = first_proc (xs @ ys) 0"
    using d(1, 2) by (cases xs) (auto simp: unlink_process_def Let_def nxt)
  show idle: "current (unlink_process p st) = current st" "idleProcess (unlink_process p st) = idleProcess st"
    by (simp_all add: unlink_process_def Let_def)
  show keep: "p_addressSpace (procs (unlink_process p st) r) = p_addressSpace (procs st r)"
    "p_pid (procs (unlink_process p st) r) = p_pid (procs st r)"
    "p_children (procs (unlink_process p st) r) = p_children (procs st r)" for r
    by (simp_all add: procs' Let_def)
  have dist: "p \<notin> set xs" "p \<notin> set ys" "set xs \<inter> set ys = {}" using d(1) by auto
  show "p_next (procs (unlink_process p st) p) = first_proc ys 0"
    using dist by (auto simp: procs' nxt Let_def dest: last_in_set)
  have "linked (procs (unlink_process p st)) 0 (xs @ ys) 0"
    by (rule linked_unlink [OF d(3, 1)]) (use dist in \<open>auto simp: procs' Let_def dest: last_in_set list.set_sel(1)\<close>)
  moreover have "p_next (procs (unlink_process p st) (idleProcess st)) = 0"
    using d(4, 6) by (auto simp: procs' Let_def dest: last_in_set)
  ultimately show "run_queue (unlink_process p st) (xs @ ys)"
    using d keep by (auto simp: run_queue_def firstP idle)
qed

lemma delete_space_frame: "delete_space sp st = Some st' \<Longrightarrow> kmem.more st' = kmem.more st"
  by (auto simp: delete_space_def dest: kmem_frame split: option.splits space.splits)

lemma Process_exitD:
  assumes "Process_exit p e st = Some st'"
  shows "procs st' r = (if r = p then (procs (unlink_process p st) p)\<lparr>p_terminated := True, p_status := e\<rparr>
      else procs (unlink_process p st) r)"
    and "firstProcess st' = firstProcess (unlink_process p st)" "idleProcess st' = idleProcess (unlink_process p st)"
    and "current st' = current (unlink_process p st)"
proof -
  obtain st1 where st1: "delete_space (p_addressSpace (procs st p)) (unlink_process p st) = Some st1"
    "st' = set_proc p (\<lambda>x. x\<lparr>p_terminated := True, p_status := e\<rparr>) st1"
    using assms by (auto simp: Process_exit_def)
  with sys_frame [OF delete_space_frame [OF st1(1)]]
  show "procs st' r = (if r = p then (procs (unlink_process p st) p)\<lparr>p_terminated := True, p_status := e\<rparr>
      else procs (unlink_process p st) r)"
    "firstProcess st' = firstProcess (unlink_process p st)" "idleProcess st' = idleProcess (unlink_process p st)"
    "current st' = current (unlink_process p st)" by simp_all
qed

text \<open>
  C10: \<open>Process::exit\<close> takes the process out of the list and leaves the other processes there in
  their order, linked in both directions; the process is marked as terminated with its status, and
  the scheduler goes on with its successor, or with the idle process when no process is left.
\<close>

theorem exit_unlinks:
  assumes q: "run_queue st (xs @ p # ys)" and exit: "Process_exit p e st = Some st'" and cur: "current st = p"
  shows "run_queue st' (xs @ ys) \<and> p_terminated (procs st' p) \<and> p_status (procs st' p) = e \<and>
    (\<exists>st''. schedule_step ctx st' = Some st'' \<and> run_queue st'' (xs @ ys) \<and>
      current st'' = first_proc (ys @ xs) (idleProcess st))"
proof -
  note u = unlink_process_queue [OF q] and x = Process_exitD [OF exit]
  have "p \<notin> set (xs @ ys)" "p \<noteq> idleProcess st" using run_queueD(1, 4) [OF q] by auto
  then have q': "run_queue st' (xs @ ys)"
    by (intro run_queue_cong [OF u(1)]) (auto simp: x u)
  have next_p: "next_process st' = first_proc (ys @ xs) (idleProcess st)"
    using run_queueD(2) [OF q'] linked_nonzero [OF run_queueD(3) [OF q']] u(2, 6, 7) cur x(1) [of p] x(3, 4)
    by (cases ys; cases xs) (auto simp: next_process_def)
  have "first_proc (ys @ xs) (idleProcess st) \<in> set (xs @ ys) \<union> {idleProcess st'}"
    using u(7) x(3) by (cases ys; cases xs) auto
  with schedule_keeps [OF q', of ctx] next_p x(1) [of p] show ?thesis using q' by simp
qed

theorem exit_unlinks_witness:
  "\<exists>st' st''. Process_exit 2 7 demo_sys = Some st' \<and> run_queue st' [3] \<and> p_status (procs st' 2) = 7 \<and>
    schedule_step 0 st' = Some st'' \<and> current st'' = 3"
proof -
  obtain st' where "Process_exit 2 7 demo_sys = Some st'" using demo_exit by blast
  with exit_unlinks [OF demo_queue(1) this, of 0] show ?thesis by (auto simp: demo_fields)
qed

section \<open>File descriptors and children\<close>

lemma free_fd_lowest:
  "free_fd fs k = (if None \<in> set fs then Some (k + length (takeWhile (\<lambda>f. f \<noteq> None) fs)) else None)"
  by (induction fs arbitrary: k) auto

text \<open>
  a new description gets the lowest number that is free, all lower numbers and all others keep
  theirs; when all twenty are taken the call fails with \<open>EMFILE\<close> and the table stays.
\<close>

theorem registerFileDescriptor_lowest:
  assumes "length (p_fd (procs st p)) = OPEN_MAX" "registerFileDescriptor p d st = (n, st')"
  shows "(\<forall>i < OPEN_MAX. p_fd (procs st p) ! i \<noteq> None) \<and> n = - 1 \<and> procs st' = procs st \<and> verrno (sys_vfs st') = EMFILE \<or>
    (\<exists>i < OPEN_MAX. n = int i \<and> p_fd (procs st p) ! i = None \<and> (\<forall>j < i. p_fd (procs st p) ! j \<noteq> None) \<and>
      p_fd (procs st' p) = (p_fd (procs st p))[i := Some d] \<and> sys_vfs st' = sys_vfs st)"
proof -
  let ?fs = "p_fd (procs st p)" let ?i = "length (takeWhile (\<lambda>f. f \<noteq> None) ?fs)"
  have take: "take 20 ?fs = ?fs" using assms(1) by (simp add: OPEN_MAX_def)
  show ?thesis
  proof (cases "None \<in> set ?fs")
    case True
    then have i: "?i < length ?fs"
      by (metis (mono_tags, lifting) length_takeWhile_le le_neq_implies_less takeWhile_eq_all_conv takeWhile_eq_take take_all_iff order_refl)
    have "?fs ! ?i = None" using nth_length_takeWhile [OF i] by simp
    moreover have "?fs ! j \<noteq> None" if "j < ?i" for j
      using that takeWhile_nth [OF that] nth_mem [OF that] set_takeWhileD by metis
    moreover have "registerFileDescriptor p d st = (int ?i, set_proc p (\<lambda>p. p\<lparr>p_fd := (p_fd p)[?i := Some d]\<rparr>) st)"
      using True by (simp add: registerFileDescriptor_def take free_fd_lowest)
    ultimately show ?thesis using i assms by (auto intro!: exI [of _ ?i])
  next
    case False
    with assms have "\<forall>i < OPEN_MAX. ?fs ! i \<noteq> None" by (metis nth_mem)
    with False assms(2) show ?thesis
      by (auto simp: registerFileDescriptor_def take free_fd_lowest sys_fail_def fail_def)
  qed
qed

theorem registerFileDescriptor_lowest_witness:
  "\<exists>st'. registerFileDescriptor 2 (FileDescription_new 0) demo_sys = (1, st') \<and>
    p_fd (procs st' 2) = (replicate OPEN_MAX None)[0 := Some (FileDescription_new 2), 1 := Some (FileDescription_new 0)]"
proof -
  obtain n st' where r: "registerFileDescriptor 2 (FileDescription_new 0) demo_sys = (n, st')" by fastforce
  let ?fs = "(replicate OPEN_MAX None)[0 := Some (FileDescription_new 2)]"
  have fs: "?fs ! 0 \<noteq> None" "?fs ! 1 = None" "1 < OPEN_MAX" by (simp_all add: OPEN_MAX_def)
  have "length (p_fd (procs demo_sys 2)) = OPEN_MAX" by (simp add: demo_fields)
  from registerFileDescriptor_lowest [OF this r, unfolded demo_fields] fs(2, 3)
  obtain i where i: "n = int i" "?fs ! i = None" "\<forall>j < i. ?fs ! j \<noteq> None" "p_fd (procs st' 2) = ?fs[i := Some (FileDescription_new 0)]"
    by blast
  from i(2, 3) fs have "i = 1" by (metis less_one linorder_neqE_nat)
  with i r show ?thesis by auto
qed

lemma unlink_process_keeps [simp]:
  "p_pid (procs (unlink_process p st) r) = p_pid (procs st r)"
  "p_children (procs (unlink_process p st) r) = p_children (procs st r)"
  "p_terminated (procs (unlink_process p st) r) = p_terminated (procs st r)"
  by (simp_all add: unlink_process_def Let_def)

lemma child_index_Some:
  assumes "c \<in> set cs" "inj_on (\<lambda>p. p_pid (procs st p)) (set cs)"
  shows "\<exists>i < length cs. child_index (p_pid (procs st c)) cs st = Some i \<and> cs ! i = c"
  using assms
proof (induction cs)
  case (Cons x cs)
  show ?case
  proof (cases "x = c")
    case False
    with Cons.prems have "p_pid (procs st x) \<noteq> p_pid (procs st c)" by (auto simp: inj_on_def)
    moreover from False Cons obtain i where "i < length cs" "child_index (p_pid (procs st c)) cs st = Some i" "cs ! i = c"
      by auto
    ultimately show ?thesis by (intro exI [of _ "Suc i"]) simp
  qed simp
qed simp

lemma mset_remove_child:
  assumes "i < length cs"
  shows "mset (remove_child i cs) = mset cs - {#cs ! i#}"
proof -
  have "cs[i := last cs] = cs" if "\<not> i < length cs - 1"
    using that assms by (cases cs rule: rev_cases) (auto simp: list_update_append less_Suc_eq)
  then have "remove_child i cs = butlast (cs[i := last cs])" by (simp add: remove_child_def)
  then show ?thesis using mset_swap_remove [OF assms] by simp
qed

text \<open>
  C12: a parent learns how its child ended: while the child runs, \<open>waitpid\<close> for its number waits, and
  once it has exited, \<open>waitpid\<close> gives that child with the status of its exit and takes it, and no
  other, off the list of children; any other number gives \<open>ECHILD\<close>.
\<close>

theorem exit_waitpid:
  assumes child: "c \<in> set (p_children (procs st p))" and pids: "inj_on (\<lambda>p. p_pid (procs st p)) (set (p_children (procs st p)))"
    and run: "\<not> p_terminated (procs st c)" and exit: "Process_exit c e st = Some st'"
  shows "Process_waitpid p (p_pid (procs st c)) 0 st = StillRunning st \<and>
    (\<exists>st''. Process_waitpid p (p_pid (procs st c)) 0 st' = Exited c st'' \<and> p_status (procs st'' c) = e \<and>
      mset (p_children (procs st'' p)) = mset (p_children (procs st p)) - {#c#}) \<and>
    (\<forall>n. n \<notin> (\<lambda>p. p_pid (procs st p)) ` set (p_children (procs st p)) \<longrightarrow>
      Process_waitpid p n 0 st = WaitError (sys_fail ECHILD st))"
proof -
  let ?cs = "p_children (procs st p)" let ?pid = "\<lambda>st p. p_pid (procs st p)"
  note x = Process_exitD [OF exit]
  have same: "?pid st' r = ?pid st r" "p_children (procs st' r) = p_children (procs st r)" for r
    by (simp_all add: x(1))
  have ended: "p_terminated (procs st' c)" "p_status (procs st' c) = e" by (simp_all add: x(1))
  obtain i where i: "i < length ?cs" "child_index (?pid st c) ?cs st = Some i" "?cs ! i = c"
    using child_index_Some [OF child pids] by blast
  have "inj_on (?pid st') (set ?cs)" using pids by (simp add: same inj_on_def)
  from child_index_Some [OF child this] obtain j where
    j: "j < length ?cs" "child_index (?pid st c) ?cs st' = Some j" "?cs ! j = c" by (auto simp: same)
  have "child_index n cs st = None" if "n \<notin> ?pid st ` set cs" for n cs
    using that by (induction cs) auto
  then have "Process_waitpid p n 0 st = WaitError (sys_fail ECHILD st)" if "n \<notin> ?pid st ` set ?cs" for n
    using that by (simp add: Process_waitpid_def)
  moreover have "Process_waitpid p (?pid st c) 0 st' =
      Exited c (set_proc p (\<lambda>q. q\<lparr>p_children := remove_child j (p_children q)\<rparr>) st')"
    using j by (simp add: Process_waitpid_def same ended Let_def)
  moreover have "mset (remove_child j ?cs) = mset ?cs - {#c#}" using mset_remove_child [OF j(1)] j(3) by simp
  moreover have "Process_waitpid p (?pid st c) 0 st = StillRunning st"
    using i run by (simp add: Process_waitpid_def Let_def)
  ultimately show ?thesis using ended by (auto simp: same)
qed

theorem exit_waitpid_witness:
  "Process_waitpid 3 2 0 demo_sys = StillRunning demo_sys \<and>
    (\<exists>st' st''. Process_exit 2 7 demo_sys = Some st' \<and> Process_waitpid 3 2 0 st' = Exited 2 st'' \<and>
      p_status (procs st'' 2) = 7 \<and> p_children (procs st'' 3) = [])"
proof -
  obtain st' where "Process_exit 2 7 demo_sys = Some st'" using demo_exit by blast
  with exit_waitpid [OF _ _ _ this, of 3] show ?thesis by (auto simp: demo_fields)
qed

lemma Process_new_simps:
  assumes "Process_new st = (c, st')"
  shows "c = proc_fresh st" "procs st' = (procs st)(c := new_process)" "firstProcess st' = firstProcess st"
    "idleProcess st' = idleProcess st" "nextPid st' = nextPid st" "current st' = current st" "sys_vfs st' = sys_vfs st"
  using assms by (auto simp: Process_new_def Let_def)

lemma addProcess_simps:
  "sys_vfs (addProcess p st) = sys_vfs st" "contexts (addProcess p st) = contexts st"
  "p_fd (procs (addProcess p st) q) = p_fd (procs st q)" "p_parent (procs (addProcess p st) q) = p_parent (procs st q)"
  "p_children (procs (addProcess p st) q) = p_children (procs st q)"
  "p_interruptContext (procs (addProcess p st) q) = p_interruptContext (procs st q)"
  "p_rootFd (procs (addProcess p st) q) = p_rootFd (procs st q)" "p_cwdFd (procs (addProcess p st) q) = p_cwdFd (procs st q)"
  by (auto simp: addProcess_def Let_def)

lemma addProcess_pid: "p_pid (procs (addProcess p st) p) = nextPid st"
  by (auto simp: addProcess_def Let_def)

lemma fork_process_simps:
  assumes "fork_process p st = (c, st')"
  shows "firstProcess st' = firstProcess st" "idleProcess st' = idleProcess st" "nextPid st' = nextPid st"
    "sys_vfs st' = sys_vfs st" "contexts st' = contexts st"
    "procs st' q = (let x = if q = c then new_process\<lparr>p_parent := p\<rparr> else procs st q
      in if q = p then x\<lparr>p_children := p_children x @ [c]\<rparr> else x)"
  using assms by (auto simp: fork_process_def Process_new_def Let_def)

lemma fork_stack_simps:
  assumes "fork_stack c r st = Some st'"
  shows "firstProcess st' = firstProcess st" "idleProcess st' = idleProcess st" "nextPid st' = nextPid st"
    "sys_vfs st' = sys_vfs st" "q \<noteq> c \<Longrightarrow> procs st' q = procs st q"
    "p_parent (procs st' c) = p_parent (procs st c)" "p_prev (procs st' c) = p_prev (procs st c)"
    "p_children (procs st' c) = p_children (procs st c)"
    "contexts st' (p_interruptContext (procs st' c)) = fork_context r (contexts st (p_interruptContext (procs st' c)))"
proof -
  obtain k st1 where m: "AddressSpace_mapMemory KernelSpace 4096 (PROT_READ OR PROT_WRITE) st = Some (k, st1)"
    using assms by (auto simp: fork_stack_def)
  note f = sys_frame [OF space_frames(1) [OF m]]
  have "st' = (let ctx = k + 4096 - 60; st = set_proc c (\<lambda>p. p\<lparr>p_kstack := k, p_interruptContext := ctx\<rparr>) st1
         in st\<lparr>contexts := (contexts st)(ctx := fork_context r (contexts st ctx))\<rparr>)"
    using assms m by (simp add: fork_stack_def)
  then show "firstProcess st' = firstProcess st" "idleProcess st' = idleProcess st" "nextPid st' = nextPid st"
    "sys_vfs st' = sys_vfs st" "q \<noteq> c \<Longrightarrow> procs st' q = procs st q"
    "p_parent (procs st' c) = p_parent (procs st c)" "p_prev (procs st' c) = p_prev (procs st c)"
    "p_children (procs st' c) = p_children (procs st c)"
    "contexts st' (p_interruptContext (procs st' c)) = fork_context r (contexts st (p_interruptContext (procs st' c)))"
    by (simp_all add: Let_def f)
qed

lemma fork_space_simps:
  assumes "fork_space first c p st = Some st'"
  shows "firstProcess st' = firstProcess st" "idleProcess st' = idleProcess st" "nextPid st' = nextPid st"
    "sys_vfs st' = sys_vfs st" "contexts st' = contexts st" "q \<noteq> c \<Longrightarrow> procs st' q = procs st q"
    "\<exists>u. procs st' c = (procs st c)\<lparr>p_addressSpace := Some u\<rparr>"
proof -
  obtain u u' st1 where m: "AddressSpace_fork first u st = Some (u', st1)"
    and st': "st' = set_proc c (\<lambda>p. p\<lparr>p_addressSpace := Some (UserSpace u')\<rparr>) st1"
    using assms by (auto simp: fork_space_def split: option.splits space.splits)
  note f = sys_frame [OF AddressSpace_fork_frame [OF m]]
  show "firstProcess st' = firstProcess st" "idleProcess st' = idleProcess st" "nextPid st' = nextPid st"
    "sys_vfs st' = sys_vfs st" "contexts st' = contexts st" "q \<noteq> c \<Longrightarrow> procs st' q = procs st q"
    "\<exists>u. procs st' c = (procs st c)\<lparr>p_addressSpace := Some u\<rparr>"
    by (auto simp: f st')
qed

lemma fork_descriptors_simps:
  assumes "fork_descriptors c p st = Some st'"
  shows "firstProcess st' = firstProcess st" "idleProcess st' = idleProcess st" "nextPid st' = nextPid st"
    "sys_vfs st' = sys_vfs st" "contexts st' = contexts st"
    "procs st' q = (if q = c then (procs st c)\<lparr>p_fd := p_fd (procs st p), p_rootFd := p_rootFd (procs st p),
       p_cwdFd := p_cwdFd (procs st p), p_fdInitialized := True\<rparr> else procs st q)"
  using assms by (auto simp: fork_descriptors_def Let_def split: if_splits)



end
