(* ===== verification/Kernel_Print.thy ===== *)
theory Kernel_Print
  imports Kernel_Vfs Libc_Printf
begin

text \<open>
  The output of the kernel itself, \<open>kernel/src/print.cpp\<close>: the formatting engine of the C library
  with the terminal as its destination.
\<close>

definition print_callback :: "terminal callback" where
  "print_callback string st = (let (n, t) = Terminal_write string (pparam st) in (word_of_int n, st\<lparr>pparam := t\<rparr>))"

text \<open>\<open>m\<close> is the memory that the strings of the arguments are in; \<open>None\<close>: the format has more arguments.\<close>

definition Print_printf :: "mem \<Rightarrow> byte list \<Rightarrow> va_list \<Rightarrow> vfs \<Rightarrow> vfs option" where
  "Print_printf m format vl v =
     map_option (\<lambda>(_, ps). v\<lparr>vterm := pparam ps, verrno := perrno ps\<rparr>)
       (vcbprintf (Some print_callback) format vl \<lparr>pmem = m, perrno = verrno v, pparam = vterm v\<rparr>)"

lemma Print_printf_ext: "Print_printf m format vl v = Some v' \<Longrightarrow> vfs_ext v v'"
  using vfs_ext_trans [OF vfs_ext_term vfs_ext_fail [unfolded fail_def]] by (auto simp: Print_printf_def)

end
