(* ===== verification/Kernel_Syscall.thy ===== *)
theory Kernel_Syscall
  imports Kernel_Sched Kernel_Print
begin

text \<open>
  The system calls: \<open>kernel/src/syscall.cpp\<close>.  Each call acts on the current process.  A call returns, blocks in
  \<open>sched_yield\<close> with the bytes read so far, leaves for good (the thread yields and is never resumed
  there), or makes the kernel access memory outside its objects: the calls do not check their
  descriptor numbers, so a number outside the table or without a description is such a fault.
\<close>

section \<open>Definitions\<close>

datatype 'a sysret = Returns 'a sys | Blocks "byte list" sys | Leaves sys | Faults

definition AT_FDCWD :: int where "AT_FDCWD = - 1"
definition RFPROC :: u32 where "RFPROC = 1"
definition RFFDG :: u32 where "RFFDG = 2"
definition MAP_PRIVATE :: u32 where "MAP_PRIVATE = 1"
definition MAP_ANONYMOUS :: u32 where "MAP_ANONYMOUS = 2"
definition MAP_FAILED :: u32 where "MAP_FAILED = 0"
definition NUM_SYSCALLS :: u32 where "NUM_SYSCALLS = 19"

datatype handler =
    H_pad | H_exit | H_write | H_read | H_mmap | H_munmap | H_openat | H_close | H_regfork | H_execve
  | H_waitpid | H_fstatat | H_readdir | H_nanosleep | H_tcgetattr | H_tcsetattr | H_fchdirat | H_uname
  | H_fstat | H_badSyscall

definition syscallList :: "handler list" where
  "syscallList = [H_pad, H_exit, H_write, H_read, H_mmap, H_munmap, H_openat, H_close, H_regfork, H_execve,
     H_waitpid, H_fstatat, H_readdir, H_nanosleep, H_tcgetattr, H_tcsetattr, H_fchdirat, H_uname, H_fstat]"

definition getSyscallHandler :: "u32 \<Rightarrow> handler" where
  "getSyscallHandler interruptNum =
     (if interruptNum \<ge> NUM_SYSCALLS then H_badSyscall else syscallList ! unat interruptNum)"

text \<open>The current process, the entry \<open>fd[n]\<close> of its table, and the description there.\<close>

definition cur_proc :: "sys \<Rightarrow> process" where
  "cur_proc st = procs st (current st)"

definition fd_entry :: "int \<Rightarrow> sys \<Rightarrow> fdesc option option" where
  "fd_entry fd st = (if 0 \<le> fd \<and> fd < int OPEN_MAX then Some (p_fd (cur_proc st) ! nat fd) else None)"

definition descr :: "int \<Rightarrow> sys \<Rightarrow> fdesc option" where
  "descr fd st = Option.bind (fd_entry fd st) id"

definition set_fd :: "int \<Rightarrow> fdesc option \<Rightarrow> sys \<Rightarrow> sys" where
  "set_fd fd d st = set_proc (current st) (\<lambda>p. p\<lparr>p_fd := (p_fd p)[nat fd := d]\<rparr>) st"

definition with_vfs :: "vfs \<Rightarrow> sys \<Rightarrow> sys" where
  "with_vfs v st = st\<lparr>sys_vfs := v\<rparr>"

definition getRootFd :: "int \<Rightarrow> byte list \<Rightarrow> sys \<Rightarrow> fdesc option" where
  "getRootFd fd path st =
     (if path \<noteq> [] \<and> hd path = 47 then p_rootFd (cur_proc st)
      else if fd = AT_FDCWD then p_cwdFd (cur_proc st)
      else descr fd st)"

subsection \<open>Output of the kernel\<close>

definition sys_print :: "mem \<Rightarrow> byte list \<Rightarrow> va_list \<Rightarrow> sys \<Rightarrow> sys option" where
  "sys_print m format vl st = map_option (\<lambda>v. with_vfs v st) (Print_printf m format vl (sys_vfs st))"

definition returns_void :: "sys option \<Rightarrow> unit sysret" where
  "returns_void r = (case r of Some st \<Rightarrow> Returns () st | None \<Rightarrow> Faults)"

fun pad_num :: "byte list \<Rightarrow> u32 \<Rightarrow> u32" where
  "pad_num [] num = num"
| "pad_num (c # cs) num = pad_num cs (num + (ucast c - 65 + 1))"

definition Syscall_pad :: "mem \<Rightarrow> sys \<Rightarrow> unit sysret" where
  "Syscall_pad m st = returns_void (sys_print m (bytes ''Pad: %d'' @ [10]) [pad_num (bytes ''INWOX'') 0] st)"

definition Syscall_badSyscall :: "mem \<Rightarrow> sys \<Rightarrow> unit sysret" where
  "Syscall_badSyscall m st = returns_void (sys_print m (bytes ''Syscall::badSyscall was called'' @ [10]) [] st)"

subsection \<open>Files\<close>

definition Syscall_read :: "int \<Rightarrow> u32 \<Rightarrow> sys \<Rightarrow> (int \<times> byte list) sysret" where
  "Syscall_read fd sz st =
     (case descr fd st of
        None \<Rightarrow> Faults
      | Some f \<Rightarrow>
          (case FileDescription_read f sz (sys_vfs st) of
             Ret (r, bs, f', v) \<Rightarrow> Returns (r, bs) (set_fd fd (Some f') (with_vfs v st))
           | Wait bs v \<Rightarrow> Blocks bs (with_vfs v st)
           | Fault \<Rightarrow> Faults))"

definition Syscall_write :: "allocator \<Rightarrow> int \<Rightarrow> byte list \<Rightarrow> sys \<Rightarrow> int sysret" where
  "Syscall_write E fd buffer st =
     (case descr fd st of
        None \<Rightarrow> Faults
      | Some f \<Rightarrow>
          (let (r, f', v) = FileDescription_write E f buffer (sys_vfs st)
           in Returns r (set_fd fd (Some f') (with_vfs v st))))"

definition Syscall_openat :: "allocator \<Rightarrow> int \<Rightarrow> byte list \<Rightarrow> u32 \<Rightarrow> u32 \<Rightarrow> sys \<Rightarrow> int sysret" where
  "Syscall_openat E fd path flags mode st =
     (case getRootFd fd path st of
        None \<Rightarrow> Faults
      | Some f \<Rightarrow>
          (case FileDescription_openat E f path flags (mode AND NOT (p_umask (cur_proc st))) (sys_vfs st) of
             Ret (None, v) \<Rightarrow> Returns (- 1) (with_vfs v st)
           | Ret (Some d, v) \<Rightarrow>
               (let (r, st) = registerFileDescriptor (current st) d (with_vfs v st) in Returns r st)
           | Wait bs v \<Rightarrow> Blocks bs (with_vfs v st)
           | Fault \<Rightarrow> Faults))"

definition Syscall_close :: "int \<Rightarrow> sys \<Rightarrow> int sysret" where
  "Syscall_close fd st =
     (case fd_entry fd st of
        None \<Rightarrow> Faults
      | Some None \<Rightarrow> Returns (- 1) (sys_fail EBADF st)
      | Some (Some _) \<Rightarrow> Returns 0 (set_fd fd None st))"

definition Syscall_fstat :: "int \<Rightarrow> sys \<Rightarrow> (int \<times> stat) sysret" where
  "Syscall_fstat fd st =
     (case descr fd st of
        None \<Rightarrow> Faults
      | Some f \<Rightarrow> Returns (0, Vnode_stat (fd_vnode f) (sys_vfs st)) st)"

definition Syscall_fstatat :: "allocator \<Rightarrow> int \<Rightarrow> byte list \<Rightarrow> sys \<Rightarrow> (int \<times> stat option) sysret" where
  "Syscall_fstatat E fd path st =
     (case getRootFd fd path st of
        None \<Rightarrow> Faults
      | Some f \<Rightarrow>
          (case resolvePath E (fd_vnode f) path (sys_vfs st) of
             (None, v) \<Rightarrow> Returns (- 1, None) (with_vfs v st)
           | (Some r, v) \<Rightarrow> Returns (0, Some (Vnode_stat r v)) (with_vfs v st)))"

definition Syscall_readdir :: "int \<Rightarrow> u32 \<Rightarrow> u32 \<Rightarrow> sys \<Rightarrow> (int \<times> dirent option) sysret" where
  "Syscall_readdir fd offset sz st =
     (case descr fd st of
        None \<Rightarrow> Faults
      | Some f \<Rightarrow>
          (let (r, e, v) = FileDescription_readdir f offset sz (sys_vfs st) in Returns (r, e) (with_vfs v st)))"

definition Syscall_tcgetattr :: "int \<Rightarrow> sys \<Rightarrow> (int \<times> termios option) sysret" where
  "Syscall_tcgetattr fd st =
     (case descr fd st of
        None \<Rightarrow> Faults
      | Some f \<Rightarrow> (let (r, t, v) = FileDescription_tcgetattr f (sys_vfs st) in Returns (r, t) (with_vfs v st)))"

definition Syscall_tcsetattr :: "int \<Rightarrow> int \<Rightarrow> termios \<Rightarrow> sys \<Rightarrow> int sysret" where
  "Syscall_tcsetattr fd flags t st =
     (case descr fd st of
        None \<Rightarrow> Faults
      | Some f \<Rightarrow> (let (r, v) = FileDescription_tcsetattr f flags t (sys_vfs st) in Returns r (with_vfs v st)))"

definition Syscall_fchdirat :: "allocator \<Rightarrow> int \<Rightarrow> byte list \<Rightarrow> sys \<Rightarrow> int sysret" where
  "Syscall_fchdirat E dirfd path st =
     (case getRootFd dirfd path st of
        None \<Rightarrow> Faults
      | Some f \<Rightarrow>
          (case FileDescription_openat E f path 0 0 (sys_vfs st) of
             Ret (None, v) \<Rightarrow> Returns (- 1) (with_vfs v st)
           | Ret (Some newCwd, v) \<Rightarrow>
               if \<not> S_ISDIR (vn_mode (vnodes v (fd_vnode newCwd))) then Returns (- 1) (sys_fail ENOTDIR (with_vfs v st))
               else Returns 0 (set_proc (current st) (\<lambda>p. p\<lparr>p_cwdFd := Some newCwd\<rparr>) (with_vfs v st))
           | Wait bs v \<Rightarrow> Blocks bs (with_vfs v st)
           | Fault \<Rightarrow> Faults))"

subsection \<open>Processes\<close>

definition Syscall_exit :: "int \<Rightarrow> sys \<Rightarrow> unit sysret" where
  "Syscall_exit e st =
     (case Process_exit (current st) e st of None \<Rightarrow> Faults | Some st \<Rightarrow> Leaves st)"

definition Syscall_regfork :: "addr \<Rightarrow> u32 \<Rightarrow> regfork \<Rightarrow> sys \<Rightarrow> int sysret" where
  "Syscall_regfork first flags registers st =
     (if \<not> (flags AND RFPROC \<noteq> 0 \<and> flags AND RFFDG \<noteq> 0) then Returns (- 1) (sys_fail EINVAL st)
      else (case Process_regfork first (current st) registers st of
              None \<Rightarrow> Faults
            | Some (newProcess, st) \<Rightarrow> Returns (sint (p_pid (procs st newProcess))) st))"

definition Syscall_execve ::
  "allocator \<Rightarrow> addr \<Rightarrow> vref \<Rightarrow> byte list option \<Rightarrow> byte list list \<Rightarrow> byte list list \<Rightarrow> sys \<Rightarrow> int sysret" where
  "Syscall_execve E first tty path argv envp st =
     (case path of
        None \<Rightarrow> Returns (- 1) st
      | Some path \<Rightarrow>
          if path = [] then Returns (- 1) st
          else (case getRootFd AT_FDCWD path st of
                  None \<Rightarrow> Faults
                | Some f \<Rightarrow>
                    (case resolvePath E (fd_vnode f) path (sys_vfs st) of
                       (None, v) \<Rightarrow> Returns (- 1) (with_vfs v st)
                     | (Some vnode, v) \<Rightarrow>
                         (case Process_execute first tty (current st) vnode argv envp (with_vfs v st) of
                            None \<Rightarrow> Faults
                          | Some (r, st) \<Rightarrow> if r = - 1 then Returns (- 1) st else Leaves st))))"

definition Syscall_waitpid :: "u32 \<Rightarrow> int \<Rightarrow> sys \<Rightarrow> (int \<times> int option) sysret" where
  "Syscall_waitpid pid flags st =
     (case Process_waitpid (current st) pid flags st of
        WaitError st \<Rightarrow> Returns (- 1, None) st
      | StillRunning st \<Rightarrow> Blocks [] st
      | Exited process st \<Rightarrow>
          (let status' = p_status (procs st process) in
           case Process_delete process st of
             None \<Rightarrow> Faults
           | Some st \<Rightarrow> Returns (sint pid, Some status') st))"

subsection \<open>Memory\<close>

definition mmapImplementation :: "u32 \<Rightarrow> u32 \<Rightarrow> u32 \<Rightarrow> sys \<Rightarrow> u32 sysret" where
  "mmapImplementation sz protection flags st =
     (if sz = 0 \<or> flags AND MAP_PRIVATE = 0 then Returns MAP_FAILED (sys_fail EINVAL st)
      else if flags AND MAP_ANONYMOUS \<noteq> 0 then
        (case p_addressSpace (cur_proc st) of
           None \<Rightarrow> Faults
         | Some sp \<Rightarrow>
             (case AddressSpace_mapMemory sp sz protection st of
                None \<Rightarrow> Faults
              | Some (a, st) \<Rightarrow> Returns a st))
      else Returns MAP_FAILED (sys_fail ENOTSUP st))"

record mmapRequest =
  rq_addr :: u32
  rq_size :: u32
  rq_protection :: u32
  rq_flags :: u32
  rq_fd :: int
  rq_offset :: int

definition Syscall_mmap :: "mmapRequest \<Rightarrow> sys \<Rightarrow> u32 sysret" where
  "Syscall_mmap request = mmapImplementation (rq_size request) (rq_protection request) (rq_flags request)"

definition Syscall_munmap :: "addr \<Rightarrow> u32 \<Rightarrow> sys \<Rightarrow> int sysret" where
  "Syscall_munmap a sz st =
     (if sz = 0 \<or> a AND 0xFFF \<noteq> 0 then Returns (- 1) (sys_fail EINVAL st)
      else (case p_addressSpace (cur_proc st) of
              None \<Rightarrow> Faults
            | Some sp \<Rightarrow>
                (case AddressSpace_unmapMemory sp a sz st of
                   None \<Rightarrow> Faults
                 | Some st \<Rightarrow> Returns 0 st)))"

section \<open>Descriptors stay valid\<close>

text \<open>
  The type invariant of the tables: every process has a table of the full length, and whatever
  description there is, also for the root and the working directory, refers to an existing vnode.
\<close>

definition desc_ok :: "vfs \<Rightarrow> fdesc option \<Rightarrow> bool" where
  "desc_ok v d = (case d of None \<Rightarrow> True | Some f \<Rightarrow> fd_vnode f < vn_fresh v)"

definition table_ok :: "vfs \<Rightarrow> process \<Rightarrow> bool" where
  "table_ok v p \<longleftrightarrow> length (p_fd p) = OPEN_MAX \<and> (\<forall>d \<in> set (p_fd p). desc_ok v d) \<and>
     desc_ok v (p_rootFd p) \<and> desc_ok v (p_cwdFd p)"

definition sys_ok :: "vref \<Rightarrow> sys \<Rightarrow> bool" where
  "sys_ok tty st \<longleftrightarrow> vfs_ok (sys_vfs st) \<and> tty < vn_fresh (sys_vfs st) \<and> (\<forall>p. table_ok (sys_vfs st) (procs st p))"

lemma desc_ok_simps [simp]: "desc_ok v None" "desc_ok v (Some f) \<longleftrightarrow> fd_vnode f < vn_fresh v"
  by (simp_all add: desc_ok_def)

lemma desc_ok_mono: "desc_ok v d \<Longrightarrow> vn_fresh v \<le> vn_fresh v' \<Longrightarrow> desc_ok v' d"
  by (cases d) auto

lemma table_ok_mono: "table_ok v p \<Longrightarrow> vn_fresh v \<le> vn_fresh v' \<Longrightarrow> table_ok v' p"
  unfolding table_ok_def using desc_ok_mono by blast

lemma table_ok_cong:
  "table_ok v p \<Longrightarrow> p_fd q = p_fd p \<Longrightarrow> p_rootFd q = p_rootFd p \<Longrightarrow> p_cwdFd q = p_cwdFd p \<Longrightarrow> table_ok v q"
  by (simp add: table_ok_def)

lemma sys_okD:
  "sys_ok tty st \<Longrightarrow> vfs_ok (sys_vfs st)" "sys_ok tty st \<Longrightarrow> tty < vn_fresh (sys_vfs st)"
  "sys_ok tty st \<Longrightarrow> table_ok (sys_vfs st) (procs st p)"
  by (simp_all add: sys_ok_def)

lemma sys_ok_vfs: "sys_ok tty st \<Longrightarrow> vfs_ext (sys_vfs st) v \<Longrightarrow> sys_ok tty (with_vfs v st)"
  unfolding sys_ok_def vfs_ext_def vfs_le_def with_vfs_def using table_ok_mono by force

lemma sys_fail_with_vfs: "sys_fail e st = with_vfs (fail e (sys_vfs st)) st"
  by (simp add: sys_fail_def with_vfs_def)

lemma sys_ok_fail: "sys_ok tty st \<Longrightarrow> sys_ok tty (sys_fail e st)"
  unfolding sys_fail_with_vfs by (erule sys_ok_vfs) (rule vfs_ext_fail)

lemma sys_ok_set_proc: "sys_ok tty st \<Longrightarrow> table_ok (sys_vfs st) (f (procs st p)) \<Longrightarrow> sys_ok tty (set_proc p f st)"
  by (simp add: sys_ok_def)

lemma sys_ok_keep_table:
  assumes "sys_ok tty st" "\<And>x. p_fd (f x) = p_fd x" "\<And>x. p_rootFd (f x) = p_rootFd x" "\<And>x. p_cwdFd (f x) = p_cwdFd x"
  shows "sys_ok tty (set_proc p f st)"
  by (rule sys_ok_set_proc [OF assms(1) table_ok_cong [OF sys_okD(3) [OF assms(1)]]]) (simp_all add: assms(2-))

lemma sys_ok_set_fd: "sys_ok tty st \<Longrightarrow> desc_ok (sys_vfs st) d \<Longrightarrow> sys_ok tty (set_fd n d st)"
  unfolding set_fd_def
  by (rule sys_ok_set_proc) (auto simp: sys_ok_def table_ok_def dest!: set_update_subset_insert [THEN subsetD])

lemma sys_ok_frame:
  assumes "sys_ok tty st" "kmem.more st' = kmem.more st"
  shows "sys_ok tty st'"
  using assms(1) sys_frame [OF assms(2)] by (simp add: sys_ok_def)

lemma sys_ok_same: "sys_ok tty st \<Longrightarrow> sys_vfs st' = sys_vfs st \<Longrightarrow> procs st' = procs st \<Longrightarrow> sys_ok tty st'"
  by (simp add: sys_ok_def)

lemma descr_ok:
  assumes "sys_ok tty st" "descr n st = Some f"
  shows "fd_vnode f < vn_fresh (sys_vfs st)" "0 \<le> n" "nat n < OPEN_MAX" "p_fd (cur_proc st) ! nat n = Some f"
proof -
  from assms(2) show n: "0 \<le> n" "nat n < OPEN_MAX" "p_fd (cur_proc st) ! nat n = Some f"
    by (auto simp: descr_def fd_entry_def split: if_splits)
  from sys_okD(3) [OF assms(1), of "current st"] n show "fd_vnode f < vn_fresh (sys_vfs st)"
    unfolding table_ok_def cur_proc_def by (metis desc_ok_simps(2) nth_mem)
qed

lemma getRootFd_ok: "sys_ok tty st \<Longrightarrow> getRootFd n path st = Some f \<Longrightarrow> fd_vnode f < vn_fresh (sys_vfs st)"
  using sys_okD(3) [of tty st "current st"] descr_ok(1) [of tty st n f]
  by (auto simp: getRootFd_def table_ok_def cur_proc_def split: if_splits)

subsection \<open>Loading programs changes memory only\<close>

lemma poke_frame [kmem_frame]: "poke va b st = Some st' \<Longrightarrow> kmem.more st' = kmem.more st"
  by (auto simp: poke_def Let_def bind_eq_Some_conv split: if_splits)

lemma poke_all_frame [kmem_frame]: "poke_all va bs st = Some st' \<Longrightarrow> kmem.more st' = kmem.more st"
  by (induction va bs st rule: poke_all.induct) (auto simp: bind_eq_Some_conv dest: poke_frame)

lemma load_segment_frame [kmem_frame]: "load_segment data sp ph st = Some st' \<Longrightarrow> kmem.more st' = kmem.more st"
  unfolding load_segment_def Let_def by (auto simp: bind_eq_Some_conv dest!: kmem_frame split: if_splits)

lemma load_segments_frame [kmem_frame]: "load_segments data sp k n st = Some st' \<Longrightarrow> kmem.more st' = kmem.more st"
  by (induction data sp k n st rule: load_segments.induct) (auto simp: bind_eq_Some_conv dest: load_segment_frame)

lemma copyArguments_frame [kmem_frame]:
  "copyArguments argv envp sp st = Some (n, a, e, st') \<Longrightarrow> kmem.more st' = kmem.more st"
  unfolding copyArguments_def Let_def by (auto simp: bind_eq_Some_conv dest!: kmem_frame simp: case_prod_beta)

lemma delete_space_frame' [kmem_frame]: "delete_space sp st = Some st' \<Longrightarrow> kmem.more st' = kmem.more st"
  by (rule delete_space_frame)

subsection \<open>Operations of processes\<close>

named_theorems sys_ok_steps \<open>operations that keep the tables valid\<close>

lemma loadELF_ok [sys_ok_steps]: "sys_ok tty st \<Longrightarrow> loadELF data sp st = Some (e, st') \<Longrightarrow> sys_ok tty st'"
  by (auto simp: loadELF_def bind_eq_Some_conv sys_ok_fail intro: sys_ok_frame [OF _ load_segments_frame] split: if_splits)

lemma open_standard_ok:
  assumes "table_ok v p" "desc_ok v root" "tty < vn_fresh v"
  shows "table_ok v (open_standard tty root p)"
  using assms
  by (auto simp: open_standard_def table_ok_def FileDescription_new_def dest!: set_update_subset_insert [THEN subsetD])

lemma contexts_ok: "sys_ok tty st \<Longrightarrow> sys_ok tty (st\<lparr>contexts := c\<rparr>)"
  and activate_ok: "sys_ok tty st \<Longrightarrow> sys_ok tty (activate sp st)"
  by (simp_all add: sys_ok_def activate_def)

lemma exec_switch_ok:
  assumes ok: "sys_ok tty st" and run: "exec_switch tty p u k c st = Some st'"
  shows "sys_ok tty st'"
proof -
  have "table_ok (sys_vfs st) (open_standard tty (p_rootFd (procs st (idleProcess st))) (procs st p))"
    using sys_okD [OF ok] by (intro open_standard_ok) (auto simp: table_ok_def)
  then have 1: "sys_ok tty (set_proc p (open_standard tty (p_rootFd (procs st (idleProcess st)))) st)"
    by (rule sys_ok_set_proc [OF ok])
  have 2: "sys_ok tty (set_proc p (\<lambda>p. p\<lparr>p_addressSpace := Some (UserSpace u)\<rparr>)
      (set_proc p (open_standard tty (p_rootFd (procs st (idleProcess st)))) st))"
    by (rule sys_ok_keep_table [OF 1]) simp_all
  define st2 where "st2 = (let st = set_proc p (\<lambda>p. p\<lparr>p_addressSpace := Some (UserSpace u)\<rparr>)
      (set_proc p (open_standard tty (p_rootFd (procs st (idleProcess st)))) st)
    in if p = current st then activate (UserSpace u) st else st)"
  have st2: "sys_ok tty st2" using 2 activate_ok [OF 2] by (auto simp: st2_def Let_def)
  from run obtain old st3 where del: "delete_space old st2 = Some st3"
    and st': "st' = set_proc p (\<lambda>p. p\<lparr>p_kstack := k, p_interruptContext := c\<rparr>)
      (if p = current st3 then set_proc p (\<lambda>p. p\<lparr>p_contextChanged := True\<rparr>) st3 else st3)"
    unfolding exec_switch_def Let_def st2_def bind_eq_Some_conv by blast
  have "sys_ok tty st3" by (rule sys_ok_frame [OF st2 delete_space_frame [OF del]])
  then show ?thesis unfolding st' by (auto intro!: sys_ok_keep_table)
qed

lemma Process_execute_ok [sys_ok_steps]:
  assumes ok: "sys_ok tty st" and run: "Process_execute first tty p vnode argv envp st = Some (r, st')"
  shows "sys_ok tty st'"
proof (cases "S_ISREG (vn_mode (vnodes (sys_vfs st) vnode))")
  case False
  with run ok show ?thesis by (auto simp: Process_execute_def sys_ok_fail)
next
  case True
  obtain u st1 entry st2 where new: "AddressSpace_new first st = Some (u, st1)"
    and load: "loadELF (file_data (object (sys_vfs st1) vnode)) (UserSpace u) st1 = Some (entry, st2)"
    using run True by (auto simp: Process_execute_def bind_eq_Some_conv)
  have ok2: "sys_ok tty st2" by (rule loadELF_ok [OF sys_ok_frame [OF ok AddressSpace_new_frame [OF new]] load])
  show ?thesis
  proof (cases "entry = - 1")
    case minus1: True
    with run True new load ok2 show ?thesis by (auto simp: Process_execute_def sys_ok_fail)
  next
    case False
    with run True new load obtain k st3 s st4 n a e st5 where
      st3: "AddressSpace_mapMemory KernelSpace 4096 (PROT_READ OR PROT_WRITE) st2 = Some (k, st3)" and
      st4: "AddressSpace_mapMemory (UserSpace u) 4096 (PROT_READ OR PROT_WRITE) st3 = Some (s, st4)" and
      st5: "copyArguments argv envp (UserSpace u) st4 = Some (n, a, e, st5)" and
      last: "exec_switch tty p u k (k + 4096 - 60)
        (st5\<lparr>contexts := (contexts st5)(k + 4096 - 60 := exec_context n a e entry s)\<rparr>) = Some st'"
      by (auto simp: Process_execute_def bind_eq_Some_conv Let_def)
    note ok5 = sys_ok_frame [OF sys_ok_frame [OF sys_ok_frame [OF ok2 space_frames(1) [OF st3]] space_frames(1) [OF st4]]
      copyArguments_frame [OF st5]]
    show ?thesis by (rule exec_switch_ok [OF contexts_ok [OF ok5] last])
  qed
qed

lemma Process_exit_ok [sys_ok_steps]:
  assumes ok: "sys_ok tty st" and run: "Process_exit p e st = Some st'"
  shows "sys_ok tty st'"
proof -
  obtain st1 where st1: "delete_space (p_addressSpace (procs st p)) (unlink_process p st) = Some st1"
    "st' = set_proc p (\<lambda>x. x\<lparr>p_terminated := True, p_status := e\<rparr>) st1"
    using run by (auto simp: Process_exit_def)
  have "sys_ok tty (unlink_process p st)"
    using ok by (auto simp: unlink_process_def Let_def sys_ok_def table_ok_def)
  from sys_ok_frame [OF this delete_space_frame [OF st1(1)]] show ?thesis
    unfolding st1(2) by (rule sys_ok_keep_table) simp_all
qed

lemma new_process_ok: "table_ok v new_process"
  by (auto simp: table_ok_def new_process_def)

lemma fork_stack_table:
  assumes "fork_stack c r st = Some st'"
  shows "p_fd (procs st' q) = p_fd (procs st q)" "p_rootFd (procs st' q) = p_rootFd (procs st q)"
    "p_cwdFd (procs st' q) = p_cwdFd (procs st q)" "sys_vfs st' = sys_vfs st"
proof -
  obtain k st1 where m: "AddressSpace_mapMemory KernelSpace 4096 (PROT_READ OR PROT_WRITE) st = Some (k, st1)"
    using assms by (auto simp: fork_stack_def)
  show "p_fd (procs st' q) = p_fd (procs st q)" "p_rootFd (procs st' q) = p_rootFd (procs st q)"
    "p_cwdFd (procs st' q) = p_cwdFd (procs st q)" "sys_vfs st' = sys_vfs st"
    using assms m sys_frame [OF space_frames(1) [OF m]] by (auto simp: fork_stack_def Let_def)
qed

lemma fork_space_ok:
  assumes "sys_ok tty st" "fork_space first c p st = Some st'"
  shows "sys_ok tty st'"
proof -
  obtain u where u: "procs st' c = (procs st c)\<lparr>p_addressSpace := Some u\<rparr>" using fork_space_simps(7) [OF assms(2)] by blast
  have "table_ok (sys_vfs st') (procs st' q)" for q
    using sys_okD(3) [OF assms(1), of q] fork_space_simps(4, 6) [OF assms(2)] u
    by (cases "q = c") (auto simp: table_ok_def)
  with assms(1) fork_space_simps(4) [OF assms(2)] show ?thesis by (simp add: sys_ok_def)
qed

lemma Process_regfork_ok [sys_ok_steps]:
  assumes ok: "sys_ok tty st" and fork: "Process_regfork first p r st = Some (c, st')"
  shows "sys_ok tty st'"
proof -
  obtain st1 st2 st3 st4 where st1: "fork_process p st = (c, st1)" and st2: "fork_stack c r st1 = Some st2"
    and st3: "fork_space first c p st2 = Some st3" and st4: "fork_descriptors c p st3 = Some st4"
    and st': "st' = addProcess c st4"
    using fork by (auto simp: Process_regfork_def bind_eq_Some_conv split: prod.splits)
  have ok1: "sys_ok tty st1"
    using ok new_process_ok unfolding sys_ok_def
    by (auto simp: fork_process_simps [OF st1] table_ok_def Let_def)
  have ok2: "sys_ok tty st2" using ok1 by (auto simp: sys_ok_def table_ok_def fork_stack_table [OF st2])
  note ok3 = fork_space_ok [OF ok2 st3]
  have ok4: "sys_ok tty st4"
    using ok3 by (auto simp: sys_ok_def table_ok_def fork_descriptors_simps [OF st4])
  show ?thesis
    using ok4 unfolding st' by (auto simp: sys_ok_def table_ok_def addProcess_simps)
qed

lemma Process_waitpid_ok [sys_ok_steps]:
  "sys_ok tty st \<Longrightarrow> Process_waitpid p n flags st = Exited c st' \<Longrightarrow> sys_ok tty st'"
  "sys_ok tty st \<Longrightarrow> Process_waitpid p n flags st = WaitError st' \<Longrightarrow> sys_ok tty st'"
  "sys_ok tty st \<Longrightarrow> Process_waitpid p n flags st = StillRunning st' \<Longrightarrow> sys_ok tty st'"
  by (auto simp: Process_waitpid_def Let_def sys_ok_fail intro!: sys_ok_keep_table split: if_splits option.splits)

lemma Process_delete_ok [sys_ok_steps]: "sys_ok tty st \<Longrightarrow> Process_delete p st = Some st' \<Longrightarrow> sys_ok tty st'"
  by (auto simp: Process_delete_def intro: sys_ok_frame [OF _ space_frames(4)] split: if_splits)

lemma registerFileDescriptor_ok [sys_ok_steps]:
  assumes "sys_ok tty st" "registerFileDescriptor p d st = (n, st')" "fd_vnode d < vn_fresh (sys_vfs st)"
  shows "sys_ok tty st'"
proof (cases "free_fd (take 20 (p_fd (procs st p))) 0")
  case (Some i)
  with assms have "st' = set_proc p (\<lambda>p. p\<lparr>p_fd := (p_fd p)[i := Some d]\<rparr>) st"
    by (simp add: registerFileDescriptor_def)
  then show ?thesis
    using sys_okD(3) [OF assms(1), of p] assms(3)
    by (auto simp: table_ok_def intro!: sys_ok_set_proc [OF assms(1)] dest!: set_update_subset_insert [THEN subsetD])
qed (use assms in \<open>auto simp: registerFileDescriptor_def sys_ok_fail\<close>)

lemma schedule_ok [sys_ok_steps]:
  assumes "sys_ok tty st" "schedule_step c st = Some st'"
  shows "sys_ok tty st'"
  using assms(1) schedule_simps [OF assms(2)]
  by (auto simp: sys_ok_def table_ok_def save_context_def)

subsection \<open>System calls\<close>

text \<open>The state in which a call leaves the system, unless it faults.\<close>

fun ret_state :: "'a sysret \<Rightarrow> sys option" where
  "ret_state (Returns x st) = Some st"
| "ret_state (Blocks bs st) = Some st"
| "ret_state (Leaves st) = Some st"
| "ret_state Faults = None"

text \<open>
  What the processes can do together: any call by the current one, with any arguments, and a switch
  to the next one.  \<open>tty\<close> is the vnode of the terminal, \<open>E\<close> the heap.
\<close>

inductive syscall_step :: "allocator \<Rightarrow> vref \<Rightarrow> sys \<Rightarrow> sys \<Rightarrow> bool" for E tty where
  "ret_state (Syscall_read fd sz st) = Some st' \<Longrightarrow> syscall_step E tty st st'"
| "ret_state (Syscall_write E fd buffer st) = Some st' \<Longrightarrow> syscall_step E tty st st'"
| "ret_state (Syscall_openat E fd path flags mode st) = Some st' \<Longrightarrow> syscall_step E tty st st'"
| "ret_state (Syscall_close fd st) = Some st' \<Longrightarrow> syscall_step E tty st st'"
| "ret_state (Syscall_fstat fd st) = Some st' \<Longrightarrow> syscall_step E tty st st'"
| "ret_state (Syscall_fstatat E fd path st) = Some st' \<Longrightarrow> syscall_step E tty st st'"
| "ret_state (Syscall_readdir fd offset sz st) = Some st' \<Longrightarrow> syscall_step E tty st st'"
| "ret_state (Syscall_tcgetattr fd st) = Some st' \<Longrightarrow> syscall_step E tty st st'"
| "ret_state (Syscall_tcsetattr fd act t st) = Some st' \<Longrightarrow> syscall_step E tty st st'"
| "ret_state (Syscall_fchdirat E fd path st) = Some st' \<Longrightarrow> syscall_step E tty st st'"
| "ret_state (Syscall_exit n st) = Some st' \<Longrightarrow> syscall_step E tty st st'"
| "ret_state (Syscall_regfork first flags registers st) = Some st' \<Longrightarrow> syscall_step E tty st st'"
| "ret_state (Syscall_execve E first tty pathp argv envp st) = Some st' \<Longrightarrow> syscall_step E tty st st'"
| "ret_state (Syscall_waitpid pid act st) = Some st' \<Longrightarrow> syscall_step E tty st st'"
| "ret_state (Syscall_mmap request st) = Some st' \<Longrightarrow> syscall_step E tty st st'"
| "ret_state (Syscall_munmap a sz st) = Some st' \<Longrightarrow> syscall_step E tty st st'"
| "ret_state (Syscall_pad m st) = Some st' \<Longrightarrow> syscall_step E tty st st'"
| "ret_state (Syscall_badSyscall m st) = Some st' \<Longrightarrow> syscall_step E tty st st'"
| "schedule_step ctx st = Some st' \<Longrightarrow> syscall_step E tty st st'"

lemma advance_offset_vnode [simp]: "fd_vnode (advance_offset r f) = fd_vnode f"
  by (simp add: advance_offset_def)

lemma read_vnode: "FileDescription_read f sz v = Ret (n, bs, f', v') \<Longrightarrow> fd_vnode f' = fd_vnode f"
  by (auto simp: FileDescription_read_def split: if_splits outcome.splits)

lemma write_vnode: "FileDescription_write E f buffer v = (n, f', v') \<Longrightarrow> fd_vnode f' = fd_vnode f"
  by (auto simp: FileDescription_write_def split: if_splits prod.splits)

lemma sys_vfs_with [simp]: "sys_vfs (with_vfs v st) = v" "procs (with_vfs v st) = procs st" "current (with_vfs v st) = current st"
  by (simp_all add: with_vfs_def)

lemma sys_ok_vfs_fd:
  assumes ok: "sys_ok tty st" and ext: "vfs_ext (sys_vfs st) v"
    and d: "descr fd st = Some f" "fd_vnode f' = fd_vnode f"
  shows "sys_ok tty (set_fd n (Some f') (with_vfs v st))"
  using descr_ok(1) [OF ok d(1)] ext
  by (intro sys_ok_set_fd [OF sys_ok_vfs [OF ok ext]]) (auto simp: d(2) vfs_ext_def vfs_le_def)

lemma read_ok: "sys_ok tty st \<Longrightarrow> ret_state (Syscall_read fd sz st) = Some st' \<Longrightarrow> sys_ok tty st'"
  by (auto simp: Syscall_read_def intro: sys_ok_vfs read_wait_ext sys_ok_vfs_fd [OF _ read_ext _ read_vnode]
      split: option.splits outcome.splits)

lemma write_ok: "sys_ok tty st \<Longrightarrow> ret_state (Syscall_write E fd buffer st) = Some st' \<Longrightarrow> sys_ok tty st'"
  by (auto simp: Syscall_write_def Let_def intro!: sys_ok_vfs_fd write_ext write_vnode split: option.splits prod.splits)

lemma close_ok: "sys_ok tty st \<Longrightarrow> ret_state (Syscall_close fd st) = Some st' \<Longrightarrow> sys_ok tty st'"
  by (auto simp: Syscall_close_def intro!: sys_ok_set_fd sys_ok_fail split: option.splits)

lemma openat_no_wait: "FileDescription_openat E f path flags mode v \<noteq> Wait bs v'"
  by (auto simp: FileDescription_openat_def openat_create_def Let_def
      split: option.splits prod.splits outcome.splits if_splits)

lemma openat_ok:
  assumes ok: "sys_ok tty st" and run: "ret_state (Syscall_openat E fd path flags mode st) = Some st'"
  shows "sys_ok tty st'"
proof -
  obtain f where f: "getRootFd fd path st = Some f" using run by (auto simp: Syscall_openat_def split: option.splits)
  note ext = openat_ext [OF _ getRootFd_ok [OF ok f] sys_okD(1) [OF ok]]
  from run f openat_no_wait obtain d v where
    d: "FileDescription_openat E f path flags (mode AND NOT (p_umask (cur_proc st))) (sys_vfs st) = Ret (d, v)"
    by (auto simp: Syscall_openat_def split: outcome.splits)
  note ok1 = sys_ok_vfs [OF ok ext(1) [OF d]]
  show ?thesis
  proof (cases d)
    case (Some g)
    with ok1 run f d ext(2) [OF d, of g] show ?thesis
      by (auto simp: Syscall_openat_def intro: registerFileDescriptor_ok [OF ok1] split: prod.splits)
  qed (use ok1 run f d in \<open>auto simp: Syscall_openat_def\<close>)
qed

lemma fchdirat_ok:
  assumes ok: "sys_ok tty st" and run: "ret_state (Syscall_fchdirat E fd path st) = Some st'"
  shows "sys_ok tty st'"
proof -
  obtain f where f: "getRootFd fd path st = Some f" using run by (auto simp: Syscall_fchdirat_def split: option.splits)
  note ext = openat_ext [OF _ getRootFd_ok [OF ok f] sys_okD(1) [OF ok]]
  from run f openat_no_wait obtain d v where d: "FileDescription_openat E f path 0 0 (sys_vfs st) = Ret (d, v)"
    by (auto simp: Syscall_fchdirat_def split: outcome.splits)
  note ok1 = sys_ok_vfs [OF ok ext(1) [OF d]]
  have "sys_ok tty (set_proc (current st) (\<lambda>p. p\<lparr>p_cwdFd := Some g\<rparr>) (with_vfs v st))" if "d = Some g" for g
    using ext(2) [OF d that] sys_okD(3) [OF ok1, of "current st"]
    by (intro sys_ok_set_proc [OF ok1]) (simp add: table_ok_def)
  with ok1 run f d sys_ok_fail [OF ok1] show ?thesis
    by (auto simp: Syscall_fchdirat_def split: option.splits if_splits)
qed

lemma print_ok: "sys_ok tty st \<Longrightarrow> sys_print m format vl st = Some st' \<Longrightarrow> sys_ok tty st'"
  by (auto simp: sys_print_def intro: sys_ok_vfs Print_printf_ext)

lemma terminal_calls_ok:
  "sys_ok tty st \<Longrightarrow> ret_state (Syscall_tcgetattr fd st) = Some st' \<Longrightarrow> sys_ok tty st'"
  "sys_ok tty st \<Longrightarrow> ret_state (Syscall_tcsetattr fd act t st) = Some st' \<Longrightarrow> sys_ok tty st'"
  "sys_ok tty st \<Longrightarrow> ret_state (Syscall_pad m st) = Some st' \<Longrightarrow> sys_ok tty st'"
  "sys_ok tty st \<Longrightarrow> ret_state (Syscall_badSyscall m st) = Some st' \<Longrightarrow> sys_ok tty st'"
  by (auto simp: Syscall_tcgetattr_def FileDescription_tcgetattr_def Vnode_tcgetattr_def
      Syscall_tcsetattr_def FileDescription_tcsetattr_def Vnode_tcsetattr_def
      Syscall_pad_def Syscall_badSyscall_def returns_void_def
      intro: sys_ok_vfs vfs_ext_intros print_ok split: option.splits vobject.splits)

lemma look_up_ok:
  "sys_ok tty st \<Longrightarrow> ret_state (Syscall_fstat fd st) = Some st' \<Longrightarrow> sys_ok tty st'"
  "sys_ok tty st \<Longrightarrow> ret_state (Syscall_fstatat E fd path st) = Some st' \<Longrightarrow> sys_ok tty st'"
  "sys_ok tty st \<Longrightarrow> ret_state (Syscall_readdir fd offset sz st) = Some st' \<Longrightarrow> sys_ok tty st'"
  by (auto simp: Syscall_fstat_def Syscall_fstatat_def Syscall_readdir_def
      intro: sys_ok_vfs resolvePath_ext readdir_ext split: option.splits prod.splits)

lemma memory_calls_ok:
  "sys_ok tty st \<Longrightarrow> ret_state (Syscall_mmap request st) = Some st' \<Longrightarrow> sys_ok tty st'"
  "sys_ok tty st \<Longrightarrow> ret_state (Syscall_munmap a sz st) = Some st' \<Longrightarrow> sys_ok tty st'"
  by (auto simp: Syscall_mmap_def mmapImplementation_def Syscall_munmap_def sys_ok_fail
      intro: sys_ok_frame [OF _ space_frames(1)] sys_ok_frame [OF _ space_frames(4)] split: option.splits if_splits)

lemma exit_ok: "sys_ok tty st \<Longrightarrow> ret_state (Syscall_exit n st) = Some st' \<Longrightarrow> sys_ok tty st'"
  by (auto simp: Syscall_exit_def intro: Process_exit_ok split: option.splits)

lemma regfork_ok: "sys_ok tty st \<Longrightarrow> ret_state (Syscall_regfork first flags registers st) = Some st' \<Longrightarrow> sys_ok tty st'"
  by (auto simp: Syscall_regfork_def sys_ok_fail intro: Process_regfork_ok split: option.splits if_splits)

lemma waitpid_ok: "sys_ok tty st \<Longrightarrow> ret_state (Syscall_waitpid pid act st) = Some st' \<Longrightarrow> sys_ok tty st'"
  by (cases "Process_waitpid (current st) pid act st")
     (auto simp: Syscall_waitpid_def Let_def dest: Process_waitpid_ok intro: Process_delete_ok split: option.splits)

lemma execve_ok:
  assumes ok: "sys_ok tty st" and run: "ret_state (Syscall_execve E first tty pathp argv envp st) = Some st'"
  shows "sys_ok tty st'"
proof (cases "pathp = None \<or> pathp = Some []")
  case True
  with ok run show ?thesis by (auto simp: Syscall_execve_def)
next
  case False
  then obtain path f where path: "pathp = Some path" "path \<noteq> []" and f: "getRootFd AT_FDCWD path st = Some f"
    using run by (auto simp: Syscall_execve_def split: option.splits if_splits)
  obtain r v where res: "resolvePath E (fd_vnode f) path (sys_vfs st) = (r, v)" by fastforce
  note ok1 = sys_ok_vfs [OF ok resolvePath_ext [OF res]]
  show ?thesis
  proof (cases r)
    case (Some node)
    with run path f res obtain n where
      "Process_execute first tty (current st) node argv envp (with_vfs v st) = Some (n, st')"
      by (auto simp: Syscall_execve_def split: option.splits if_splits)
    with ok1 show ?thesis by (rule Process_execute_ok)
  qed (use ok1 run path f res in \<open>auto simp: Syscall_execve_def\<close>)
qed

lemmas calls_ok = read_ok write_ok openat_ok close_ok look_up_ok terminal_calls_ok fchdirat_ok exit_ok regfork_ok waitpid_ok
  execve_ok memory_calls_ok schedule_ok

lemma syscall_step_ok: "syscall_step E tty st st' \<Longrightarrow> sys_ok tty st \<Longrightarrow> sys_ok tty st'"
  by (erule syscall_step.cases) (erule (1) calls_ok | simp)+


lemma demo_sys_simps:
  "sys_vfs demo_sys = demo_vfs" "current demo_sys = 2" "cur_proc demo_sys = procs demo_sys 2"
  "procs demo_sys p = (if p = 1 then demo_process 0 0 0 KernelSpace
     else if p = 2 then demo_process 0 3 2 (UserSpace demo_user)
     else if p = 3 then (demo_process 2 0 1 (UserSpace demo_user))\<lparr>p_children := [2]\<rparr> else new_process)"
  by (simp_all add: cur_proc_def demo_sys_def kmem.defs sys.defs)

lemma demo_sys_ok: "sys_ok 2 demo_sys"
proof -
  have "table_ok demo_vfs (demo_process a b n sp)" for a b n sp
    by (auto simp: table_ok_def demo_process_def new_process_def FileDescription_new_def demo_vfs_def
        dest!: set_update_subset_insert [THEN subsetD])
  then have "table_ok demo_vfs (procs demo_sys p)" for p
    using new_process_ok by (auto simp: demo_sys_simps table_ok_def)
  then show ?thesis
    using demo_vfs_ok by (simp add: sys_ok_def demo_sys_simps(1) demo_vfs_def)
qed


section \<open>A file through the system calls\<close>

lemma register_free:
  assumes "length fs = OPEN_MAX" "None \<in> set fs"
  shows "\<exists>i < OPEN_MAX. fs ! i = None \<and> (\<forall>p d st. p_fd (procs st p) = fs \<longrightarrow>
    registerFileDescriptor p d st = (int i, set_proc p (\<lambda>p. p\<lparr>p_fd := (p_fd p)[i := Some d]\<rparr>) st))"
proof (intro exI conjI allI impI)
  let ?i = "length (takeWhile (\<lambda>f. f \<noteq> None) fs)"
  have "takeWhile (\<lambda>f. f \<noteq> None) fs \<noteq> fs" using assms(2) by (auto simp: takeWhile_eq_all_conv)
  then have i: "?i < length fs"
    by (metis length_takeWhile_le le_neq_implies_less takeWhile_eq_take take_all_iff order_refl)
  then show "?i < OPEN_MAX" using assms(1) by simp
  show "fs ! ?i = None" using nth_length_takeWhile [OF i] by simp
  show "registerFileDescriptor p d st = (int ?i, set_proc p (\<lambda>p. p\<lparr>p_fd := (p_fd p)[?i := Some d]\<rparr>) st)"
    if "p_fd (procs st p) = fs" for p d st
    using assms that by (simp add: registerFileDescriptor_def free_fd_lowest OPEN_MAX_def)
qed

lemma set_fd_simps [simp]:
  "procs (set_fd n d st) p = (if p = current st then (procs st p)\<lparr>p_fd := (p_fd (procs st p))[nat n := d]\<rparr> else procs st p)"
  "current (set_fd n d st) = current st" "sys_vfs (set_fd n d st) = sys_vfs st"
  by (simp_all add: set_fd_def)

lemma descr_nth: "i < OPEN_MAX \<Longrightarrow> descr (int i) st = p_fd (procs st (current st)) ! i"
  by (simp add: descr_def fd_entry_def cur_proc_def)

lemma write_new_file:
  assumes "object v r = FileVnode []" "length buffer < 2 ^ 31" "gives E (length buffer)"
  shows "FileDescription_write E (FileDescription_new r) buffer v =
    (int (length buffer), \<lparr>fd_vnode = r, fd_offset = int (length buffer)\<rparr>, set_object r (FileVnode buffer) v)"
  using pwrite_overlay [OF assms(1), of 0 buffer E] overlay_append [of E "[]" buffer] assms
  by (simp add: FileDescription_write_def FileDescription_new_def Vnode_isSeekable_def advance_offset_def)

lemma read_whole_file:
  assumes "object v r = FileVnode data" "length data < 2 ^ 31"
  shows "FileDescription_read (FileDescription_new r) (w32 (length data)) v =
    Ret (int (length data), data, advance_offset (int (length data)) (FileDescription_new r), v)"
  using pread_file [OF assms(1), of 0 "w32 (length data)"] assms unat_w32 [of "length data"]
  by (simp add: FileDescription_read_def FileDescription_new_def Vnode_isSeekable_def)

text \<open>
  C1: a file survives its descriptor.  A path that does not exist, in a directory that does, is
  opened with \<open>O_CREAT\<close>, written, closed and opened again: every call succeeds, the second
  opening gives the same number, and reading returns what was written.
\<close>

theorem file_roundtrip:
  assumes ok: "sys_ok tty st" and f: "getRootFd AT_FDCWD path st = Some f" and E: "\<forall>n. gives E n"
    and none: "fst (resolvePath E (fd_vnode f) path (sys_vfs st)) = None"
    and split: "split_last path = (dir, name)" "name \<noteq> []"
    and node: "if dir = [] then node = fd_vnode f else fst (resolvePath E (fd_vnode f) dir (sys_vfs st)) = Some node"
    and isdir: "is_dir (object (sys_vfs st) node)"
    and free: "None \<in> set (p_fd (cur_proc st))" and len: "length buffer < 2 ^ 31"
  shows "\<exists>n st1 st2 st3 st4 st5. Syscall_openat E AT_FDCWD path O_CREAT mode st = Returns n st1 \<and>
    Syscall_write E n buffer st1 = Returns (int (length buffer)) st2 \<and> Syscall_close n st2 = Returns 0 st3 \<and>
    Syscall_openat E AT_FDCWD path 0 0 st3 = Returns n st4 \<and>
    Syscall_read n (w32 (length buffer)) st4 = Returns (int (length buffer), buffer) st5"
proof -
  let ?fs = "p_fd (cur_proc st)" and ?r = "vn_fresh (sys_vfs st)" and ?p = "current st"
  let ?d = "FileDescription_new ?r"
  note fr = getRootFd_ok [OF ok f]
  have flag: "O_CREAT AND O_CREAT \<noteq> 0" by (simp add: O_CREAT_def)
  have "length ?fs = OPEN_MAX" using sys_okD(3) [OF ok, of ?p] by (simp add: table_ok_def cur_proc_def)
  from register_free [OF this free] obtain i where i: "i < OPEN_MAX" "?fs ! i = None" and
    reg: "\<forall>p d st'. p_fd (procs st' p) = ?fs \<longrightarrow>
      registerFileDescriptor p d st' = (int i, set_proc p (\<lambda>p. p\<lparr>p_fd := (p_fd p)[i := Some d]\<rparr>) st')" by blast
  from openat_new [OF sys_okD(1) [OF ok] fr _ none flag split node isdir] E obtain v1 where
    v1: "FileDescription_openat E f path O_CREAT (mode AND NOT (p_umask (cur_proc st))) (sys_vfs st) = Ret (Some ?d, v1)"
    "object v1 ?r = FileVnode []" "fst (resolvePath E (fd_vnode f) path v1) = Some ?r" by blast
  note ext = openat_ext [OF v1(1) fr sys_okD(1) [OF ok]]
  then have ok1: "vfs_ok v1" "fd_vnode f < vn_fresh v1" using sys_okD(1) [OF ok] fr by (auto simp: vfs_ext_def vfs_le_def)
  let ?st1 = "set_proc ?p (\<lambda>p. p\<lparr>p_fd := (p_fd p)[i := Some ?d]\<rparr>) (with_vfs v1 st)"
  let ?v2 = "set_object ?r (FileVnode buffer) v1"
  note w = write_new_file [OF v1(2) len E [rule_format]]
  let ?st2 = "set_fd (int i) (Some \<lparr>fd_vnode = ?r, fd_offset = int (length buffer)\<rparr>) (with_vfs ?v2 ?st1)"
  let ?st3 = "set_fd (int i) None ?st2"
  have le: "vfs_le v1 ?v2" using set_file_ext [OF v1(2)] by (simp add: vfs_ext_def)
  have "resolvePath E (fd_vnode f) path ?v2 = (Some ?r, ?v2)"
    using v1(3) resolvePath_some(3) [OF ok1 _ le] by (metis prod.collapse)
  then have open2: "FileDescription_openat E f path 0 m ?v2 = Ret (Some ?d, ?v2)" for m
    by (simp add: FileDescription_openat_def)
  let ?st4 = "set_proc ?p (\<lambda>p. p\<lparr>p_fd := (p_fd p)[i := Some ?d]\<rparr>) (with_vfs ?v2 ?st3)"
  note r = read_whole_file [of ?v2 ?r buffer, OF _ len]
  have len_fs: "length (p_fd (procs st ?p)) = OPEN_MAX" using \<open>length ?fs = OPEN_MAX\<close> by (simp add: cur_proc_def)
  have o1: "Syscall_openat E AT_FDCWD path O_CREAT mode st = Returns (int i) ?st1"
    using f v1(1) reg [rule_format, of "with_vfs v1 st" ?p ?d] by (simp add: Syscall_openat_def cur_proc_def)
  have "descr (int i) ?st1 = Some ?d" using i(1) len_fs by (simp add: descr_nth)
  then have w1: "Syscall_write E (int i) buffer ?st1 = Returns (int (length buffer)) ?st2"
    using w by (simp add: Syscall_write_def)
  have "fd_entry (int i) ?st2 = Some (Some \<lparr>fd_vnode = ?r, fd_offset = int (length buffer)\<rparr>)"
    using i(1) len_fs by (simp add: fd_entry_def cur_proc_def)
  then have c1: "Syscall_close (int i) ?st2 = Returns 0 ?st3" by (simp add: Syscall_close_def)
  have "p_fd (procs (with_vfs ?v2 ?st3) ?p) = ?fs"
    using i(2) by (simp add: cur_proc_def list_update_same_conv [THEN iffD2] len_fs i(1))
  then have "registerFileDescriptor ?p ?d (with_vfs ?v2 ?st3) = (int i, ?st4)" by (rule reg [rule_format])
  moreover have "getRootFd AT_FDCWD path ?st3 = Some f"
    using f by (auto simp: getRootFd_def cur_proc_def split: if_splits)
  ultimately have o2: "Syscall_openat E AT_FDCWD path 0 0 ?st3 = Returns (int i) ?st4"
    using open2 by (simp add: Syscall_openat_def)
  have "descr (int i) ?st4 = Some ?d" using i(1) len_fs by (simp add: descr_nth)
  then have "\<exists>st5. Syscall_read (int i) (w32 (length buffer)) ?st4 = Returns (int (length buffer), buffer) st5"
    using r by (simp add: Syscall_read_def)
  with o1 w1 c1 o2 show ?thesis by blast
qed

theorem file_roundtrip_witness:
  "\<exists>n st1 st2 st3 st4 st5. Syscall_openat demo_allocator AT_FDCWD (bytes ''passwd'') O_CREAT 0x1A4 demo_sys = Returns n st1 \<and>
    Syscall_write demo_allocator n [7, 8, 9] st1 = Returns 3 st2 \<and> Syscall_close n st2 = Returns 0 st3 \<and>
    Syscall_openat demo_allocator AT_FDCWD (bytes ''passwd'') 0 0 st3 = Returns n st4 \<and>
    Syscall_read n 3 st4 = Returns (3, [7, 8, 9]) st5"
proof -
  have "getRootFd AT_FDCWD (bytes ''passwd'') demo_sys = Some (FileDescription_new 1)"
    by (simp add: getRootFd_def demo_sys_simps demo_process_def)
  moreover have "split_last (bytes ''passwd'') = ([], bytes ''passwd'')" by code_simp
  moreover have "fst (resolvePath demo_allocator 1 (bytes ''passwd'') demo_vfs) = None" by code_simp
  moreover have "is_dir (object demo_vfs 1)" "bytes ''passwd'' \<noteq> []" "gives demo_allocator n" for n
    by (simp_all add: demo_vfs_def demo_allocator_def)
  moreover have "None \<in> set (p_fd (cur_proc demo_sys))"
    by (simp add: demo_sys_simps demo_process_def OPEN_MAX_def numeral_eq_Suc)
  ultimately show ?thesis
    using file_roundtrip [OF demo_sys_ok, of "bytes ''passwd''" "FileDescription_new 1" demo_allocator "[]" "bytes ''passwd''" 1
        "[7, 8, 9]" "0x1A4"]
    by (simp add: FileDescription_new_def demo_sys_simps(1) w32_def del: bytes_simps)
qed

end
