(* ===== verification/Kernel_Timer.thy ===== *)
theory Kernel_Timer
  imports Inwox_Prelude
begin

text \<open>
  Timers, the interval timer and mutexes: \<open>kernel/src/timer.cpp\<close>, \<open>pit.cpp\<close> and \<open>kthread.cpp\<close>.  A
  timer is an object of its owner, known to the interval timer by its reference.  The lemmas show
  that a sleep ends, and after how many ticks, and that a mutex has one holder at most.
\<close>

section \<open>Definitions\<close>

text \<open>\<open>time_t\<close> has 64 bits and \<open>long\<close> 32 bits, both signed.\<close>

record timespec =
  tv_sec :: u64
  tv_nsec :: u32

lemma sint_add_second:
  assumes "sint (n :: u32) < 0"
  shows "sint (n + 1000000000) = sint n + 1000000000"
proof -
  have "- (2 ^ 31) \<le> sint n" using sint_ge [of n] by simp
  with assms have "signed_take_bit 31 (sint n + 1000000000) = sint n + 1000000000"
    by (intro signed_take_bit_int_eq_self) simp_all
  then show ?thesis by (simp add: sint_word_ariths)
qed

function borrow :: "timespec \<Rightarrow> timespec" where
  "borrow time =
     (if sint (tv_nsec time) < 0
      then borrow (time\<lparr>tv_sec := tv_sec time - 1, tv_nsec := tv_nsec time + 1000000000\<rparr>)
      else time)"
  by pat_completeness auto
termination
  by (relation "measure (\<lambda>time. nat (- sint (tv_nsec time)))") (auto simp: sint_add_second)

declare borrow.simps [simp del]

definition minus :: "timespec \<Rightarrow> u32 \<Rightarrow> timespec" where
  "minus time nanoseconds =
     (let time = borrow (time\<lparr>tv_nsec := tv_nsec time - nanoseconds\<rparr>) in
      if sint (tv_sec time) < 0 then time\<lparr>tv_sec := 0, tv_nsec := 0\<rparr> else time)"

definition isZero :: "timespec \<Rightarrow> bool" where
  "isZero time \<longleftrightarrow> tv_sec time = 0 \<and> tv_nsec time = 0"

record timer =
  timer_time :: timespec
  timer_index :: u32

type_synonym tref = nat

definition PIT_FREQUENCY :: u32 where "PIT_FREQUENCY = 1193182"
definition HZ :: u32 where "HZ = 1000"
definition frequency :: u32 where "frequency = PIT_FREQUENCY div HZ"
definition nanoseconds :: u32 where "nanoseconds = 1000000000 div PIT_FREQUENCY * frequency"
definition NUM_TIMERS :: nat where "NUM_TIMERS = 20"

text \<open>The table of timers, the timers themselves, and the bytes sent to ports.\<close>

record pit =
  timers :: "tref option list"
  timer_objects :: "tref \<Rightarrow> timer"
  pit_ticker :: u64
  pit_ports :: "(u32 \<times> byte) list"

definition Timer_new :: "tref \<Rightarrow> timespec \<Rightarrow> pit \<Rightarrow> pit" where
  "Timer_new t time st = st\<lparr>timer_objects := (timer_objects st)(t := \<lparr>timer_time = time, timer_index = 0\<rparr>)\<rparr>"

definition Timer_advance :: "tref \<Rightarrow> u32 \<Rightarrow> pit \<Rightarrow> pit" where
  "Timer_advance t ns st =
     (let x = timer_objects st t in
      st\<lparr>timer_objects := (timer_objects st)(t := x\<lparr>timer_time := minus (timer_time x) ns\<rparr>)\<rparr>)"

definition advance_slot :: "nat \<Rightarrow> pit \<Rightarrow> pit" where
  "advance_slot i st = (case timers st ! i of Some t \<Rightarrow> Timer_advance t nanoseconds st | None \<Rightarrow> st)"

definition pit_irqHandler :: "pit \<Rightarrow> pit" where
  "pit_irqHandler st = fold advance_slot [0..<NUM_TIMERS] (st\<lparr>pit_ticker := pit_ticker st + 1\<rparr>)"

text \<open>The loop over the table: the first empty slot from \<open>i\<close> on.\<close>

fun empty_slot :: "tref option list \<Rightarrow> nat \<Rightarrow> nat option" where
  "empty_slot [] i = None"
| "empty_slot (x # xs) i = (if x = None then Some i else empty_slot xs (Suc i))"

definition registerTimer :: "tref \<Rightarrow> pit \<Rightarrow> u32 \<times> pit" where
  "registerTimer t st =
     (case empty_slot (take NUM_TIMERS (timers st)) 0 of
        Some i \<Rightarrow> (w32 i, st\<lparr>timers := (timers st)[i := Some t]\<rparr>)
      | None \<Rightarrow> (- 1, st))"

text \<open>\<open>None\<close>: a write outside the table.\<close>

definition deregisterTimer :: "u32 \<Rightarrow> pit \<Rightarrow> pit option" where
  "deregisterTimer index st =
     (if unat index < NUM_TIMERS then Some (st\<lparr>timers := (timers st)[unat index := None]\<rparr>) else None)"

definition Pit_initialize :: "pit \<Rightarrow> pit" where
  "Pit_initialize st =
     st\<lparr>pit_ports := pit_ports st @
       [(0x43, 0x4 OR 0x30), (0x40, ucast (frequency AND 0xFF)), (0x40, ucast (drop_bit 8 frequency AND 0xFF))]\<rparr>"

definition Timer_start :: "tref \<Rightarrow> pit \<Rightarrow> pit" where
  "Timer_start t st =
     (let (i, st) = registerTimer t st in
      st\<lparr>timer_objects := (timer_objects st)(t := (timer_objects st t)\<lparr>timer_index := i\<rparr>)\<rparr>)"

text \<open>
  \<open>Timer::wait\<close> and \<open>Syscall::nanosleep\<close>, one pass of the loop at a time: \<open>Sleeping\<close> is a call of
  \<open>sched_yield\<close>, after which the loop looks at the timer again.
\<close>

datatype sleep = Sleeping pit | Awake timespec pit | WildWrite

definition Timer_wait :: "tref \<Rightarrow> pit \<Rightarrow> sleep" where
  "Timer_wait t st =
     (let x = timer_objects st t in
      if \<not> isZero (timer_time x) then Sleeping st
      else case deregisterTimer (timer_index x) st of
             Some st \<Rightarrow> Awake \<lparr>tv_sec = 0, tv_nsec = 0\<rparr> st
           | None \<Rightarrow> WildWrite)"

definition nanosleep :: "tref \<Rightarrow> timespec \<Rightarrow> pit \<Rightarrow> pit" where
  "nanosleep t request st = Timer_start t (Timer_new t request st)"

section \<open>Arithmetic of times\<close>

definition total :: "timespec \<Rightarrow> int" where
  "total time = sint (tv_sec time) * 1000000000 + sint (tv_nsec time)"

definition time_ok :: "timespec \<Rightarrow> bool" where
  "time_ok time \<longleftrightarrow> 0 \<le> sint (tv_sec time) \<and> 0 \<le> sint (tv_nsec time) \<and> sint (tv_nsec time) < 1000000000"

lemma sint_zero_iff: "sint (w :: 'a::len word) = 0 \<longleftrightarrow> w = 0"
  by (metis signed_0 signed_word_eqI)

lemma isZero_total: "time_ok time \<Longrightarrow> isZero time \<longleftrightarrow> total time = 0"
  unfolding isZero_def total_def time_ok_def sint_zero_iff [symmetric] by linarith

lemma sint_diff_small:
  assumes "0 \<le> sint (a :: u32)" "sint a < 1000000000" "uint b \<le> 1000000000"
  shows "sint (a - b) = sint a - uint b"
proof -
  have "sint b = uint b"
    using assms(3) by (simp add: sint_uint signed_take_bit_int_eq_self order_trans [OF _ uint_ge_0])
  moreover have "signed_take_bit 31 (sint a - uint b) = sint a - uint b"
  proof (rule signed_take_bit_int_eq_self)
    have "- 2147483648 \<le> sint a - uint b" "sint a - uint b < 2147483648"
      using assms uint_ge_0 [of b] by linarith+
    then show "- (2 ^ 31) \<le> sint a - uint b" "sint a - uint b < 2 ^ 31" by simp_all
  qed
  ultimately show ?thesis by (simp add: sint_word_ariths)
qed

lemma sint_pred:
  assumes "0 \<le> sint (a :: u64)"
  shows "sint (a - 1) = sint a - 1"
proof -
  have "sint a < 2 ^ 63" using sint_lt [of a] by simp
  with assms have "signed_take_bit 63 (sint a - 1) = sint a - 1"
    by (intro signed_take_bit_int_eq_self) simp_all
  then show ?thesis by (simp add: sint_word_ariths)
qed

lemma minus_total:
  assumes "time_ok time" "uint ns \<le> 1000000000"
  shows "time_ok (minus time ns) \<and> total (minus time ns) = max 0 (total time - uint ns)"
proof -
  let ?n = "tv_nsec time - ns" and ?s = "tv_sec time"
  from assms have bounds: "0 \<le> sint ?s" "0 \<le> sint (tv_nsec time)" "sint (tv_nsec time) < 1000000000"
    by (simp_all add: time_ok_def)
  have n: "sint ?n = sint (tv_nsec time) - uint ns" using bounds assms(2) by (intro sint_diff_small)
  have ns: "0 \<le> uint ns" by simp
  show ?thesis
  proof (cases "sint ?n < 0")
    case False
    then have "borrow (time\<lparr>tv_nsec := ?n\<rparr>) = time\<lparr>tv_nsec := ?n\<rparr>" by (simp add: borrow.simps)
    then have m: "minus time ns = time\<lparr>tv_nsec := ?n\<rparr>" using bounds(1) by (simp add: minus_def)
    have "sint ?n < 1000000000" using bounds(3) n ns by linarith
    with False bounds(1) have "time_ok (minus time ns)" by (simp add: m time_ok_def)
    moreover have "total (minus time ns) = total time - uint ns" by (simp add: m total_def n)
    moreover have "0 \<le> total (minus time ns)" using False bounds(1) by (simp add: m total_def)
    ultimately show ?thesis by simp
  next
    case True
    have n1: "sint (?n + 1000000000) = sint ?n + 1000000000" by (rule sint_add_second [OF True])
    with n bounds assms(2) have "\<not> sint (?n + 1000000000) < 0" by simp
    then have b: "borrow (time\<lparr>tv_nsec := ?n\<rparr>) = time\<lparr>tv_sec := ?s - 1, tv_nsec := ?n + 1000000000\<rparr>"
      using True by (simp add: borrow.simps)
    have s1: "sint (?s - 1) = sint ?s - 1" by (rule sint_pred [OF bounds(1)])
    show ?thesis
    proof (cases "sint ?s = 0")
      case True
      with b s1 n \<open>sint ?n < 0\<close> show ?thesis by (simp add: minus_def time_ok_def total_def)
    next
      case False
      then have "minus time ns = time\<lparr>tv_sec := ?s - 1, tv_nsec := ?n + 1000000000\<rparr>"
        using b s1 bounds(1) by (simp add: minus_def)
      with False bounds n n1 s1 ns \<open>sint ?n < 0\<close> assms(2) show ?thesis
        by (simp add: time_ok_def total_def algebra_simps)
    qed
  qed
qed

section \<open>Sleeping\<close>

lemma nanoseconds_value: "nanoseconds = 999734"
  by (simp add: nanoseconds_def frequency_def PIT_FREQUENCY_def HZ_def)

definition slot_of :: "tref \<Rightarrow> nat \<Rightarrow> tref option list \<Rightarrow> bool" where
  "slot_of t i ts \<longleftrightarrow> length ts = NUM_TIMERS \<and> i < NUM_TIMERS \<and> ts ! i = Some t \<and>
     (\<forall>j < NUM_TIMERS. j \<noteq> i \<longrightarrow> ts ! j \<noteq> Some t)"

lemma advance_slot_simps [simp]:
  "timers (advance_slot i st) = timers st"
  "timer_index (timer_objects (advance_slot i st) t) = timer_index (timer_objects st t)"
  by (simp_all add: advance_slot_def Timer_advance_def Let_def split: option.split)

lemma advance_slots:
  "timers (fold advance_slot xs st) = timers st"
  "timer_index (timer_objects (fold advance_slot xs st) t) = timer_index (timer_objects st t)"
  by (induction xs arbitrary: st) simp_all

lemma advance_other:
  "\<forall>j \<in> set xs. timers st ! j \<noteq> Some t \<Longrightarrow> timer_objects (fold advance_slot xs st) t = timer_objects st t"
proof (induction xs arbitrary: st)
  case (Cons j xs)
  then show ?case by (auto simp: advance_slot_def Timer_advance_def Let_def split: option.split)
qed simp

lemma irq_timer:
  assumes "slot_of t i (timers st)"
  shows "timer_time (timer_objects (pit_irqHandler st) t) = minus (timer_time (timer_objects st t)) nanoseconds"
proof -
  let ?st = "st\<lparr>pit_ticker := pit_ticker st + 1\<rparr>"
  have i: "i < NUM_TIMERS" "timers ?st ! i = Some t" using assms by (simp_all add: slot_of_def)
  from i(1) have split: "[0..<NUM_TIMERS] = [0..<i] @ i # [Suc i..<NUM_TIMERS]"
    using upt_add_eq_append [of 0 i "NUM_TIMERS - i"] upt_conv_Cons [of i NUM_TIMERS] by simp
  have before: "timer_objects (fold advance_slot [0..<i] ?st) t = timer_objects st t"
    using assms i(1) by (subst advance_other) (auto simp: slot_of_def)
  let ?st1 = "advance_slot i (fold advance_slot [0..<i] ?st)"
  have "timer_objects (fold advance_slot [Suc i..<NUM_TIMERS] ?st1) t = timer_objects ?st1 t"
    using assms i(1) by (intro advance_other) (auto simp: slot_of_def advance_slots)
  moreover have "timer_time (timer_objects ?st1 t) = minus (timer_time (timer_objects st t)) nanoseconds"
    using i(2) before by (simp add: advance_slot_def Timer_advance_def Let_def advance_slots)
  ultimately show ?thesis by (simp add: pit_irqHandler_def split)
qed

lemma irq_frame:
  "timers (pit_irqHandler st) = timers st"
  "timer_index (timer_objects (pit_irqHandler st) t) = timer_index (timer_objects st t)"
  by (simp_all add: pit_irqHandler_def advance_slots)

lemma irqs_frame:
  "timers ((pit_irqHandler ^^ n) st) = timers st"
  "timer_index (timer_objects ((pit_irqHandler ^^ n) st) t) = timer_index (timer_objects st t)"
  by (induction n) (simp_all add: irq_frame)

lemma irqs_timer:
  assumes "slot_of t i (timers st)" "time_ok (timer_time (timer_objects st t))"
  shows "time_ok (timer_time (timer_objects ((pit_irqHandler ^^ n) st) t)) \<and>
    total (timer_time (timer_objects ((pit_irqHandler ^^ n) st) t)) =
      max 0 (total (timer_time (timer_objects st t)) - int n * 999734)"
proof (induction n)
  case 0
  from assms(2) show ?case by (simp add: total_def time_ok_def)
next
  case (Suc n)
  have "uint nanoseconds = 999734" by (simp add: nanoseconds_value)
  with Suc minus_total [of "timer_time (timer_objects ((pit_irqHandler ^^ n) st) t)" nanoseconds] show ?case
    using irq_timer [of t i "(pit_irqHandler ^^ n) st"] assms(1)
    by (auto simp: irqs_frame algebra_simps max_def)
qed

lemma empty_slot_Some:
  "empty_slot ts k = Some i \<Longrightarrow> k \<le> i \<and> i < k + length ts \<and> ts ! (i - k) = None"
proof (induction ts arbitrary: k)
  case (Cons x ts)
  show ?case
  proof (cases x)
    case (Some y)
    with Cons.prems Cons.IH [of "Suc k"] have "Suc k \<le> i" "i < Suc k + length ts" "ts ! (i - Suc k) = None"
      by simp_all
    then show ?thesis by (simp add: nth_Cons')
  qed (use Cons.prems in auto)
qed simp

lemma empty_slot_None: "empty_slot ts k = None \<longleftrightarrow> None \<notin> set ts"
  by (induction ts arbitrary: k) auto

lemma registerTimer_cases:
  assumes "length (timers st) = NUM_TIMERS"
  shows "None \<in> set (timers st) \<Longrightarrow> \<exists>i < NUM_TIMERS. timers st ! i = None \<and>
      registerTimer t st = (w32 i, st\<lparr>timers := (timers st)[i := Some t]\<rparr>)"
    and "None \<notin> set (timers st) \<Longrightarrow> registerTimer t st = (- 1, st)"
proof -
  show "\<exists>i < NUM_TIMERS. timers st ! i = None \<and> registerTimer t st = (w32 i, st\<lparr>timers := (timers st)[i := Some t]\<rparr>)"
    if "None \<in> set (timers st)"
  proof -
    from that obtain i where i: "empty_slot (timers st) 0 = Some i" by (metis empty_slot_None not_None_eq)
    from empty_slot_Some [OF this] i assms show ?thesis by (auto simp: registerTimer_def)
  qed
  show "registerTimer t st = (- 1, st)" if "None \<notin> set (timers st)"
    using that assms empty_slot_None [of "timers st" 0] by (simp add: registerTimer_def)
qed

text \<open>
  C17: a sleeping process wakes up: if the table has a free slot, the wait of \<open>nanosleep\<close> ends as
  soon as the timer interrupts, at 999734 nanoseconds each, add up to the requested time, and not
  before; then the slot is free again and no other slot has changed.
\<close>

theorem nanosleep_wakes:
  assumes "length (timers st) = NUM_TIMERS" "None \<in> set (timers st)" "Some t \<notin> set (timers st)" "time_ok request"
  defines "st' \<equiv> \<lambda>n. (pit_irqHandler ^^ n) (nanosleep t request st)"
  shows "if int n * 999734 < total request then Timer_wait t (st' n) = Sleeping (st' n)
    else \<exists>st''. Timer_wait t (st' n) = Awake \<lparr>tv_sec = 0, tv_nsec = 0\<rparr> st'' \<and> timers st'' = timers st"
proof -
  obtain i where i: "i < NUM_TIMERS" "timers st ! i = None"
    "registerTimer t (Timer_new t request st) =
       (w32 i, (Timer_new t request st)\<lparr>timers := (timers st)[i := Some t]\<rparr>)"
    using registerTimer_cases(1) [of "Timer_new t request st" t] assms(1, 2) by (auto simp: Timer_new_def)
  let ?st = "nanosleep t request st" and ?x = "timer_objects (st' n) t"
  have start: "timers ?st = (timers st)[i := Some t]" "timer_objects ?st t = \<lparr>timer_time = request, timer_index = w32 i\<rparr>"
    using i(3) by (simp_all add: nanosleep_def Timer_start_def Timer_new_def)
  have "slot_of t i (timers ?st)"
    using assms(1, 3) i(1) by (auto simp: slot_of_def start nth_list_update in_set_conv_nth)
  from irqs_timer [OF this, of n] assms(4)
  have time: "time_ok (timer_time ?x)" "total (timer_time ?x) = max 0 (total request - int n * 999734)"
    by (simp_all add: st'_def start)
  have frame: "timers (st' n) = (timers st)[i := Some t]" "timer_index ?x = w32 i"
    by (simp_all add: st'_def irqs_frame start)
  have "isZero (timer_time ?x) \<longleftrightarrow> \<not> int n * 999734 < total request"
    using time by (auto simp: isZero_total max_def)
  moreover have "unat (w32 i) = i" using i(1) by (simp add: unat_w32 NUM_TIMERS_def)
  ultimately show ?thesis
    using i(1, 2) frame assms(1) by (auto simp: Timer_wait_def Let_def deregisterTimer_def list_update_same_conv)
qed

definition demo_pit :: pit where
  "demo_pit = \<lparr>timers = replicate 20 None, timer_objects = (\<lambda>_. \<lparr>timer_time = \<lparr>tv_sec = 0, tv_nsec = 0\<rparr>, timer_index = 0\<rparr>),
     pit_ticker = 0, pit_ports = []\<rparr>"

theorem nanosleep_wakes_witness:
  "Timer_wait 1 ((pit_irqHandler ^^ 1) (nanosleep 1 \<lparr>tv_sec = 0, tv_nsec = 1500000\<rparr> demo_pit)) =
     Sleeping ((pit_irqHandler ^^ 1) (nanosleep 1 \<lparr>tv_sec = 0, tv_nsec = 1500000\<rparr> demo_pit)) \<and>
   (\<exists>st''. Timer_wait 1 ((pit_irqHandler ^^ 2) (nanosleep 1 \<lparr>tv_sec = 0, tv_nsec = 1500000\<rparr> demo_pit)) =
     Awake \<lparr>tv_sec = 0, tv_nsec = 0\<rparr> st'' \<and> timers st'' = replicate 20 None)"
  using nanosleep_wakes [of demo_pit 1 "\<lparr>tv_sec = 0, tv_nsec = 1500000\<rparr>" 1]
    nanosleep_wakes [of demo_pit 1 "\<lparr>tv_sec = 0, tv_nsec = 1500000\<rparr>" 2]
  by (simp add: demo_pit_def NUM_TIMERS_def time_ok_def total_def)

text \<open>
  When all slots of the table are taken, a sleep of any positive time never ends, and a sleep of
  no time writes outside the table.
\<close>

theorem nanosleep_table_full:
  fixes request :: timespec
  assumes "length (timers st) = NUM_TIMERS" "None \<notin> set (timers st)" "Some t \<notin> set (timers st)"
  defines "st' \<equiv> \<lambda>n. (pit_irqHandler ^^ n) (nanosleep t request st)"
  shows "Timer_wait t (st' n) = (if isZero request then WildWrite else Sleeping (st' n))"
proof -
  have start: "timers (nanosleep t request st) = timers st"
    "timer_objects (nanosleep t request st) t = \<lparr>timer_time = request, timer_index = - 1\<rparr>"
    using registerTimer_cases(2) [of "Timer_new t request st" t] assms(1, 2)
    by (simp_all add: nanosleep_def Timer_start_def Timer_new_def)
  have "timer_objects (st' n) t = \<lparr>timer_time = request, timer_index = - 1\<rparr>"
    unfolding st'_def
  proof (induction n)
    case (Suc n)
    let ?s = "(pit_irqHandler ^^ n) (nanosleep t request st)"
    have "\<forall>j \<in> set [0..<NUM_TIMERS]. timers (?s\<lparr>pit_ticker := pit_ticker ?s + 1\<rparr>) ! j \<noteq> Some t"
      using assms(1, 3) by (auto simp: irqs_frame start in_set_conv_nth)
    from advance_other [OF this] Suc show ?case by (simp add: pit_irqHandler_def [of ?s])
  qed (simp add: start)
  moreover have "\<not> unat (- 1 :: u32) < 20" by (simp add: unsigned_minus_1_eq_mask mask_eq_exp_minus_1)
  ultimately show ?thesis by (simp add: Timer_wait_def deregisterTimer_def NUM_TIMERS_def)
qed

theorem nanosleep_table_full_witness:
  "Timer_wait 0 ((pit_irqHandler ^^ 5) (nanosleep 0 \<lparr>tv_sec = 1, tv_nsec = 0\<rparr> (demo_pit\<lparr>timers := replicate 20 (Some 7)\<rparr>))) =
     Sleeping ((pit_irqHandler ^^ 5) (nanosleep 0 \<lparr>tv_sec = 1, tv_nsec = 0\<rparr> (demo_pit\<lparr>timers := replicate 20 (Some 7)\<rparr>)))"
  using nanosleep_table_full [of "demo_pit\<lparr>timers := replicate 20 (Some 7)\<rparr>" 0 5 "\<lparr>tv_sec = 1, tv_nsec = 0\<rparr>"]
  by (simp add: demo_pit_def NUM_TIMERS_def isZero_def)

section \<open>Mutexes\<close>

text \<open>
  One pass of the loop of \<open>kthread_mutex_lock\<close>: the atomic test and set gives the old value; the
  mutex is taken when that was clear, else the process yields and tries again.
\<close>

definition kthread_mutex_lock :: "bool \<Rightarrow> bool \<times> bool" where
  "kthread_mutex_lock mutex = (\<not> mutex, True)"

definition kthread_mutex_unlock :: "bool \<Rightarrow> bool" where
  "kthread_mutex_unlock mutex = False"

datatype lock_state = Outside | Spinning | Inside

text \<open>Any number of processes that lock and unlock one mutex, interleaved at will.\<close>

inductive mutex_step :: "bool \<times> (nat \<Rightarrow> lock_state) \<Rightarrow> bool \<times> (nat \<Rightarrow> lock_state) \<Rightarrow> bool" where
  try_lock: "pc i \<noteq> Inside \<Longrightarrow> kthread_mutex_lock m = (taken, m') \<Longrightarrow>
    mutex_step (m, pc) (m', pc(i := if taken then Inside else Spinning))"
| unlock: "pc i = Inside \<Longrightarrow> mutex_step (m, pc) (kthread_mutex_unlock m, pc(i := Outside))"

inductive_cases mutex_stepE: "mutex_step (m, pc) s"

lemma mutex_inv:
  "mutex_step\<^sup>*\<^sup>* (False, \<lambda>_. Outside) (m, pc) \<Longrightarrow>
    (\<forall>i j. pc i = Inside \<and> pc j = Inside \<longrightarrow> i = j) \<and> (m \<longleftrightarrow> (\<exists>i. pc i = Inside))"
proof (induction "(m, pc)" arbitrary: m pc rule: rtranclp_induct)
  case (step y)
  obtain m1 pc1 where y: "y = (m1, pc1)" by fastforce
  from step(3) [OF y] step(2) show ?case
    unfolding y
    by (auto elim!: mutex_stepE simp: kthread_mutex_lock_def kthread_mutex_unlock_def split: if_splits) metis
qed simp

text \<open>
  C18: a mutex excludes: in every interleaving of processes that lock and unlock it, one process at
  most is between lock and unlock, and whenever none is, the next pass of any waiting process takes it.
\<close>

theorem mutex_excludes:
  assumes "mutex_step\<^sup>*\<^sup>* (False, \<lambda>_. Outside) (m, pc)"
  shows "(\<forall>i j. pc i = Inside \<and> pc j = Inside \<longrightarrow> i = j) \<and>
    ((\<forall>j. pc j \<noteq> Inside) \<longrightarrow> (\<forall>i. mutex_step (m, pc) (True, pc(i := Inside))))"
  using mutex_inv [OF assms] try_lock [of pc _ m True True] by (auto simp: kthread_mutex_lock_def)

theorem mutex_excludes_witness:
  "mutex_step (False, \<lambda>_. Outside) (True, (\<lambda>_. Outside)(3 := Inside))"
  using mutex_excludes [of False "\<lambda>_. Outside"] by simp

end
