(* ===== verification/Kernel_Interrupt.thy ===== *)
theory Kernel_Interrupt
  imports Kernel_Syscall Kernel_Timer
begin

text \<open>
  Interrupts: \<open>kernel/src/interrupt.cpp\<close>, \<open>pic.cpp\<close>, \<open>idt.cpp\<close> and the keyboard's part of \<open>ps2.cpp\<close>.
  The machine is the state of the kernel with the timers, the keyboard, the handlers of the devices,
  the interrupt descriptor table and the bytes sent to the interrupt controllers.  The entry points
  \<open>isr_0\<close> to \<open>isr_49\<close> and \<open>syscallHandler\<close> are assembly code; only their addresses matter here and
  are parameters.
\<close>

section \<open>Definitions\<close>

definition PIC1_COMMAND :: u32 where "PIC1_COMMAND = 0x20"
definition PIC1_DATA :: u32 where "PIC1_DATA = 0x21"
definition PIC2_COMMAND :: u32 where "PIC2_COMMAND = 0xA0"
definition PIC2_DATA :: u32 where "PIC2_DATA = 0xA1"
definition PIC_EOI :: byte where "PIC_EOI = 0x20"

definition IDT_INTERRUPT_GATE :: byte where "IDT_INTERRUPT_GATE = 0xE"
definition IDT_TRAP_GATE :: byte where "IDT_TRAP_GATE = 0xF"
definition IDT_RING0 :: byte where "IDT_RING0 = push_bit 5 0"
definition IDT_RING3 :: byte where "IDT_RING3 = push_bit 5 3"
definition IDT_PRESENT :: byte where "IDT_PRESENT = push_bit 7 1"

lemmas idt_defs = IDT_INTERRUPT_GATE_def IDT_TRAP_GATE_def IDT_RING0_def IDT_RING3_def IDT_PRESENT_def

record idt_entry =
  offset_low :: "16 word"
  selector :: "16 word"
  unused :: byte
  attr :: byte
  offset_high :: "16 word"

text \<open>The handlers that the kernel installs: \<open>irqHandler\<close> of \<open>pit.cpp\<close> and of \<open>ps2.cpp\<close>.\<close>

datatype isr = Pit_irqHandler | PS2_irqHandler

record machine =
  m_sys :: sys
  m_pit :: pit
  m_ps2 :: "ps2kbd option"
  isrRoutines :: "u32 \<Rightarrow> isr option"
  idt :: "byte \<Rightarrow> idt_entry"
  m_ports :: "(u32 \<times> byte) list"

definition outportb :: "u32 \<Rightarrow> byte \<Rightarrow> machine \<Rightarrow> machine" where
  "outportb p b m = m\<lparr>m_ports := m_ports m @ [(p, b)]\<rparr>"

definition idtSetGate :: "byte \<Rightarrow> u32 \<Rightarrow> 16 word \<Rightarrow> byte \<Rightarrow> machine \<Rightarrow> machine" where
  "idtSetGate num offset sel att m =
     m\<lparr>idt := (idt m)(num := \<lparr>offset_low = ucast (offset AND 0xFFFF), selector = sel, unused = 0, attr = att,
         offset_high = ucast (drop_bit 16 offset AND 0xFFFF)\<rparr>)\<rparr>"

definition picRemap :: "machine \<Rightarrow> machine" where
  "picRemap m = fold (\<lambda>(p, b). outportb p b)
     [(PIC1_COMMAND, 0x11), (PIC2_COMMAND, 0x11), (PIC1_DATA, 0x20), (PIC2_DATA, 0x28),
      (PIC1_DATA, 0x04), (PIC2_DATA, 0x02), (PIC1_DATA, 0x01), (PIC2_DATA, 0x01)] m"

text \<open>\<open>isr_addr n\<close> is the address of \<open>isr_n\<close>.\<close>

definition irqsInstall :: "(nat \<Rightarrow> u32) \<Rightarrow> u32 \<Rightarrow> machine \<Rightarrow> machine" where
  "irqsInstall isr_addr syscallHandler m =
     (let m = fold (\<lambda>n. idtSetGate (word_of_nat n) (isr_addr n) 8 (IDT_INTERRUPT_GATE OR IDT_RING0 OR IDT_PRESENT)) [0..<49] m;
          m = idtSetGate 49 (isr_addr 49) 8 (IDT_INTERRUPT_GATE OR IDT_RING3 OR IDT_PRESENT) m
      in idtSetGate 73 syscallHandler 8 (IDT_TRAP_GATE OR IDT_RING3 OR IDT_PRESENT) m)"

definition isrInstallHandler :: "u32 \<Rightarrow> isr \<Rightarrow> machine \<Rightarrow> machine" where
  "isrInstallHandler n h m = m\<lparr>isrRoutines := (isrRoutines m)(n := Some h)\<rparr>"

definition isrUninstallHandler :: "u32 \<Rightarrow> machine \<Rightarrow> machine" where
  "isrUninstallHandler n m = m\<lparr>isrRoutines := (isrRoutines m)(n := None)\<rparr>"

definition initPic :: "(nat \<Rightarrow> u32) \<Rightarrow> u32 \<Rightarrow> machine \<Rightarrow> machine" where
  "initPic isr_addr syscallHandler m = irqsInstall isr_addr syscallHandler (picRemap m)"

text \<open>\<open>Pit::initialize\<close> on the machine: the handler of the clock and the ports of the timer.\<close>

definition pit_initialize :: "machine \<Rightarrow> machine" where
  "pit_initialize m = isrInstallHandler 32 Pit_irqHandler m\<lparr>m_pit := Pit_initialize (m_pit m)\<rparr>"

definition exceptionMessages :: "byte list list" where
  "exceptionMessages = map bytes
     [''Devide-by-zero'', ''Debug'', ''Non-maskable Interrupt'', ''Breakpoint'', ''Into Detected Overflow'',
      ''Bound Range Exceeded'', ''Invalid Opcode'', ''No Coprocessor'', ''Double Fault'', ''Coprocessor Segment Overrun'',
      ''Invalid TSS'', ''Segment Not Present'', ''Stack-Segment Fault'', ''General Protection Fault'', ''Page Fault'',
      ''Unknown Interrupt'', ''x87 Floating-Point'', ''Alignment Check'', ''Machine Check'', ''SIMD Floating-Point'',
      ''Virtualization''] @ replicate 13 (bytes ''Reserved'')"

text \<open>The keyboard's handler; \<open>data\<close> is the byte at port \<open>0x60\<close>.  \<open>None\<close>: the assertion fails or the line buffer is full.\<close>

definition ps2_irqHandler :: "byte \<Rightarrow> u32 \<Rightarrow> machine \<Rightarrow> machine option" where
  "ps2_irqHandler data int_no m =
     (if int_no \<noteq> 33 then None
      else case m_ps2 m of
             None \<Rightarrow> Some m
           | Some k \<Rightarrow>
               (case irqHandler data k of
                  (None, k) \<Rightarrow> Some (m\<lparr>m_ps2 := Some k\<rparr>)
                | (Some key, k) \<Rightarrow>
                    map_option (\<lambda>t. m\<lparr>m_ps2 := Some k, m_sys := with_vfs ((sys_vfs (m_sys m))\<lparr>vterm := t\<rparr>) (m_sys m)\<rparr>)
                      (onKeyboardEvent key (vterm (sys_vfs (m_sys m))))))"

definition run_isr :: "isr \<Rightarrow> byte \<Rightarrow> u32 \<Rightarrow> machine \<Rightarrow> machine option" where
  "run_isr h data int_no m =
     (case h of
        Pit_irqHandler \<Rightarrow> Some (m\<lparr>m_pit := pit_irqHandler (m_pit m)\<rparr>)
      | PS2_irqHandler \<Rightarrow> ps2_irqHandler data int_no m)"

text \<open>The report of an exception: the message is a string in the memory of the kernel, at \<open>0x1000\<close> here.\<close>

definition exception_report :: "int_context \<Rightarrow> sys \<Rightarrow> sys option" where
  "exception_report r st =
     (let v = sys_vfs st; st = with_vfs (v\<lparr>vterm := warnTerminal (vterm v)\<rparr>) st; m = (\<lambda>_. 0) in
      Option.bind (sys_print m (bytes ''eax: 0x%x, ebx: 0x%x, ecx: 0x%x, edx: 0x%x'' @ [10])
        [cx_eax r, cx_ebx r, cx_ecx r, cx_edx r] st) (\<lambda>st.
      Option.bind (sys_print m (bytes ''edi: 0x%x, esi: 0x%x, ebp: 0x%x, esp: 0x%x'' @ [10])
        [cx_edi r, cx_esi r, cx_ebp r, cx_esp r] st) (\<lambda>st.
      Option.bind (sys_print m (bytes ''cs: 0x%x, eip: 0x%x, eflags: 0x%x, ss: 0x%x'' @ [10])
        [cx_cs r, cx_eip r, cx_eflags r, cx_ss r] st) (\<lambda>st.
      Option.bind (sys_print (mem_write m 0x1000 (exceptionMessages ! unat (cx_int_no r) @ [0])) (bytes ''%s'') [0x1000] st)
        (sys_print m (bytes '' Exception. System Halted!'' @ [10]) [])))))"

text \<open>The handler resumes a context, or halts in its loop after an exception.\<close>

datatype int_result = Resumes addr machine | Halts machine

definition end_of_interrupt :: "u32 \<Rightarrow> machine \<Rightarrow> machine" where
  "end_of_interrupt n m = outportb PIC1_COMMAND PIC_EOI (if n \<ge> 40 then outportb PIC2_COMMAND PIC_EOI m else m)"

definition reschedule :: "addr \<Rightarrow> machine \<Rightarrow> (addr \<times> machine) option" where
  "reschedule r m = map_option (\<lambda>(c, st). (c, m\<lparr>m_sys := st\<rparr>)) (Process_schedule r (m_sys m))"

definition interruptHandler :: "byte \<Rightarrow> addr \<Rightarrow> machine \<Rightarrow> int_result option" where
  "interruptHandler data r m =
     (let n = cx_int_no (contexts (m_sys m) r) in
      if n < 32 then
        map_option (\<lambda>st. Halts (m\<lparr>m_sys := st\<rparr>)) (exception_report (contexts (m_sys m) r) (m_sys m))
      else if n \<le> 47 \<and> n \<ge> 32 then
        Option.bind (if n = 32 then reschedule r m else Some (r, m)) (\<lambda>(newContext, m).
        Option.bind (case isrRoutines m n of Some h \<Rightarrow> run_isr h data n m | None \<Rightarrow> Some m) (\<lambda>m.
          Some (Resumes newContext (end_of_interrupt n m))))
      else if n = 0x31 then map_option (\<lambda>(c, m). Resumes c m) (reschedule r m)
      else map_option (\<lambda>st. Resumes r (m\<lparr>m_sys := st\<rparr>))
             (sys_print (\<lambda>_. 0) (bytes ''Unknow interrupt %u!'' @ [10]) [n] (m_sys m)))"

section \<open>Gates\<close>

definition gate_dpl :: "idt_entry \<Rightarrow> byte" where
  "gate_dpl e = drop_bit 5 (attr e) AND 3"

definition gate_offset :: "idt_entry \<Rightarrow> u32" where
  "gate_offset e = push_bit 16 (ucast (offset_high e)) OR ucast (offset_low e)"

lemma gate_offset_split:
  "push_bit 16 (ucast (ucast (drop_bit 16 w AND 0xFFFF :: u32) :: 16 word)) OR ucast (ucast (w AND 0xFFFF :: u32) :: 16 word) = (w :: u32)"
proof -
  have m: "(0xFFFF :: u32) = mask 16" by (simp add: mask_eq_exp_minus_1)
  show ?thesis unfolding m by (rule bit_word_eqI) (auto simp: bit_simps)
qed

definition gate :: "u32 \<Rightarrow> byte \<Rightarrow> idt_entry" where
  "gate offset att = \<lparr>offset_low = ucast (offset AND 0xFFFF), selector = 8, unused = 0, attr = att,
     offset_high = ucast (drop_bit 16 offset AND 0xFFFF)\<rparr>"

lemma gate_simps [simp]: "gate_offset (gate w a) = w" "attr (gate w a) = a"
  by (simp_all only: gate_offset_def gate_def idt_entry.simps gate_offset_split)

lemma idt_idtSetGate [simp]: "idt (idtSetGate b w 8 a m) = (idt m)(b := gate w a)"
  by (simp add: idtSetGate_def gate_def)

lemma idt_picRemap [simp]: "idt (picRemap m) = idt m"
  by (simp add: picRemap_def outportb_def)

lemma fold_gates:
  "k \<le> 256 \<Longrightarrow> idt (fold (\<lambda>n. idtSetGate (word_of_nat n) (f n) 8 a) [0..<k] m) b =
    (if unat b < k then gate (f (unat b)) a else idt m b)"
proof (induction k)
  case (Suc k)
  have "unat (word_of_nat k :: byte) = k" using Suc.prems by (simp add: unat_of_nat)
  then have "b = word_of_nat k \<longleftrightarrow> unat b = k" by (metis word_unat_eq_iff)
  with Suc show ?case by (auto simp: less_Suc_eq)
qed simp

lemma idt_initPic:
  "idt (initPic f sh m) b =
    (if b = 73 then gate sh (IDT_TRAP_GATE OR IDT_RING3 OR IDT_PRESENT)
     else if unat b < 49 then gate (f (unat b)) (IDT_INTERRUPT_GATE OR IDT_RING0 OR IDT_PRESENT)
     else if b = 49 then gate (f 49) (IDT_INTERRUPT_GATE OR IDT_RING3 OR IDT_PRESENT)
     else idt m b)"
proof -
  have "unat (49 :: byte) = 49" "unat (73 :: byte) = 73" by simp_all
  then show ?thesis by (auto simp: initPic_def irqsInstall_def Let_def fold_gates)
qed

text \<open>
  C14: after \<open>Interrupt::initPic\<close>, a program in user mode can enter the kernel through the gates for
  scheduling (49) and for system calls (73) only; each of the fifty gates leads to its entry point,
  the gate for system calls to \<open>syscallHandler\<close>, and no other entry is changed.
\<close>

theorem user_gates:
  assumes "\<forall>b. attr (idt m b) = 0"
  shows "(\<forall>b. gate_dpl (idt (initPic isr_addr sh m) b) = 3 \<longleftrightarrow> b = 49 \<or> b = 73) \<and>
    (\<forall>n < 50. gate_offset (idt (initPic isr_addr sh m) (word_of_nat n)) = isr_addr n) \<and>
    gate_offset (idt (initPic isr_addr sh m) 73) = sh \<and>
    (\<forall>b. 50 \<le> unat b \<and> b \<noteq> 73 \<longrightarrow> idt (initPic isr_addr sh m) b = idt m b)"
proof -
  have u: "unat (49 :: byte) = 49" "unat (73 :: byte) = 73" by simp_all
  have w: "unat (word_of_nat n :: byte) = n" if "n < 50" for n using that by (simp add: unat_of_nat)
  have "gate_dpl (idt (initPic isr_addr sh m) b) = 3 \<longleftrightarrow> b = 49 \<or> b = 73" for b
    using assms u by (auto simp: idt_initPic gate_dpl_def idt_defs)
  moreover have "gate_offset (idt (initPic isr_addr sh m) (word_of_nat n)) = isr_addr n" if n: "n < 50" for n
  proof -
    have "word_of_nat n \<noteq> (73 :: byte)" using w [OF n] n u(2) by (metis less_irrefl numeral_less_iff order_less_trans semiring_norm)
    moreover have "n < 49 \<or> n = 49" using n by auto
    ultimately show ?thesis using w [OF n] by (auto simp: idt_initPic)
  qed
  moreover have "idt (initPic isr_addr sh m) b = idt m b" if "50 \<le> unat b" "b \<noteq> 73" for b
    using that u by (auto simp: idt_initPic)
  ultimately show ?thesis by (simp add: idt_initPic)
qed

definition demo_machine :: machine where
  "demo_machine = \<lparr>m_sys = demo_sys, m_pit = demo_pit, m_ps2 = None, isrRoutines = (\<lambda>_. None), idt = (\<lambda>_. gate 0 0), m_ports = []\<rparr>"

theorem user_gates_witness:
  "gate_dpl (idt (initPic (\<lambda>n. 0xC0100000 + word_of_nat n) 0xC0105000 demo_machine) 14) \<noteq> 3 \<and>
   gate_dpl (idt (initPic (\<lambda>n. 0xC0100000 + word_of_nat n) 0xC0105000 demo_machine) 49) = 3 \<and>
   gate_offset (idt (initPic (\<lambda>n. 0xC0100000 + word_of_nat n) 0xC0105000 demo_machine) 73) = 0xC0105000"
proof -
  have "\<forall>b. attr (idt demo_machine b) = 0" by (simp add: demo_machine_def)
  from user_gates [OF this, of "\<lambda>n. 0xC0100000 + word_of_nat n" "0xC0105000"] show ?thesis by simp
qed

section \<open>Clock ticks\<close>

text \<open>The processor saves the registers \<open>cx\<close> at \<open>c\<close> and calls the handler for interrupt 32.\<close>

definition push_context :: "addr \<Rightarrow> int_context \<Rightarrow> machine \<Rightarrow> machine" where
  "push_context c cx m = m\<lparr>m_sys := (m_sys m)\<lparr>contexts := (contexts (m_sys m))(c := cx)\<rparr>\<rparr>"

definition clock_tick :: "addr \<times> int_context \<Rightarrow> machine \<Rightarrow> machine option" where
  "clock_tick r m =
     (case interruptHandler 0 (fst r) (push_context (fst r) ((snd r)\<lparr>cx_int_no := 32\<rparr>) m) of
        Some (Resumes c m) \<Rightarrow> Some m
      | _ \<Rightarrow> None)"

definition clock_on :: "machine \<Rightarrow> bool" where
  "clock_on m \<longleftrightarrow> isrRoutines m 32 = Some Pit_irqHandler"

lemma clock_tick_effect:
  assumes "clock_on m"
  shows "clock_tick (c, cx) m =
    map_option (\<lambda>st. m\<lparr>m_sys := st, m_pit := pit_irqHandler (m_pit m), m_ports := m_ports m @ [(PIC1_COMMAND, PIC_EOI)]\<rparr>)
      (schedule_step c (m_sys (push_context c (cx\<lparr>cx_int_no := 32\<rparr>) m)))"
  using assms
  by (cases "Process_schedule c (m_sys (push_context c (cx\<lparr>cx_int_no := 32\<rparr>) m))")
     (auto simp: clock_tick_def clock_on_def interruptHandler_def reschedule_def schedule_step_def push_context_def
      end_of_interrupt_def outportb_def run_isr_def)

definition machine_queue :: "machine \<Rightarrow> pref list \<Rightarrow> bool" where
  "machine_queue m ps \<longleftrightarrow> run_queue (m_sys m) ps \<and> clock_on m"

interpretation clock: round_robin clock_tick "\<lambda>m. current (m_sys m)" machine_queue
proof
  fix r :: "addr \<times> int_context" and m ps i
  assume q: "machine_queue m ps" and i: "i < length ps" "current (m_sys m) = ps ! i"
  obtain c cx where r: "r = (c, cx)" by fastforce
  let ?st = "m_sys (push_context c (cx\<lparr>cx_int_no := 32\<rparr>) m)"
  have "run_queue ?st ps" using q by (simp add: machine_queue_def push_context_def run_queue_def)
  from sched.step_next [OF this i(1), of c] i(2) obtain st' where
    "schedule_step c ?st = Some st'" "run_queue st' ps" "current st' = ps ! (Suc i mod length ps)"
    by (auto simp: push_context_def)
  with q show "\<exists>m'. clock_tick r m = Some m' \<and> machine_queue m' ps \<and> current (m_sys m') = ps ! (Suc i mod length ps)"
    by (auto simp: r machine_queue_def clock_tick_effect) (simp add: clock_on_def)
qed

lemma ticks_effect:
  assumes "clock_on m" "run_steps clock_tick rs m = Some m'"
  shows "m_pit m' = (pit_irqHandler ^^ length rs) (m_pit m) \<and>
    m_ports m' = m_ports m @ replicate (length rs) (PIC1_COMMAND, PIC_EOI)"
  using assms
proof (induction rs arbitrary: m)
  case (Cons r rs)
  obtain c cx where r: "r = (c, cx)" by fastforce
  with Cons.prems obtain st where
    "run_steps clock_tick rs (m\<lparr>m_sys := st, m_pit := pit_irqHandler (m_pit m),
       m_ports := m_ports m @ [(PIC1_COMMAND, PIC_EOI)]\<rparr>) = Some m'"
    by (auto simp: bind_eq_Some_conv clock_tick_effect)
  from Cons.IH [OF _ this] Cons.prems(1) show ?case by (simp add: clock_on_def funpow_swap1)
qed simp

text \<open>
  C13: with the clock running, every process of the list gets the processor within as many ticks as
  the list is long, whatever is interrupted; each tick also advances the timers once and is
  acknowledged once, to the first interrupt controller only.
\<close>

theorem ticks_fair:
  assumes "machine_queue m ps" "current (m_sys m) \<in> set ps" "p \<in> set ps"
  shows "\<exists>n. 0 < n \<and> n \<le> length ps \<and> (\<forall>rs. length rs = n \<longrightarrow>
    (\<exists>m'. run_steps clock_tick rs m = Some m' \<and> current (m_sys m') = p \<and>
       m_pit m' = (pit_irqHandler ^^ n) (m_pit m) \<and> m_ports m' = m_ports m @ replicate n (PIC1_COMMAND, PIC_EOI)))"
proof -
  have "clock_on m" using assms(1) by (simp add: machine_queue_def)
  from ticks_effect [OF this] clock.fair [OF assms] show ?thesis by metis
qed

theorem ticks_fair_witness:
  "\<exists>n m'. 0 < n \<and> n \<le> 2 \<and>
    run_steps clock_tick (replicate n (0xC0001000, demo_context)) (pit_initialize demo_machine) = Some m' \<and>
    current (m_sys m') = 3 \<and> m_ports m' = replicate n (PIC1_COMMAND, PIC_EOI)"
proof -
  let ?m = "pit_initialize demo_machine"
  have m: "machine_queue ?m [2, 3]" "current (m_sys ?m) = 2" "m_ports ?m = []"
    using demo_queue(2) demo_fields(1)
    by (simp_all add: machine_queue_def clock_on_def pit_initialize_def isrInstallHandler_def demo_machine_def)
  from ticks_fair [OF m(1), of 3] m(2) obtain n where n: "0 < n" "n \<le> 2"
    "\<forall>rs. length rs = n \<longrightarrow> (\<exists>m'. run_steps clock_tick rs ?m = Some m' \<and> current (m_sys m') = 3 \<and>
       m_pit m' = (pit_irqHandler ^^ n) (m_pit ?m) \<and> m_ports m' = m_ports ?m @ replicate n (PIC1_COMMAND, PIC_EOI))"
    by (auto simp: numeral_2_eq_2)
  from n(3) [rule_format, of "replicate n (0xC0001000, demo_context)"] n(1, 2) m(3) show ?thesis by auto
qed

end
