(* ===== verification/Libc_Libgen.thy ===== *)
theory Libc_Libgen
  imports Inwox_Prelude
begin

text \<open>
  The parts of a path: \<open>libc/src/libgen/basename.c\<close> and \<open>dirname.c\<close>.  A string is the list of its
  bytes in front of the terminator, \<open>None\<close> the null pointer; writing a zero into it cuts the list.
\<close>

section \<open>Definitions\<close>

text \<open>The first loop of \<open>basename\<close> at index \<open>i\<close> cuts the slashes off the end, the second one goes back to a slash.\<close>

fun cut_slashes :: "byte list \<Rightarrow> nat \<Rightarrow> byte list \<times> nat" where
  "cut_slashes path 0 = (path, 0)"
| "cut_slashes path (Suc i) = (if path ! Suc i = 47 then cut_slashes (take (Suc i) path) i else (path, Suc i))"

fun back_to_slash :: "byte list \<Rightarrow> nat \<Rightarrow> nat" where
  "back_to_slash path 0 = 0"
| "back_to_slash path (Suc i) = (if path ! i \<noteq> 47 then back_to_slash path i else Suc i)"

definition basename :: "byte list option \<Rightarrow> byte list" where
  "basename p =
     (case p of
        None \<Rightarrow> [46]
      | Some path \<Rightarrow>
          if path = [] then [46]
          else let (path, i) = cut_slashes path (length path - 1) in drop (back_to_slash path i) path)"

text \<open>The loops of \<open>dirname\<close> at index \<open>i\<close>; \<open>None\<close> is a return from the loop at index 0.\<close>

fun skip_slashes :: "byte list \<Rightarrow> nat \<Rightarrow> nat option" where
  "skip_slashes path 0 = (if path ! 0 = 47 then None else Some 0)"
| "skip_slashes path (Suc i) = (if path ! Suc i = 47 then skip_slashes path i else Some (Suc i))"

fun skip_name :: "byte list \<Rightarrow> nat \<Rightarrow> nat option" where
  "skip_name path 0 = (if path ! 0 \<noteq> 47 then None else Some 0)"
| "skip_name path (Suc i) = (if path ! Suc i \<noteq> 47 then skip_name path i else Some (Suc i))"

definition dirname :: "byte list option \<Rightarrow> byte list" where
  "dirname p =
     (case p of
        None \<Rightarrow> [46]
      | Some path \<Rightarrow>
          if path = [] then [46]
          else case skip_slashes path (length path - 1) of
                 None \<Rightarrow> [47]
               | Some i \<Rightarrow>
                   (case skip_name path i of
                      None \<Rightarrow> [46]
                    | Some i \<Rightarrow>
                        (case skip_slashes path i of
                           None \<Rightarrow> [47]
                         | Some i \<Rightarrow> take (i + 1) path)))"

section \<open>The loops\<close>

text \<open>Where each loop stops: at the last wanted byte up to the index it starts at.\<close>

lemma skip_slashes_Some:
  "j \<le> i \<Longrightarrow> path ! j \<noteq> 47 \<Longrightarrow> \<forall>k. j < k \<and> k \<le> i \<longrightarrow> path ! k = 47 \<Longrightarrow> skip_slashes path i = Some j"
  by (induction i) (auto simp: le_Suc_eq)

lemma skip_slashes_None: "\<forall>k \<le> i. path ! k = 47 \<Longrightarrow> skip_slashes path i = None"
  by (induction i) auto

lemma skip_name_Some:
  "j \<le> i \<Longrightarrow> path ! j = 47 \<Longrightarrow> \<forall>k. j < k \<and> k \<le> i \<longrightarrow> path ! k \<noteq> 47 \<Longrightarrow> skip_name path i = Some j"
  by (induction i) (auto simp: le_Suc_eq)

lemma skip_name_None: "\<forall>k \<le> i. path ! k \<noteq> 47 \<Longrightarrow> skip_name path i = None"
  by (induction i) auto

lemma cut_slashes_at:
  "j \<le> i \<Longrightarrow> length path = Suc i \<Longrightarrow> path ! j \<noteq> 47 \<Longrightarrow> \<forall>k. j < k \<and> k \<le> i \<longrightarrow> path ! k = 47 \<Longrightarrow>
    cut_slashes path i = (take (Suc j) path, j)"
proof (induction i arbitrary: path)
  case (Suc i)
  show ?case
  proof (cases "j = Suc i")
    case False
    with Suc.prems Suc.IH [of "take (Suc i) path"] show ?thesis by (auto simp: min_def)
  qed (use Suc.prems in auto)
qed simp

lemma back_to_slash_at:
  "j \<le> i \<Longrightarrow> j = 0 \<or> path ! (j - 1) = 47 \<Longrightarrow> \<forall>k. j \<le> k \<and> k < i \<longrightarrow> path ! k \<noteq> 47 \<Longrightarrow> back_to_slash path i = j"
  by (induction i) (auto simp: le_Suc_eq)

section \<open>Directory and name\<close>

lemma nth_path:
  fixes d b :: "byte list"
  assumes "path = d @ replicate k 47 @ b @ replicate j 47"
  shows "i < length d \<Longrightarrow> path ! i = d ! i"
    "length d \<le> i \<Longrightarrow> i < length d + k \<Longrightarrow> path ! i = 47"
    "length d + k \<le> i \<Longrightarrow> i < length d + k + length b \<Longrightarrow> path ! i = b ! (i - length d - k)"
    "length d + k + length b \<le> i \<Longrightarrow> i < length path \<Longrightarrow> path ! i = 47"
  using assms by (auto simp: nth_append)

lemma path_name_end:
  fixes d b :: "byte list"
  assumes "path = d @ replicate k 47 @ b @ replicate j 47" "b \<noteq> []" "47 \<notin> set b"
  shows "path ! (length d + k + length b - 1) \<noteq> 47"
proof -
  have "path ! (length d + k + (length b - 1)) = last b"
    by (subst nth_path(3) [OF assms(1)]) (use assms(2) in \<open>auto simp: last_conv_nth\<close>)
  moreover have "last b \<noteq> 47" using assms(2, 3) by (metis last_in_set)
  ultimately show ?thesis using assms(2) by (simp add: Suc_leI)
qed

text \<open>
  A path is a directory, slashes, a name without a slash, and slashes; \<open>basename\<close> gives the name
  and \<open>dirname\<close> the directory, \<open>/\<close> when there is none in front of the slashes and \<open>.\<close> when
  there is no slash.
\<close>

lemma basename_path:
  assumes path: "path = d @ replicate k 47 @ b @ replicate j 47" and b: "b \<noteq> []" "47 \<notin> set b"
    and d: "k = 0 \<Longrightarrow> d = []"
  shows "basename (Some path) = b"
proof -
  let ?e = "length d + k + length b - 1"
  note nth = nth_path [OF path]
  have b': "b ! i \<noteq> 47" if "i < length b" for i using b(2) that by (metis nth_mem)
  have len: "length path = length d + k + length b + j" "0 < length b" using path b by simp_all
  from path_name_end [OF path b] have "cut_slashes path (length path - 1) = (take (Suc ?e) path, ?e)"
    using len nth(4) by (intro cut_slashes_at) auto
  moreover have "take (Suc ?e) path = d @ replicate k 47 @ b" using path len by simp
  moreover have "back_to_slash (d @ replicate k 47 @ b) ?e = length d + k"
  proof (rule back_to_slash_at)
    show "length d + k = 0 \<or> (d @ replicate k 47 @ b) ! (length d + k - 1) = 47"
      using d by (cases k) (auto simp: nth_append nth_Cons' nth_replicate)
    show "\<forall>i. length d + k \<le> i \<and> i < ?e \<longrightarrow> (d @ replicate k 47 @ b) ! i \<noteq> 47"
      using b' by (auto simp: nth_append)
  qed (use b(1) in \<open>cases b; simp\<close>)
  moreover have "path \<noteq> []" using len by auto
  ultimately show ?thesis by (simp add: basename_def)
qed

lemma dirname_path:
  assumes path: "path = d @ replicate k 47 @ b @ replicate j 47" and b: "b \<noteq> []" "47 \<notin> set b"
    and d: "k = 0 \<Longrightarrow> d = []" "d \<noteq> [] \<Longrightarrow> last d \<noteq> 47"
  shows "dirname (Some path) = (if k = 0 then [46] else if d = [] then [47] else d)"
proof -
  let ?e = "length d + k + length b - 1"
  note nth = nth_path [OF path]
  have b': "b ! i \<noteq> 47" if "i < length b" for i using b(2) that by (metis nth_mem)
  have len: "length path = length d + k + length b + j" "0 < length b" using path b by simp_all
  from path_name_end [OF path b] have 1: "skip_slashes path (length path - 1) = Some ?e"
    using len nth(4) by (intro skip_slashes_Some) auto
  have ne: "path \<noteq> []" using len by auto
  show ?thesis
  proof (cases "k = 0")
    case True
    have "path ! i \<noteq> 47" if "i \<le> ?e" for i using nth(3) [of i] b' [of i] that True d(1) b(1) by (cases b) auto
    then have "skip_name path ?e = None" by (intro skip_name_None) auto
    with 1 True ne show ?thesis by (simp add: dirname_def)
  next
    case False
    have 2: "skip_name path ?e = Some (length d + k - 1)"
    proof (rule skip_name_Some)
      show "path ! (length d + k - 1) = 47" using nth(2) [of "length d + k - 1"] False by simp
      show "\<forall>i. length d + k - 1 < i \<and> i \<le> ?e \<longrightarrow> path ! i \<noteq> 47" using nth(3) b' len False by auto
    qed (use len in simp)
    show ?thesis
    proof (cases "d = []")
      case True
      with False have "skip_slashes path (length d + k - 1) = None" using nth(2) by (intro skip_slashes_None) auto
      with 1 2 True False ne show ?thesis by (simp add: dirname_def)
    next
      case dd: False
      have "skip_slashes path (length d + k - 1) = Some (length d - 1)"
      proof (rule skip_slashes_Some)
        show "path ! (length d - 1) \<noteq> 47" using nth(1) [of "length d - 1"] dd d(2) by (simp add: last_conv_nth)
        show "\<forall>i. length d - 1 < i \<and> i \<le> length d + k - 1 \<longrightarrow> path ! i = 47" using nth(2) False dd by auto
      qed simp
      moreover have "take (length d) path = d" using path by simp
      ultimately show ?thesis using 1 2 dd False ne by (simp add: dirname_def)
    qed
  qed
qed

text \<open>Every path that does not end with a slash has such parts.\<close>

lemma trailing_run:
  "\<exists>ys k. xs = ys @ replicate k a \<and> (ys = [] \<or> last ys \<noteq> a)"
proof (induction xs rule: rev_induct)
  case (snoc x xs)
  show ?case
  proof (cases "x = a")
    case True
    from snoc.IH obtain ys k where ys: "xs = ys @ replicate k a" "ys = [] \<or> last ys \<noteq> a" by blast
    have "xs @ [x] = ys @ replicate (Suc k) a" using ys(1) True by (simp add: replicate_append_same)
    with ys(2) show ?thesis by blast
  next
    case False
    then have "xs @ [x] = (xs @ [x]) @ replicate 0 a \<and> (xs @ [x] = [] \<or> last (xs @ [x]) \<noteq> a)" by simp
    then show ?thesis by blast
  qed
qed simp

lemma path_parts:
  fixes path :: "byte list"
  assumes "path \<noteq> []" "last path \<noteq> 47"
  shows "\<exists>d k b. path = d @ replicate k 47 @ b @ replicate 0 47 \<and> b \<noteq> [] \<and> 47 \<notin> set b \<and>
    (k = 0 \<longrightarrow> d = []) \<and> (d \<noteq> [] \<longrightarrow> last d \<noteq> 47)"
proof -
  let ?b = "rev (takeWhile (\<lambda>c. c \<noteq> 47) (rev path))" and ?f = "rev (dropWhile (\<lambda>c. c \<noteq> 47) (rev path))"
  have path: "path = ?f @ ?b" by (metis rev_append rev_rev_ident takeWhile_dropWhile_id)
  have b: "?b \<noteq> []" "47 \<notin> set ?b"
    using assms by (auto simp: takeWhile_eq_Nil_iff hd_rev dest: set_takeWhileD)
  from trailing_run [of ?f 47] obtain d k where d: "?f = d @ replicate k 47" "d = [] \<or> last d \<noteq> 47" by blast
  have "d = []" if "k = 0"
  proof (rule ccontr)
    assume "d \<noteq> []"
    with d that have "?f \<noteq> []" "last ?f \<noteq> 47" by simp_all
    then show False by (metis (mono_tags, lifting) hd_dropWhile last_rev rev_is_Nil_conv)
  qed
  with path d b show ?thesis by (intro exI [of _ d] exI [of _ k] exI [of _ ?b]) auto
qed

end
