(* ===== verification/Kernel_Initrd.thy ===== *)
theory Kernel_Initrd
  imports Kernel_Process Kernel_Print Libc_Libgen Libc_Strtol
begin

text \<open>
  The first file system: \<open>kernel/src/initrd.cpp\<close> unpacks the tar archive that the boot loader has
  put into memory.  The archive is the list of the bytes that are mapped; \<open>None\<close> stands for an
  access behind them, for a null pointer, and for a child added to something that is no directory.
\<close>

section \<open>Definitions\<close>

record tar_header =
  th_name :: "byte list"
  th_mode :: "byte list"
  th_size :: "byte list"
  th_typeflag :: byte
  th_prefix :: "byte list"

text \<open>The string at an offset: it ends with the next zero, in its field or behind it.\<close>

definition c_string :: "byte list \<Rightarrow> nat \<Rightarrow> byte list option" where
  "c_string arch k = (if 0 \<in> set (drop k arch) then Some (takeWhile (\<lambda>c. c \<noteq> 0) (drop k arch)) else None)"

definition tar_magic :: "byte list \<Rightarrow> nat \<Rightarrow> bool option" where
  "tar_magic arch k = map_option (\<lambda>m. m = bytes ''ustar'' @ [0]) (slice arch (k + 257) 6)"

definition read_tar_header :: "byte list \<Rightarrow> nat \<Rightarrow> tar_header option" where
  "read_tar_header arch k =
     Option.bind (c_string arch k) (\<lambda>name.
     Option.bind (c_string arch (k + 100)) (\<lambda>mode.
     Option.bind (c_string arch (k + 124)) (\<lambda>sz.
     Option.bind (slice arch (k + 156) 1) (\<lambda>flag.
     Option.bind (c_string arch (k + 345)) (\<lambda>prefix.
       Some \<lparr>th_name = name, th_mode = mode, th_size = sz, th_typeflag = hd flag, th_prefix = prefix\<rparr>)))))"

definition REGTYPE :: byte where "REGTYPE = 48"
definition AREGTYPE :: byte where "AREGTYPE = 0"
definition DIRTYPE :: byte where "DIRTYPE = 53"

definition tar_path :: "tar_header \<Rightarrow> byte list" where
  "tar_path h = (if th_prefix h \<noteq> [] then th_prefix h @ bytes ''/'' @ th_name h else th_name h)"

text \<open>Numbers are octal; the conversion may set \<open>errno\<close>.\<close>

definition octal_size :: "tar_header \<Rightarrow> u32" where
  "octal_size h = word_of_int (fst (strtoul (th_size h) 8))"

definition octal_mode :: "tar_header \<Rightarrow> u32" where
  "octal_mode h = word_of_int (fst (strtol (th_mode h) 8))"

definition set_errno :: "int option \<Rightarrow> vfs \<Rightarrow> vfs" where
  "set_errno e st = (case e of Some e \<Rightarrow> fail e st | None \<Rightarrow> st)"

definition print_missing :: "byte list \<Rightarrow> byte list \<Rightarrow> vfs \<Rightarrow> vfs option" where
  "print_missing fileName dirName st =
     (let second = 0x1000 + w32 (length fileName + 1);
          m = mem_write (mem_write (\<lambda>_. 0) 0x1000 (fileName @ [0])) second (dirName @ [0])
      in Print_printf m (bytes ''Could not add '' @ [39] @ bytes ''%s'' @ [39] @ bytes '' to nonexistent directory '' @ [39]
           @ bytes ''%s'' @ [39] @ bytes ''.'' @ [10]) [0x1000, second] st)"

definition print_typeflag :: "byte \<Rightarrow> vfs \<Rightarrow> vfs option" where
  "print_typeflag c st = Print_printf (\<lambda>_. 0) (bytes ''Unknown typeflag '' @ [39] @ bytes ''%c'' @ [39, 10]) [scast c] st"

text \<open>
  One round of the loop: the vnode of the entry with the offset of the next header, or the end of
  the loop by a \<open>return\<close>.
\<close>

datatype tar_step = Next nat vfs | Return_root vfs

definition add_file :: "vref \<Rightarrow> byte list \<Rightarrow> nat \<Rightarrow> vref \<times> vfs \<Rightarrow> tar_step option" where
  "add_file directory fileName k f = map_option (Next k) (addChildNode directory fileName (fst f) (snd f))"

definition initrd_node :: "byte list \<Rightarrow> nat \<Rightarrow> tar_header \<Rightarrow> byte list \<Rightarrow> vref \<Rightarrow> vfs \<Rightarrow> tar_step option" where
  "initrd_node arch k h fileName directory st =
     (let sz = octal_size h; mode = octal_mode h; st = set_errno (snd (snd (strtol (th_mode h) 8))) st;
          dev = vn_dev (vnodes st directory) in
      if th_typeflag h = REGTYPE \<or> th_typeflag h = AREGTYPE then
        Option.bind (slice arch (k + 512) (unat sz)) (\<lambda>data.
          add_file directory fileName (k + 512 * (1 + unat (KALIGN_UP sz 512 div 512))) (FileVnode_new data mode dev 0 st))
      else if th_typeflag h = DIRTYPE then
        add_file directory fileName (k + 512) (DirectoryVnode_new (Some directory) mode dev 0 st)
      else map_option Return_root (print_typeflag (th_typeflag h) st))"

definition initrd_entry :: "allocator \<Rightarrow> byte list \<Rightarrow> vref \<Rightarrow> nat \<Rightarrow> vfs \<Rightarrow> tar_step option" where
  "initrd_entry E arch root k st =
     Option.bind (read_tar_header arch k) (\<lambda>h.
       let st = set_errno (snd (snd (strtoul (th_size h) 8))) st; path = tar_path h;
           dirName = dirname (Some path); fileName = basename (Some path)
       in if \<not> gives E (length path + 1) then None
          else case resolvePath E root dirName st of
                 (None, st) \<Rightarrow> map_option Return_root (print_missing fileName dirName st)
               | (Some directory, st) \<Rightarrow> initrd_node arch k h fileName directory st)"

text \<open>The loop; every round reads inside of the archive and moves on, so it ends.\<close>

lemma initrd_node_forward: "initrd_node arch k h name d st = Some (Next k' st') \<Longrightarrow> k + 512 \<le> k'"
  by (auto simp: initrd_node_def add_file_def Let_def bind_eq_Some_conv split: if_splits)

lemma initrd_entry_forward: "initrd_entry E arch root k st = Some (Next k' st') \<Longrightarrow> k + 512 \<le> k'"
  by (auto simp: initrd_entry_def Let_def bind_eq_Some_conv case_prod_beta
      split: option.splits if_splits dest: initrd_node_forward)

function initrd_loop :: "allocator \<Rightarrow> byte list \<Rightarrow> vref \<Rightarrow> nat \<Rightarrow> vfs \<Rightarrow> vfs option" where
  "initrd_loop E arch root k st =
     (case tar_magic arch k of
        None \<Rightarrow> None
      | Some False \<Rightarrow> Some st
      | Some True \<Rightarrow>
          (case initrd_entry E arch root k st of
             None \<Rightarrow> None
           | Some (Return_root st) \<Rightarrow> Some st
           | Some (Next k' st') \<Rightarrow> initrd_loop E arch root k' st'))"
  by pat_completeness auto
termination
  by (relation "measure (\<lambda>(E, arch, root, k, st). length arch - k)")
     (auto simp: tar_magic_def slice_def split: if_splits dest: initrd_entry_forward)

declare initrd_loop.simps [simp del]

definition loadInitrd :: "allocator \<Rightarrow> byte list \<Rightarrow> vfs \<Rightarrow> (vref \<times> vfs) option" where
  "loadInitrd E arch st =
     (let (root, st) = DirectoryVnode_new None 0x1ED 0 0 st
      in map_option (\<lambda>st. (root, st)) (initrd_loop E arch root 0 st))"

section \<open>Loading keeps what is there\<close>

text \<open>The headers of an archive, in the order of the loop.\<close>

definition next_header :: "nat \<Rightarrow> tar_header \<Rightarrow> nat" where
  "next_header k h =
     (if th_typeflag h = REGTYPE \<or> th_typeflag h = AREGTYPE
      then k + 512 * (1 + unat (KALIGN_UP (octal_size h) 512 div 512)) else k + 512)"

function tar_entries :: "byte list \<Rightarrow> nat \<Rightarrow> (nat \<times> tar_header) list" where
  "tar_entries arch k =
     (if tar_magic arch k = Some True
      then case read_tar_header arch k of Some h \<Rightarrow> (k, h) # tar_entries arch (next_header k h) | None \<Rightarrow> []
      else [])"
  by pat_completeness auto
termination
  by (relation "measure (\<lambda>(arch, k). length arch - k)")
     (auto simp: tar_magic_def slice_def next_header_def split: if_splits)

declare tar_entries.simps [simp del]

text \<open>Loading only adds: names go on leading to the same vnodes, and files keep their contents.\<close>

definition loaded :: "vfs \<Rightarrow> vfs \<Rightarrow> bool" where
  "loaded st st' \<longleftrightarrow> vfs_ok st' \<and> vfs_le st st' \<and>
     (\<forall>r d. r < vn_fresh st \<and> object st r = FileVnode d \<longrightarrow> object st' r = FileVnode d)"

lemma loaded_refl: "vfs_ok st \<Longrightarrow> loaded st st"
  by (simp add: loaded_def)

lemma loaded_trans: "loaded a b \<Longrightarrow> loaded b c \<Longrightarrow> loaded a c"
  unfolding loaded_def using vfs_le_trans by (auto simp: vfs_le_def)

lemma loaded_ext:
  assumes "vfs_ok st" "vfs_ext st st'" "\<And>r d. r < vn_fresh st \<Longrightarrow> object st r = FileVnode d \<Longrightarrow> object st' r = FileVnode d"
  shows "loaded st st'"
  using assms by (auto simp: loaded_def vfs_ext_def)

lemma loaded_fail: "vfs_ok st \<Longrightarrow> loaded st (fail e st)"
  by (rule loaded_ext [OF _ vfs_ext_fail]) auto

lemma loaded_errno: "vfs_ok st \<Longrightarrow> loaded st (set_errno e st)"
  by (cases e) (simp_all add: set_errno_def loaded_refl loaded_fail)

lemma vnodes_errno [simp]: "vnodes (set_errno e st) = vnodes st" "vn_fresh (set_errno e st) = vn_fresh st"
  by (cases e; simp add: set_errno_def)+

lemma loaded_print: "vfs_ok st \<Longrightarrow> Print_printf m f vl st = Some st' \<Longrightarrow> loaded st st'"
  by (rule loaded_ext [OF _ Print_printf_ext]) (auto simp: Print_printf_def)

lemma regular_mode: "\<not> S_ISDIR (S_IFREG OR mode)"
proof
  assume "S_ISDIR (S_IFREG OR mode)"
  then have "bit ((S_IFREG OR mode) AND S_IFMT) 15 = bit S_IFDIR 15" by (simp add: S_ISDIR_def)
  then show False by (simp add: mode_defs bit_simps)
qed

lemma directory_mode: "mode AND S_IFMT = 0 \<Longrightarrow> S_ISDIR (S_IFDIR OR mode)"
  by (simp add: S_ISDIR_def bit.conj_disj_distrib2 mode_defs)

lemma loaded_new:
  assumes ok: "vfs_ok st" and new: "Vnode_new mode dev ino ob st = (r, st')" and mode: "S_ISDIR mode \<longleftrightarrow> is_dir ob"
    and refs: "refs_ok (vn_fresh st) (\<lambda>q. is_dir (object st q)) ob"
  shows "loaded st st'"
  using Vnode_new_simps(1, 3) [OF new] by (intro loaded_ext [OF ok Vnode_new_ext [OF new mode refs]]) auto

lemma loaded_child:
  assumes ok: "vfs_ok st" and add: "addChildNode d path r st = Some st'" and "d < vn_fresh st" "r < vn_fresh st"
  shows "loaded st st'"
  using add by (intro loaded_ext [OF ok addChildNode_ext [OF assms(2-)]]) (auto simp: addChildNode_def split: vobject.splits)

lemma loaded_add_file:
  assumes ok: "vfs_ok st" and d: "d < vn_fresh st"
    and new: "Vnode_new mode dev ino ob st = (r, st1)" "S_ISDIR mode \<longleftrightarrow> is_dir ob"
      "refs_ok (vn_fresh st) (\<lambda>q. is_dir (object st q)) ob"
    and add: "add_file d path k (r, st1) = Some (Next k' st')"
  shows "loaded st st'"
proof -
  note l1 = loaded_new [OF ok new] and simps = Vnode_new_simps [OF new(1)]
  then have "vfs_ok st1" by (simp add: loaded_def)
  then have "loaded st1 st'"
    by (rule loaded_child [of _ d path r]) (use add d simps(1, 2) in \<open>auto simp: add_file_def\<close>)
  with l1 show ?thesis by (rule loaded_trans)
qed

lemma add_file_Next: "add_file d path k f = Some s \<Longrightarrow> \<exists>st'. s = Next k st'"
  by (auto simp: add_file_def)

lemma addChildNode_dir: "addChildNode d path r st = Some st' \<Longrightarrow> is_dir (object st d)"
  by (auto simp: addChildNode_def split: vobject.splits)

lemma add_file_dir: "add_file d path k f = Some s \<Longrightarrow> is_dir (object (snd f) d)"
  by (auto simp: add_file_def dest: addChildNode_dir)

lemma initrd_node_loaded:
  assumes ok: "vfs_ok st" and d: "d < vn_fresh st" and mode: "octal_mode h AND S_IFMT = 0"
    and run: "initrd_node arch k h name d st = Some s"
  shows "case s of Next k' st' \<Rightarrow> k' = next_header k h \<and> loaded st st' | Return_root st' \<Rightarrow> loaded st st'"
proof -
  define st1 where "st1 = set_errno (snd (snd (strtol (th_mode h) 8))) st"
  have l1: "loaded st st1" and d1: "d < vn_fresh st1" using loaded_errno [OF ok] d by (simp_all add: st1_def)
  then have ok1: "vfs_ok st1" by (simp add: loaded_def)
  consider (reg) data where "th_typeflag h = REGTYPE \<or> th_typeflag h = AREGTYPE"
      "add_file d name (next_header k h) (FileVnode_new data (octal_mode h) (vn_dev (vnodes st1 d)) 0 st1) = Some s"
    | (dir) "\<not> (th_typeflag h = REGTYPE \<or> th_typeflag h = AREGTYPE)" "th_typeflag h = DIRTYPE"
      "add_file d name (next_header k h) (DirectoryVnode_new (Some d) (octal_mode h) (vn_dev (vnodes st1 d)) 0 st1) = Some s"
    | (unknown) st' where "print_typeflag (th_typeflag h) st1 = Some st'" "s = Return_root st'"
    using run by (auto simp: initrd_node_def Let_def st1_def next_header_def bind_eq_Some_conv split: if_splits)
  then show ?thesis
  proof cases
    case reg
    obtain r st2 where new: "FileVnode_new data (octal_mode h) (vn_dev (vnodes st1 d)) 0 st1 = (r, st2)" by fastforce
    from reg(2) obtain st' where s: "s = Next (next_header k h) st'" using add_file_Next by blast
    have "loaded st1 st'"
      by (rule loaded_add_file [OF ok1 d1 new [unfolded FileVnode_new_def]])
         (use reg(2) new s in \<open>auto simp: regular_mode refs_ok_def\<close>)
    with s loaded_trans [OF l1] show ?thesis by simp
  next
    case dir
    obtain r st2 where new: "DirectoryVnode_new (Some d) (octal_mode h) (vn_dev (vnodes st1 d)) 0 st1 = (r, st2)" by fastforce
    note simps = Vnode_new_simps [OF new [unfolded DirectoryVnode_new_def]]
    from dir(3) obtain st' where s: "s = Next (next_header k h) st'" using add_file_Next by blast
    have "is_dir (object st2 d)" using add_file_dir [OF dir(3)] new by simp
    moreover have "vnodes st2 d = vnodes st1 d" using simps(1, 3) d1 by simp
    ultimately have "loaded st1 st'"
      by (intro loaded_add_file [OF ok1 d1 new [unfolded DirectoryVnode_new_def]])
         (use dir(3) new s d1 directory_mode [OF mode] in \<open>auto simp: refs_ok_def\<close>)
    with s loaded_trans [OF l1] show ?thesis by simp
  next
    case unknown
    then show ?thesis using loaded_trans [OF l1 loaded_print [OF ok1]] by (simp add: print_typeflag_def)
  qed
qed

lemma initrd_entry_loaded:
  assumes ok: "vfs_ok st" and root: "root < vn_fresh st" and h: "read_tar_header arch k = Some h"
    and mode: "octal_mode h AND S_IFMT = 0" and run: "initrd_entry E arch root k st = Some s"
  shows "case s of Next k' st' \<Rightarrow> k' = next_header k h \<and> loaded st st' | Return_root st' \<Rightarrow> loaded st st'"
proof -
  define st1 where "st1 = set_errno (snd (snd (strtoul (th_size h) 8))) st"
  have l1: "loaded st st1" and root1: "root < vn_fresh st1" using loaded_errno [OF ok] root by (simp_all add: st1_def)
  then have ok1: "vfs_ok st1" by (simp add: loaded_def)
  obtain x st2 where res: "resolvePath E root (dirname (Some (tar_path h))) st1 = (x, st2)" by fastforce
  obtain e where st2: "st2 = fail e st1" using resolvePath_state [OF res] by blast
  then have l2: "loaded st st2" using loaded_trans [OF l1 loaded_fail [OF ok1]] by simp
  then have ok2: "vfs_ok st2" by (simp add: loaded_def)
  show ?thesis
  proof (cases x)
    case None
    with run h res obtain st' where "s = Return_root st'"
      "print_missing (basename (Some (tar_path h))) (dirname (Some (tar_path h))) st2 = Some st'"
      by (auto simp: initrd_entry_def Let_def st1_def split: if_splits)
    then show ?thesis using loaded_trans [OF l2 loaded_print [OF ok2]] by (auto simp: print_missing_def Let_def)
  next
    case (Some d)
    have "d < vn_fresh st2" using resolvePath_some(2) [OF ok1 root1] res Some st2 by simp
    moreover from run h res Some have "initrd_node arch k h (basename (Some (tar_path h))) d st2 = Some s"
      by (auto simp: initrd_entry_def Let_def st1_def split: if_splits)
    ultimately show ?thesis
      using initrd_node_loaded [OF ok2 _ mode] loaded_trans [OF l2] by (fastforce split: tar_step.splits)
  qed
qed

lemma initrd_loop_loaded:
  assumes "initrd_loop E arch root k st = Some st'" "vfs_ok st" "root < vn_fresh st"
    "\<forall>e \<in> set (tar_entries arch k). octal_mode (snd e) AND S_IFMT = 0"
  shows "loaded st st'"
  using assms
proof (induction E arch root k st rule: initrd_loop.induct)
  case (1 E arch root k st)
  show ?case
  proof (cases "tar_magic arch k = Some True")
    case True
    then obtain s where s: "initrd_entry E arch root k st = Some s"
      using 1(2) by (subst (asm) initrd_loop.simps) (auto split: option.splits)
    then obtain h where h: "read_tar_header arch k = Some h" by (auto simp: initrd_entry_def bind_eq_Some_conv)
    have ents: "tar_entries arch k = (k, h) # tar_entries arch (next_header k h)"
      by (subst tar_entries.simps) (simp add: True h)
    note entry = initrd_entry_loaded [OF 1(3, 4) h _ s]
    show ?thesis
    proof (cases s)
      case (Return_root st2)
      with 1(2, 5) True s entry ents show ?thesis by (subst (asm) initrd_loop.simps) auto
    next
      case (Next k' st2)
      with entry ents 1(5) have l: "k' = next_header k h" "loaded st st2" by auto
      with 1(4) have "vfs_ok st2" "root < vn_fresh st2" by (auto simp: loaded_def vfs_le_def)
      moreover have "initrd_loop E arch root k' st2 = Some st'"
        using 1(2) True s Next by (subst (asm) initrd_loop.simps) simp
      ultimately have "loaded st2 st'" using 1(1) [OF True _ s Next] 1(5) ents l(1) by simp
      with l(2) show ?thesis by (rule loaded_trans)
    qed
  next
    case False
    with 1(2, 3) show ?thesis
      by (subst (asm) initrd_loop.simps) (auto simp: loaded_refl split: option.splits bool.splits)
  qed
qed

section \<open>Files are found\<close>

lemma resolve_slashes: "resolve_loop r (replicate k 47 @ p) st = resolve_loop r p st"
  by (induction k) (simp_all add: resolve_loop_empty no_slash_def)

lemma resolve_single: "b \<noteq> [] \<Longrightarrow> 47 \<notin> set b \<Longrightarrow> resolve_loop r b st = Vnode_getChildNode r b st"
proof -
  assume b: "b \<noteq> []" "47 \<notin> set b"
  then have "takeWhile no_slash b = b" "dropWhile no_slash b = []" by (auto simp: no_slash_def)
  with b(1) show ?thesis by (simp only: resolve_loop_last simp_thms if_True)
qed

text \<open>The loader's way to a file, by \<open>dirname\<close> and \<open>basename\<close>, is the way of \<open>resolvePath\<close>.\<close>

lemma resolve_dirname_basename:
  assumes ok: "vfs_ok st" "r < vn_fresh st" and path: "path \<noteq> []" "last path \<noteq> 47"
    and dir: "resolve_loop r (dirname (Some path)) st = (Some v, st)" and isdir: "is_dir (object st v)"
  shows "resolve_loop r path st = Vnode_getChildNode v (basename (Some path)) st"
proof -
  obtain d k b where parts: "path = d @ replicate k 47 @ b @ replicate 0 47" "b \<noteq> []" "47 \<notin> set b"
    and d: "k = 0 \<Longrightarrow> d = []" "d \<noteq> [] \<Longrightarrow> last d \<noteq> 47"
    using path_parts [OF path] by blast
  note base = basename_path [OF parts d(1)] and name = resolve_single [OF parts(2, 3)]
  note dname = dirname_path [OF parts d]
  consider "k = 0" | "0 < k" "d = []" | "0 < k" "d \<noteq> []" by blast
  then show ?thesis
  proof cases
    case 1
    have "resolve_loop r [46] st = Vnode_getChildNode r [46] st" by (rule resolve_single) auto
    with dir dname 1 have "v = r" by (auto simp: Vnode_getChildNode_def split: vobject.splits)
    with 1 d(1) parts(1) name base show ?thesis by simp
  next
    case 2
    have "resolve_loop r [47] st = (Some r, st)" using resolve_slashes [of r 1 "[]" st] by (simp add: resolve_loop_last)
    with dir dname 2 have "v = r" by simp
    with 2 parts(1) name base resolve_slashes show ?thesis by simp
  next
    case 3
    then obtain m where m: "k = Suc m" by (cases k) auto
    have "S_ISDIR (vn_mode (vnodes st v))"
      using resolve_loop_some [OF ok dir] vfs_okD(1) [OF ok(1)] isdir by blast
    then have "resolve_loop r (d @ 47 # replicate m 47 @ b) st = resolve_loop v (replicate m 47 @ b) st"
      using resolve_loop_append [OF ok] dir dname 3 by simp
    with parts(1) m name base resolve_slashes show ?thesis by simp
  qed
qed

lemma initrd_node_regular:
  assumes "th_typeflag h = REGTYPE \<or> th_typeflag h = AREGTYPE" "initrd_node arch k h name d st = Some s"
  shows "\<exists>data r st2 st'. slice arch (k + 512) (unat (octal_size h)) = Some data \<and>
    Vnode_new (S_IFREG OR octal_mode h) (vn_dev (vnodes st d)) 0 (FileVnode data)
      (set_errno (snd (snd (strtol (th_mode h) 8))) st) = (r, st2) \<and>
    addChildNode d name r st2 = Some st' \<and> s = Next (next_header k h) st'"
proof -
  let ?new = "\<lambda>data. Vnode_new (S_IFREG OR octal_mode h) (vn_dev (vnodes st d)) 0 (FileVnode data)
    (set_errno (snd (snd (strtol (th_mode h) 8))) st)"
  obtain data where data: "slice arch (k + 512) (unat (octal_size h)) = Some data"
    "add_file d name (next_header k h) (?new data) = Some s"
    using assms by (auto simp: initrd_node_def Let_def next_header_def FileVnode_new_def bind_eq_Some_conv)
  moreover obtain r st2 where "?new data = (r, st2)" by fastforce
  ultimately show ?thesis by (auto simp: add_file_def)
qed

lemma add_regular:
  assumes ok: "vfs_ok st" and d: "d < vn_fresh st" and regular: "th_typeflag h = REGTYPE \<or> th_typeflag h = AREGTYPE"
    and get: "fst (Vnode_getChildNode d name st) = None"
    and run: "initrd_node arch k h name d st = Some (Next k' st')"
  shows "\<exists>v. Vnode_getChildNode d name st' = (Some v, st') \<and> v < vn_fresh st' \<and> is_dir (object st d) \<and>
    object st' v = FileVnode (take (unat (octal_size h)) (drop (k + 512) arch)) \<and>
    vn_mode (vnodes st' v) = S_IFREG OR octal_mode h"
proof -
  define st1 where "st1 = set_errno (snd (snd (strtol (th_mode h) 8))) st"
  from initrd_node_regular [OF regular run] obtain data r st2 where
    data: "slice arch (k + 512) (unat (octal_size h)) = Some data"
    and new: "Vnode_new (S_IFREG OR octal_mode h) (vn_dev (vnodes st d)) 0 (FileVnode data) st1 = (r, st2)"
    and add: "addChildNode d name r st2 = Some st'" by (auto simp: st1_def)
  note new = Vnode_new_simps [OF new]
  have neq: "d \<noteq> r" using d new(1) by (simp add: st1_def)
  obtain es p where es: "object st2 d = DirectoryVnode es p"
    and st': "st' = set_object d (DirectoryVnode (es @ [(name, r)]) p) st2"
    using add by (auto simp: addChildNode_def split: vobject.splits)
  have old: "object st d = DirectoryVnode es p" using es new(3) [OF neq] by (simp add: st1_def)
  with get have "map_of es name = None" "name \<noteq> bytes ''.''" "name \<noteq> bytes ''..''"
    by (auto simp: Vnode_getChildNode_def split: option.splits if_splits simp del: bytes_simps)
  then have "Vnode_getChildNode d name st' = (Some r, st')"
    unfolding st' by (simp add: Vnode_getChildNode_def map_add_def del: bytes_simps)
  moreover have "data = take (unat (octal_size h)) (drop (k + 512) arch)"
    using data by (auto simp: slice_def split: if_splits)
  moreover have "vn_fresh st' = vn_fresh st2" unfolding st' by (simp add: set_object_def)
  ultimately show ?thesis using neq new old by (auto simp: st')
qed

lemma initrd_entry_adds:
  assumes ok: "vfs_ok st" "root < vn_fresh st" and h: "read_tar_header arch k = Some h"
    and mode: "octal_mode h AND S_IFMT = 0"
    and regular: "th_typeflag h = REGTYPE \<or> th_typeflag h = AREGTYPE"
    and path: "tar_path h \<noteq> []" "last (tar_path h) \<noteq> 47"
    and dir: "fst (resolvePath E root (dirname (Some (tar_path h))) st) \<noteq> None"
    and new: "fst (resolvePath E root (tar_path h) st) = None"
    and s: "initrd_entry E arch root k st = Some s"
  shows "\<exists>v st2. s = Next (next_header k h) st2 \<and> loaded st st2 \<and> v < vn_fresh st2 \<and>
    resolvePath E root (tar_path h) st2 = (Some v, st2) \<and>
    object st2 v = FileVnode (take (unat (octal_size h)) (drop (k + 512) arch)) \<and>
    vn_mode (vnodes st2 v) = S_IFREG OR octal_mode h"
proof -
  let ?p = "tar_path h" and ?st1 = "set_errno (snd (snd (strtoul (th_size h) 8))) st"
  obtain d where d: "resolvePath E root (dirname (Some ?p)) st = (Some d, st)"
    using dir resolvePath_some(1) [OF ok] by (metis option.exhaust prod.collapse)
  note d1 = resolvePath_some(2, 3) [OF ok d]
  have l1: "loaded st ?st1" by (rule loaded_errno [OF ok(1)])
  then have ok1: "vfs_ok ?st1" and res1: "resolvePath E root (dirname (Some ?p)) ?st1 = (Some d, ?st1)"
    using d1(2) by (auto simp: loaded_def)
  from s have node: "initrd_node arch k h (basename (Some ?p)) d ?st1 = Some s" and gives: "gives E (Suc (length ?p))"
    using h res1 by (auto simp: initrd_entry_def Let_def split: if_splits)
  from initrd_node_regular [OF regular node] obtain data r v2 st2 where s2: "s = Next (next_header k h) st2" and
    "Vnode_new (S_IFREG OR octal_mode h) (vn_dev (vnodes ?st1 d)) 0 (FileVnode data)
       (set_errno (snd (snd (strtol (th_mode h) 8))) ?st1) = (r, v2)" and "is_dir (object v2 d)"
    using addChildNode_dir by blast
  with d1(1) Vnode_new_simps(1, 3) [OF this(2)] have isdir: "is_dir (object st d)" by auto
  have l2: "loaded st st2" using initrd_entry_loaded [OF ok h mode s] s2 by simp
  then have ok2: "vfs_ok st2" "root < vn_fresh st2" "vfs_le st st2" using ok(2) by (auto simp: loaded_def vfs_le_def)
  have "resolve_loop root (dirname (Some ?p)) st = (Some d, st)"
    using d by (simp add: resolvePath_def split: if_splits)
  with new have "fst (Vnode_getChildNode d (basename (Some ?p)) st) = None"
    using resolve_dirname_basename [OF ok path _ isdir] gives path(1) by (simp add: resolvePath_gives)
  then have "fst (Vnode_getChildNode d (basename (Some ?p)) ?st1) = None"
    by (auto simp: Vnode_getChildNode_def split: vobject.splits option.splits if_splits)
  from add_regular [OF ok1 _ regular this node [unfolded s2]] d1(1) obtain v where
    v: "Vnode_getChildNode d (basename (Some ?p)) st2 = (Some v, st2)" "v < vn_fresh st2"
      "object st2 v = FileVnode (take (unat (octal_size h)) (drop (k + 512) arch))"
      "vn_mode (vnodes st2 v) = S_IFREG OR octal_mode h" by auto
  have "resolve_loop root (dirname (Some ?p)) st2 = (Some d, st2)"
    using d1(2) [OF ok2(3)] by (simp add: resolvePath_def split: if_splits)
  moreover have "is_dir (object st2 d)"
    using vfs_leD(2) [OF ok2(3) d1(1)] isdir is_dir_object_le by blast
  ultimately have "resolvePath E root ?p st2 = (Some v, st2)"
    using resolve_dirname_basename [OF ok2(1, 2) path] v(1) gives path(1) by (simp add: resolvePath_gives)
  with s2 l2 v(2-) show ?thesis by blast
qed

text \<open>
  C16: when the loader comes to an entry for a regular file, its directory being there and its name
  being new, then after the whole archive is loaded the path of the entry leads to a regular file
  with the data and the mode of the entry, whatever entries follow.
\<close>

theorem initrd_file:
  assumes loop: "initrd_loop E arch root k st = Some st'" and ok: "vfs_ok st" "root < vn_fresh st"
    and modes: "\<forall>e \<in> set (tar_entries arch k). octal_mode (snd e) AND S_IFMT = 0"
    and magic: "tar_magic arch k = Some True" and h: "read_tar_header arch k = Some h"
    and regular: "th_typeflag h = REGTYPE \<or> th_typeflag h = AREGTYPE"
    and path: "tar_path h \<noteq> []" "last (tar_path h) \<noteq> 47"
    and dir: "fst (resolvePath E root (dirname (Some (tar_path h))) st) \<noteq> None"
    and new: "fst (resolvePath E root (tar_path h) st) = None"
  shows "\<exists>v. fst (resolvePath E root (tar_path h) st') = Some v \<and>
    object st' v = FileVnode (take (unat (octal_size h)) (drop (k + 512) arch)) \<and>
    vn_mode (vnodes st' v) = S_IFREG OR octal_mode h"
proof -
  obtain s where s: "initrd_entry E arch root k st = Some s"
    using loop magic by (subst (asm) initrd_loop.simps) (auto split: option.splits)
  have ents: "tar_entries arch k = (k, h) # tar_entries arch (next_header k h)"
    by (subst tar_entries.simps) (simp add: magic h)
  with modes have "octal_mode h AND S_IFMT = 0" by simp
  from initrd_entry_adds [OF ok h this regular path dir new s] obtain v st2 where
    s2: "s = Next (next_header k h) st2" and l2: "loaded st st2" and v: "v < vn_fresh st2"
      "resolvePath E root (tar_path h) st2 = (Some v, st2)"
      "object st2 v = FileVnode (take (unat (octal_size h)) (drop (k + 512) arch))"
      "vn_mode (vnodes st2 v) = S_IFREG OR octal_mode h" by blast
  from l2 ok(2) have ok2: "vfs_ok st2" "root < vn_fresh st2" by (auto simp: loaded_def vfs_le_def)
  have rest: "initrd_loop E arch root (next_header k h) st2 = Some st'"
    using loop magic s s2 by (subst (asm) initrd_loop.simps) simp
  have "loaded st2 st'" by (rule initrd_loop_loaded [OF rest ok2]) (use modes ents in simp)
  with resolvePath_some(3) [OF ok2 v(2)] v vfs_leD(1) [of st2 st' v] show ?thesis
    by (auto simp: loaded_def)
qed

text \<open>An archive with one file of three bytes.\<close>

definition tar_field :: "nat \<Rightarrow> byte list \<Rightarrow> byte list" where
  "tar_field n bs = bs @ replicate (n - length bs) 0"

definition demo_archive :: "byte list" where
  "demo_archive = tar_field 100 (bytes ''etc/motd'') @ tar_field 8 (bytes ''0000644'') @ tar_field 16 [] @
     tar_field 12 (bytes ''00000000003'') @ tar_field 20 [] @ tar_field 101 [48] @ tar_field 255 (bytes ''ustar'') @
     tar_field 512 [7, 8, 9] @ tar_field 263 []"

lemma demo_archive_loads:
  "map_option vn_fresh (initrd_loop demo_allocator demo_archive 0 0 demo_vfs) = Some 4"
  by code_simp

lemma demo_archive_header:
  "tar_magic demo_archive 0 = Some True" "read_tar_header demo_archive 0 = Some \<lparr>th_name = bytes ''etc/motd'',
     th_mode = bytes ''0000644'', th_size = bytes ''00000000003'', th_typeflag = 48, th_prefix = []\<rparr>"
  "map (\<lambda>e. octal_mode (snd e)) (tar_entries demo_archive 0) = [0x1A4]"
  by code_simp+

theorem initrd_file_witness:
  "\<exists>st' v. initrd_loop demo_allocator demo_archive 0 0 demo_vfs = Some st' \<and>
    fst (resolvePath demo_allocator 0 (bytes ''etc/motd'') st') = Some v \<and>
    object st' v = FileVnode (take 3 (drop 512 demo_archive))"
proof -
  let ?h = "\<lparr>th_name = bytes ''etc/motd'', th_mode = bytes ''0000644'', th_size = bytes ''00000000003'',
    th_typeflag = 48, th_prefix = []\<rparr>"
  obtain st' where loop: "initrd_loop demo_allocator demo_archive 0 0 demo_vfs = Some st'"
    using demo_archive_loads by auto
  have "octal_mode (snd e) \<in> set (map (\<lambda>e. octal_mode (snd e)) (tar_entries demo_archive 0))"
    if "e \<in> set (tar_entries demo_archive 0)" for e using that by auto
  then have "\<forall>e \<in> set (tar_entries demo_archive 0). octal_mode (snd e) = 0x1A4"
    unfolding demo_archive_header(3) by simp
  then have modes: "\<forall>e \<in> set (tar_entries demo_archive 0). octal_mode (snd e) AND S_IFMT = 0"
    by (simp add: S_IFMT_def)
  have path: "tar_path ?h = bytes ''etc/motd''" "unat (octal_size ?h) = 3" by code_simp+
  have dir: "fst (resolvePath demo_allocator 0 (dirname (Some (bytes ''etc/motd''))) demo_vfs) \<noteq> None"
    and none: "fst (resolvePath demo_allocator 0 (bytes ''etc/motd'') demo_vfs) = None" by code_simp+
  have "0 < vn_fresh demo_vfs" by (simp add: demo_vfs_def)
  from initrd_file [OF loop demo_vfs_ok this modes demo_archive_header(1, 2)] path dir none loop show ?thesis
    by (auto simp: REGTYPE_def)
qed

end
