(* ===== verification/Kernel_Ps2.thy ===== *)
theory Kernel_Ps2
  imports Kernel_Interrupt
begin

text \<open>
  The PS/2 controller, \<open>kernel/src/ps2.cpp\<close>, and the transfer of commands to the keyboard in
  \<open>ps2keyboard.cpp\<close>.  The controller is hardware: \<open>D\<close> says what a read of a port gives, what reads and writes do
  to it; writes are logged in the machine's list of port writes.  The driver waits in loops for bits of the status port;
  \<open>None\<close> is a loop that does not end, or a message that cannot be printed.
\<close>

section \<open>Definitions\<close>

definition PS2_DATA_PORT :: u32 where "PS2_DATA_PORT = 0x60"
definition PS2_STATUS_PORT :: u32 where "PS2_STATUS_PORT = 0x64"
definition PS2_COMMAND_PORT :: u32 where "PS2_COMMAND_PORT = 0x64"
definition COMMAND_READ_CONFIG :: byte where "COMMAND_READ_CONFIG = 0x20"
definition COMMAND_WRITE_CONFIG :: byte where "COMMAND_WRITE_CONFIG = 0x60"
definition COMMAND_DISABLE_PORT2 :: byte where "COMMAND_DISABLE_PORT2 = 0xA7"
definition COMMAND_ENABLE_PORT2 :: byte where "COMMAND_ENABLE_PORT2 = 0xA8"
definition COMMAND_TEST_PORT2 :: byte where "COMMAND_TEST_PORT2 = 0xA9"
definition COMMAND_SELF_TEST :: byte where "COMMAND_SELF_TEST = 0xAA"
definition COMMAND_TEST_PORT1 :: byte where "COMMAND_TEST_PORT1 = 0xAB"
definition COMMAND_DISABLE_PORT1 :: byte where "COMMAND_DISABLE_PORT1 = 0xAD"
definition COMMAND_ENABLE_PORT1 :: byte where "COMMAND_ENABLE_PORT1 = 0xAE"
definition PS2_CONFIG_FIRST_INTERRUPT :: byte where "PS2_CONFIG_FIRST_INTERRUPT = 1"
definition PS2_CONFIG_SECOND_INTERRUPT :: byte where "PS2_CONFIG_SECOND_INTERRUPT = 2"
definition PS2_CONFIG_SECOND_CLOCK :: byte where "PS2_CONFIG_SECOND_CLOCK = 0x20"
definition DEVICE_CMD_IDENTIFY :: byte where "DEVICE_CMD_IDENTIFY = 0xF2"
definition DEVICE_CMD_DISABLE_SCANNING :: byte where "DEVICE_CMD_DISABLE_SCANNING = 0xF5"
definition DEVICE_CMD_RESET :: byte where "DEVICE_CMD_RESET = 0xFF"
definition DEVICE_ACK :: byte where "DEVICE_ACK = 0xFA"
definition DEVICE_RESET_OK :: byte where "DEVICE_RESET_OK = 0xAA"
definition REG_STATUS_OUTPUT :: byte where "REG_STATUS_OUTPUT = 1"
definition REG_STATUS_INPUT :: byte where "REG_STATUS_INPUT = 2"
definition KEYBOARD_ENABLE_SCANNING :: byte where "KEYBOARD_ENABLE_SCANNING = 0xF4"

record 'd device =
  dev_in :: "u32 \<Rightarrow> 'd \<Rightarrow> byte \<times> 'd"
  dev_out :: "u32 \<Rightarrow> byte \<Rightarrow> 'd \<Rightarrow> 'd"

definition in_port :: "'d device \<Rightarrow> u32 \<Rightarrow> 'd \<times> machine \<Rightarrow> byte \<times> 'd \<times> machine" where
  "in_port D p s = (let (b, d) = dev_in D p (fst s) in (b, d, snd s))"

definition out_port :: "'d device \<Rightarrow> u32 \<Rightarrow> byte \<Rightarrow> 'd \<times> machine \<Rightarrow> 'd \<times> machine" where
  "out_port D p b s = (dev_out D p b (fst s), outportb p b (snd s))"

text \<open>The loops: until the input buffer is empty, until there is output, and until there is none.\<close>

partial_function (option) wait_input :: "'d device \<Rightarrow> 'd \<times> machine \<Rightarrow> ('d \<times> machine) option" where
  "wait_input D s = (let (b, s) = in_port D PS2_STATUS_PORT s in if b AND REG_STATUS_INPUT \<noteq> 0 then wait_input D s else Some s)"

partial_function (option) wait_output :: "'d device \<Rightarrow> 'd \<times> machine \<Rightarrow> ('d \<times> machine) option" where
  "wait_output D s = (let (b, s) = in_port D PS2_STATUS_PORT s in if b AND REG_STATUS_OUTPUT = 0 then wait_output D s else Some s)"

partial_function (option) flush_output :: "'d device \<Rightarrow> 'd \<times> machine \<Rightarrow> ('d \<times> machine) option" where
  "flush_output D s =
     (let (b, s) = in_port D PS2_STATUS_PORT s in
      if b AND REG_STATUS_OUTPUT \<noteq> 0 then flush_output D (snd (in_port D PS2_DATA_PORT s)) else Some s)"

declare wait_input.simps [code] wait_output.simps [code] flush_output.simps [code]

definition readDataPort :: "'d device \<Rightarrow> 'd \<times> machine \<Rightarrow> (byte \<times> 'd \<times> machine) option" where
  "readDataPort D s = map_option (in_port D PS2_DATA_PORT) (wait_output D s)"

definition sendPS2Command :: "'d device \<Rightarrow> byte \<Rightarrow> 'd \<times> machine \<Rightarrow> ('d \<times> machine) option" where
  "sendPS2Command D command s = map_option (out_port D PS2_COMMAND_PORT command) (wait_input D s)"

definition send_data :: "'d device \<Rightarrow> byte \<Rightarrow> 'd \<times> machine \<Rightarrow> ('d \<times> machine) option" where
  "send_data D data s = map_option (out_port D PS2_DATA_PORT data) (wait_input D s)"

definition sendPS2Command_data :: "'d device \<Rightarrow> byte \<Rightarrow> byte \<Rightarrow> 'd \<times> machine \<Rightarrow> ('d \<times> machine) option" where
  "sendPS2Command_data D command data s = Option.bind (sendPS2Command D command s) (send_data D data)"

definition sendPS2CommandWithResponse :: "'d device \<Rightarrow> byte \<Rightarrow> 'd \<times> machine \<Rightarrow> (byte \<times> 'd \<times> machine) option" where
  "sendPS2CommandWithResponse D command s = Option.bind (sendPS2Command D command s) (readDataPort D)"

text \<open>\<open>sendKeyboardCommand\<close>: the first reads the answer, the second does not.\<close>

definition sendKeyboardCommand :: "'d device \<Rightarrow> byte \<Rightarrow> 'd \<times> machine \<Rightarrow> ('d \<times> machine) option" where
  "sendKeyboardCommand D command s = map_option snd (Option.bind (send_data D command s) (readDataPort D))"

definition sendKeyboardCommand_data :: "'d device \<Rightarrow> byte \<Rightarrow> byte \<Rightarrow> 'd \<times> machine \<Rightarrow> ('d \<times> machine) option" where
  "sendKeyboardCommand_data D command data s = Option.bind (send_data D command s) (send_data D data)"

text \<open>A message of the kernel; \<open>mm\<close> is the memory the strings of its arguments are in.\<close>

definition print_message :: "mem \<Rightarrow> byte list \<Rightarrow> va_list \<Rightarrow> 'd \<times> machine \<Rightarrow> ('d \<times> machine) option" where
  "print_message mm format vl s = map_option (\<lambda>st. (fst s, (snd s)\<lparr>m_sys := st\<rparr>)) (sys_print mm format vl (m_sys (snd s)))"

definition PS2Keyboard_new :: "'d device \<Rightarrow> mem \<Rightarrow> 'd \<times> machine \<Rightarrow> (ps2kbd \<times> 'd \<times> machine) option" where
  "PS2Keyboard_new D mm s =
     Option.bind (sendKeyboardCommand D KEYBOARD_ENABLE_SCANNING s) (\<lambda>s.
       map_option (\<lambda>s. (\<lparr>ps2_mode = STATE_NORMAL, ledState = 0, ps2_listener = False, ps2_commands = []\<rparr>, s))
         (print_message mm (bytes ''PS/2 Keyboard found'' @ [10]) [] s))"

text \<open>
  The block that looks for a keyboard.  Where the answer of the device at the first port is not the
  expected one, a \<open>break\<close> leaves the block; otherwise it goes on with \<open>k\<close>.
\<close>

definition expect_answer :: "'d device \<Rightarrow> byte \<Rightarrow> ('d \<times> machine \<Rightarrow> ('d \<times> machine) option) \<Rightarrow> 'd \<times> machine \<Rightarrow> ('d \<times> machine) option" where
  "expect_answer D b k s = Option.bind (readDataPort D s) (\<lambda>(c, s). if c \<noteq> b then Some s else k s)"

definition device_command :: "'d device \<Rightarrow> byte \<Rightarrow> ('d \<times> machine \<Rightarrow> ('d \<times> machine) option) \<Rightarrow> 'd \<times> machine \<Rightarrow> ('d \<times> machine) option" where
  "device_command D command k s = Option.bind (send_data D command s) (expect_answer D DEVICE_ACK k)"

definition install_keyboard :: "'d device \<Rightarrow> mem \<Rightarrow> 'd \<times> machine \<Rightarrow> ('d \<times> machine) option" where
  "install_keyboard D mm s =
     map_option (\<lambda>(keyboard, d, m). (d, isrInstallHandler 33 PS2_irqHandler (m\<lparr>m_ps2 := Some (keyboard\<lparr>ps2_listener := True\<rparr>)\<rparr>)))
       (PS2Keyboard_new D mm s)"

definition identify_device :: "'d device \<Rightarrow> mem \<Rightarrow> 'd \<times> machine \<Rightarrow> ('d \<times> machine) option" where
  "identify_device D mm s =
     Option.bind (readDataPort D s) (\<lambda>(id, s).
       if id = 0xAB then
         let (id, s) = in_port D PS2_DATA_PORT s in
         if id = 0x41 \<or> id = 0xC1 \<or> id = 0x83 then install_keyboard D mm s else Some s
       else Some s)"

definition detect_device :: "'d device \<Rightarrow> mem \<Rightarrow> 'd \<times> machine \<Rightarrow> ('d \<times> machine) option" where
  "detect_device D mm =
     device_command D DEVICE_CMD_RESET (expect_answer D DEVICE_RESET_OK
       (device_command D DEVICE_CMD_DISABLE_SCANNING (device_command D DEVICE_CMD_IDENTIFY (identify_device D mm))))"

text \<open>The tests of the two ports.\<close>

definition dual_channel :: "'d device \<Rightarrow> byte \<Rightarrow> 'd \<times> machine \<Rightarrow> (bool \<times> 'd \<times> machine) option" where
  "dual_channel D config s =
     (if config AND PS2_CONFIG_SECOND_CLOCK \<noteq> 0 then
        Option.bind (sendPS2Command D COMMAND_ENABLE_PORT2 s) (\<lambda>s.
          map_option (\<lambda>(b, s). (b AND PS2_CONFIG_SECOND_CLOCK \<noteq> 0, s)) (sendPS2CommandWithResponse D COMMAND_READ_CONFIG s))
      else Some (False, s))"

definition test_port :: "'d device \<Rightarrow> byte \<Rightarrow> 'd \<times> machine \<Rightarrow> (bool \<times> 'd \<times> machine) option" where
  "test_port D command s = map_option (\<lambda>(t, s). (t = 0, s)) (sendPS2CommandWithResponse D command s)"

definition test_ports :: "'d device \<Rightarrow> byte \<Rightarrow> 'd \<times> machine \<Rightarrow> (bool \<times> bool \<times> 'd \<times> machine) option" where
  "test_ports D config s =
     Option.bind (dual_channel D config s) (\<lambda>(dualChannel, s).
     Option.bind (test_port D COMMAND_TEST_PORT1 s) (\<lambda>(port1Exists, s).
     map_option (Pair port1Exists) (if dualChannel then test_port D COMMAND_TEST_PORT2 s else Some (False, s))))"

text \<open>The ports that exist get their interrupt, then they are switched on.\<close>

definition enable_ports :: "'d device \<Rightarrow> bool \<Rightarrow> bool \<Rightarrow> 'd \<times> machine \<Rightarrow> ('d \<times> machine) option" where
  "enable_ports D port1Exists port2Exists s =
     Option.bind (sendPS2CommandWithResponse D COMMAND_READ_CONFIG s) (\<lambda>(config, s).
       let config = (if port1Exists then config OR PS2_CONFIG_FIRST_INTERRUPT else config);
           config = (if port2Exists then config OR PS2_CONFIG_SECOND_INTERRUPT else config) in
       Option.bind (sendPS2Command_data D COMMAND_WRITE_CONFIG config s) (\<lambda>s.
       Option.bind (if port1Exists then sendPS2Command D COMMAND_ENABLE_PORT1 s else Some s) (\<lambda>s.
         if port2Exists then sendPS2Command D COMMAND_ENABLE_PORT2 s else Some s)))"

text \<open>The first half of \<open>PS2::initialize\<close>, up to the self test; its result is the configuration and the answer to the test.\<close>

definition reset_controller :: "'d device \<Rightarrow> 'd \<times> machine \<Rightarrow> (byte \<times> byte \<times> 'd \<times> machine) option" where
  "reset_controller D s =
     Option.bind (sendPS2Command D COMMAND_DISABLE_PORT1 s) (\<lambda>s.
     Option.bind (sendPS2Command D COMMAND_DISABLE_PORT2 s) (\<lambda>s.
     Option.bind (flush_output D s) (\<lambda>s.
     Option.bind (sendPS2CommandWithResponse D COMMAND_READ_CONFIG s) (\<lambda>(config, s).
       let config = (config AND NOT PS2_CONFIG_FIRST_INTERRUPT) AND NOT PS2_CONFIG_SECOND_INTERRUPT in
       Option.bind (sendPS2Command_data D COMMAND_WRITE_CONFIG config s) (\<lambda>s.
         map_option (Pair config) (sendPS2CommandWithResponse D COMMAND_SELF_TEST s))))))"

definition PS2_initialize :: "'d device \<Rightarrow> mem \<Rightarrow> 'd \<times> machine \<Rightarrow> ('d \<times> machine) option" where
  "PS2_initialize D mm s =
     Option.bind (reset_controller D s) (\<lambda>(config, test, s).
       if test \<noteq> 0x55 then print_message mm (bytes ''PS/2 self test failed (response = 0x%x)'' @ [10]) [ucast test] s
       else
         Option.bind (test_ports D config s) (\<lambda>(port1Exists, port2Exists, s).
         Option.bind (if \<not> port1Exists \<and> \<not> port2Exists then print_message mm (bytes ''No usable PS/2 port found'' @ [10]) [] s else Some s) (\<lambda>s.
         Option.bind (enable_ports D port1Exists port2Exists s) (\<lambda>s.
           if port1Exists then detect_device D mm s else Some s))))"

section \<open>What the driver writes\<close>

definition log_writes :: "(u32 \<times> byte) list \<Rightarrow> machine \<Rightarrow> machine" where
  "log_writes ws m = m\<lparr>m_ports := m_ports m @ ws\<rparr>"

lemma log_writes_simps [simp]:
  "log_writes vs (log_writes ws m) = log_writes (ws @ vs) m" "log_writes [] m = m" "m_ports (log_writes ws m) = m_ports m @ ws"
  "outportb p b m = log_writes [(p, b)] m" "m_ps2 (log_writes ws m) = m_ps2 m" "isrRoutines (log_writes ws m) = isrRoutines m"
  "snd (out_port D p b s) = log_writes [(p, b)] (snd s)"
  by (simp_all add: log_writes_def outportb_def out_port_def)

lemma in_port_machine: "in_port D p s = (b, s') \<Longrightarrow> snd s' = snd s"
  by (auto simp: in_port_def split: prod.splits)

lemma snd_in_port [simp]: "snd (snd (in_port D p s)) = snd s"
  by (simp add: in_port_def split: prod.splits)

lemma wait_input_machine:
  assumes "wait_input D s = Some s'"
  shows "snd s' = snd s"
proof (rule wait_input.raw_induct [OF _ assms, where P = "\<lambda>_ s s'. snd s' = snd s"])
  fix f D and s s' :: "'a \<times> machine"
  assume IH: "\<And>D s s'. f D s = Some s' \<Longrightarrow> snd s' = snd s"
    and run: "(let (b, s) = in_port D PS2_STATUS_PORT s in if b AND REG_STATUS_INPUT \<noteq> 0 then f D s else Some s) = Some s'"
  obtain b t where t: "in_port D PS2_STATUS_PORT s = (b, t)" by (metis surj_pair)
  from run IH [of D "t" s'] in_port_machine [OF t] show "snd s' = snd s" by (auto simp: t split: if_splits)
qed

lemma wait_output_machine:
  assumes "wait_output D s = Some s'"
  shows "snd s' = snd s"
proof (rule wait_output.raw_induct [OF _ assms, where P = "\<lambda>_ s s'. snd s' = snd s"])
  fix f D and s s' :: "'a \<times> machine"
  assume IH: "\<And>D s s'. f D s = Some s' \<Longrightarrow> snd s' = snd s"
    and run: "(let (b, s) = in_port D PS2_STATUS_PORT s in if b AND REG_STATUS_OUTPUT = 0 then f D s else Some s) = Some s'"
  obtain b t where t: "in_port D PS2_STATUS_PORT s = (b, t)" by (metis surj_pair)
  from run IH [of D "t" s'] in_port_machine [OF t] show "snd s' = snd s" by (auto simp: t split: if_splits)
qed

lemma flush_output_machine:
  assumes "flush_output D s = Some s'"
  shows "snd s' = snd s"
proof (rule flush_output.raw_induct [OF _ assms, where P = "\<lambda>_ s s'. snd s' = snd s"])
  fix f D and s s' :: "'a \<times> machine"
  assume IH: "\<And>D s s'. f D s = Some s' \<Longrightarrow> snd s' = snd s"
    and run: "(let (b, s) = in_port D PS2_STATUS_PORT s in if b AND REG_STATUS_OUTPUT \<noteq> 0 then f D (snd (in_port D PS2_DATA_PORT s)) else Some s) = Some s'"
  obtain b t where t: "in_port D PS2_STATUS_PORT s = (b, t)" by (metis surj_pair)
  from run IH [of D "(snd (in_port D PS2_DATA_PORT t))" s'] in_port_machine [OF t] show "snd s' = snd s" by (auto simp: t split: if_splits)
qed

named_theorems ps2_machine \<open>what the steps of the driver do to the machine\<close>

lemma port_steps [ps2_machine]:
  "sendPS2Command D c s = Some s' \<Longrightarrow> snd s' = log_writes [(0x64, c)] (snd s)"
  "send_data D c s = Some s' \<Longrightarrow> snd s' = log_writes [(0x60, c)] (snd s)"
  "readDataPort D s = Some (b, s') \<Longrightarrow> snd s' = snd s"
  "flush_output D s = Some s' \<Longrightarrow> snd s' = snd s"
  by (auto simp: sendPS2Command_def send_data_def readDataPort_def PS2_COMMAND_PORT_def PS2_DATA_PORT_def
      dest!: wait_input_machine wait_output_machine flush_output_machine in_port_machine)

lemma command_steps [ps2_machine]:
  "sendPS2Command_data D c x s = Some s' \<Longrightarrow> snd s' = log_writes [(0x64, c), (0x60, x)] (snd s)"
  "sendPS2CommandWithResponse D c s = Some (b, s') \<Longrightarrow> snd s' = log_writes [(0x64, c)] (snd s)"
  "sendKeyboardCommand D c s = Some s' \<Longrightarrow> snd s' = log_writes [(0x60, c)] (snd s)"
  by (auto simp: sendPS2Command_data_def sendPS2CommandWithResponse_def sendKeyboardCommand_def bind_eq_Some_conv
      dest!: port_steps)

lemma print_message_machine [ps2_machine]: "print_message mm format vl s = Some s' \<Longrightarrow> \<exists>st. snd s' = (snd s)\<lparr>m_sys := st\<rparr>"
  by (auto simp: print_message_def)

lemma print_message_keeps:
  assumes "print_message mm format vl s = Some s'"
  shows "m_ports (snd s') = m_ports (snd s)" "m_ps2 (snd s') = m_ps2 (snd s)" "isrRoutines (snd s') = isrRoutines (snd s)"
  using print_message_machine [OF assms] by auto

lemma reset_controller_machine:
  assumes "reset_controller D s = Some (config, test, s')"
  shows "config AND 3 = 0" and "snd s' = log_writes [(0x64, COMMAND_DISABLE_PORT1), (0x64, COMMAND_DISABLE_PORT2),
    (0x64, COMMAND_READ_CONFIG), (0x64, COMMAND_WRITE_CONFIG), (0x60, config), (0x64, COMMAND_SELF_TEST)] (snd s)"
proof -
  have "(c AND NOT 1) AND NOT 2 AND (3 :: byte) = 0" for c by (rule bit_word_eqI) (auto simp: bit_simps)
  then show "config AND 3 = 0"
    using assms by (auto simp: reset_controller_def bind_eq_Some_conv Let_def PS2_CONFIG_FIRST_INTERRUPT_def PS2_CONFIG_SECOND_INTERRUPT_def and.assoc)
  show "snd s' = log_writes [(0x64, COMMAND_DISABLE_PORT1), (0x64, COMMAND_DISABLE_PORT2),
    (0x64, COMMAND_READ_CONFIG), (0x64, COMMAND_WRITE_CONFIG), (0x60, config), (0x64, COMMAND_SELF_TEST)] (snd s)"
    using assms by (auto simp: reset_controller_def bind_eq_Some_conv Let_def dest!: ps2_machine)
qed

text \<open>Steps that do not change the configuration, and the installation of the keyboard.\<close>

definition quietly :: "machine \<Rightarrow> machine \<Rightarrow> bool" where
  "quietly m m' \<longleftrightarrow> (\<exists>ws. (0x64, COMMAND_WRITE_CONFIG) \<notin> set ws \<and> m' = log_writes ws m)"

definition installs :: "machine \<Rightarrow> machine \<Rightarrow> bool" where
  "installs m m' \<longleftrightarrow> (\<exists>m1 st k. quietly m m1 \<and> ps2_listener k \<and>
     m' = m1\<lparr>m_sys := st, m_ps2 := Some k, isrRoutines := (isrRoutines m)(33 := Some PS2_irqHandler)\<rparr>)"

lemma quietly_log [simp]: "(0x64, COMMAND_WRITE_CONFIG) \<notin> set ws \<Longrightarrow> quietly m (log_writes ws m)" "quietly m m"
  by (auto simp: quietly_def intro: exI [of _ "[]"])

lemma quietly_trans:
  assumes "quietly a b" "quietly b c"
  shows "quietly a c"
proof -
  from assms obtain ws vs where "(0x64, COMMAND_WRITE_CONFIG) \<notin> set (ws @ vs)" "c = log_writes (ws @ vs) a" by (auto simp: quietly_def)
  then show ?thesis unfolding quietly_def by blast
qed

lemma quietly_isr: "quietly a b \<Longrightarrow> isrRoutines b = isrRoutines a"
  by (auto simp: quietly_def)

lemma installs_quietly: "quietly a b \<Longrightarrow> installs b c \<Longrightarrow> installs a c"
  unfolding installs_def using quietly_trans [of a b] quietly_isr [of a b] by (elim exE conjE) auto

lemma test_port_machine:
  assumes "test_port D c s = Some (p, s')" "c \<noteq> COMMAND_WRITE_CONFIG"
  shows "quietly (snd s) (snd s')"
proof -
  from assms(1) obtain b where "sendPS2CommandWithResponse D c s = Some (b, s')" by (auto simp: test_port_def)
  from command_steps(2) [OF this] assms(2) show ?thesis by simp
qed

lemma dual_channel_machine:
  assumes "dual_channel D config s = Some (p, s')"
  shows "quietly (snd s) (snd s')"
proof (cases "config AND PS2_CONFIG_SECOND_CLOCK = 0")
  case False
  with assms obtain b s1 where "sendPS2Command D COMMAND_ENABLE_PORT2 s = Some s1" "sendPS2CommandWithResponse D COMMAND_READ_CONFIG s1 = Some (b, s')"
    by (auto simp: dual_channel_def bind_eq_Some_conv)
  from command_steps(2) [OF this(2)] port_steps(1) [OF this(1)] show ?thesis
    by (simp add: COMMAND_WRITE_CONFIG_def COMMAND_ENABLE_PORT2_def COMMAND_READ_CONFIG_def)
qed (use assms in \<open>simp add: dual_channel_def\<close>)

lemma test_ports_machine:
  assumes "test_ports D config s = Some (p1, p2, s')"
  shows "quietly (snd s) (snd s')"
proof -
  from assms obtain dual s1 s2 where s1: "dual_channel D config s = Some (dual, s1)" "test_port D COMMAND_TEST_PORT1 s1 = Some (p1, s2)"
    "(if dual then test_port D COMMAND_TEST_PORT2 s2 else Some (False, s2)) = Some (p2, s')"
    by (auto simp: test_ports_def bind_eq_Some_conv)
  have "quietly (snd s2) (snd s')" using s1(3) test_port_machine [of D COMMAND_TEST_PORT2 s2 p2 s']
    by (auto simp: COMMAND_TEST_PORT2_def COMMAND_WRITE_CONFIG_def split: if_splits)
  moreover have "quietly (snd s1) (snd s2)" using test_port_machine [OF s1(2)] by (simp add: COMMAND_TEST_PORT1_def COMMAND_WRITE_CONFIG_def)
  ultimately show ?thesis using dual_channel_machine [OF s1(1)] quietly_trans by blast
qed

lemma enable_ports_machine:
  assumes "enable_ports D p1 p2 s = Some s'"
  shows "\<exists>config. (p1 \<longrightarrow> config AND PS2_CONFIG_FIRST_INTERRUPT \<noteq> 0) \<and> snd s' = log_writes ([(0x64, COMMAND_READ_CONFIG),
    (0x64, COMMAND_WRITE_CONFIG), (0x60, config)] @ (if p1 then [(0x64, COMMAND_ENABLE_PORT1)] else []) @
    (if p2 then [(0x64, COMMAND_ENABLE_PORT2)] else [])) (snd s)"
proof -
  from assms obtain c s1 s2 s3 where s1: "sendPS2CommandWithResponse D COMMAND_READ_CONFIG s = Some (c, s1)"
    and s2: "sendPS2Command_data D COMMAND_WRITE_CONFIG (if p2 then (if p1 then c OR PS2_CONFIG_FIRST_INTERRUPT else c) OR PS2_CONFIG_SECOND_INTERRUPT else if p1 then c OR PS2_CONFIG_FIRST_INTERRUPT else c) s1 = Some s2"
    and s3: "(if p1 then sendPS2Command D COMMAND_ENABLE_PORT1 s2 else Some s2) = Some s3"
      "(if p2 then sendPS2Command D COMMAND_ENABLE_PORT2 s3 else Some s3) = Some s'"
    by (auto simp: enable_ports_def bind_eq_Some_conv Let_def)
  have "snd s3 = log_writes (if p1 then [(0x64, COMMAND_ENABLE_PORT1)] else []) (snd s2)"
    "snd s' = log_writes (if p2 then [(0x64, COMMAND_ENABLE_PORT2)] else []) (snd s3)"
    using s3 by (auto split: if_splits dest!: port_steps(1))
  then have "snd s' = log_writes ([(0x64, COMMAND_READ_CONFIG),
      (0x64, COMMAND_WRITE_CONFIG), (0x60, if p2 then (if p1 then c OR PS2_CONFIG_FIRST_INTERRUPT else c) OR PS2_CONFIG_SECOND_INTERRUPT else if p1 then c OR PS2_CONFIG_FIRST_INTERRUPT else c)] @
      (if p1 then [(0x64, COMMAND_ENABLE_PORT1)] else []) @ (if p2 then [(0x64, COMMAND_ENABLE_PORT2)] else [])) (snd s)"
    using command_steps(1) [OF s2] command_steps(2) [OF s1] by simp
  moreover have "p1 \<longrightarrow> (if p2 then (if p1 then c OR PS2_CONFIG_FIRST_INTERRUPT else c) OR PS2_CONFIG_SECOND_INTERRUPT else if p1 then c OR PS2_CONFIG_FIRST_INTERRUPT else c) AND PS2_CONFIG_FIRST_INTERRUPT \<noteq> 0"
    by (simp add: PS2_CONFIG_FIRST_INTERRUPT_def PS2_CONFIG_SECOND_INTERRUPT_def and_one_eq mod2_eq_if even_or_iff)
  ultimately show ?thesis by blast
qed

lemma install_keyboard_machine:
  assumes "install_keyboard D mm s = Some s'"
  shows "installs (snd s) (snd s')"
proof -
  let ?k = "\<lparr>ps2_mode = STATE_NORMAL, ledState = 0, ps2_listener = True, ps2_commands = []\<rparr>"
  from assms obtain s1 s2 where
    s1: "sendKeyboardCommand D KEYBOARD_ENABLE_SCANNING s = Some s1" "print_message mm (bytes ''PS/2 Keyboard found'' @ [10]) [] s1 = Some s2"
    and s': "snd s' = isrInstallHandler 33 PS2_irqHandler ((snd s2)\<lparr>m_ps2 := Some ?k\<rparr>)"
    by (fastforce simp: install_keyboard_def PS2Keyboard_new_def bind_eq_Some_conv simp del: bytes_simps)
  from print_message_machine [OF s1(2)] command_steps(3) [OF s1(1)] obtain st where
    "snd s2 = (log_writes [(0x60, KEYBOARD_ENABLE_SCANNING)] (snd s))\<lparr>m_sys := st\<rparr>" by auto
  with s' show ?thesis unfolding installs_def
    by (intro exI [of _ "log_writes [(0x60, KEYBOARD_ENABLE_SCANNING)] (snd s)"] exI [of _ st] exI [of _ ?k])
      (simp add: isrInstallHandler_def)
qed

definition found :: "machine \<Rightarrow> machine \<Rightarrow> bool" where
  "found m m' \<longleftrightarrow> quietly m m' \<or> installs m m'"

lemma found_trans: "quietly a b \<Longrightarrow> found b c \<Longrightarrow> found a c"
  unfolding found_def using quietly_trans installs_quietly by blast

lemma expect_answer_found:
  assumes "expect_answer D b k s = Some t" "\<And>s. k s = Some t \<Longrightarrow> found (snd s) (snd t)"
  shows "found (snd s) (snd t)"
proof -
  from assms(1) obtain c s1 where s1: "readDataPort D s = Some (c, s1)" "(if c \<noteq> b then Some s1 else k s1) = Some t"
    by (auto simp: expect_answer_def bind_eq_Some_conv)
  have "snd s1 = snd s" using port_steps(3) [OF s1(1)] .
  with s1(2) assms(2) [of s1] show ?thesis by (auto simp: found_def split: if_splits)
qed

lemma device_command_found:
  assumes "device_command D c k s = Some t" "\<And>s. k s = Some t \<Longrightarrow> found (snd s) (snd t)"
  shows "found (snd s) (snd t)"
proof -
  from assms(1) obtain s1 where s1: "send_data D c s = Some s1" "expect_answer D DEVICE_ACK k s1 = Some t"
    by (auto simp: device_command_def bind_eq_Some_conv)
  have "quietly (snd s) (snd s1)" using port_steps(2) [OF s1(1)] by simp
  moreover have "found (snd s1) (snd t)" using s1(2) assms(2) by (rule expect_answer_found)
  ultimately show ?thesis by (rule found_trans)
qed

lemma identify_device_found:
  assumes "identify_device D mm s = Some t"
  shows "found (snd s) (snd t)"
proof -
  from assms obtain c s1 where s1: "readDataPort D s = Some (c, s1)" "t = s1 \<or> t = snd (in_port D PS2_DATA_PORT s1) \<or>
      install_keyboard D mm (snd (in_port D PS2_DATA_PORT s1)) = Some t"
    by (auto simp: identify_device_def bind_eq_Some_conv case_prod_unfold Let_def split: if_splits)
  have "snd s1 = snd s" using port_steps(3) [OF s1(1)] .
  with s1(2) install_keyboard_machine [of D mm "snd (in_port D PS2_DATA_PORT s1)" t] show ?thesis by (auto simp: found_def)
qed

lemma detect_device_found: "detect_device D mm s = Some t \<Longrightarrow> found (snd s) (snd t)"
  unfolding detect_device_def
  by (elim device_command_found expect_answer_found identify_device_found)

lemma found_ports:
  assumes "found m m'"
  shows "\<exists>us. (0x64, COMMAND_WRITE_CONFIG) \<notin> set us \<and> m_ports m' = m_ports m @ us \<and>
    (m_ps2 m' = m_ps2 m \<and> isrRoutines m' = isrRoutines m \<or>
     (\<exists>k. m_ps2 m' = Some k \<and> ps2_listener k \<and> isrRoutines m' = (isrRoutines m)(33 := Some PS2_irqHandler)))"
  using assms unfolding found_def installs_def quietly_def by auto

text \<open>The second half of the initialisation.\<close>

lemma after_self_test:
  assumes "(if test \<noteq> 0x55 then print_message mm (bytes ''PS/2 self test failed (response = 0x%x)'' @ [10]) [ucast test] s
       else Option.bind (test_ports D config s) (\<lambda>(port1Exists, port2Exists, s).
         Option.bind (if \<not> port1Exists \<and> \<not> port2Exists then print_message mm (bytes ''No usable PS/2 port found'' @ [10]) [] s else Some s) (\<lambda>s.
         Option.bind (enable_ports D port1Exists port2Exists s) (\<lambda>s. if port1Exists then detect_device D mm s else Some s)))) = Some (d', m')"
  shows "\<exists>ws. m_ports m' = m_ports (snd s) @ ws \<and> (m_ps2 m' = m_ps2 (snd s) \<and> isrRoutines m' = isrRoutines (snd s) \<or>
     (\<exists>k vs config us. m_ps2 m' = Some k \<and> ps2_listener k \<and> isrRoutines m' = (isrRoutines (snd s))(33 := Some PS2_irqHandler) \<and>
        ws = vs @ [(0x64, COMMAND_WRITE_CONFIG), (0x60, config)] @ us \<and> config AND PS2_CONFIG_FIRST_INTERRUPT \<noteq> 0 \<and>
        (0x64, COMMAND_WRITE_CONFIG) \<notin> set us))"
proof (cases "test = 0x55")
  case False
  with assms have "print_message mm (bytes ''PS/2 self test failed (response = 0x%x)'' @ [10]) [ucast test] s = Some (d', m')" by simp
  from print_message_keeps [OF this] show ?thesis by simp
next
  case True
  with assms obtain p1 p2 s1 s2 s3 where s1: "test_ports D config s = Some (p1, p2, s1)"
    and s2: "(if \<not> p1 \<and> \<not> p2 then print_message mm (bytes ''No usable PS/2 port found'' @ [10]) [] s1 else Some s1) = Some s2"
    and s3: "enable_ports D p1 p2 s2 = Some s3" "(if p1 then detect_device D mm s3 else Some s3) = Some (d', m')"
    by (auto simp: bind_eq_Some_conv simp del: bytes_simps)
  from test_ports_machine [OF s1] obtain ws1 where w1: "snd s1 = log_writes ws1 (snd s)" by (auto simp: quietly_def)
  have w2: "m_ports (snd s2) = m_ports (snd s1)" "m_ps2 (snd s2) = m_ps2 (snd s1)" "isrRoutines (snd s2) = isrRoutines (snd s1)"
    using s2 by (auto split: if_splits simp del: bytes_simps dest: print_message_keeps)
  from enable_ports_machine [OF s3(1)] obtain c where c: "p1 \<longrightarrow> c AND PS2_CONFIG_FIRST_INTERRUPT \<noteq> 0"
    and w3: "snd s3 = log_writes ([(0x64, COMMAND_READ_CONFIG), (0x64, COMMAND_WRITE_CONFIG), (0x60, c)] @
      (if p1 then [(0x64, COMMAND_ENABLE_PORT1)] else []) @ (if p2 then [(0x64, COMMAND_ENABLE_PORT2)] else [])) (snd s2)" by blast
  show ?thesis
  proof (cases p1)
    case False
    then show ?thesis using s3(2) w1 w2 w3 by auto
  next
    case True
    with s3(2) have "found (snd s3) m'" using detect_device_found [of D mm s3 "(d', m')"] by simp
    from found_ports [OF this] obtain us where us: "(0x64, COMMAND_WRITE_CONFIG) \<notin> set us" "m_ports m' = m_ports (snd s3) @ us"
      "m_ps2 m' = m_ps2 (snd s3) \<and> isrRoutines m' = isrRoutines (snd s3) \<or>
       (\<exists>k. m_ps2 m' = Some k \<and> ps2_listener k \<and> isrRoutines m' = (isrRoutines (snd s3))(33 := Some PS2_irqHandler))" by blast
    let ?us = "[(0x64, COMMAND_ENABLE_PORT1)] @ (if p2 then [(0x64, COMMAND_ENABLE_PORT2)] else []) @ us"
    have "m_ports m' = m_ports (snd s) @ (ws1 @ [(0x64, COMMAND_READ_CONFIG)]) @ [(0x64, COMMAND_WRITE_CONFIG), (0x60, c)] @ ?us"
      using us(2) w1 w2 w3 True by simp
    moreover have "(0x64, COMMAND_WRITE_CONFIG) \<notin> set ?us"
      using us(1) by (simp add: COMMAND_WRITE_CONFIG_def COMMAND_ENABLE_PORT1_def COMMAND_ENABLE_PORT2_def)
    moreover have "m_ps2 m' = m_ps2 (snd s) \<and> isrRoutines m' = isrRoutines (snd s) \<or>
       (\<exists>k. m_ps2 m' = Some k \<and> ps2_listener k \<and> isrRoutines m' = (isrRoutines (snd s))(33 := Some PS2_irqHandler))"
      using us(3) w1 w2 w3 by simp
    ultimately show ?thesis using c True by blast
  qed
qed


text \<open>A controller with a keyboard at its first port: its configuration, whether a write of the configuration is
  under way, and the bytes the driver has not read.\<close>

type_synonym i8042 = "byte \<times> bool \<times> byte list"

definition i8042_in :: "u32 \<Rightarrow> i8042 \<Rightarrow> byte \<times> i8042" where
  "i8042_in p d =
     (case d of (config, pending, queue) \<Rightarrow>
        if p = 0x64 then (if queue = [] then 0 else 1, d)
        else (case queue of [] \<Rightarrow> (0, d) | b # bs \<Rightarrow> (b, config, pending, bs)))"

definition i8042_out :: "u32 \<Rightarrow> byte \<Rightarrow> i8042 \<Rightarrow> i8042" where
  "i8042_out p b d =
     (case d of (config, pending, queue) \<Rightarrow>
        if p = 0x64 then
          (config, b = 0x60, queue @ (if b = 0x20 then [config] else if b = 0xAA then [0x55] else if b = 0xA9 \<or> b = 0xAB then [0] else []))
        else if pending then (b, False, queue)
        else (config, False, queue @ (if b = 0xFF then [0xFA, 0xAA] else if b = 0xF2 then [0xFA, 0xAB, 0x83] else [0xFA])))"

definition i8042_device :: "i8042 device" where "i8042_device = \<lparr>dev_in = i8042_in, dev_out = i8042_out\<rparr>"

lemma i8042_keyboard_found:
  "(case PS2_initialize i8042_device (\<lambda>_. 0) ((0x61, False, [7]), demo_machine) of None \<Rightarrow> False
    | Some (d, m) \<Rightarrow> (case m_ps2 m of None \<Rightarrow> False | Some k \<Rightarrow> ps2_listener k))"
  by code_simp


end
