(* ===== verification/Libc_Unistd.thy ===== *)
theory Libc_Unistd
  imports Kernel_Syscall
begin

text \<open>
  User programs and the functions of the C library that pass their arguments to system calls:
  \<open>libc/src/unistd\<close>, \<open>fcntl\<close> and \<open>sys\<close> over \<open>arch/i686/syscall.s\<close>.  A program is a function on its state,
  which is that of the system with the program's own \<open>errno\<close>.  It is done, waits inside a system call, has
  left for good, or crashes: the call made the kernel access memory outside of its objects, or the
  program itself did.
\<close>

section \<open>Definitions\<close>

record user =
  usys :: sys
  uerrno :: int

datatype ('a, 'u) uret = Done 'a 'u | Waits 'u | Gone 'u | Crash

type_synonym ('a, 'x) cmd = "'x user_scheme \<Rightarrow> ('a, 'x user_scheme) uret"

definition ureturn :: "'a \<Rightarrow> ('a, 'x) cmd" where
  "ureturn x u = Done x u"

definition ubind :: "('a, 'x) cmd \<Rightarrow> ('a \<Rightarrow> ('b, 'x) cmd) \<Rightarrow> ('b, 'x) cmd" where
  "ubind m k u = (case m u of Done x u \<Rightarrow> k x u | Waits u \<Rightarrow> Waits u | Gone u \<Rightarrow> Gone u | Crash \<Rightarrow> Crash)"

definition set_errno :: "int \<Rightarrow> (unit, 'x) cmd" where
  "set_errno e u = Done () (u\<lparr>uerrno := e\<rparr>)"

text \<open>The kernel's \<open>errno\<close> is cleared before a call; if the call sets it, the program's gets that value.\<close>

definition do_syscall :: "(sys \<Rightarrow> 'a sysret) \<Rightarrow> ('a, 'x) cmd" where
  "do_syscall call u =
     (case call (sys_fail 0 (usys u)) of
        Returns x st \<Rightarrow>
          (let ecx = verrno (sys_vfs st) in
           Done x (if ecx \<noteq> 0 then u\<lparr>usys := st, uerrno := ecx\<rparr> else u\<lparr>usys := st\<rparr>))
      | Blocks _ st \<Rightarrow> Waits (u\<lparr>usys := st\<rparr>)
      | Leaves st \<Rightarrow> Gone (u\<lparr>usys := st\<rparr>)
      | Faults \<Rightarrow> Crash)"

definition unistd_read :: "int \<Rightarrow> u32 \<Rightarrow> (int \<times> byte list, 'x) cmd" where
  "unistd_read fd n = do_syscall (Syscall_read fd n)"

definition unistd_write :: "allocator \<Rightarrow> int \<Rightarrow> byte list \<Rightarrow> (int, 'x) cmd" where
  "unistd_write E fd bs = do_syscall (Syscall_write E fd bs)"

definition unistd_close :: "int \<Rightarrow> (int, 'x) cmd" where
  "unistd_close fd = do_syscall (Syscall_close fd)"

definition unistd_exit :: "int \<Rightarrow> (unit, 'x) cmd" where
  "unistd_exit n = do_syscall (Syscall_exit n)"

definition fchdirat :: "allocator \<Rightarrow> int \<Rightarrow> byte list \<Rightarrow> (int, 'x) cmd" where
  "fchdirat E fd path = do_syscall (Syscall_fchdirat E fd path)"

definition chdir :: "allocator \<Rightarrow> byte list \<Rightarrow> (int, 'x) cmd" where
  "chdir E path = fchdirat E AT_FDCWD path"

definition fstat :: "int \<Rightarrow> (int \<times> stat, 'x) cmd" where
  "fstat fd = do_syscall (Syscall_fstat fd)"

definition fstatat :: "allocator \<Rightarrow> int \<Rightarrow> byte list \<Rightarrow> (int \<times> stat option, 'x) cmd" where
  "fstatat E fd path = do_syscall (Syscall_fstatat E fd path)"

definition libc_stat :: "allocator \<Rightarrow> byte list \<Rightarrow> (int \<times> stat option, 'x) cmd" where
  "libc_stat E path = fstatat E AT_FDCWD path"

definition tcgetattr :: "int \<Rightarrow> (int \<times> termios option, 'x) cmd" where
  "tcgetattr fd = do_syscall (Syscall_tcgetattr fd)"

definition tcsetattr :: "int \<Rightarrow> int \<Rightarrow> termios \<Rightarrow> (int, 'x) cmd" where
  "tcsetattr fd flags t = do_syscall (Syscall_tcsetattr fd flags t)"

definition mmap :: "u32 \<Rightarrow> u32 \<Rightarrow> u32 \<Rightarrow> u32 \<Rightarrow> int \<Rightarrow> int \<Rightarrow> (u32, 'x) cmd" where
  "mmap a sz protection flags fd offset =
     do_syscall (Syscall_mmap \<lparr>rq_addr = a, rq_size = sz, rq_protection = protection, rq_flags = flags,
       rq_fd = fd, rq_offset = offset\<rparr>)"

definition munmap :: "u32 \<Rightarrow> u32 \<Rightarrow> (int, 'x) cmd" where
  "munmap a sz = do_syscall (Syscall_munmap a sz)"

definition waitpid :: "u32 \<Rightarrow> int \<Rightarrow> (int \<times> int option, 'x) cmd" where
  "waitpid pid flags = do_syscall (Syscall_waitpid pid flags)"

text \<open>The mode is the optional last argument, which the two functions look at under different conditions.\<close>

definition openat :: "allocator \<Rightarrow> int \<Rightarrow> byte list \<Rightarrow> u32 \<Rightarrow> u32 \<Rightarrow> (int, 'x) cmd" where
  "openat E fd path flags mode =
     do_syscall (Syscall_openat E fd path flags (if flags AND O_CREAT \<noteq> 0 then mode else 0))"

definition fcntl_open :: "allocator \<Rightarrow> byte list \<Rightarrow> u32 \<Rightarrow> u32 \<Rightarrow> (int, 'x) cmd" where
  "fcntl_open E path flags mode = openat E AT_FDCWD path flags (if flags = O_CREAT then mode else 0)"

definition R_OK :: u32 where "R_OK = 1"
definition W_OK :: u32 where "W_OK = 2"
definition X_OK :: u32 where "X_OK = 4"

definition S_IXOTH :: u32 where "S_IXOTH = 0x1"

text \<open>
  \<open>accessible\<close> is a \<open>bool\<close>: \<open>accessible &= x\<close> is a bitwise conjunction of its value 0 or 1 with the integer
  \<open>x\<close>, converted back to \<open>bool\<close>.
\<close>

definition and_bool :: "bool \<Rightarrow> u32 \<Rightarrow> bool" where
  "and_bool accessible x \<longleftrightarrow> (if accessible then 1 else 0) AND x \<noteq> 0"

definition access_modes :: "u32 \<Rightarrow> u32 \<Rightarrow> bool" where
  "access_modes mode m =
     (let accessible = True;
          accessible = (if mode AND R_OK \<noteq> 0 then and_bool accessible (m AND (0x100 OR 0x20 OR 0x4)) else accessible);
          accessible = (if mode AND W_OK \<noteq> 0 then and_bool accessible (m AND (0x80 OR 0x10 OR 0x2)) else accessible);
          accessible = (if mode AND X_OK \<noteq> 0 then and_bool accessible (m AND (0x40 OR 0x8 OR 0x1)) else accessible)
      in accessible)"

definition access :: "allocator \<Rightarrow> byte list \<Rightarrow> u32 \<Rightarrow> (int, 'x) cmd" where
  "access E path mode =
     ubind (libc_stat E path) (\<lambda>(r, st).
       case st of
         Some st \<Rightarrow> if r < 0 then ureturn (- 1) else ureturn (if access_modes mode (st_mode st) then 0 else - 1)
       | None \<Rightarrow> ureturn (- 1))"

section \<open>Composition\<close>

lemma ureturn_bind [simp]: "ubind (ureturn x) k = k x"
  by (simp add: ubind_def ureturn_def fun_eq_iff)

lemma bind_ureturn [simp]: "ubind m ureturn = m"
  by (auto simp: ubind_def ureturn_def fun_eq_iff split: uret.split)

lemma ubind_assoc [simp]: "ubind (ubind m k) h = ubind m (\<lambda>x. ubind (k x) h)"
  by (auto simp: ubind_def fun_eq_iff split: uret.split)

lemma ubind_Done: "m u = Done x u' \<Longrightarrow> ubind m k u = k x u'"
  by (simp add: ubind_def)

lemma do_syscall_Returns:
  "call (sys_fail 0 (usys u)) = Returns x st \<Longrightarrow> verrno (sys_vfs st) = 0 \<Longrightarrow> do_syscall call u = Done x (u\<lparr>usys := st\<rparr>)"
  by (simp add: do_syscall_def)

section \<open>Permissions\<close>

lemma and_bool_bit: "and_bool b x \<longleftrightarrow> b \<and> odd x"
  by (simp add: and_bool_def one_and_eq odd_iff_mod_2_eq_one)

lemma access_modes_iff: "access_modes mode m \<longleftrightarrow> mode AND R_OK = 0 \<and> mode AND W_OK = 0 \<and> (mode AND X_OK = 0 \<or> odd m)"
  by (simp add: access_modes_def Let_def and_bool_bit even_and_iff)

lemma usys_fail [simp]:
  "getRootFd fd path (sys_fail e st) = getRootFd fd path st" "sys_vfs (sys_fail e st) = fail e (sys_vfs st)"
  "procs (sys_fail e st) = procs st" "current (sys_fail e st) = current st" "cur_proc (sys_fail e st) = cur_proc st"
  "descr fd (sys_fail e st) = descr fd st" "fd_entry fd (sys_fail e st) = fd_entry fd st"
  by (simp_all add: getRootFd_def sys_fail_def cur_proc_def descr_def fd_entry_def)

lemma verrno_fail [simp]: "verrno (fail e v) = e" "fail e (fail e' v) = fail e v"
  by (simp_all add: fail_def)

lemma resolvePath_fail:
  assumes "vfs_ok v" "r < vn_fresh v" "fst (resolvePath E r path v) = Some c"
  shows "resolvePath E r path (fail e v) = (Some c, fail e v)"
proof -
  have "vfs_le v (fail e v)" by (simp add: vfs_le_def)
  with assms show ?thesis using resolvePath_some(3) [OF assms(1, 2)] by (metis prod.collapse)
qed

text \<open>
  C40: what \<open>access\<close> tests.  For a path that exists, the answer to \<open>R_OK\<close> and to \<open>W_OK\<close> is always no,
  whatever the permissions of the file, and the answer to \<open>X_OK\<close> is yes exactly when others may
  execute it.
\<close>

theorem access_permissions:
  assumes ok: "sys_ok tty (usys u)" and f: "getRootFd AT_FDCWD path (usys u) = Some f"
    and r: "fst (resolvePath E (fd_vnode f) path (sys_vfs (usys u))) = Some r"
  shows "\<exists>u'. access E path mode u = Done (if mode AND R_OK = 0 \<and> mode AND W_OK = 0 \<and>
     (mode AND X_OK = 0 \<or> vn_mode (vnodes (sys_vfs (usys u)) r) AND S_IXOTH \<noteq> 0) then 0 else - 1) u' \<and> uerrno u' = uerrno u"
proof -
  have "resolvePath E (fd_vnode f) path (fail 0 (sys_vfs (usys u))) = (Some r, fail 0 (sys_vfs (usys u)))"
    using resolvePath_fail [OF sys_okD(1) [OF ok] getRootFd_ok [OF ok f] r] .
  then show ?thesis
    using f by (simp add: access_def libc_stat_def fstatat_def Syscall_fstatat_def ubind_def do_syscall_def ureturn_def
        Vnode_stat_def access_modes_iff S_IXOTH_def and_one_eq odd_iff_mod_2_eq_one)
qed

theorem access_permissions_witness:
  "\<exists>u'. access demo_allocator (bytes ''/a'') R_OK \<lparr>usys = demo_sys, uerrno = 0\<rparr> = Done (- 1) u'"
proof -
  have "getRootFd AT_FDCWD (bytes ''/a'') (usys \<lparr>usys = demo_sys, uerrno = 0\<rparr>) = Some (FileDescription_new 0)"
    by (simp add: getRootFd_def demo_sys_simps demo_process_def)
  moreover have "fst (resolvePath demo_allocator 0 (bytes ''/a'') demo_vfs) = Some 2" by code_simp
  ultimately show ?thesis
    using access_permissions [of 2 "\<lparr>usys = demo_sys, uerrno = 0\<rparr>" "bytes ''/a''" "FileDescription_new 0" demo_allocator 2 R_OK]
    by (auto simp: demo_sys_ok demo_sys_simps FileDescription_new_def R_OK_def simp del: bytes_simps)
qed

end
