(* ===== verification/Libc_Stdio.thy ===== *)
theory Libc_Stdio
  imports Libc_Unistd
begin

text \<open>
  Streams: \<open>libc/src/stdio\<close> except the formatting engine itself, which is \<open>Libc_Printf\<close>.  A stream is a
  descriptor with two flags and no buffer: every byte is a system call of its own.  \<open>H n\<close> says whether the
  program's \<open>malloc\<close> gives a block of \<open>n\<close> bytes.
\<close>

section \<open>Definitions\<close>

definition EOF :: int where "EOF = - 1"
definition FILE_FLAG_EOF :: u32 where "FILE_FLAG_EOF = 1"
definition FILE_FLAG_ERROR :: u32 where "FILE_FLAG_ERROR = 2"
definition O_RDONLY :: u32 where "O_RDONLY = 2"
definition O_WRONLY :: u32 where "O_WRONLY = 4"
definition O_RDWR :: u32 where "O_RDWR = O_RDONLY OR O_WRONLY"
definition O_APPEND :: u32 where "O_APPEND = 8"

record FILE =
  file_fd :: int
  file_flags :: u32

text \<open>A program with its streams: a pointer to a stream is a number, the first three are static.\<close>

record prog = user +
  streams :: "nat \<rightharpoonup> FILE"
  stream_fresh :: nat

type_synonym ('a, 'x) pcmd = "'x prog_scheme \<Rightarrow> ('a, 'x prog_scheme) uret"

definition stdin :: nat where "stdin = 0"
definition stdout :: nat where "stdout = 1"
definition stderr :: nat where "stderr = 2"

definition static_streams :: "nat \<rightharpoonup> FILE" where
  "static_streams = [stdin \<mapsto> \<lparr>file_fd = 0, file_flags = 0\<rparr>, stdout \<mapsto> \<lparr>file_fd = 1, file_flags = 0\<rparr>,
     stderr \<mapsto> \<lparr>file_fd = 2, file_flags = 0\<rparr>]"

text \<open>The object a pointer refers to; a pointer to no object is a crash.\<close>

definition with_stream :: "nat \<Rightarrow> (FILE \<Rightarrow> ('a, 'x) pcmd) \<Rightarrow> ('a, 'x) pcmd" where
  "with_stream h k u = (case streams u h of Some f \<Rightarrow> k f u | None \<Rightarrow> Crash)"

definition set_flags :: "nat \<Rightarrow> (u32 \<Rightarrow> u32) \<Rightarrow> (unit, 'x) pcmd" where
  "set_flags h g = with_stream h (\<lambda>f u. Done () (u\<lparr>streams := (streams u)(h \<mapsto> f\<lparr>file_flags := g (file_flags f)\<rparr>)\<rparr>))"

definition feof :: "nat \<Rightarrow> (u32, 'x) pcmd" where
  "feof h = with_stream h (\<lambda>f. ureturn (file_flags f AND FILE_FLAG_EOF))"

definition ferror :: "nat \<Rightarrow> (u32, 'x) pcmd" where
  "ferror h = with_stream h (\<lambda>f. ureturn (file_flags f AND FILE_FLAG_ERROR))"

definition clearerr :: "nat \<Rightarrow> (unit, 'x) pcmd" where
  "clearerr h = set_flags h (\<lambda>w. w AND NOT (FILE_FLAG_EOF OR FILE_FLAG_ERROR))"

definition fflush :: "nat \<Rightarrow> (int, 'x) pcmd" where
  "fflush h = ureturn 0"

subsection \<open>Opening and closing\<close>

text \<open>The result of \<open>malloc\<close> is not checked.\<close>

definition fdopen :: "(nat \<Rightarrow> bool) \<Rightarrow> int \<Rightarrow> (nat, 'x) pcmd" where
  "fdopen H fd u =
     (if H 8 then Done (stream_fresh u) (u\<lparr>streams := (streams u)(stream_fresh u \<mapsto> \<lparr>file_fd = fd, file_flags = 0\<rparr>),
        stream_fresh := stream_fresh u + 1\<rparr>)
      else Crash)"

definition mode_flags :: "byte list \<Rightarrow> u32 option" where
  "mode_flags mode =
     (if mode = bytes ''r'' \<or> mode = bytes ''rb'' then Some O_RDONLY
      else if mode = bytes ''w'' \<or> mode = bytes ''wb'' then Some (O_WRONLY OR O_CREAT OR O_TRUNC)
      else if mode = bytes ''a'' \<or> mode = bytes ''ab'' then Some (O_WRONLY OR O_CREAT OR O_APPEND)
      else if mode = bytes ''r+'' \<or> mode = bytes ''rb+'' \<or> mode = bytes ''r+b'' then Some O_RDWR
      else if mode = bytes ''w+'' \<or> mode = bytes ''wb+'' \<or> mode = bytes ''w+b'' then Some (O_RDWR OR O_CREAT OR O_TRUNC)
      else if mode = bytes ''a+'' \<or> mode = bytes ''ab+'' \<or> mode = bytes ''a+b'' then Some (O_RDWR OR O_CREAT OR O_APPEND)
      else None)"

definition fopen :: "allocator \<Rightarrow> (nat \<Rightarrow> bool) \<Rightarrow> byte list \<Rightarrow> byte list \<Rightarrow> (nat option, 'x) pcmd" where
  "fopen E H path mode =
     (case mode_flags mode of
        None \<Rightarrow> ubind (set_errno EINVAL) (\<lambda>_. ureturn None)
      | Some flags \<Rightarrow>
          ubind (fcntl_open E path flags (0x100 OR 0x80 OR 0x20 OR 0x10 OR 0x4 OR 0x2)) (\<lambda>fd.
            if fd = - 1 then ureturn None else ubind (fdopen H fd) (\<lambda>h. ureturn (Some h))))"

definition fclose :: "nat \<Rightarrow> (int, 'x) pcmd" where
  "fclose h =
     ubind (fflush h) (\<lambda>r. if r = EOF then ureturn EOF
       else with_stream h (\<lambda>f. ubind (unistd_close (file_fd f)) (\<lambda>r.
         if r = - 1 then ureturn EOF else (\<lambda>u. Done 0 (u\<lparr>streams := (streams u)(h := None)\<rparr>)))))"

subsection \<open>Bytes\<close>

definition fgetc :: "nat \<Rightarrow> (int, 'x) pcmd" where
  "fgetc h = with_stream h (\<lambda>f.
     if file_flags f AND FILE_FLAG_EOF \<noteq> 0 then ureturn EOF
     else ubind (unistd_read (file_fd f) 1) (\<lambda>(bytesRead, bs).
       if bytesRead = 0 then ubind (set_flags h (\<lambda>w. w OR FILE_FLAG_EOF)) (\<lambda>_. ureturn EOF)
       else if bytesRead < 0 then ubind (set_flags h (\<lambda>w. w OR FILE_FLAG_ERROR)) (\<lambda>_. ureturn EOF)
       else ureturn (uint (hd bs))))"

definition getc :: "nat \<Rightarrow> (int, 'x) pcmd" where "getc h = fgetc h"

definition getchar :: "(int, 'x) pcmd" where "getchar = getc stdin"

text \<open>The loop of \<open>fgets\<close> with \<open>n\<close> places left in front of the terminator.\<close>

fun fgets_loop :: "nat \<Rightarrow> byte list \<Rightarrow> nat \<Rightarrow> (byte list, 'x) pcmd" where
  "fgets_loop h buffer 0 = ureturn buffer"
| "fgets_loop h buffer (Suc n) =
     ubind (fgetc h) (\<lambda>c.
       if c = EOF then ureturn buffer
       else let buffer = buffer @ [word_of_int c] in
         if c = 10 then ureturn buffer else fgets_loop h buffer n)"

definition fgets :: "int \<Rightarrow> nat \<Rightarrow> (byte list option, 'x) pcmd" where
  "fgets sz h = ubind (fgets_loop h [] (nat (sz - 1))) (\<lambda>buffer. ureturn (if buffer = [] then None else Some buffer))"

definition fputc :: "allocator \<Rightarrow> int \<Rightarrow> nat \<Rightarrow> (int, 'x) pcmd" where
  "fputc E c h = with_stream h (\<lambda>f.
     ubind (unistd_write E (file_fd f) [word_of_int c]) (\<lambda>r.
       if r < 0 then ubind (set_flags h (\<lambda>w. w OR FILE_FLAG_ERROR)) (\<lambda>_. ureturn EOF) else ureturn c))"

definition putc :: "allocator \<Rightarrow> int \<Rightarrow> nat \<Rightarrow> (int, 'x) pcmd" where "putc E c h = fputc E c h"

definition putchar :: "allocator \<Rightarrow> int \<Rightarrow> (int, 'x) pcmd" where "putchar E c = putc E c stdout"

fun fputs :: "allocator \<Rightarrow> byte list \<Rightarrow> nat \<Rightarrow> (int, 'x) pcmd" where
  "fputs E [] h = ureturn 1"
| "fputs E (c # s) h = with_stream h (\<lambda>f.
     ubind (unistd_write E (file_fd f) [c]) (\<lambda>r. if r < 0 then ureturn EOF else fputs E s h))"

text \<open>A plain \<open>char\<close> is signed.\<close>

fun puts_loop :: "allocator \<Rightarrow> byte list \<Rightarrow> (unit, 'x) pcmd" where
  "puts_loop E [] = ureturn ()"
| "puts_loop E (c # s) = ubind (putchar E (sint c)) (\<lambda>_. puts_loop E s)"

definition puts :: "allocator \<Rightarrow> byte list \<Rightarrow> (int, 'x) pcmd" where
  "puts E s = ubind (puts_loop E s) (\<lambda>_. ubind (putchar E 10) (\<lambda>_. ureturn 1))"

text \<open>One element of \<open>fwrite\<close>, and the elements; the result is the number of complete ones.\<close>

fun fwrite_element :: "allocator \<Rightarrow> byte list \<Rightarrow> nat \<Rightarrow> (bool, 'x) pcmd" where
  "fwrite_element E [] h = ureturn True"
| "fwrite_element E (c # p) h = ubind (fputc E (uint c) h) (\<lambda>r. if r = EOF then ureturn False else fwrite_element E p h)"

fun fwrite_loop :: "allocator \<Rightarrow> byte list \<Rightarrow> nat \<Rightarrow> nat \<Rightarrow> nat \<Rightarrow> nat \<Rightarrow> (nat, 'x) pcmd" where
  "fwrite_loop E p sz 0 i h = ureturn i"
| "fwrite_loop E p sz (Suc n) i h =
     ubind (fwrite_element E (take sz p) h) (\<lambda>ok. if ok then fwrite_loop E (drop sz p) sz n (i + 1) h else ureturn i)"

definition fwrite :: "allocator \<Rightarrow> byte list \<Rightarrow> nat \<Rightarrow> nat \<Rightarrow> nat \<Rightarrow> (nat, 'x) pcmd" where
  "fwrite E p sz nmemb h =
     (if sz = 0 \<or> nmemb = 0 then ureturn 0
      else if length p < sz * nmemb then (\<lambda>_. Crash) else fwrite_loop E p sz nmemb 0 h)"

subsection \<open>Messages and formatted output\<close>

text \<open>\<open>None\<close> is a null pointer.\<close>

definition perror :: "allocator \<Rightarrow> byte list option \<Rightarrow> (unit, 'x) pcmd" where
  "perror E s =
     ubind (case s of
        Some (c # cs) \<Rightarrow> ubind (fputs E (c # cs) stderr) (\<lambda>_. ubind (fputs E (bytes '': '') stderr) (\<lambda>_. ureturn ()))
      | _ \<Rightarrow> ureturn ())
     (\<lambda>_ u. ubind (fputs E (bytes (strerror (uerrno u))) stderr) (\<lambda>_. ubind (fputc E 10 stderr) (\<lambda>_. ureturn ())) u)"

text \<open>
  The callbacks of \<open>vfprintf\<close> and \<open>vdprintf\<close> act on the program: \<open>errno\<close> is that of the engine while it runs, and
  \<open>None\<close> says that a call has crashed.  A callback cannot wait, since \<open>write\<close> does not.
\<close>

definition prog_callback :: "(byte list \<Rightarrow> (u32, 'x) pcmd) \<Rightarrow> 'x prog_scheme option callback" where
  "prog_callback out s st =
     (case pparam st of
        None \<Rightarrow> (0, st)
      | Some u \<Rightarrow>
          (case out s (u\<lparr>uerrno := perrno st\<rparr>) of
             Done n u \<Rightarrow> (n, st\<lparr>perrno := uerrno u, pparam := Some u\<rparr>)
           | _ \<Rightarrow> (0, st\<lparr>pparam := None\<rparr>)))"

definition run_vcbprintf :: "(byte list \<Rightarrow> (u32, 'x) pcmd) \<Rightarrow> mem \<Rightarrow> byte list \<Rightarrow> va_list \<Rightarrow> (int \<times> mem, 'x) pcmd" where
  "run_vcbprintf out m format vl u =
     (case vcbprintf (Some (prog_callback out)) format vl \<lparr>pmem = m, perrno = uerrno u, pparam = Some u\<rparr> of
        Some (n, st) \<Rightarrow> (case pparam st of Some u \<Rightarrow> Done (n, pmem st) (u\<lparr>uerrno := perrno st\<rparr>) | None \<Rightarrow> Crash)
      | None \<Rightarrow> Crash)"

definition vfprintf_callback :: "allocator \<Rightarrow> nat \<Rightarrow> byte list \<Rightarrow> (u32, 'x) pcmd" where
  "vfprintf_callback E h s = ubind (fwrite E s 1 (length s) h) (\<lambda>n. ureturn (of_nat n))"

definition vfprintf :: "allocator \<Rightarrow> nat \<Rightarrow> mem \<Rightarrow> byte list \<Rightarrow> va_list \<Rightarrow> (int \<times> mem, 'x) pcmd" where
  "vfprintf E h = run_vcbprintf (vfprintf_callback E h)"

definition fprintf :: "allocator \<Rightarrow> nat \<Rightarrow> mem \<Rightarrow> byte list \<Rightarrow> va_list \<Rightarrow> (int \<times> mem, 'x) pcmd" where
  "fprintf E h m format vl = vfprintf E h m format vl"

definition vprintf :: "allocator \<Rightarrow> mem \<Rightarrow> byte list \<Rightarrow> va_list \<Rightarrow> (int \<times> mem, 'x) pcmd" where
  "vprintf E = vfprintf E stdout"

definition printf :: "allocator \<Rightarrow> mem \<Rightarrow> byte list \<Rightarrow> va_list \<Rightarrow> (int \<times> mem, 'x) pcmd" where
  "printf E m format vl = vprintf E m format vl"

definition vdprintf_callback :: "allocator \<Rightarrow> int \<Rightarrow> byte list \<Rightarrow> (u32, 'x) pcmd" where
  "vdprintf_callback E fd s = ubind (unistd_write E fd s) (\<lambda>n. ureturn (word_of_int n))"

definition vdprintf :: "allocator \<Rightarrow> int \<Rightarrow> mem \<Rightarrow> byte list \<Rightarrow> va_list \<Rightarrow> (int \<times> mem, 'x) pcmd" where
  "vdprintf E fd = run_vcbprintf (vdprintf_callback E fd)"

definition dprintf :: "allocator \<Rightarrow> int \<Rightarrow> mem \<Rightarrow> byte list \<Rightarrow> va_list \<Rightarrow> (int \<times> mem, 'x) pcmd" where
  "dprintf E fd m format vl = vdprintf E fd m format vl"

definition sprintf :: "mem \<Rightarrow> int \<Rightarrow> addr \<Rightarrow> byte list \<Rightarrow> va_list \<Rightarrow> (int \<times> mem \<times> int) option" where
  "sprintf m errno s format vl = vsprintf m errno s format vl"

section \<open>Destinations\<close>

text \<open>
  What a descriptor promises that bytes are written to: with room for them, a call of \<open>write\<close> takes all bytes,
  and what is seen of the system afterwards depends on the bytes only, not on how many calls wrote
  them.
\<close>

locale destination =
  fixes E :: allocator and fd :: int and room :: "nat \<Rightarrow> sys \<Rightarrow> bool"
    and view :: "sys \<Rightarrow> 'v" and put :: "byte list \<Rightarrow> 'v \<Rightarrow> 'v"
  assumes write_law: "room (length bs + n) st \<Longrightarrow> length bs < 2 ^ 31 \<Longrightarrow> \<exists>st'. Syscall_write E fd bs (sys_fail 0 st) = Returns (int (length bs)) st' \<and>
      verrno (sys_vfs st') = 0 \<and> room n st' \<and> view st' = put bs (view st)"
    and room_mono: "room n st \<Longrightarrow> m \<le> n \<Longrightarrow> room m st"
    and put_Nil: "room n st \<Longrightarrow> put [] (view st) = view st"
    and put_append: "room (length as + length bs) st \<Longrightarrow> put (as @ bs) (view st) = put bs (put as (view st))"
begin

lemma write_step:
  assumes "room (length bs + n) (usys u)" "length bs < 2 ^ 31"
  shows "\<exists>st'. unistd_write E fd bs u = Done (int (length bs)) (u\<lparr>usys := st'\<rparr>) \<and> room n st' \<and> view st' = put bs (view (usys u))"
  using write_law [OF assms] do_syscall_Returns by (metis unistd_write_def)

text \<open>One byte, and the rest of them.\<close>

lemma put_Cons: "room (length bs + 1) st \<Longrightarrow> put (b # bs) (view st) = put bs (put [b] (view st))"
  using put_append [of "[b]" bs st] by (simp add: add.commute)

lemma fputc_step:
  assumes "streams u h = Some f" "file_fd f = fd" "room (n + 1) (usys u)"
  shows "\<exists>st'. fputc E c h u = Done c (u\<lparr>usys := st'\<rparr>) \<and> room n st' \<and> view st' = put [word_of_int c] (view (usys u))"
  using write_step [of "[word_of_int c]" n u] assms by (auto simp: fputc_def with_stream_def ubind_def ureturn_def)

lemma fputs_puts:
  assumes "streams u h = Some f" "file_fd f = fd" "room (length s + n) (usys u)"
  shows "\<exists>st'. fputs E s h u = Done 1 (u\<lparr>usys := st'\<rparr>) \<and> room n st' \<and> view st' = put s (view (usys u))"
  using assms
proof (induction s arbitrary: u)
  case Nil
  then show ?case using put_Nil [of n "usys u"] by (auto simp: ureturn_def intro!: exI [of _ "usys u"])
next
  case (Cons c s)
  from write_step [of "[c]" "length s + n" u] Cons.prems obtain st1 where
    st1: "unistd_write E fd [c] u = Done 1 (u\<lparr>usys := st1\<rparr>)" "room (length s + n) st1" "view st1 = put [c] (view (usys u))"
    by auto
  from Cons.IH [of "u\<lparr>usys := st1\<rparr>"] st1(2) Cons.prems obtain st2 where
    "fputs E s h (u\<lparr>usys := st1\<rparr>) = Done 1 (u\<lparr>usys := st2\<rparr>)" "room n st2" "view st2 = put s (view st1)" by auto
  moreover have "put (c # s) (view (usys u)) = put s (put [c] (view (usys u)))"
    using room_mono [OF Cons.prems(3), of "length s + 1"] by (simp add: put_Cons)
  ultimately show ?case using st1 Cons.prems by (auto simp: with_stream_def ubind_def)
qed

lemma fwrite_element_puts:
  assumes "streams u h = Some f" "file_fd f = fd" "room (length s + n) (usys u)"
  shows "\<exists>st'. fwrite_element E s h u = Done True (u\<lparr>usys := st'\<rparr>) \<and> room n st' \<and> view st' = put s (view (usys u))"
  using assms
proof (induction s arbitrary: u)
  case Nil
  then show ?case using put_Nil [of n "usys u"] by (auto simp: ureturn_def intro!: exI [of _ "usys u"])
next
  case (Cons c s)
  from fputc_step [of u h f "length s + n" "uint c"] Cons.prems obtain st1 where
    st1: "fputc E (uint c) h u = Done (uint c) (u\<lparr>usys := st1\<rparr>)" "room (length s + n) st1" "view st1 = put [c] (view (usys u))"
    by auto
  from Cons.IH [of "u\<lparr>usys := st1\<rparr>"] st1(2) Cons.prems obtain st2 where
    "fwrite_element E s h (u\<lparr>usys := st1\<rparr>) = Done True (u\<lparr>usys := st2\<rparr>)" "room n st2" "view st2 = put s (view st1)" by auto
  moreover have "put (c # s) (view (usys u)) = put s (put [c] (view (usys u)))"
    using room_mono [OF Cons.prems(3), of "length s + 1"] by (simp add: put_Cons)
  moreover have "uint c \<noteq> EOF" using uint_ge_0 [of c] unfolding EOF_def by linarith
  ultimately show ?case using st1 by (auto simp: ubind_def)
qed

lemma fwrite_loop_puts:
  assumes "streams u h = Some f" "file_fd f = fd" "room (length p + n) (usys u)" "length p = sz * k"
  shows "\<exists>st'. fwrite_loop E p sz k i h u = Done (i + k) (u\<lparr>usys := st'\<rparr>) \<and> room n st' \<and> view st' = put p (view (usys u))"
  using assms
proof (induction k arbitrary: u p i)
  case 0
  then show ?case using put_Nil [of n "usys u"] by (auto simp: ureturn_def intro!: exI [of _ "usys u"])
next
  case (Suc k)
  have len: "length (take sz p) = sz" "length (drop sz p) = sz * k" using Suc.prems(4) by (simp_all add: min_def)
  from fwrite_element_puts [of u h f "take sz p" "length (drop sz p) + n"] Suc.prems len obtain st1 where
    st1: "fwrite_element E (take sz p) h u = Done True (u\<lparr>usys := st1\<rparr>)" "room (length (drop sz p) + n) st1"
      "view st1 = put (take sz p) (view (usys u))" by (auto simp: ac_simps)
  from Suc.IH [of "u\<lparr>usys := st1\<rparr>" "drop sz p" "i + 1"] st1(2) Suc.prems len(2) obtain st2 where
    "fwrite_loop E (drop sz p) sz k (i + 1) h (u\<lparr>usys := st1\<rparr>) = Done (i + 1 + k) (u\<lparr>usys := st2\<rparr>)" "room n st2"
      "view st2 = put (drop sz p) (view st1)" by auto
  moreover have "put p (view (usys u)) = put (drop sz p) (put (take sz p) (view (usys u)))"
    using put_append [of "take sz p" "drop sz p"] room_mono [OF Suc.prems(3), of "length p"] len Suc.prems(4) by simp
  ultimately show ?case using st1 by (auto simp: ubind_def)
qed

lemma fwrite_puts:
  assumes "streams u h = Some f" "file_fd f = fd" "room (length p + n) (usys u)" "length p = sz * k" "sz \<noteq> 0"
  shows "\<exists>st'. fwrite E p sz k h u = Done k (u\<lparr>usys := st'\<rparr>) \<and> room n st' \<and> view st' = put p (view (usys u))"
proof (cases "k = 0")
  case True
  then show ?thesis using assms put_Nil [of n "usys u"] by (auto simp: fwrite_def ureturn_def intro!: exI [of _ "usys u"])
qed (use fwrite_loop_puts [OF assms(1-4), of 0] assms(4, 5) in \<open>simp add: fwrite_def\<close>)

end

text \<open>A destination that never fills up gets the output of the formatting engine whole.\<close>

locale endless_destination = destination +
  assumes endless: "room n st \<Longrightarrow> room m st"
begin

definition printing :: "'b prog_scheme \<Rightarrow> nat \<Rightarrow> 'b prog_scheme option pstate \<Rightarrow> byte list pstate \<Rightarrow> bool" where
  "printing u h a b \<longleftrightarrow> pmem a = pmem b \<and> perrno a = perrno b \<and>
     (\<exists>st e. pparam a = Some (u\<lparr>usys := st, uerrno := e\<rparr>) \<and> room 0 st \<and> view st = put (pparam b) (view (usys u)))"

lemma callback_prints:
  assumes f: "streams u h = Some f" "file_fd f = fd" and room: "room 0 (usys u)" and R: "printing u h a b"
  shows "\<exists>a'. prog_callback (vfprintf_callback E h) bs a = (of_nat (length bs), a') \<and> printing u h a' (b\<lparr>pparam := pparam b @ bs\<rparr>)"
proof -
  from R obtain st e where a: "pparam a = Some (u\<lparr>usys := st, uerrno := e\<rparr>)" "room 0 st" "view st = put (pparam b) (view (usys u))"
    by (auto simp: printing_def)
  let ?u = "u\<lparr>usys := st, uerrno := perrno a\<rparr>"
  from fwrite_puts [of ?u h f bs 0 1 "length bs"] f endless [OF a(2)] obtain st' where
    "fwrite E bs 1 (length bs) h ?u = Done (length bs) (?u\<lparr>usys := st'\<rparr>)" "room 0 st'" "view st' = put bs (view st)" by auto
  moreover have "put (pparam b @ bs) (view (usys u)) = put bs (view st)"
    using put_append [OF endless [OF room]] a(3) by simp
  moreover have "?u\<lparr>usys := st'\<rparr> = u\<lparr>usys := st', uerrno := perrno a\<rparr>" by simp
  moreover have "pmem a = pmem b" "perrno a = perrno b" using R by (simp_all add: printing_def)
  ultimately show ?thesis
    using a by (simp add: prog_callback_def vfprintf_callback_def ubind_def ureturn_def printing_def)
      (intro exI [of _ st'] conjI exI [of _ "perrno b"], simp_all)
qed

lemma vfprintf_prints:
  assumes f: "streams u h = Some f" "file_fd f = fd" and room: "room 0 (usys u)"
    and log: "vcbprintf (Some log_callback) format vl \<lparr>pmem = m, perrno = uerrno u, pparam = []\<rparr> = Some (n, st)"
  shows "\<exists>st'. vfprintf E h m format vl u = Done (n, pmem st) (u\<lparr>usys := st', uerrno := perrno st\<rparr>) \<and>
    view st' = put (pparam st) (view (usys u))"
proof -
  note cb = callback_prints [OF f room]
  have sim: "callback_simulation (prog_callback (vfprintf_callback E h)) log_callback (printing u h) True"
  proof
    fix a b bs
    assume R: "printing u h a b"
    from cb [OF R, of bs] show "fst (prog_callback (vfprintf_callback E h) bs a) = fst (log_callback bs b)"
      "printing u h (snd (prog_callback (vfprintf_callback E h) bs a)) (snd (log_callback bs b))"
      by (auto simp: log_callback_def)
    from R show "printing u h (a\<lparr>perrno := e\<rparr>) (b\<lparr>perrno := e\<rparr>)" "printing u h (a\<lparr>pmem := m\<rparr>) (b\<lparr>pmem := m\<rparr>)" "pmem a = pmem b" for e m
      by (simp_all add: printing_def)
  qed
  have "printing u h \<lparr>pmem = m, perrno = uerrno u, pparam = Some u\<rparr> \<lparr>pmem = m, perrno = uerrno u, pparam = []\<rparr>"
    using room put_Nil [OF room] by (auto simp: printing_def intro!: exI [of _ "usys u"] exI [of _ "uerrno u"])
  from callback_simulation.loop_sim [OF sim this, of format False vl 0] log obtain a where
    "vcbprintf (Some (prog_callback (vfprintf_callback E h))) format vl \<lparr>pmem = m, perrno = uerrno u, pparam = Some u\<rparr> = Some (n, a)"
    "printing u h a st"
    by (auto simp: vcbprintf_def option_rel_Some2)
  then show ?thesis by (auto simp: vfprintf_def run_vcbprintf_def printing_def)
qed

end

section \<open>A file as a destination\<close>

text \<open>Descriptor \<open>i\<close> of the current process is at position \<open>pos\<close> of the file \<open>r\<close>, which holds \<open>data\<close>.\<close>

definition file_at :: "nat \<Rightarrow> vref \<Rightarrow> byte list \<Rightarrow> nat \<Rightarrow> sys \<Rightarrow> bool" where
  "file_at i r data pos st \<longleftrightarrow> i < OPEN_MAX \<and> length (p_fd (cur_proc st)) = OPEN_MAX \<and>
     p_fd (cur_proc st) ! i = Some \<lparr>fd_vnode = r, fd_offset = int pos\<rparr> \<and> object (sys_vfs st) r = FileVnode data"

text \<open>The state with other data in the file and the descriptor at another position.\<close>

definition put_file :: "nat \<Rightarrow> vref \<Rightarrow> byte list \<Rightarrow> nat \<Rightarrow> sys \<Rightarrow> sys" where
  "put_file i r data pos st =
     set_fd (int i) (Some \<lparr>fd_vnode = r, fd_offset = int pos\<rparr>)
       (with_vfs (set_object r (FileVnode data) (fail 0 (sys_vfs st))) st)"

lemma file_at_put [simp]: "file_at i r data pos st \<Longrightarrow> file_at i r data' pos' (put_file i r data' pos' st)"
  by (simp add: file_at_def put_file_def cur_proc_def)

lemma put_put [simp]: "put_file i r data' pos' (put_file i r data pos st) = put_file i r data' pos' st"
  by (simp add: put_file_def set_fd_def set_proc_def with_vfs_def set_object_def fail_def)

lemma file_at_fail [simp]: "file_at i r data pos (sys_fail e st) \<longleftrightarrow> file_at i r data pos st"
  by (simp add: file_at_def)

lemma put_file_same:
  assumes "file_at i r data pos st"
  shows "put_file i r data pos st = sys_fail 0 st"
proof -
  have "(p_fd (procs st (current st)))[i := Some \<lparr>fd_vnode = r, fd_offset = int pos\<rparr>] = p_fd (procs st (current st))"
    using assms by (metis file_at_def cur_proc_def list_update_id)
  with assms show ?thesis
    by (simp add: file_at_def put_file_def set_fd_def set_proc_def with_vfs_def set_object_same sys_fail_def cur_proc_def fail_def)
qed

lemma with_vfs_fail [simp]: "with_vfs v (sys_fail e st) = with_vfs v st"
  by (simp add: with_vfs_def sys_fail_def)

lemma put_file_fail [simp]: "put_file i r data pos (sys_fail e st) = put_file i r data pos st" "sys_fail 0 (put_file i r data pos st) = put_file i r data pos st"
  by (simp_all add: put_file_def set_fd_def set_proc_def with_vfs_def sys_fail_def fail_def set_object_def)

lemma file_at_unique: "file_at i r data pos st \<Longrightarrow> file_at i r data' pos' st \<Longrightarrow> data' = data \<and> pos' = pos"
  by (simp add: file_at_def)

definition overwrite :: "byte list \<Rightarrow> nat \<Rightarrow> byte list \<Rightarrow> byte list" where
  "overwrite data pos bs = take pos data @ bs @ drop (pos + length bs) data"

lemma overwrite_simps:
  "overwrite data pos [] = data" "pos \<le> length data \<Longrightarrow> overwrite (overwrite data pos as) (pos + length as) bs = overwrite data pos (as @ bs)"
  "pos \<le> length data \<Longrightarrow> length (overwrite data pos bs) = max (length data) (pos + length bs)" "overwrite data (length data) bs = data @ bs"
  by (auto simp: overwrite_def min_def ac_simps)

lemma overlay_overwrite: "pos \<le> length data \<Longrightarrow> overlay E data pos bs = overwrite data pos bs"
  by (auto simp: overlay_def overwrite_def realloc_data_def)

lemma write_file:
  assumes "file_at i r data pos st" "pos \<le> length data" "pos + length bs < 2 ^ 31" "\<forall>n. gives E n"
  shows "Syscall_write E (int i) bs (sys_fail 0 st) = Returns (int (length bs)) (put_file i r (overwrite data pos bs) (pos + length bs) st)"
proof -
  have f: "descr (int i) st = Some \<lparr>fd_vnode = r, fd_offset = int pos\<rparr>" "object (sys_vfs st) r = FileVnode data"
    using assms(1) descr_nth [of i st] by (simp_all add: file_at_def cur_proc_def)
  have "Vnode_pwrite E r bs (int pos) (fail 0 (sys_vfs st)) =
      (int (length bs), set_object r (FileVnode (overwrite data pos bs)) (fail 0 (sys_vfs st)))"
    using pwrite_overlay [of "fail 0 (sys_vfs st)" r data "int pos" bs E] assms f(2) by (simp add: overlay_overwrite)
  then show ?thesis
    using f by (simp add: Syscall_write_def FileDescription_write_def Vnode_isSeekable_def advance_offset_def put_file_def)
qed

definition file_room :: "allocator \<Rightarrow> nat \<Rightarrow> vref \<Rightarrow> nat \<Rightarrow> sys \<Rightarrow> bool" where
  "file_room E i r n st \<longleftrightarrow> (\<forall>n. gives E n) \<and>
     (\<exists>data pos. file_at i r data pos st \<and> pos \<le> length data \<and> length data < 2 ^ 31 \<and> pos + n < 2 ^ 31)"

definition file_put :: "nat \<Rightarrow> vref \<Rightarrow> byte list \<Rightarrow> sys \<Rightarrow> sys" where
  "file_put i r bs st =
     (let data = file_data (object (sys_vfs st) r); pos = nat (fd_offset (the (p_fd (cur_proc st) ! i)))
      in put_file i r (overwrite data pos bs) (pos + length bs) st)"

lemma file_put_at: "file_at i r data pos st \<Longrightarrow> file_put i r bs st = put_file i r (overwrite data pos bs) (pos + length bs) st"
  by (simp add: file_put_def file_at_def)

interpretation file_dest: destination E "int i" "file_room E i r" "sys_fail 0" "file_put i r" for E i r
proof
  fix bs as n m st
  show "\<exists>st'. Syscall_write E (int i) bs (sys_fail 0 st) = Returns (int (length bs)) st' \<and> verrno (sys_vfs st') = 0 \<and>
      file_room E i r n st' \<and> sys_fail 0 st' = file_put i r bs (sys_fail 0 st)"
    if room: "file_room E i r (length bs + n) st"
  proof -
    from room obtain data pos where at: "file_at i r data pos st" "pos \<le> length data" "length data < 2 ^ 31" "pos + (length bs + n) < 2 ^ 31"
      and E: "\<forall>n. gives E n" by (auto simp: file_room_def)
    have "file_room E i r n (put_file i r (overwrite data pos bs) (pos + length bs) st)"
      using at E file_at_put [OF at(1), of "overwrite data pos bs" "pos + length bs"] unfolding file_room_def
      by (intro conjI exI [of _ "overwrite data pos bs"] exI [of _ "pos + length bs"]) (simp_all add: overwrite_simps)
    moreover have "verrno (sys_vfs (put_file i r (overwrite data pos bs) (pos + length bs) st)) = 0"
      by (simp add: put_file_def set_object_def)
    ultimately show ?thesis using write_file [OF at(1, 2) _ E, of bs] at by (simp add: file_put_at [OF at(1)] file_put_at)
  qed
  show "file_room E i r m st" if "file_room E i r n st" "m \<le> n" using that by (fastforce simp: file_room_def)
  show "file_put i r [] (sys_fail 0 st) = sys_fail 0 st" if "file_room E i r n st"
    using that by (auto simp: file_room_def file_put_at overwrite_simps put_file_same)
  show "file_put i r (as @ bs) (sys_fail 0 st) = file_put i r bs (file_put i r as (sys_fail 0 st))"
    if "file_room E i r (length as + length bs) st"
    using that by (auto simp: file_room_def file_put_at overwrite_simps add.assoc file_at_put [THEN file_put_at])
qed

section \<open>The terminal as a destination\<close>

text \<open>
  After every \<open>write\<close> the terminal moves the cursor of the display, by writing to its ports; apart from these
  port writes the screen depends on the bytes only.
\<close>

definition no_ports :: "vga \<Rightarrow> vga" where
  "no_ports st = st\<lparr>vga_ports := []\<rparr>"

lemma for_up_commute:
  assumes "\<And>i s. g (f i s) = f i (g s)"
  shows "g (for_up a b f s) = for_up a b f (g s)"
  using assms
proof (induction a b f s rule: for_up.induct)
  case (1 i n f s)
  show ?case
  proof (cases "i < n")
    case True
    then show ?thesis using 1(1) [OF True 1(2)] by (simp add: for_up.simps [of i n] 1(2))
  qed (simp add: for_up.simps [of i n])
qed

lemma fields_no_ports [simp]:
  "no_ports (st\<lparr>cursorPosX := a\<rparr>) = (no_ports st)\<lparr>cursorPosX := a\<rparr>" "no_ports (st\<lparr>cursorPosY := a\<rparr>) = (no_ports st)\<lparr>cursorPosY := a\<rparr>"
  "no_ports (st\<lparr>savedX := a\<rparr>) = (no_ports st)\<lparr>savedX := a\<rparr>" "no_ports (st\<lparr>savedY := a\<rparr>) = (no_ports st)\<lparr>savedY := a\<rparr>"
  "no_ports (st\<lparr>status := q\<rparr>) = (no_ports st)\<lparr>status := q\<rparr>" "no_ports (st\<lparr>vmem := m\<rparr>) = (no_ports st)\<lparr>vmem := m\<rparr>"
  "no_ports (st\<lparr>fontColor := d\<rparr>) = (no_ports st)\<lparr>fontColor := d\<rparr>" "no_ports (st\<lparr>paramIndex := a\<rparr>) = (no_ports st)\<lparr>paramIndex := a\<rparr>"
  "no_ports (st\<lparr>params := ps\<rparr>) = (no_ports st)\<lparr>params := ps\<rparr>"
  "no_ports (st\<lparr>paramSpecified := bs\<rparr>) = (no_ports st)\<lparr>paramSpecified := bs\<rparr>"
  "cursorPosX (no_ports st) = cursorPosX st" "cursorPosY (no_ports st) = cursorPosY st" "vmem (no_ports st) = vmem st"
  "savedX (no_ports st) = savedX st" "savedY (no_ports st) = savedY st" "fontColor (no_ports st) = fontColor st"
  "status (no_ports st) = status st" "params (no_ports st) = params st" "paramSpecified (no_ports st) = paramSpecified st"
  "paramIndex (no_ports st) = paramIndex st" "param i e (no_ports st) = param i e st"
  by (simp_all add: no_ports_def param_def)

lemma cursor_no_ports [simp]:
  "no_ports (cursor_up n st) = cursor_up n (no_ports st)" "no_ports (cursor_down n st) = cursor_down n (no_ports st)"
  "no_ports (cursor_forward n st) = cursor_forward n (no_ports st)" "no_ports (cursor_back n st) = cursor_back n (no_ports st)"
  "no_ports (cursor_position st) = cursor_position (no_ports st)"
  "no_ports (scroll_up n st) = scroll_up n (no_ports st)" "no_ports (scroll_down n st) = scroll_down n (no_ports st)"
  by (simp_all add: cursor_up_def cursor_down_def cursor_forward_def cursor_back_def cursor_position_def
      scroll_up_def scroll_down_def Let_def)

lemma erase_no_ports [simp]:
  "no_ports (erase_display st) = erase_display (no_ports st)" "no_ports (erase_line st) = erase_line (no_ports st)"
  by (simp_all add: erase_display_def erase_line_def Let_def)

lemma setGraphicsRendition_no_ports [simp]: "no_ports (setGraphicsRendition st) = setGraphicsRendition (no_ports st)"
  unfolding setGraphicsRendition_def by (rule for_up_commute) simp

lemma csi_final_no_ports [simp]: "no_ports (csi_final c st) = csi_final c (no_ports st)"
  unfolding csi_final_def Let_def by (simp only: if_distrib [of no_ports] cursor_no_ports erase_no_ports fields_no_ports setGraphicsRendition_no_ports)

lemma printEscapeCode_no_ports: "no_ports (printEscapeCode c st) = printEscapeCode c (no_ports st)"
proof -
  have "no_ports (for_up 0 MAX_PARAMS (\<lambda>i st. st\<lparr>params := (params st)[unat i := 0],
      paramSpecified := (paramSpecified st)[unat i := False]\<rparr>) s) =
    for_up 0 MAX_PARAMS (\<lambda>i st. st\<lparr>params := (params st)[unat i := 0],
      paramSpecified := (paramSpecified st)[unat i := False]\<rparr>) (no_ports s)" for s
    by (rule for_up_commute) simp
  then show ?thesis by (cases "status st") (simp_all add: printEscapeCode_def Let_def if_distrib [of no_ports])
qed

lemma printCharacter_no_ports: "no_ports (printCharacter c st) = printCharacter c (no_ports st)"
  by (simp add: printCharacter_def printEscapeCode_no_ports) (simp add: printCharacterRaw_def line_feed_def Let_def)

lemma fold_printCharacter_no_ports: "no_ports (fold printCharacter bs st) = fold printCharacter bs (no_ports st)"
  by (induction bs arbitrary: st) (simp_all add: printCharacter_no_ports)

lemma no_ports_cursor [simp]: "no_ports (updateCursorPosition st) = no_ports st" "no_ports (no_ports st) = no_ports st"
  by (simp_all add: updateCursorPosition_def no_ports_def Let_def)

definition is_terminal :: "int \<Rightarrow> sys \<Rightarrow> bool" where
  "is_terminal fd st \<longleftrightarrow> (case descr fd st of Some f \<Rightarrow> object (sys_vfs st) (fd_vnode f) = TerminalVnode | None \<Rightarrow> False)"

definition set_vga :: "(vga \<Rightarrow> vga) \<Rightarrow> sys \<Rightarrow> sys" where
  "set_vga g st = with_vfs ((sys_vfs st)\<lparr>verrno := 0, vterm := (vterm (sys_vfs st))\<lparr>tvga := g (tvga (vterm (sys_vfs st)))\<rparr>\<rparr>) st"

lemma descr_with_vfs [simp]: "descr fd (with_vfs v st) = descr fd st"
  by (simp add: descr_def fd_entry_def cur_proc_def)

lemma set_vga_simps [simp]:
  "set_vga g (set_vga k st) = set_vga (g \<circ> k) st" "verrno (sys_vfs (set_vga g st)) = 0" "is_terminal fd (set_vga g st) \<longleftrightarrow> is_terminal fd st"
  by (simp_all add: set_vga_def is_terminal_def split: option.split) (simp add: with_vfs_def)

lemma set_fd_same:
  assumes "descr fd st = Some f"
  shows "set_fd fd (Some f) st = st"
proof -
  have "p_fd (procs st (current st)) ! nat fd = Some f" using assms by (auto simp: descr_def fd_entry_def cur_proc_def split: if_splits)
  then have "(p_fd (procs st (current st)))[nat fd := Some f] = p_fd (procs st (current st))" by (metis list_update_id)
  then show ?thesis by (simp add: set_fd_def set_proc_def)
qed

lemma write_terminal:
  assumes "is_terminal fd st" "length bs < 2 ^ 31"
  shows "Syscall_write E fd bs (sys_fail 0 st) = Returns (int (length bs)) (set_vga (\<lambda>v. updateCursorPosition (fold printCharacter bs v)) st)"
proof -
  from assms(1) obtain f where f: "descr fd st = Some f" "object (sys_vfs st) (fd_vnode f) = TerminalVnode"
    by (auto simp: is_terminal_def split: option.splits)
  have "set_fd fd (Some f) (with_vfs v st) = with_vfs v st" for v
    using f(1) by (intro set_fd_same) simp
  then show ?thesis
    using f ssize_small [OF assms(2)] by (simp add: Syscall_write_def FileDescription_write_def Vnode_isSeekable_def Vnode_write_def
        Terminal_write_def set_vga_def fail_def ssize_def)
qed

definition screen_view :: "sys \<Rightarrow> sys" where
  "screen_view = set_vga no_ports"

definition screen_put :: "byte list \<Rightarrow> sys \<Rightarrow> sys" where
  "screen_put bs = set_vga (fold printCharacter bs)"

lemma screen_put_view: "screen_put bs (screen_view st) = set_vga (\<lambda>v. fold printCharacter bs (no_ports v)) st"
  by (simp add: screen_put_def screen_view_def comp_def)

interpretation terminal_dest: endless_destination E fd "\<lambda>_. is_terminal fd" screen_view screen_put for E fd
proof
  fix bs as n m st
  show "\<exists>st'. Syscall_write E fd bs (sys_fail 0 st) = Returns (int (length bs)) st' \<and> verrno (sys_vfs st') = 0 \<and>
      is_terminal fd st' \<and> screen_view st' = screen_put bs (screen_view st)"
    if "is_terminal fd st" "length bs < 2 ^ 31"
    using write_terminal [OF that, of E] that(1)
    by (simp add: screen_put_view) (simp add: screen_view_def comp_def fold_printCharacter_no_ports)
  show "screen_put [] (screen_view st) = screen_view st" by (simp add: screen_put_view) (simp add: screen_view_def)
  show "screen_put (as @ bs) (screen_view st) = screen_put bs (screen_put as (screen_view st))"
    by (simp add: screen_put_view) (simp add: screen_put_def comp_def)
qed simp_all

section \<open>Sources\<close>

text \<open>
  What a descriptor promises that bytes are read from: as long as there are bytes, a call that asks for one byte
  gives the next one.  At the end of some sources, but not of the terminal, a call returns without a byte.
\<close>

locale source =
  fixes fd :: int and ready :: "sys \<Rightarrow> bool" and rest :: "sys \<Rightarrow> byte list"
  assumes read_law: "ready st \<Longrightarrow> rest st = b # bs \<Longrightarrow> \<exists>st'. Syscall_read fd 1 (sys_fail 0 st) = Returns (1, [b]) st' \<and>
      verrno (sys_vfs st') = 0 \<and> ready st' \<and> rest st' = bs"
begin

definition reading :: "nat \<Rightarrow> 'x prog_scheme \<Rightarrow> bool" where
  "reading h u \<longleftrightarrow> (\<exists>f. streams u h = Some f \<and> file_fd f = fd \<and> file_flags f AND FILE_FLAG_EOF = 0) \<and> ready (usys u)"

lemma read_byte:
  assumes "ready (usys u)" "rest (usys u) = b # bs"
  shows "\<exists>st'. unistd_read fd 1 u = Done (1, [b]) (u\<lparr>usys := st'\<rparr>) \<and> ready st' \<and> rest st' = bs"
  using read_law [OF assms] do_syscall_Returns by (metis unistd_read_def)

lemma fgetc_byte:
  assumes "reading h u" "rest (usys u) = b # bs"
  shows "\<exists>st'. fgetc h u = Done (uint b) (u\<lparr>usys := st'\<rparr>) \<and> reading h (u\<lparr>usys := st'\<rparr>) \<and> rest st' = bs"
  using read_byte [of u b bs] assms by (auto simp: reading_def fgetc_def with_stream_def ubind_def ureturn_def)

lemma fgets_loop_byte:
  assumes "reading h u" "rest (usys u) = b # bs"
  shows "\<exists>st'. fgets_loop h buffer (Suc n) u =
      (if b = 10 then Done (buffer @ [b]) (u\<lparr>usys := st'\<rparr>) else fgets_loop h (buffer @ [b]) n (u\<lparr>usys := st'\<rparr>)) \<and>
    reading h (u\<lparr>usys := st'\<rparr>) \<and> rest st' = bs"
proof -
  have "uint b = 10 \<longleftrightarrow> b = 10" by (simp add: word_uint_eq_iff)
  moreover have "uint b \<noteq> EOF" using uint_ge_0 [of b] unfolding EOF_def by linarith
  ultimately show ?thesis using fgetc_byte [OF assms] by (auto simp: ubind_def Let_def ureturn_def)
qed

lemma fgets_loop_line:
  assumes "reading h u" "rest (usys u) = l @ 10 # bs" "10 \<notin> set l" "length l < n"
  shows "\<exists>st'. fgets_loop h buffer n u = Done (buffer @ l @ [10]) (u\<lparr>usys := st'\<rparr>) \<and> reading h (u\<lparr>usys := st'\<rparr>) \<and> rest st' = bs"
  using assms
proof (induction l arbitrary: buffer u n)
  case Nil
  then obtain k where n: "n = Suc k" by (cases n) auto
  with Nil fgets_loop_byte [of h u 10 bs buffer k] show ?case by auto
next
  case (Cons c l)
  then obtain k where n: "n = Suc k" by (cases n) auto
  from Cons fgets_loop_byte [of h u c "l @ 10 # bs" buffer k] obtain st1 where
    "fgets_loop h buffer n u = fgets_loop h (buffer @ [c]) k (u\<lparr>usys := st1\<rparr>)" "reading h (u\<lparr>usys := st1\<rparr>)" "rest st1 = l @ 10 # bs"
    by (auto simp: n)
  with Cons.IH [of "u\<lparr>usys := st1\<rparr>" k "buffer @ [c]"] Cons.prems n show ?case by auto
qed

lemma fgets_line:
  assumes "reading h u" "rest (usys u) = l @ 10 # bs" "10 \<notin> set l" "int (length l) < sz - 1"
  shows "\<exists>st'. fgets sz h u = Done (Some (l @ [10])) (u\<lparr>usys := st'\<rparr>) \<and> reading h (u\<lparr>usys := st'\<rparr>) \<and> rest st' = bs"
proof -
  have "length l < nat (sz - 1)" using assms(4) by linarith
  from fgets_loop_line [OF assms(1-3) this, of "[]"] show ?thesis by (auto simp: fgets_def ubind_def ureturn_def)
qed

end

subsection \<open>The terminal\<close>

definition typed :: "sys \<Rightarrow> byte list" where
  "typed st = fst (contents (vterm (sys_vfs st)))"

definition terminal_ready :: "int \<Rightarrow> sys \<Rightarrow> bool" where
  "terminal_ready fd st \<longleftrightarrow> is_terminal fd st \<and> terminal_ok (vterm (sys_vfs st)) \<and> numEof (vterm (sys_vfs st)) = 0"

lemma read_loop_byte:
  assumes "terminal_ok t" "numEof t = 0" "fst (contents t) = c # bs"
  shows "\<exists>t'. Terminal_read 1 t = Returned [c] t' \<and> terminal_ok t' \<and> numEof t' = 0 \<and> fst (contents t') = bs"
proof -
  have ok: "buffer_ok (terminalBuffer t)" "termio t = default_termios" using assms(1) by (simp_all add: terminal_ok_def)
  have lines: "buffer_lines (terminalBuffer t) = c # bs" using assms(3) by (simp add: contents_def)
  obtain b where b: "buffer_read (terminalBuffer t) = (c, b)" "buffer_ok b" "buffer_lines b = bs"
    using tb.take_law [OF ok(1) lines] by blast
  have "available (terminalBuffer t) \<noteq> 0" using tb.avail_0 [OF ok(1)] lines by simp
  then have "Terminal_read 1 t = Returned [c] (t\<lparr>terminalBuffer := b\<rparr>)"
    using assms(2) b(1) by (simp add: Terminal_read_def read_loop.simps Let_def)
  then show ?thesis using b ok assms(2) by (simp add: terminal_ok_def contents_def)
qed

interpretation terminal_source: source fd "terminal_ready fd" typed for fd
proof
  fix st b bs
  assume ready: "terminal_ready fd st" and typed: "typed st = b # bs"
  then obtain f where f: "descr fd st = Some f" "object (sys_vfs st) (fd_vnode f) = TerminalVnode"
    by (auto simp: terminal_ready_def is_terminal_def split: option.splits)
  from read_loop_byte [of "vterm (sys_vfs st)" b bs] ready typed obtain t where
    t: "Terminal_read 1 (vterm (sys_vfs st)) = Returned [b] t" "terminal_ok t" "numEof t = 0" "fst (contents t) = bs"
    by (auto simp: terminal_ready_def typed_def)
  let ?st = "with_vfs ((fail 0 (sys_vfs st))\<lparr>vterm := t\<rparr>) st"
  have "Syscall_read fd 1 (sys_fail 0 st) = Returns (1, [b]) ?st"
    using f t(1) by (simp add: Syscall_read_def FileDescription_read_def Vnode_isSeekable_def Vnode_read_def set_fd_same)
  moreover have "terminal_ready fd ?st" using f t by (simp add: terminal_ready_def is_terminal_def)
  moreover have "verrno (sys_vfs ?st) = 0" "typed ?st = bs" using t by (simp_all add: typed_def)
  ultimately show "\<exists>st'. Syscall_read fd 1 (sys_fail 0 st) = Returns (1, [b]) st' \<and> verrno (sys_vfs st') = 0 \<and>
      terminal_ready fd st' \<and> typed st' = bs" by blast
qed

subsection \<open>Files\<close>

text \<open>The first line, with its newline if it has one, cut to \<open>n\<close> bytes.\<close>

definition first_line :: "nat \<Rightarrow> byte list \<Rightarrow> byte list" where
  "first_line n bs = take n (takeWhile (\<lambda>c. c \<noteq> 10) bs @ (if 10 \<in> set bs then [10] else []))"

lemma first_line_Cons: "first_line (Suc n) (b # bs) = (if b = 10 then [b] else b # first_line n bs)"
  by (simp add: first_line_def)

text \<open>A source that ends: \<open>fgets\<close> gives the bytes up to a newline, to the end, or to the size of its buffer.\<close>

locale ending_source = source +
  assumes end_law: "ready st \<Longrightarrow> rest st = [] \<Longrightarrow> \<exists>st'. Syscall_read fd 1 (sys_fail 0 st) = Returns (0, []) st' \<and>
      verrno (sys_vfs st') = 0 \<and> ready st' \<and> rest st' = []"
begin

lemma fgetc_end:
  assumes "reading h u" "rest (usys u) = []"
  shows "\<exists>u'. fgetc h u = Done EOF u' \<and> ready (usys u') \<and> rest (usys u') = []"
proof -
  from assms obtain f where f: "streams u h = Some f" "file_fd f = fd" "file_flags f AND FILE_FLAG_EOF = 0" "ready (usys u)"
    by (auto simp: reading_def)
  from end_law [OF f(4) assms(2)] obtain st' where "unistd_read fd 1 u = Done (0, []) (u\<lparr>usys := st'\<rparr>)" "ready st'" "rest st' = []"
    using do_syscall_Returns by (metis unistd_read_def)
  with f show ?thesis by (auto simp: fgetc_def with_stream_def ubind_def ureturn_def set_flags_def)
qed

lemma fgets_loop_first_line:
  assumes "reading h u"
  shows "\<exists>u'. fgets_loop h buffer n u = Done (buffer @ first_line n (rest (usys u))) u' \<and> ready (usys u') \<and>
    rest (usys u') = drop (length (first_line n (rest (usys u)))) (rest (usys u))"
  using assms
proof (induction n arbitrary: buffer u)
  case 0
  then show ?case by (auto simp: ureturn_def first_line_def reading_def)
next
  case (Suc n)
  show ?case
  proof (cases "rest (usys u)")
    case Nil
    with fgetc_end [OF Suc.prems] show ?thesis by (auto simp: ubind_def ureturn_def first_line_def EOF_def)
  next
    case (Cons b bs)
    from fgets_loop_byte [OF Suc.prems Cons, of buffer n] obtain st' where
      st': "fgets_loop h buffer (Suc n) u = (if b = 10 then Done (buffer @ [b]) (u\<lparr>usys := st'\<rparr>)
          else fgets_loop h (buffer @ [b]) n (u\<lparr>usys := st'\<rparr>))" "reading h (u\<lparr>usys := st'\<rparr>)" "rest st' = bs" by blast
    with Suc.IH [OF st'(2), of "buffer @ [b]"] Cons show ?thesis by (auto simp: first_line_Cons reading_def)
  qed
qed

lemma fgets_first_line:
  assumes "reading h u"
  shows "\<exists>u'. fgets sz h u = Done (if first_line (nat (sz - 1)) (rest (usys u)) = [] then None
      else Some (first_line (nat (sz - 1)) (rest (usys u)))) u' \<and>
    rest (usys u') = drop (length (first_line (nat (sz - 1)) (rest (usys u)))) (rest (usys u))"
  using fgets_loop_first_line [OF assms, of "[]" "nat (sz - 1)"] by (auto simp: fgets_def ubind_def ureturn_def)

end

definition file_ready :: "nat \<Rightarrow> vref \<Rightarrow> sys \<Rightarrow> bool" where
  "file_ready i r st \<longleftrightarrow> (\<exists>data pos. file_at i r data pos st \<and> pos \<le> length data \<and> length data < 2 ^ 31)"

definition file_rest :: "nat \<Rightarrow> vref \<Rightarrow> sys \<Rightarrow> byte list" where
  "file_rest i r st = drop (nat (fd_offset (the (p_fd (cur_proc st) ! i)))) (file_data (object (sys_vfs st) r))"

lemma file_rest_at: "file_at i r data pos st \<Longrightarrow> file_rest i r st = drop pos data"
  by (simp add: file_rest_def file_at_def)

lemma file_ready_put: "file_at i r data pos st \<Longrightarrow> pos' \<le> length data \<Longrightarrow> length data < 2 ^ 31 \<Longrightarrow> file_ready i r (put_file i r data pos' st)"
  using file_at_put [of i r data pos st data pos'] unfolding file_ready_def by blast

lemma read_file:
  assumes "file_at i r data pos st" "pos \<le> length data" "length data < 2 ^ 31"
  shows "Syscall_read (int i) sz (sys_fail 0 st) =
    Returns (int (length (take (unat sz) (drop pos data))), take (unat sz) (drop pos data))
      (put_file i r data (pos + length (take (unat sz) (drop pos data))) st)"
proof -
  have f: "descr (int i) st = Some \<lparr>fd_vnode = r, fd_offset = int pos\<rparr>" "object (sys_vfs st) r = FileVnode data"
    using assms(1) descr_nth [of i st] by (simp_all add: file_at_def cur_proc_def)
  have "set_object r (FileVnode data) (fail 0 (sys_vfs st)) = fail 0 (sys_vfs st)" using f(2) by (simp add: set_object_same)
  then show ?thesis
    using f pread_file [of "fail 0 (sys_vfs st)" r data "int pos" sz] assms
    by (simp add: Syscall_read_def FileDescription_read_def Vnode_isSeekable_def advance_offset_def put_file_def)
qed

interpretation file_source: ending_source "int i" "file_ready i r" "file_rest i r" for i r
proof
  fix st b bs
  assume "file_ready i r st"
  then obtain data pos where at: "file_at i r data pos st" "pos \<le> length data" "length data < 2 ^ 31" by (auto simp: file_ready_def)
  note rd = read_file [OF at, of 1] file_rest_at [OF at(1)] file_at_put [OF at(1)]
  have errno: "verrno (sys_vfs (put_file i r data k st)) = 0" for k by (simp add: put_file_def set_object_def)
  show "\<exists>st'. Syscall_read (int i) 1 (sys_fail 0 st) = Returns (1, [b]) st' \<and> verrno (sys_vfs st') = 0 \<and>
      file_ready i r st' \<and> file_rest i r st' = bs" if "file_rest i r st = b # bs"
  proof -
    have d: "drop pos data = b # bs" using that rd(2) by simp
    then have "pos < length data" "drop (Suc pos) data = bs" by (metis drop_all linorder_not_le list.distinct(1), metis drop_Suc drop_tl list.sel(3) tl_drop)
    with d rd errno at show ?thesis by (auto simp: file_rest_at [OF rd(3)] intro: file_ready_put [OF at(1)])
  qed
  show "\<exists>st'. Syscall_read (int i) 1 (sys_fail 0 st) = Returns (0, []) st' \<and> verrno (sys_vfs st') = 0 \<and>
      file_ready i r st' \<and> file_rest i r st' = []" if "file_rest i r st = []"
    using that rd errno at by (auto simp: file_rest_at [OF rd(3)] intro: file_ready_put [OF at(1)])
qed

end
