(* ===== verification/Libc_Exit.thy ===== *)
theory Libc_Exit
  imports Libc_Stdio
begin

text \<open>
  The end of a program, \<open>atexit.c\<close>, \<open>exit.c\<close> and \<open>_Exit.c\<close> of \<open>libc/src/stdlib\<close>, and the random numbers of \<open>rand.c\<close> and
  \<open>rand_r.c\<close>.  A handler is the address of a function, \<open>call\<close> says what the functions of the program do, and
  \<open>fini\<close> is what the linker makes of \<open>_fini\<close>.
\<close>

section \<open>Definitions\<close>

definition ATEXIT_MAX :: nat where "ATEXIT_MAX = 32"

text \<open>The array of handlers, with null pointers at its free places.\<close>

record exit_prog = prog +
  atexitHandlers :: "u32 list"

type_synonym ('a, 'x) ecmd = "'x exit_prog_scheme \<Rightarrow> ('a, 'x exit_prog_scheme) uret"

fun free_place :: "u32 list \<Rightarrow> nat \<Rightarrow> nat option" where
  "free_place [] i = None"
| "free_place (h # hs) i = (if h = 0 then Some i else free_place hs (i + 1))"

definition atexit :: "u32 \<Rightarrow> (int, 'x) ecmd" where
  "atexit func u =
     (case free_place (take ATEXIT_MAX (atexitHandlers u)) 0 of
        Some i \<Rightarrow> Done 0 (u\<lparr>atexitHandlers := (atexitHandlers u)[i := func]\<rparr>)
      | None \<Rightarrow> Done (- 1) u)"

text \<open>The loop at the places below \<open>i\<close>.\<close>

fun call_loop :: "(u32 \<Rightarrow> (unit, 'x) ecmd) \<Rightarrow> nat \<Rightarrow> (unit, 'x) ecmd" where
  "call_loop call 0 = ureturn ()"
| "call_loop call (Suc i) =
     ubind (\<lambda>u. if atexitHandlers u ! i \<noteq> 0 then call (atexitHandlers u ! i) u else Done () u) (\<lambda>_. call_loop call i)"

definition callAtexitHandlers :: "(u32 \<Rightarrow> (unit, 'x) ecmd) \<Rightarrow> (unit, 'x) ecmd" where
  "callAtexitHandlers call = call_loop call ATEXIT_MAX"

definition libc_Exit :: "int \<Rightarrow> (unit, 'x) ecmd" where
  "libc_Exit code = unistd_exit code"

definition libc_exit :: "(u32 \<Rightarrow> (unit, 'x) ecmd) \<Rightarrow> (unit, 'x) ecmd \<Rightarrow> int \<Rightarrow> (unit, 'x) ecmd" where
  "libc_exit call fini code = ubind (callAtexitHandlers call) (\<lambda>_. ubind fini (\<lambda>_. libc_Exit code))"

subsection \<open>Random numbers\<close>

text \<open>The new seed and the number, converted to \<open>int\<close>.\<close>

definition rand :: "u64 \<Rightarrow> u64 \<times> int" where
  "rand seed = (let seed = 6364136223846793005 * seed + 73 in (seed, sint (ucast (drop_bit 33 seed) :: u32)))"

definition srand :: "u32 \<Rightarrow> u64" where
  "srand s = ucast s"

definition temper :: "u32 \<Rightarrow> u32" where
  "temper x =
     (let x = x XOR drop_bit 11 x;
          x = x XOR (push_bit 7 x AND 0x9D2C5680);
          x = x XOR (push_bit 15 x AND 0xEFC60000)
      in x XOR drop_bit 18 x)"

definition rand_r :: "u32 \<Rightarrow> u32 \<times> int" where
  "rand_r seed = (let seed = seed * 1103515245 + 12345 in (seed, sint (temper seed div 2)))"

section \<open>Exit handlers\<close>

text \<open>The handlers \<open>hs\<close> have been registered, in this order.\<close>

definition registered :: "u32 list \<Rightarrow> 'x exit_prog_scheme \<Rightarrow> bool" where
  "registered hs u \<longleftrightarrow> length hs \<le> ATEXIT_MAX \<and> 0 \<notin> set hs \<and> atexitHandlers u = hs @ replicate (ATEXIT_MAX - length hs) 0"

lemma free_place_registered: "0 \<notin> set hs \<Longrightarrow> free_place (hs @ replicate n 0) i = (if n = 0 then None else Some (i + length hs))"
  by (induction hs arbitrary: i) (auto simp: gr0_conv_Suc)

lemma atexit_registers:
  assumes "registered hs u" "func \<noteq> 0" "length hs < ATEXIT_MAX"
  shows "\<exists>u'. atexit func u = Done 0 u' \<and> registered (hs @ [func]) u'"
proof -
  obtain n where n: "ATEXIT_MAX - length hs = Suc n" using assms(3) by (metis Suc_diff_Suc)
  have "(hs @ replicate (Suc n) 0)[length hs := func] = (hs @ [func]) @ replicate n 0" by simp
  moreover have "n = ATEXIT_MAX - length (hs @ [func])" using n by simp
  moreover have "free_place (hs @ replicate (Suc n) 0) 0 = Some (length hs)"
    using free_place_registered [of hs "Suc n" 0] assms(1) by (simp add: registered_def)
  moreover have "atexitHandlers u = hs @ replicate (Suc n) 0" "take ATEXIT_MAX (atexitHandlers u) = atexitHandlers u"
    using assms(1) n by (simp_all add: registered_def)
  ultimately show ?thesis using assms unfolding atexit_def registered_def by (simp del: replicate_Suc append_assoc)
qed

lemma atexit_full: "registered hs u \<Longrightarrow> length hs = ATEXIT_MAX \<Longrightarrow> atexit func u = Done (- 1) u"
  using free_place_registered [of hs 0] by (simp add: atexit_def registered_def)

text \<open>The calls one after the other.\<close>

primrec calls :: "(u32 \<Rightarrow> (unit, 'x) ecmd) \<Rightarrow> u32 list \<Rightarrow> (unit, 'x) ecmd" where
  "calls call [] = ureturn ()"
| "calls call (h # hs) = ubind (call h) (\<lambda>_. calls call hs)"

definition keeps_handlers :: "(u32 \<Rightarrow> (unit, 'x) ecmd) \<Rightarrow> bool" where
  "keeps_handlers call \<longleftrightarrow> (\<forall>h u u'. call h u = Done () u' \<longrightarrow> atexitHandlers u' = atexitHandlers u)"

lemma call_loop_empty: "\<forall>j < n. atexitHandlers u ! (i + j) = 0 \<Longrightarrow> call_loop call (i + n) u = call_loop call i u"
  by (induction n) (auto simp: ubind_def)

lemma call_loop_calls:
  assumes "keeps_handlers call" "atexitHandlers u = hs @ rest" "0 \<notin> set hs"
  shows "call_loop call (length hs) u = calls call (rev hs) u"
  using assms(2, 3)
proof (induction hs arbitrary: u rest rule: rev_induct)
  case (snoc h hs)
  have "call_loop call (length hs) u' = calls call (rev hs) u'" if "call h u = Done () u'" for u'
    using snoc.IH [of u' "h # rest"] snoc.prems assms(1) that by (simp add: keeps_handlers_def)
  with snoc.prems show ?case by (simp add: ubind_def nth_append split: uret.split)
qed simp

text \<open>\<open>exit\<close> runs the handlers in the reverse of the order in which they were registered, then \<open>_fini\<close>, then it leaves.\<close>

theorem exit_runs_handlers:
  assumes "registered hs u" "keeps_handlers call"
  shows "libc_exit call fini code u = ubind (calls call (rev hs)) (\<lambda>_. ubind fini (\<lambda>_. unistd_exit code)) u"
proof -
  let ?n = "ATEXIT_MAX - length hs"
  have len: "length hs + ?n = ATEXIT_MAX" using assms(1) by (simp add: registered_def)
  have "call_loop call (length hs + ?n) u = call_loop call (length hs) u"
    using assms(1) by (intro call_loop_empty) (simp add: registered_def nth_append)
  also have "\<dots> = calls call (rev hs) u" using assms by (intro call_loop_calls) (auto simp: registered_def)
  finally show ?thesis unfolding len by (simp add: libc_exit_def callAtexitHandlers_def libc_Exit_def ubind_def)
qed

text \<open>The random numbers are not negative.\<close>

lemma sint_half: "uint (w :: u32) < 2 ^ 31 \<Longrightarrow> 0 \<le> sint w \<and> sint w < 2 ^ 31"
proof -
  assume "uint w < 2 ^ 31"
  then have "sint w = uint w" unfolding sint_uint by (intro signed_take_bit_int_eq_self) (simp_all add: order.trans [OF _ uint_ge_0])
  with \<open>uint w < 2 ^ 31\<close> show ?thesis by simp
qed

theorem rand_bounds: "0 \<le> snd (rand seed) \<and> snd (rand seed) < 2 ^ 31"
proof -
  have "uint (drop_bit 33 (6364136223846793005 * seed + 73)) < 2 ^ 31"
    using uint_lt2p [of "6364136223846793005 * seed + 73"] by (simp add: drop_bit_eq_div uint_div)
  then have "uint (ucast (drop_bit 33 (6364136223846793005 * seed + 73)) :: u32) < 2 ^ 31"
    by (simp add: unsigned_ucast_eq take_bit_int_eq_self)
  from sint_half [OF this] show ?thesis by (simp add: rand_def Let_def)
qed

theorem rand_r_bounds: "0 \<le> snd (rand_r s) \<and> snd (rand_r s) < 2 ^ 31"
  unfolding rand_r_def Let_def snd_conv
  by (intro sint_half) (use uint_lt2p [of "temper (s * 1103515245 + 12345)"] in \<open>simp add: uint_div\<close>)

end
