(* ===== verification/Libc_Streams.thy ===== *)
theory Libc_Streams
  imports Libc_Stdio
begin

text \<open>
  What the streams of \<open>Libc_Stdio\<close> do on files and on the terminal, from the contracts of destinations and
  sources.
\<close>

section \<open>A program for the examples\<close>

text \<open>Its descriptor 0 is the file \<open>a\<close>, which holds three bytes, and its descriptor 1 is the terminal.\<close>

definition demo_prog :: prog where
  "demo_prog = \<lparr>usys = set_fd 1 (Some (FileDescription_new 3))
       (with_vfs ((set_object 3 TerminalVnode demo_vfs)\<lparr>vterm := demo_terminal, vn_fresh := 4\<rparr>) demo_sys),
     uerrno = 0, streams = static_streams, stream_fresh = 3\<rparr>"

lemma demo_prog_simps:
  "streams demo_prog = static_streams" "uerrno demo_prog = 0" "current (usys demo_prog) = 2"
  "sys_vfs (usys demo_prog) = (set_object 3 TerminalVnode demo_vfs)\<lparr>vterm := demo_terminal, vn_fresh := 4\<rparr>"
  "p_fd (cur_proc (usys demo_prog)) = (replicate OPEN_MAX None)[0 := Some (FileDescription_new 2), 1 := Some (FileDescription_new 3)]"
  by (simp_all add: demo_prog_def demo_sys_simps cur_proc_def demo_process_def demo_fields)

lemma demo_prog_terminal: "is_terminal 1 (usys demo_prog)"
  by (simp add: is_terminal_def descr_def fd_entry_def demo_prog_simps OPEN_MAX_def FileDescription_new_def)

lemma demo_prog_file: "file_at 0 2 [1, 2, 3] 0 (usys demo_prog)"
  by (simp add: file_at_def demo_prog_simps OPEN_MAX_def FileDescription_new_def demo_vfs_def)

lemma demo_streams: "static_streams stdin = Some \<lparr>file_fd = 0, file_flags = 0\<rparr>" "static_streams stdout = Some \<lparr>file_fd = 1, file_flags = 0\<rparr>"
  by (simp_all add: static_streams_def stdin_def stdout_def stderr_def)

section \<open>Output\<close>

text \<open>
  although a stream has no buffer and \<open>fputs\<close> makes a system call for every byte, its effect is that of one
  \<open>write\<close> of the whole string, on a file and on the terminal: the two final states differ at most in
  \<open>errno\<close> and in the port writes that move the cursor of the display.
\<close>

theorem fputs_is_write:
  assumes "streams u h = Some f" "length s < 2 ^ 31"
    and "is_terminal (file_fd f) (usys u) \<or> (\<exists>i r. file_fd f = int i \<and> file_room E i r (length s) (usys u))"
  shows "\<exists>st1 st2. fputs E s h u = Done 1 (u\<lparr>usys := st1\<rparr>) \<and>
    unistd_write E (file_fd f) s u = Done (int (length s)) (u\<lparr>usys := st2\<rparr>) \<and> screen_view st1 = screen_view st2"
  using assms(3)
proof (elim disjE exE conjE)
  assume t: "is_terminal (file_fd f) (usys u)"
  from terminal_dest.fputs_puts [OF assms(1) refl, where s = s and E = E] terminal_dest.write_step [where fd = "file_fd f" and bs = s and u = u and E = E] t assms(2)
  show ?thesis by metis
next
  fix i r
  assume i: "file_fd f = int i" and room: "file_room E i r (length s) (usys u)"
  from file_dest.fputs_puts [OF assms(1) i, where E = E and r = r and s = s and n = 0]
    file_dest.write_step [where E = E and i = i and r = r and bs = s and n = 0 and u = u] room assms(2) obtain st1 st2 where
    st: "fputs E s h u = Done 1 (u\<lparr>usys := st1\<rparr>)" "unistd_write E (int i) s u = Done (int (length s)) (u\<lparr>usys := st2\<rparr>)"
      "sys_fail 0 st1 = sys_fail 0 st2" by auto
  have "screen_view (sys_fail 0 st) = screen_view st" for st
    by (simp add: screen_view_def set_vga_def sys_fail_with_vfs with_vfs_def fail_def)
  with st i show ?thesis by metis
qed

text \<open>
  C26: \<open>printf\<close> on the screen.  When \<open>stdout\<close> is the terminal, \<open>printf\<close> returns what the formatting engine counts, and
  apart from the port writes of the cursor the system is left as if the formatted bytes, as the
  engine gives them to a destination that only collects them, had been printed one after the other.
\<close>

theorem printf_on_screen:
  assumes "streams u stdout = Some f" "is_terminal (file_fd f) (usys u)"
    and "vcbprintf (Some log_callback) format vl \<lparr>pmem = m, perrno = uerrno u, pparam = []\<rparr> = Some (n, st)"
  shows "\<exists>st'. printf E m format vl u = Done (n, pmem st) (u\<lparr>usys := st', uerrno := perrno st\<rparr>) \<and>
    screen_view st' = set_vga (\<lambda>v. fold printCharacter (pparam st) (no_ports v)) (usys u)"
  using terminal_dest.vfprintf_prints [OF assms(1) refl assms(2, 3), where E = E] by (simp add: printf_def vprintf_def screen_put_view)

section \<open>Input\<close>

text \<open>
  C27: a line on its way from the keyboard to a program.  A line typed on an empty terminal that is in its
  initial mode is what \<open>fgets\<close> on a stream of the terminal returns, if it fits in the buffer, and
  nothing of it is left.
\<close>

theorem fgets_typed_line:
  assumes f: "streams u h = Some f" "file_flags f AND FILE_FLAG_EOF = 0" "is_terminal (file_fd f) (usys u)"
    and t: "terminal_ok (vterm (sys_vfs (usys u)))" "contents (vterm (sys_vfs (usys u))) = ([], [])" "numEof (vterm (sys_vfs (usys u))) = 0"
    and cs: "\<forall>c \<in> set cs. ordinary c \<and> c \<noteq> 8 \<and> c \<noteq> 10" "length cs < 4095" "int (length cs) < sz - 1"
  shows "\<exists>t u'. type_text (cs @ [10]) (vterm (sys_vfs (usys u))) = Some t \<and>
    fgets sz h (u\<lparr>usys := with_vfs ((sys_vfs (usys u))\<lparr>vterm := t\<rparr>) (usys u)\<rparr>) = Done (Some (cs @ [10])) u' \<and> typed (usys u') = []"
proof -
  have "\<forall>c \<in> set (cs @ [10]). ordinary c" using cs(1) by (simp add: ordinary_def)
  then obtain t where t': "type_text (cs @ [10]) (vterm (sys_vfs (usys u))) = Some t" "terminal_ok t" "numEof t = 0"
    "contents t = fold edit (cs @ [10]) ([], [])"
    using type_text_edit [of "vterm (sys_vfs (usys u))" "cs @ [10]"] assms by auto
  then have c: "contents t = (cs @ [10], [])" using fold_edit_plain [of cs "[]" "[]"] cs(1) by (simp add: edit_def)
  let ?u = "u\<lparr>usys := with_vfs ((sys_vfs (usys u))\<lparr>vterm := t\<rparr>) (usys u)\<rparr>"
  have "terminal_ready (file_fd f) (usys ?u)" using f(3) t'(2, 3) by (simp add: terminal_ready_def is_terminal_def split: option.splits)
  then have "terminal_source.reading (file_fd f) h ?u" using f by (simp add: terminal_source.reading_def)
  moreover have "typed (usys ?u) = cs @ 10 # []" "10 \<notin> set cs" using c cs(1) by (auto simp: typed_def)
  ultimately show ?thesis using terminal_source.fgets_line [where fd = "file_fd f" and h = h and u = ?u and l = cs and bs = "[]" and sz = sz] cs(3) t'(1) by auto
qed


text \<open>Examples.\<close>

theorem fputs_is_write_witness:
  "\<exists>st1 st2. fputs demo_allocator [7, 8] stdin demo_prog = Done 1 (demo_prog\<lparr>usys := st1\<rparr>) \<and>
    unistd_write demo_allocator 0 [7, 8] demo_prog = Done 2 (demo_prog\<lparr>usys := st2\<rparr>) \<and> screen_view st1 = screen_view st2"
proof -
  have "file_room demo_allocator 0 2 (length [7, 8 :: byte]) (usys demo_prog)"
    using demo_prog_file by (auto simp: file_room_def demo_allocator_def intro!: exI)
  then have "is_terminal 0 (usys demo_prog) \<or> (\<exists>i r. (0 :: int) = int i \<and> file_room demo_allocator i r (length [7, 8 :: byte]) (usys demo_prog))"
    by (intro disjI2 exI [of _ 0] exI [of _ 2]) simp
  then show ?thesis
    using fputs_is_write [of demo_prog stdin "\<lparr>file_fd = 0, file_flags = 0\<rparr>" "[7, 8]" demo_allocator]
    by (simp add: demo_prog_simps demo_streams del: fputs.simps)
qed

theorem printf_on_screen_witness:
  "\<exists>m' e st'. printf demo_allocator (\<lambda>_. 0) (bytes ''a%cb'') [88] demo_prog = Done (3, m') (demo_prog\<lparr>usys := st', uerrno := e\<rparr>) \<and>
    screen_view st' = set_vga (\<lambda>v. fold printCharacter (bytes ''aXb'') (no_ports v)) (usys demo_prog)"
proof -
  let ?r = "vcbprintf (Some log_callback) (bytes ''a%cb'') [88] \<lparr>pmem = (\<lambda>_. 0), perrno = uerrno demo_prog, pparam = []\<rparr>"
  have "map_option (\<lambda>(n, st). (n, pparam st)) ?r = Some (3, bytes ''aXb'')" unfolding demo_prog_simps by code_simp
  then obtain st where st: "?r = Some (3, st)" "pparam st = bytes ''aXb''" by (auto simp del: bytes_simps)
  have "streams demo_prog stdout = Some \<lparr>file_fd = 1, file_flags = 0\<rparr>" "is_terminal (file_fd \<lparr>file_fd = 1, file_flags = 0\<rparr>) (usys demo_prog)"
    using demo_prog_terminal by (simp_all add: demo_prog_simps demo_streams)
  from printf_on_screen [OF this st(1), of demo_allocator] show ?thesis unfolding st(2) by blast
qed

theorem fgets_typed_line_witness:
  "\<exists>t u'. type_text [104, 105, 10] (vterm (sys_vfs (usys demo_prog))) = Some t \<and>
    fgets 81 stdout (demo_prog\<lparr>usys := with_vfs ((sys_vfs (usys demo_prog))\<lparr>vterm := t\<rparr>) (usys demo_prog)\<rparr>) =
      Done (Some [104, 105, 10]) u' \<and> typed (usys u') = []"
  using fgets_typed_line [of demo_prog stdout "\<lparr>file_fd = 1, file_flags = 0\<rparr>" "[104, 105]" 81] demo_prog_terminal demo_terminal_ok
  by (simp add: demo_prog_simps demo_streams ordinary_def)

section \<open>A file through streams\<close>

lemma resolvePath_none_fail:
  assumes "vfs_ok v" "r < vn_fresh v" "fst (resolvePath E r path v) = None"
  shows "fst (resolvePath E r path (fail e v)) = None"
proof (rule ccontr)
  assume "fst (resolvePath E r path (fail e v)) \<noteq> None"
  then obtain c st1 where c: "resolvePath E r path (fail e v) = (Some c, st1)" by (cases "resolvePath E r path (fail e v)") auto
  have "vfs_ok (fail e v)" using assms(1) vfs_ext_fail by (auto simp: vfs_ext_def)
  from resolvePath_some(3) [OF this _ c, of v] assms(2, 3) show False by (simp add: vfs_le_def)
qed

lemma do_syscall_usys:
  "call (sys_fail 0 (usys u)) = Returns x st \<Longrightarrow> \<exists>e. do_syscall call u = Done x (u\<lparr>usys := st, uerrno := e\<rparr>)"
  by (auto simp: do_syscall_def Let_def intro: exI [of _ "uerrno u"])

lemma create_call:
  assumes ok: "sys_ok tty st" and f: "getRootFd AT_FDCWD path st = Some f" and E: "\<forall>n. gives E n"
    and none: "fst (resolvePath E (fd_vnode f) path (sys_vfs st)) = None" and flag: "flags AND O_CREAT \<noteq> 0"
    and split: "split_last path = (dir, name)" "name \<noteq> []"
    and node: "if dir = [] then node = fd_vnode f else fst (resolvePath E (fd_vnode f) dir (sys_vfs st)) = Some node"
    and isdir: "is_dir (object (sys_vfs st) node)" and free: "None \<in> set (p_fd (cur_proc st))"
  shows "\<exists>i r st1. Syscall_openat E AT_FDCWD path flags mode (sys_fail 0 st) = Returns (int i) st1 \<and> sys_ok tty st1 \<and>
    file_at i r [] 0 st1 \<and> getRootFd AT_FDCWD path st1 = Some f \<and> fst (resolvePath E (fd_vnode f) path (sys_vfs st1)) = Some r \<and>
    vn_mode (vnodes (sys_vfs st1) r) = S_IFREG OR ((mode AND NOT (p_umask (cur_proc st))) AND 0x1FF)"
proof -
  let ?fs = "p_fd (cur_proc st)" and ?st = "sys_fail 0 st" and ?p = "current st"
  let ?r = "vn_fresh (sys_vfs st)" let ?d = "FileDescription_new ?r"
  note fr = getRootFd_ok [OF ok f]
  have v: "vfs_ok (fail 0 (sys_vfs st))" using sys_okD(1) [OF ok] vfs_ext_fail by (auto simp: vfs_ext_def)
  have len: "length ?fs = OPEN_MAX" using sys_okD(3) [OF ok, of ?p] by (simp add: table_ok_def cur_proc_def)
  from register_free [OF this free] obtain i where i: "i < OPEN_MAX" and
    reg: "\<forall>p d st'. p_fd (procs st' p) = ?fs \<longrightarrow>
      registerFileDescriptor p d st' = (int i, set_proc p (\<lambda>p. p\<lparr>p_fd := (p_fd p)[i := Some d]\<rparr>) st')" by blast
  have node': "if dir = [] then node = fd_vnode f else fst (resolvePath E (fd_vnode f) dir (fail 0 (sys_vfs st))) = Some node"
    using node resolvePath_fail [OF sys_okD(1) [OF ok] fr] by (auto split: if_splits)
  from openat_new [OF v _ _ resolvePath_none_fail [OF sys_okD(1) [OF ok] fr none] flag split node', of "mode AND NOT (p_umask (cur_proc st))"]
    fr E isdir obtain v1 where
    v1: "FileDescription_openat E f path flags (mode AND NOT (p_umask (cur_proc st))) (fail 0 (sys_vfs st)) = Ret (Some ?d, v1)"
      "object v1 ?r = FileVnode []" "fst (resolvePath E (fd_vnode f) path v1) = Some ?r"
      "vn_mode (vnodes v1 ?r) = S_IFREG OR ((mode AND NOT (p_umask (cur_proc st))) AND 0x1FF)" by auto
  let ?st1 = "set_proc ?p (\<lambda>p. p\<lparr>p_fd := (p_fd p)[i := Some ?d]\<rparr>) (with_vfs v1 st)"
  have call: "Syscall_openat E AT_FDCWD path flags mode ?st = Returns (int i) ?st1"
    using f v1(1) reg [rule_format, of "with_vfs v1 st" ?p ?d] by (simp add: Syscall_openat_def cur_proc_def)
  moreover have "sys_ok tty ?st1" by (rule openat_ok [OF sys_ok_fail [OF ok, of 0], of E AT_FDCWD path flags mode]) (simp only: call ret_state.simps)
  moreover have "file_at i ?r [] 0 ?st1"
    using i len v1(2) by (simp add: file_at_def cur_proc_def FileDescription_new_def)
  moreover have "getRootFd AT_FDCWD path ?st1 = Some f" using f by (auto simp: getRootFd_def cur_proc_def split: if_splits)
  ultimately show ?thesis using v1(3, 4) by (intro exI [of _ i] exI [of _ ?r] exI [of _ ?st1]) simp
qed

lemma reopen_call:
  assumes ok: "sys_ok tty st" and f: "getRootFd AT_FDCWD path st = Some f"
    and r: "fst (resolvePath E (fd_vnode f) path (sys_vfs st)) = Some r" and ob: "object (sys_vfs st) r = FileVnode data"
    and flag: "flags AND O_TRUNC = 0" and free: "None \<in> set (p_fd (cur_proc st))"
  shows "\<exists>i st1. Syscall_openat E AT_FDCWD path flags mode (sys_fail 0 st) = Returns (int i) st1 \<and> file_at i r data 0 st1 \<and> verrno (sys_vfs st1) = 0"
proof -
  let ?fs = "p_fd (cur_proc st)" and ?p = "current st" and ?d = "FileDescription_new r"
  have len: "length ?fs = OPEN_MAX" using sys_okD(3) [OF ok, of ?p] by (simp add: table_ok_def cur_proc_def)
  from register_free [OF this free] obtain i where i: "i < OPEN_MAX" and
    reg: "\<forall>p d st'. p_fd (procs st' p) = ?fs \<longrightarrow>
      registerFileDescriptor p d st' = (int i, set_proc p (\<lambda>p. p\<lparr>p_fd := (p_fd p)[i := Some d]\<rparr>) st')" by blast
  let ?st1 = "set_proc ?p (\<lambda>p. p\<lparr>p_fd := (p_fd p)[i := Some ?d]\<rparr>) (with_vfs (fail 0 (sys_vfs st)) st)"
  have "FileDescription_openat E f path flags m (fail 0 (sys_vfs st)) = Ret (Some ?d, fail 0 (sys_vfs st))" for m
    using resolvePath_fail [OF sys_okD(1) [OF ok] getRootFd_ok [OF ok f] r] flag by (simp add: FileDescription_openat_def)
  then have "Syscall_openat E AT_FDCWD path flags mode (sys_fail 0 st) = Returns (int i) ?st1"
    using f reg [rule_format, of "with_vfs (fail 0 (sys_vfs st)) st" ?p ?d] by (simp add: Syscall_openat_def cur_proc_def)
  moreover have "file_at i r data 0 ?st1" using i len ob by (simp add: file_at_def cur_proc_def FileDescription_new_def)
  ultimately show ?thesis by auto
qed

lemma flags_w: "mode_flags (bytes ''w'') = Some (O_WRONLY OR O_CREAT OR O_TRUNC)" "mode_flags (bytes ''r'') = Some O_RDONLY"
  by code_simp+

lemma flag_bits: "(O_WRONLY OR O_CREAT OR O_TRUNC) AND O_CREAT \<noteq> 0" "O_WRONLY OR O_CREAT OR O_TRUNC \<noteq> O_CREAT" "O_RDONLY AND O_TRUNC = 0"
  "O_RDONLY AND O_CREAT = 0"
  by code_simp+

text \<open>Closing a stream gives its descriptor back.\<close>

lemma fclose_file:
  assumes "streams u h = Some f" "file_fd f = int i" "file_at i r data pos (usys u)"
  shows "fclose h u = Done 0 (u\<lparr>usys := set_fd (int i) None (sys_fail 0 (usys u)), streams := (streams u)(h := None)\<rparr>)"
proof -
  have "fd_entry (int i) (usys u) = Some (Some \<lparr>fd_vnode = r, fd_offset = int pos\<rparr>)"
    using assms(3) by (simp add: file_at_def fd_entry_def)
  then have "unistd_close (int i) u = Done 0 (u\<lparr>usys := set_fd (int i) None (sys_fail 0 (usys u))\<rparr>)"
    by (simp add: unistd_close_def do_syscall_def Syscall_close_def)
  with assms(1, 2) show ?thesis by (simp add: fclose_def fflush_def EOF_def with_stream_def ubind_def)
qed

lemma put_file_ext: "file_at i r data pos st \<Longrightarrow> vfs_ext (sys_vfs st) (sys_vfs (put_file i r data' pos' st))"
  unfolding put_file_def set_fd_simps sys_vfs_with
  by (intro vfs_ext_trans [OF vfs_ext_fail set_file_ext [of _ r data]]) (simp add: file_at_def)

lemma sys_ok_put_file:
  assumes "sys_ok tty st" "file_at i r data pos st"
  shows "sys_ok tty (put_file i r data' pos' st)"
proof -
  have "Some \<lparr>fd_vnode = r, fd_offset = int pos\<rparr> \<in> set (p_fd (procs st (current st)))"
    using assms(2) by (metis file_at_def cur_proc_def nth_mem)
  then have "r < vn_fresh (sys_vfs st)" using sys_okD(3) [OF assms(1)] by (fastforce simp: table_ok_def)
  moreover have "vfs_ext (sys_vfs st) (set_object r (FileVnode data') (fail 0 (sys_vfs st)))"
    using put_file_ext [OF assms(2), of data'] by (simp add: put_file_def)
  ultimately show ?thesis unfolding put_file_def by (intro sys_ok_set_fd sys_ok_vfs assms(1)) simp_all
qed

lemma fopen_new:
  assumes ok: "sys_ok tty (usys u)" and f: "getRootFd AT_FDCWD path (usys u) = Some f" and E: "\<forall>n. gives E n" and H: "H 8"
    and none: "fst (resolvePath E (fd_vnode f) path (sys_vfs (usys u))) = None"
    and split: "split_last path = (dir, name)" "name \<noteq> []"
    and node: "if dir = [] then node = fd_vnode f else fst (resolvePath E (fd_vnode f) dir (sys_vfs (usys u))) = Some node"
    and isdir: "is_dir (object (sys_vfs (usys u)) node)" and free: "None \<in> set (p_fd (cur_proc (usys u)))"
  shows "\<exists>i r u1. fopen E H path (bytes ''w'') u = Done (Some (stream_fresh u)) u1 \<and>
    streams u1 (stream_fresh u) = Some \<lparr>file_fd = int i, file_flags = 0\<rparr> \<and> sys_ok tty (usys u1) \<and> file_at i r [] 0 (usys u1) \<and>
    getRootFd AT_FDCWD path (usys u1) = Some f \<and> fst (resolvePath E (fd_vnode f) path (sys_vfs (usys u1))) = Some r \<and>
    vn_mode (vnodes (sys_vfs (usys u1)) r) = S_IFREG"
proof -
  from create_call [OF ok f E none flag_bits(1) split node isdir free, of 0] obtain i r st1 where
    call: "Syscall_openat E AT_FDCWD path (O_WRONLY OR O_CREAT OR O_TRUNC) 0 (sys_fail 0 (usys u)) = Returns (int i) st1"
    and st1: "sys_ok tty st1" "file_at i r [] 0 st1" "getRootFd AT_FDCWD path st1 = Some f"
      "fst (resolvePath E (fd_vnode f) path (sys_vfs st1)) = Some r" "vn_mode (vnodes (sys_vfs st1) r) = S_IFREG" by auto
  from do_syscall_usys [where call = "Syscall_openat E AT_FDCWD path (O_WRONLY OR O_CREAT OR O_TRUNC) 0", OF call] obtain e where
    e: "do_syscall (Syscall_openat E AT_FDCWD path (O_WRONLY OR O_CREAT OR O_TRUNC) 0) u = Done (int i) (u\<lparr>usys := st1, uerrno := e\<rparr>)" by blast
  let ?u1 = "u\<lparr>usys := st1, uerrno := e, streams := (streams u)(stream_fresh u \<mapsto> \<lparr>file_fd = int i, file_flags = 0\<rparr>),
    stream_fresh := Suc (stream_fresh u)\<rparr>"
  have "fopen E H path (bytes ''w'') u = Done (Some (stream_fresh u)) ?u1"
    using e H by (simp add: fopen_def flags_w fcntl_open_def openat_def flag_bits ubind_def fdopen_def ureturn_def del: bytes_simps)
  with st1 show ?thesis by (intro exI [of _ i] exI [of _ r] exI [of _ ?u1]) simp
qed

lemma fopen_old:
  assumes ok: "sys_ok tty (usys u)" and f: "getRootFd AT_FDCWD path (usys u) = Some f" and H: "H 8"
    and r: "fst (resolvePath E (fd_vnode f) path (sys_vfs (usys u))) = Some r" "object (sys_vfs (usys u)) r = FileVnode data"
    and free: "None \<in> set (p_fd (cur_proc (usys u)))" and len: "length data < 2 ^ 31"
  shows "\<exists>i u1. fopen E H path (bytes ''r'') u = Done (Some (stream_fresh u)) u1 \<and>
    file_source.reading i r (stream_fresh u) u1 \<and> file_rest i r (usys u1) = data"
proof -
  from reopen_call [OF ok f r flag_bits(3) free, of 0] obtain i st1 where
    st1: "Syscall_openat E AT_FDCWD path O_RDONLY 0 (sys_fail 0 (usys u)) = Returns (int i) st1" "file_at i r data 0 st1" "verrno (sys_vfs st1) = 0" by blast
  let ?u1 = "u\<lparr>usys := st1, streams := (streams u)(stream_fresh u \<mapsto> \<lparr>file_fd = int i, file_flags = 0\<rparr>), stream_fresh := Suc (stream_fresh u)\<rparr>"
  have "do_syscall (Syscall_openat E AT_FDCWD path O_RDONLY 0) u = Done (int i) (u\<lparr>usys := st1\<rparr>)"
    using st1(1, 3) by (rule do_syscall_Returns)
  then have "fopen E H path (bytes ''r'') u = Done (Some (stream_fresh u)) ?u1"
    using H by (simp add: fopen_def flags_w fcntl_open_def openat_def flag_bits ubind_def fdopen_def ureturn_def del: bytes_simps)
  moreover have "file_source.reading i r (stream_fresh u) ?u1"
    using st1(2) len by (auto simp: file_source.reading_def file_ready_def intro!: exI)
  moreover have "file_rest i r (usys ?u1) = data" using file_rest_at [OF st1(2)] by simp
  ultimately show ?thesis by blast
qed

text \<open>Writing a new file and closing it.\<close>

lemma put_and_close:
  assumes h: "streams u h = Some \<lparr>file_fd = int i, file_flags = 0\<rparr>" and at: "file_at i r [] 0 (usys u)" and E: "\<forall>n. gives E n"
    and len: "length s < 2 ^ 31"
  shows "\<exists>u1 u2. fputs E s h u = Done 1 u1 \<and> fclose h u1 = Done 0 u2 \<and> usys u2 = set_fd (int i) None (put_file i r s (length s) (usys u))"
proof -
  have room: "file_room E i r (length s + 0) (usys u)" using E at len by (auto simp: file_room_def intro!: exI)
  from file_dest.fputs_puts [OF h _ room] obtain st1 where
    st1: "fputs E s h u = Done 1 (u\<lparr>usys := st1\<rparr>)" "sys_fail 0 st1 = file_put i r s (sys_fail 0 (usys u))" by auto
  have put: "sys_fail 0 st1 = put_file i r s (length s) (usys u)"
    using st1(2) file_put_at [of i r "[]" 0 "sys_fail 0 (usys u)" s] at by (simp add: overwrite_def)
  have "file_at i r s (length s) st1" using file_at_put [OF at, of s "length s"] put [symmetric] by simp
  with fclose_file [of "u\<lparr>usys := st1\<rparr>" h "\<lparr>file_fd = int i, file_flags = 0\<rparr>" i r s "length s"] h put st1(1) show ?thesis by simp
qed


lemma demo_prog_ok: "sys_ok 2 (usys demo_prog)"
proof -
  let ?v = "(set_object 3 TerminalVnode demo_vfs)\<lparr>vterm := demo_terminal, vn_fresh := 4\<rparr>"
  have "r < 4 \<Longrightarrow> r = 0 \<or> r = 1 \<or> r = 2 \<or> r = 3" for r :: nat by auto
  then have "vfs_ok ?v" unfolding vfs_ok_def by (auto simp: demo_vfs_def set_object_def refs_ok_def mode_defs)
  moreover have "table_ok ?v (procs demo_sys p)" for p
    using sys_okD(3) [OF demo_sys_ok, of p] table_ok_mono [of demo_vfs _ ?v] by (simp add: demo_sys_simps(1) demo_vfs_def)
  ultimately have "sys_ok 2 (with_vfs ?v demo_sys)" by (simp add: sys_ok_def)
  then show ?thesis unfolding demo_prog_def by (simp add: sys_ok_set_fd FileDescription_new_def)
qed


end
