(* ===== verification/Libc_Dirent.thy ===== *)
theory Libc_Dirent
  imports Libc_Streams
begin

text \<open>
  Directory streams: \<open>libc/src/dirent\<close>.  A stream has a descriptor, a position and a block for the entry that
  was read last, which grows when an entry does not fit.  \<open>H n\<close> says whether the program's \<open>malloc\<close> gives a block
  of \<open>n\<close> bytes, \<open>G n\<close> what such a block holds at \<open>d_reclen\<close> before anything is written to it.
\<close>

section \<open>Definitions\<close>

definition O_SEARCH :: u32 where "O_SEARCH = 1"
definition O_DIRECTORY :: u32 where "O_DIRECTORY = 0x40"

text \<open>The block: its field \<open>d_reclen\<close>, and the entry if one has been written.\<close>

record dirent_block =
  blk_reclen :: u32
  blk_entry :: "dirent option"

record DIR =
  dir_fd :: int
  dir_dirent :: "dirent_block option"
  dir_offset :: u32

definition fdopendir :: "(nat \<Rightarrow> bool) \<Rightarrow> int \<Rightarrow> (DIR, 'x) cmd" where
  "fdopendir H fd = (if H 12 then ureturn \<lparr>dir_fd = fd, dir_dirent = None, dir_offset = 0\<rparr> else (\<lambda>_. Crash))"

definition opendir :: "allocator \<Rightarrow> (nat \<Rightarrow> bool) \<Rightarrow> byte list \<Rightarrow> (DIR option, 'x) cmd" where
  "opendir E H path =
     ubind (fcntl_open E path (O_DIRECTORY OR O_SEARCH) 0) (\<lambda>fd.
       if fd < 0 then ureturn None else ubind (fdopendir H fd) (\<lambda>dir. ureturn (Some dir)))"

definition closedir :: "DIR \<Rightarrow> (int, 'x) cmd" where
  "closedir dir = ubind (unistd_close (dir_fd dir)) (\<lambda>r. ureturn (if r = - 1 then - 1 else 0))"

text \<open>The call fills the block that it is given, or leaves it as it is.\<close>

definition sys_readdir :: "int \<Rightarrow> u32 \<Rightarrow> dirent_block \<Rightarrow> u32 \<Rightarrow> (int \<times> dirent_block, 'x) cmd" where
  "sys_readdir fd offset block sz =
     ubind (do_syscall (Syscall_readdir fd offset sz)) (\<lambda>(r, e).
       ureturn (r, case e of None \<Rightarrow> block | Some e \<Rightarrow> \<lparr>blk_reclen = d_reclen e, blk_entry = Some e\<rparr>))"

text \<open>
  \<open>readdir\<close> with the stream after it.  The result is null or the entry in the block; the inner \<open>None\<close> is a
  block that nothing has been written to.
\<close>

definition readdir_at :: "(nat \<Rightarrow> bool) \<Rightarrow> (nat \<Rightarrow> u32) \<Rightarrow> dirent_block \<Rightarrow> DIR \<Rightarrow> (dirent option option \<times> DIR, 'x) cmd" where
  "readdir_at H G block dir =
     ubind (sys_readdir (dir_fd dir) (dir_offset dir) block (blk_reclen block)) (\<lambda>(sz, block').
       let dir' = dir\<lparr>dir_dirent := Some block'\<rparr> in
       if sz \<le> 0 then ureturn (None, dir')
       else if (word_of_int sz :: u32) \<le> blk_reclen block then ureturn (Some (blk_entry block'), dir'\<lparr>dir_offset := dir_offset dir + 1\<rparr>)
       else if \<not> H (nat sz) then (\<lambda>_. Crash)
       else ubind (sys_readdir (dir_fd dir) (dir_offset dir) \<lparr>blk_reclen = G (nat sz), blk_entry = None\<rparr> (word_of_int sz)) (\<lambda>(_, block').
         ureturn (Some (blk_entry block'), dir\<lparr>dir_dirent := Some block', dir_offset := dir_offset dir + 1\<rparr>)))"

definition readdir :: "(nat \<Rightarrow> bool) \<Rightarrow> (nat \<Rightarrow> u32) \<Rightarrow> DIR \<Rightarrow> (dirent option option \<times> DIR, 'x) cmd" where
  "readdir H G dir =
     (case dir_dirent dir of
        Some block \<Rightarrow> readdir_at H G block dir
      | None \<Rightarrow>
          if H 16 then readdir_at H G \<lparr>blk_reclen = 16, blk_entry = None\<rparr> dir else (\<lambda>_. Crash))"

section \<open>Reading a directory\<close>

definition all_entries :: "vref \<Rightarrow> (byte list \<times> vref) list \<Rightarrow> vref option \<Rightarrow> (byte list \<times> vref) list" where
  "all_entries r es p = (bytes ''.'', r) # (bytes ''..'', case p of Some q \<Rightarrow> q | None \<Rightarrow> r) # es"

definition dirent_of :: "vfs \<Rightarrow> u32 \<Rightarrow> byte list \<times> vref \<Rightarrow> dirent" where
  "dirent_of v sz e = \<lparr>d_dev = vn_dev (vnodes v (snd e)), d_ino = vn_ino (vnodes v (snd e)), d_reclen = sz, d_name = fst e\<rparr>"

definition dir_at :: "int \<Rightarrow> vref \<Rightarrow> (byte list \<times> vref) list \<Rightarrow> vref option \<Rightarrow> sys \<Rightarrow> bool" where
  "dir_at fd r es p st \<longleftrightarrow> (\<exists>f. descr fd st = Some f \<and> fd_vnode f = r) \<and> object (sys_vfs st) r = DirectoryVnode es p"

lemma dir_at_fail [simp]: "dir_at fd r es p (sys_fail e st) \<longleftrightarrow> dir_at fd r es p st"
  by (simp add: dir_at_def)

text \<open>The kernel's \<open>readdir\<close> goes through the entries by position.\<close>

lemma w32_minus_2 [simp]: "w32 (Suc (Suc j)) - 2 = w32 j"
  by (simp add: w32_def)

lemma Vnode_readdir_nth:
  assumes "object v r = DirectoryVnode es p" "k < length (all_entries r es p)" "length es < 2 ^ 31"
  shows "Vnode_readdir r (w32 k) sz v =
    (let e = all_entries r es p ! k; n = 17 + length (fst e) in (ssize n, if n \<le> unat sz then Some (dirent_of v sz e) else None, v))"
proof -
  consider "k = 0" | "k = 1" | j where "k = Suc (Suc j)" "j < length es"
    using assms(2) by (cases k) (auto simp: all_entries_def less_Suc_eq_0_disj)
  then show ?thesis
  proof cases
    case (3 j)
    have "unat (w32 j) = j" "unat (w32 k) = k" using 3 assms(3) by (simp_all add: unat_w32)
    moreover from this have "w32 k \<noteq> 0" "w32 k \<noteq> 1" using 3 by auto
    ultimately show ?thesis using assms(1) 3 by (simp add: Vnode_readdir_def all_entries_def dirent_of_def Let_def case_prod_unfold)
  qed (use assms in \<open>simp_all add: Vnode_readdir_def all_entries_def dirent_of_def Let_def w32_def del: bytes_simps\<close>)
qed

lemma Vnode_readdir_end:
  assumes "object v r = DirectoryVnode es p" "length es < 2 ^ 31"
  shows "Vnode_readdir r (w32 (length es + 2)) sz v = (0, None, v)"
proof -
  have "unat (w32 (length es)) = length es" "unat (w32 (length es + 2)) = length es + 2" using assms(2) by (simp_all add: unat_w32)
  moreover from this have "w32 (length es + 2) \<noteq> 0" "w32 (length es + 2) \<noteq> 1" by auto
  ultimately show ?thesis using assms(1) by (simp add: Vnode_readdir_def Let_def)
qed

text \<open>The system call: the state is kept, apart from the kernel's \<open>errno\<close>.\<close>

lemma sys_readdir_entry:
  assumes "dir_at fd r es p (usys u)" "k < length (all_entries r es p)" "length es < 2 ^ 31" "all_entries r es p ! k = e" "length (fst e) < 2 ^ 30"
  shows "sys_readdir fd (w32 k) block sz u =
    Done (int (17 + length (fst e)), if 17 + length (fst e) \<le> unat sz then \<lparr>blk_reclen = sz, blk_entry = Some (dirent_of (sys_vfs (usys u)) sz e)\<rparr> else block)
      (u\<lparr>usys := sys_fail 0 (usys u)\<rparr>)"
proof -
  from assms(1) obtain f where f: "descr fd (usys u) = Some f" "fd_vnode f = r" "object (sys_vfs (usys u)) r = DirectoryVnode es p"
    by (auto simp: dir_at_def)
  have "dirent_of (fail 0 v) sz e = dirent_of v sz e" for v by (simp add: dirent_of_def fail_def)
  with f Vnode_readdir_nth [of "fail 0 (sys_vfs (usys u))" r es p k sz] assms have
    "Syscall_readdir fd (w32 k) sz (sys_fail 0 (usys u)) = Returns (int (17 + length (fst e)),
       if 17 + length (fst e) \<le> unat sz then Some (dirent_of (sys_vfs (usys u)) sz e) else None) (sys_fail 0 (usys u))"
    by (simp add: Syscall_readdir_def FileDescription_readdir_def Let_def sys_fail_with_vfs [symmetric])
  then show ?thesis
    by (simp add: sys_readdir_def ubind_def do_syscall_Returns ureturn_def dirent_of_def)
qed

lemma sys_readdir_end:
  assumes "dir_at fd r es p (usys u)" "length es < 2 ^ 31"
  shows "sys_readdir fd (w32 (length es + 2)) block sz u = Done (0, block) (u\<lparr>usys := sys_fail 0 (usys u)\<rparr>)"
proof -
  from assms(1) obtain f where f: "descr fd (usys u) = Some f" "fd_vnode f = r" "object (sys_vfs (usys u)) r = DirectoryVnode es p"
    by (auto simp: dir_at_def)
  with Vnode_readdir_end [of "fail 0 (sys_vfs (usys u))" r es p sz] assms(2) have
    "Syscall_readdir fd (w32 (length es + 2)) sz (sys_fail 0 (usys u)) = Returns (0, None) (sys_fail 0 (usys u))"
    by (simp add: Syscall_readdir_def FileDescription_readdir_def Let_def sys_fail_with_vfs [symmetric])
  then show ?thesis by (simp add: sys_readdir_def ubind_def do_syscall_Returns ureturn_def)
qed

text \<open>The library's function: each call gives the next entry, whatever the size of the block that is there.\<close>

lemma sys_fail_twice [simp]: "sys_fail e (sys_fail e' st) = sys_fail e st"
  by (simp add: sys_fail_def fail_def)

lemma readdir_at_entry:
  assumes dir: "dir_at (dir_fd dir) r es p (usys u)" "dir_offset dir = w32 k" "length es < 2 ^ 31" and H: "\<forall>n. H n"
    and k: "k < length (all_entries r es p)" "all_entries r es p ! k = e" "length (fst e) < 2 ^ 30"
  shows "\<exists>sz b. readdir_at H G block dir u = Done (Some (Some (dirent_of (sys_vfs (usys u)) sz e)),
    dir\<lparr>dir_dirent := Some b, dir_offset := w32 (Suc k)\<rparr>) (u\<lparr>usys := sys_fail 0 (usys u)\<rparr>)"
proof -
  let ?n = "17 + length (fst e)" and ?u = "u\<lparr>usys := sys_fail 0 (usys u)\<rparr>"
  note rd = sys_readdir_entry [OF _ k(1) dir(3) k(2, 3), where fd = "dir_fd dir"]
  have n: "(word_of_int (int ?n) :: u32) = w32 ?n" "unat (w32 ?n) = ?n"
    using k(3) unat_w32 [of ?n] by (simp_all add: w32_def)
  then have le: "(word_of_int (int ?n) :: u32) \<le> blk_reclen block \<longleftrightarrow> ?n \<le> unat (blk_reclen block)" by (simp add: word_le_nat_alt)
  have nx: "dir_offset dir + 1 = w32 (Suc k)" by (simp add: dir(2) w32_def)
  have v: "dirent_of (sys_vfs (usys ?u)) sz e = dirent_of (sys_vfs (usys u)) sz e" for sz by (simp add: dirent_of_def fail_def)
  have "\<not> int ?n \<le> 0" by simp
  then show ?thesis
    unfolding readdir_at_def ubind_def dir(2) rd [of u, OF dir(1)] ureturn_def
    using H n le nx rd [of ?u] dir v by (auto simp: Let_def dir(2))
qed

lemma readdir_entry:
  assumes "dir_at (dir_fd dir) r es p (usys u)" "dir_offset dir = w32 k" "length es < 2 ^ 31" "\<forall>n. H n"
    "k < length (all_entries r es p)" "all_entries r es p ! k = e" "length (fst e) < 2 ^ 30"
  shows "\<exists>sz b. readdir H G dir u = Done (Some (Some (dirent_of (sys_vfs (usys u)) sz e)),
    dir\<lparr>dir_dirent := Some b, dir_offset := w32 (Suc k)\<rparr>) (u\<lparr>usys := sys_fail 0 (usys u)\<rparr>)"
  using readdir_at_entry [OF assms] spec [OF assms(4), of 16] by (auto simp: readdir_def split: option.split)

lemma readdir_end:
  assumes "dir_at (dir_fd dir) r es p (usys u)" "dir_offset dir = w32 (length es + 2)" "length es < 2 ^ 31" "\<forall>n. H n"
  shows "\<exists>b. readdir H G dir u = Done (None, dir\<lparr>dir_dirent := Some b\<rparr>) (u\<lparr>usys := sys_fail 0 (usys u)\<rparr>)"
  using sys_readdir_end [OF assms(1, 3)] assms(2) spec [OF assms(4), of 16]
  by (auto simp: readdir_def readdir_at_def ubind_def Let_def ureturn_def split: option.split)

text \<open>Opening and closing: an existing path takes a free entry of the table of descriptors, which closing gives back.\<close>

definition opened :: "nat \<Rightarrow> vref \<Rightarrow> sys \<Rightarrow> sys" where
  "opened i r st = set_fd (int i) (Some (FileDescription_new r)) (sys_fail 0 st)"

lemma open_existing:
  assumes ok: "sys_ok tty st" and f: "getRootFd fd path st = Some f"
    and r: "fst (resolvePath E (fd_vnode f) path (sys_vfs st)) = Some r"
    and flag: "flags AND O_TRUNC = 0" and free: "None \<in> set (p_fd (cur_proc st))"
  shows "\<exists>i < OPEN_MAX. p_fd (cur_proc st) ! i = None \<and> Syscall_openat E fd path flags mode (sys_fail 0 st) = Returns (int i) (opened i r st)"
proof -
  let ?p = "current st" and ?d = "FileDescription_new r"
  have "length (p_fd (cur_proc st)) = OPEN_MAX" using sys_okD(3) [OF ok, of ?p] by (simp add: table_ok_def cur_proc_def)
  from register_free [OF this free] obtain i where i: "i < OPEN_MAX" "p_fd (cur_proc st) ! i = None" and
    reg: "\<forall>p d st'. p_fd (procs st' p) = p_fd (cur_proc st) \<longrightarrow>
      registerFileDescriptor p d st' = (int i, set_proc p (\<lambda>p. p\<lparr>p_fd := (p_fd p)[i := Some d]\<rparr>) st')" by blast
  have "FileDescription_openat E f path flags m (fail 0 (sys_vfs st)) = Ret (Some ?d, fail 0 (sys_vfs st))" for m
    using resolvePath_fail [OF sys_okD(1) [OF ok] getRootFd_ok [OF ok f] r] flag by (simp add: FileDescription_openat_def)
  then have "Syscall_openat E fd path flags mode (sys_fail 0 st) = Returns (int i) (opened i r st)"
    using f reg [rule_format, of "sys_fail 0 st" ?p ?d]
    by (simp add: Syscall_openat_def cur_proc_def opened_def set_fd_def sys_fail_with_vfs [symmetric])
  with i show ?thesis by blast
qed

lemma opened_simps [simp]:
  "current (opened i r st) = current st" "sys_vfs (opened i r st) = fail 0 (sys_vfs st)"
  by (simp_all add: opened_def)

lemma descr_set_fd:
  assumes "i < OPEN_MAX" "length (p_fd (cur_proc st)) = OPEN_MAX"
  shows "descr fd (set_fd (int i) d st) = (if fd = int i then d else descr fd st)"
  using assms by (auto simp: descr_def fd_entry_def cur_proc_def nth_list_update)

lemma fd_entry_fail [simp]: "fd_entry fd (sys_fail e st) = fd_entry fd st"
  by (simp add: fd_entry_def)

lemma close_step:
  assumes "fd_entry fd (usys u) = Some (Some d)"
  shows "unistd_close fd u = Done 0 (u\<lparr>usys := set_fd fd None (sys_fail 0 (usys u))\<rparr>)"
  unfolding unistd_close_def using assms by (intro do_syscall_Returns) (simp_all add: Syscall_close_def)

end
