(* ===== verification/Programs.thy ===== *)
theory Programs
  imports Libc_Dirent
begin

text \<open>
  User programs: \<open>programs/cat\<close>, \<open>ls\<close>, \<open>echo\<close>, \<open>clear\<close>, \<open>true\<close> and \<open>false\<close> over the C library and the system calls.  A loop of a
  program need not end (the files are on the terminal, say), so a program returns an option; \<open>None\<close> is a
  program that runs forever.
\<close>

section \<open>Definitions\<close>

type_synonym ('a, 'u) run = "'u \<Rightarrow> ('a, 'u) uret option"

definition once :: "('u \<Rightarrow> ('a, 'u) uret) \<Rightarrow> ('a, 'u) run" where
  "once m u = Some (m u)"

definition lbind :: "('a, 'u) run \<Rightarrow> ('a \<Rightarrow> ('b, 'u) run) \<Rightarrow> ('b, 'u) run" where
  "lbind m k u =
     (case m u of
        Some (Done x u) \<Rightarrow> k x u
      | Some (Waits u) \<Rightarrow> Some (Waits u) | Some (Gone u) \<Rightarrow> Some (Gone u) | Some Crash \<Rightarrow> Some Crash
      | None \<Rightarrow> None)"

lemma lbind_mono [partial_function_mono]:
  assumes "\<And>x u. mono_option (\<lambda>f. k f x u)"
  shows "mono_option (\<lambda>f. lbind m (k f) u)"
  using assms by (auto simp: monotone_def lbind_def flat_ord_def split: option.splits uret.splits)

subsection \<open>cat\<close>

record cat_prog = prog +
  failed :: bool

type_synonym 'a cat_run = "('a, cat_prog) run"

definition set_failed :: "unit cat_run" where
  "set_failed u = Some (Done () (u\<lparr>failed := True\<rparr>))"

partial_function (option) cat_loop :: "allocator \<Rightarrow> int \<Rightarrow> unit cat_run" where
  "cat_loop E fd u =
     lbind (once (unistd_read fd 1)) (\<lambda>(readSize, buffer) u.
       if readSize < 0 then lbind (once (perror E (Some (bytes ''read'')))) (\<lambda>_. set_failed) u
       else if readSize = 0 then Some (Done () u)
       else lbind (once (unistd_write E 1 buffer)) (\<lambda>writtenSize u.
         if writtenSize < 0 then lbind (once (perror E (Some (bytes ''write'')))) (\<lambda>_ u. cat_loop E fd u) u
         else cat_loop E fd u) u) u"

definition cat_fd :: "allocator \<Rightarrow> int \<Rightarrow> unit cat_run" where
  "cat_fd E fd =
     lbind (cat_loop E fd) (\<lambda>_. if fd \<noteq> 0 then lbind (once (unistd_close fd)) (\<lambda>_. once (ureturn ())) else once (ureturn ()))"

definition cat :: "allocator \<Rightarrow> byte list \<Rightarrow> unit cat_run" where
  "cat E path =
     (if path = bytes ''-'' then cat_fd E 0
      else lbind (once (fcntl_open E path O_RDONLY 0)) (\<lambda>fd.
        if fd < 0 then lbind (once (perror E (Some (bytes ''open'')))) (\<lambda>_. set_failed) else cat_fd E fd))"

fun cat_args :: "allocator \<Rightarrow> byte list list \<Rightarrow> unit cat_run" where
  "cat_args E [] = once (ureturn ())"
| "cat_args E (path # paths) = lbind (cat E path) (\<lambda>_. cat_args E paths)"

definition cat_main :: "allocator \<Rightarrow> byte list list \<Rightarrow> int cat_run" where
  "cat_main E argv =
     lbind (if length argv \<ge> 2 then cat_args E (tl argv) else cat E (bytes ''-'')) (\<lambda>_ u. Some (Done (if failed u then 1 else 0) u))"

subsection \<open>ls\<close>

partial_function (option) list_loop ::
  "allocator \<Rightarrow> (nat \<Rightarrow> bool) \<Rightarrow> (nat \<Rightarrow> u32) \<Rightarrow> DIR \<Rightarrow> (DIR, 'x prog_scheme) run" where
  "list_loop E H G dir u =
     lbind (once (readdir H G dir)) (\<lambda>(entry, dir) u.
       case entry of
         None \<Rightarrow> Some (Done dir u)
       | Some None \<Rightarrow> Some Crash
       | Some (Some entry) \<Rightarrow>
           lbind (if d_name entry \<noteq> bytes ''.'' \<and> d_name entry \<noteq> bytes ''..'' then once (ubind (puts E (d_name entry)) (\<lambda>_. ureturn ()))
             else once (ureturn ())) (\<lambda>_ u. list_loop E H G dir u) u) u"

definition listDirectory :: "allocator \<Rightarrow> (nat \<Rightarrow> bool) \<Rightarrow> (nat \<Rightarrow> u32) \<Rightarrow> byte list \<Rightarrow> (unit, 'x prog_scheme) run" where
  "listDirectory E H G path =
     lbind (once (opendir E H path)) (\<lambda>dir.
       case dir of
         None \<Rightarrow> once (perror E (Some (bytes ''open directory'')))
       | Some dir \<Rightarrow> lbind (list_loop E H G dir) (\<lambda>dir. lbind (once (closedir dir)) (\<lambda>_. once (ureturn ()))))"

fun ls_args :: "allocator \<Rightarrow> (nat \<Rightarrow> bool) \<Rightarrow> (nat \<Rightarrow> u32) \<Rightarrow> byte list list \<Rightarrow> (unit, 'x prog_scheme) run" where
  "ls_args E H G [] = once (ureturn ())"
| "ls_args E H G (path # paths) =
     lbind (once (libc_stat E path)) (\<lambda>(r, st).
       lbind (case st of
           Some st \<Rightarrow>
             if r < 0 then once (perror E (Some (bytes ''stat'')))
             else if S_ISDIR (st_mode st) then listDirectory E H G path
             else once (ubind (puts E path) (\<lambda>_. ureturn ()))
         | None \<Rightarrow> once (perror E (Some (bytes ''stat'')))) (\<lambda>_. ls_args E H G paths))"

definition ls_main :: "allocator \<Rightarrow> (nat \<Rightarrow> bool) \<Rightarrow> (nat \<Rightarrow> u32) \<Rightarrow> byte list list \<Rightarrow> (int, 'x prog_scheme) run" where
  "ls_main E H G argv =
     lbind (if length argv \<le> 1 then listDirectory E H G (bytes ''.'') else once (ureturn ())) (\<lambda>_.
       lbind (ls_args E H G (tl argv)) (\<lambda>_. once (ureturn 0)))"

subsection \<open>true and false\<close>

definition true_main :: "int" where "true_main = 0"
definition false_main :: "int" where "false_main = 1"

subsection \<open>echo and clear\<close>

text \<open>The arguments of \<open>echo\<close> are addresses of strings in memory.  The condition \<open>i < argc\<close> in front of the second \<open>printf\<close> always holds.\<close>

fun echo_args :: "allocator \<Rightarrow> mem \<Rightarrow> u32 list \<Rightarrow> (mem, 'x) pcmd" where
  "echo_args E m [] = ureturn m"
| "echo_args E m (arg # args) =
     ubind (printf E m (bytes ''%s'') [arg]) (\<lambda>(_, m). ubind (printf E m [32] []) (\<lambda>(_, m). echo_args E m args))"

definition echo_main :: "allocator \<Rightarrow> mem \<Rightarrow> u32 list \<Rightarrow> (int, 'x) pcmd" where
  "echo_main E m argv = ubind (echo_args E m (tl argv)) (\<lambda>_. ureturn 0)"

definition clear_main :: "allocator \<Rightarrow> mem \<Rightarrow> (int, 'x) pcmd" where
  "clear_main E m = ubind (printf E m (27 # bytes ''[2J'' @ 27 # bytes ''[H'') []) (\<lambda>_. ureturn 0)"

section \<open>What the screen shows\<close>

text \<open>
  Two states that look the same, apart from the screen, have the same descriptors and files: what is known of
  a state can be read off its view.
\<close>

lemma screen_view_fail [simp]: "screen_view (sys_fail e st) = screen_view st"
  by (simp add: screen_view_def set_vga_def sys_fail_with_vfs with_vfs_def fail_def)

lemma is_terminal_fail [simp]: "is_terminal fd (sys_fail e st) \<longleftrightarrow> is_terminal fd st"
  by (simp add: is_terminal_def split: option.split)

lemma set_vga_transparent [simp]:
  "descr fd (set_vga g st) = descr fd st" "fd_entry fd (set_vga g st) = fd_entry fd st" "getRootFd fd path (set_vga g st) = getRootFd fd path st"
  "cur_proc (set_vga g st) = cur_proc st" "object (sys_vfs (set_vga g st)) r = object (sys_vfs st) r"
  by (simp_all add: set_vga_def fd_entry_def cur_proc_def getRootFd_def)

lemma set_vga_at [simp]:
  "file_at i r data pos (set_vga g st) \<longleftrightarrow> file_at i r data pos st" "dir_at fd r es p (set_vga g st) \<longleftrightarrow> dir_at fd r es p st"
  by (simp_all add: file_at_def dir_at_def)

lemma set_vga_set_fd: "set_vga g (set_fd fd d st) = set_fd fd d (set_vga g st)"
  by (simp add: set_vga_def set_fd_def set_proc_def with_vfs_def)

lemma screen_put_Nil [simp]: "screen_put [] (screen_view st) = screen_view st"
  by (simp add: screen_put_view) (simp add: screen_view_def)

lemma view_set_fd [simp]: "screen_view (set_fd fd d st) = set_fd fd d (screen_view st)" "screen_put bs (set_fd fd d st) = set_fd fd d (screen_put bs st)"
  by (simp_all add: screen_view_def screen_put_def set_vga_set_fd)

lemma resolvePath_vga:
  assumes "vfs_ok (sys_vfs st)" "r < vn_fresh (sys_vfs st)"
  shows "fst (resolvePath E r path (sys_vfs (set_vga g st))) = Some c \<longleftrightarrow> fst (resolvePath E r path (sys_vfs st)) = Some c"
proof -
  have "vfs_le (sys_vfs st) (sys_vfs (set_vga g st))" "vfs_le (sys_vfs (set_vga g st)) (sys_vfs st)" by (simp_all add: vfs_le_def set_vga_def)
  moreover have "vfs_ok (sys_vfs (set_vga g st))" "r < vn_fresh (sys_vfs (set_vga g st))" using assms by (simp_all add: set_vga_def vfs_ok_def)
  ultimately show ?thesis using resolvePath_some(3) assms by (metis fst_conv prod.collapse)
qed

lemma sys_ok_vga [simp]: "sys_ok tty (set_vga g st) \<longleftrightarrow> sys_ok tty st"
  by (simp add: sys_ok_def set_vga_def vfs_ok_def table_ok_def desc_ok_def cong: option.case_cong)

text \<open>Hence a property that the screen does not matter for carries over between states with views that differ on the screen only.\<close>

lemma view_cong:
  assumes "screen_view st' = screen_put bs (screen_view st)" "\<And>g st. P (set_vga g st) \<longleftrightarrow> P st"
  shows "P st' \<longleftrightarrow> P st"
  using assms by (metis screen_view_def screen_put_view)

section \<open>cat\<close>

lemma put_file_view:
  assumes "file_at i r data pos st"
  shows "screen_view (put_file i r data pos' st) = set_fd (int i) (Some \<lparr>fd_vnode = r, fd_offset = int pos'\<rparr>) (screen_view st)"
proof -
  have "set_object r (FileVnode data) (fail 0 (sys_vfs st)) = fail 0 (sys_vfs st)" using assms by (simp add: set_object_same file_at_def)
  then show ?thesis unfolding put_file_def sys_fail_with_vfs [symmetric] by (simp add: sys_fail_with_vfs [symmetric])
qed

lemma set_fd_twice [simp]: "set_fd fd d (set_fd fd d' st) = set_fd fd d st"
  by (simp add: set_fd_def set_proc_def)

text \<open>One byte on its way from a file to the screen.\<close>

lemma cat_byte:
  assumes at: "file_at i r data pos (usys u)" "pos < length data" "length data < 2 ^ 31" and t: "is_terminal 1 (usys u)" and i: "i \<noteq> 1"
  shows "\<exists>st'. cat_loop E (int i) u = cat_loop E (int i) (u\<lparr>usys := st'\<rparr>) \<and> file_at i r data (pos + 1) st' \<and> is_terminal 1 st' \<and>
    screen_view st' = screen_put [data ! pos] (set_fd (int i) (Some \<lparr>fd_vnode = r, fd_offset = int (pos + 1)\<rparr>) (screen_view (usys u)))"
proof -
  let ?st1 = "put_file i r data (pos + 1) (usys u)"
  have one: "take (unat (1 :: u32)) (drop pos data) = [data ! pos]" using at(2) by (simp add: take_Suc_conv_app_nth Cons_nth_drop_Suc [symmetric])
  have "Syscall_read (int i) 1 (sys_fail 0 (usys u)) = Returns (1, [data ! pos]) ?st1"
    using read_file [OF at(1) less_imp_le [OF at(2)] at(3), of 1] unfolding one by simp
  moreover have "verrno (sys_vfs ?st1) = 0" by (simp add: put_file_def set_object_def)
  ultimately have rd: "unistd_read (int i) 1 u = Done (1, [data ! pos]) (u\<lparr>usys := ?st1\<rparr>)"
    unfolding unistd_read_def by (rule do_syscall_Returns)
  have "descr 1 ?st1 = descr 1 (usys u)"
    using at(1) i by (simp add: put_file_def descr_set_fd file_at_def descr_def fd_entry_def cur_proc_def)
  then have t1: "is_terminal 1 ?st1" using t at(1)
    by (auto simp: is_terminal_def put_file_def object_set file_at_def split: option.splits)
  from terminal_dest.write_step [where fd = 1 and bs = "[data ! pos]" and u = "u\<lparr>usys := ?st1\<rparr>" and E = E] t1 obtain st' where
    st': "unistd_write E 1 [data ! pos] (u\<lparr>usys := ?st1\<rparr>) = Done 1 (u\<lparr>usys := st'\<rparr>)" "is_terminal 1 st'"
      "screen_view st' = screen_put [data ! pos] (screen_view ?st1)" by auto
  have "cat_loop E (int i) u = cat_loop E (int i) (u\<lparr>usys := st'\<rparr>)"
    using rd st'(1) by (subst cat_loop.simps) (simp add: lbind_def once_def)
  moreover have "file_at i r data (pos + 1) st'"
    using view_cong [OF st'(3), of "file_at i r data (pos + 1)"] file_at_put [OF at(1)] by simp
  ultimately show ?thesis using st' put_file_view [OF at(1)] by metis
qed

lemma cat_loop_file:
  assumes "file_at i r data pos (usys u)" "pos \<le> length data" "length data < 2 ^ 31" "is_terminal 1 (usys u)" "i \<noteq> 1"
  shows "\<exists>st'. cat_loop E (int i) u = Some (Done () (u\<lparr>usys := st'\<rparr>)) \<and> file_at i r data (length data) st' \<and> is_terminal 1 st' \<and>
    screen_view st' = set_fd (int i) (Some \<lparr>fd_vnode = r, fd_offset = int (length data)\<rparr>) (screen_put (drop pos data) (screen_view (usys u)))"
  using assms
proof (induction "length data - pos" arbitrary: pos u)
  case 0
  then have pos: "pos = length data" by simp
  let ?st1 = "put_file i r data pos (usys u)"
  have "verrno (sys_vfs ?st1) = 0" by (simp add: put_file_def set_object_def)
  then have "unistd_read (int i) 1 u = Done (0, []) (u\<lparr>usys := ?st1\<rparr>)"
    unfolding unistd_read_def using read_file [OF 0(2-4), of 1] pos by (intro do_syscall_Returns) simp_all
  then have "cat_loop E (int i) u = Some (Done () (u\<lparr>usys := ?st1\<rparr>))" by (subst cat_loop.simps) (simp add: lbind_def once_def)
  moreover have "?st1 = sys_fail 0 (usys u)" by (rule put_file_same [OF 0(2)])
  ultimately show ?case using put_file_view [OF 0(2), of pos] 0 pos
    by (intro exI [of _ ?st1]) simp
next
  case (Suc n)
  then have less: "pos < length data" by simp
  from cat_byte [OF Suc.prems(1) less Suc.prems(3-5), of E] obtain st1 where
    st1: "cat_loop E (int i) u = cat_loop E (int i) (u\<lparr>usys := st1\<rparr>)" "file_at i r data (pos + 1) st1" "is_terminal 1 st1"
      "screen_view st1 = screen_put [data ! pos] (set_fd (int i) (Some \<lparr>fd_vnode = r, fd_offset = int (pos + 1)\<rparr>) (screen_view (usys u)))" by blast
  have "n = length data - (pos + 1)" using Suc.hyps(2) by linarith
  from Suc.hyps(1) [OF this, of "u\<lparr>usys := st1\<rparr>"] Suc.prems(3, 5) st1(2, 3) less obtain st' where
    st': "cat_loop E (int i) (u\<lparr>usys := st1\<rparr>) = Some (Done () (u\<lparr>usys := st'\<rparr>))" "file_at i r data (length data) st'" "is_terminal 1 st'"
      "screen_view st' = set_fd (int i) (Some \<lparr>fd_vnode = r, fd_offset = int (length data)\<rparr>) (screen_put (drop (pos + 1) data) (screen_view st1))"
    by auto
  have "screen_put (b # bs) (screen_view (usys u)) = screen_put bs (screen_put [b] (screen_view (usys u)))" for b bs
    unfolding screen_put_view by (simp add: screen_put_def comp_def)
  moreover have "drop pos data = data ! pos # drop (pos + 1) data" using less by (simp add: Cons_nth_drop_Suc)
  ultimately have "screen_put (drop pos data) (screen_view (usys u)) = screen_put (drop (pos + 1) data) (screen_put [data ! pos] (screen_view (usys u)))" by metis
  with st' st1(1, 4) show ?case by (intro exI [of _ st'] conjI) (simp_all only: view_set_fd set_fd_twice)
qed

text \<open>A path of the current directory or an absolute one leads to a file.\<close>

definition names_file :: "allocator \<Rightarrow> sys \<Rightarrow> byte list \<Rightarrow> byte list \<Rightarrow> bool" where
  "names_file E st path data \<longleftrightarrow> path \<noteq> bytes ''-'' \<and> length data < 2 ^ 31 \<and>
     (\<exists>f r. getRootFd AT_FDCWD path st = Some f \<and> fst (resolvePath E (fd_vnode f) path (sys_vfs st)) = Some r \<and>
        object (sys_vfs st) r = FileVnode data)"

lemma names_file_vga:
  assumes "sys_ok tty st"
  shows "names_file E (set_vga g st) path data \<longleftrightarrow> names_file E st path data"
  using resolvePath_vga [OF sys_okD(1) [OF assms]] getRootFd_ok [OF assms] unfolding names_file_def
  by (metis set_vga_transparent(3, 5))

text \<open>
  Entry 1 of the table is taken by the terminal, so the file is opened under another number; it is not 0
  either unless the standard input is closed, in which case the descriptor is left open.
\<close>

lemma cat_file:
  assumes ok: "sys_ok tty (usys u)" and n: "names_file E (usys u) path data" and t: "is_terminal 1 (usys u)"
    and free: "None \<in> set (p_fd (cur_proc (usys u)))" and stdin: "descr 0 (usys u) \<noteq> None"
  shows "\<exists>st'. cat E path u = Some (Done () (u\<lparr>usys := st'\<rparr>)) \<and> is_terminal 1 st' \<and> screen_view st' = screen_put data (screen_view (usys u))"
proof -
  let ?st = "usys u"
  from n obtain f r where f: "path \<noteq> bytes ''-''" "getRootFd AT_FDCWD path ?st = Some f" "fst (resolvePath E (fd_vnode f) path (sys_vfs ?st)) = Some r"
    "object (sys_vfs ?st) r = FileVnode data" "length data < 2 ^ 31" by (auto simp: names_file_def simp del: bytes_simps)
  from open_existing [OF ok f(2, 3) flag_bits(3) free, of 0] obtain i where i: "i < OPEN_MAX" "p_fd (cur_proc ?st) ! i = None"
    "Syscall_openat E AT_FDCWD path O_RDONLY 0 (sys_fail 0 ?st) = Returns (int i) (opened i r ?st)" by blast
  have len: "length (p_fd (cur_proc ?st)) = OPEN_MAX" using sys_okD(3) [OF ok] by (simp add: table_ok_def cur_proc_def)
  have "descr (int i) ?st = None" using i(1, 2) by (simp add: descr_def fd_entry_def)
  moreover have "descr 1 ?st \<noteq> None" using t by (auto simp: is_terminal_def split: option.splits)
  ultimately have "int i \<noteq> 0" "int i \<noteq> 1" using stdin by metis+
  then have i01: "i \<noteq> 0" "i \<noteq> 1" by simp_all
  let ?u1 = "u\<lparr>usys := opened i r ?st\<rparr>"
  have op: "fcntl_open E path O_RDONLY 0 u = Done (int i) ?u1"
    unfolding fcntl_open_def openat_def using i(3) flag_bits(4) by (simp add: do_syscall_Returns)
  have at: "file_at i r data 0 (usys ?u1)" using i(1) len f(4) by (simp add: file_at_def opened_def cur_proc_def FileDescription_new_def)
  have "descr 1 (opened i r ?st) = descr 1 ?st" using i01 by (simp add: opened_def descr_def fd_entry_def cur_proc_def)
  then have t1: "is_terminal 1 (usys ?u1)" using t by (auto simp: is_terminal_def split: option.splits)
  from cat_loop_file [OF at _ f(5) t1 i01(2), of E] obtain st1 where
    st1: "cat_loop E (int i) ?u1 = Some (Done () (u\<lparr>usys := st1\<rparr>))" "file_at i r data (length data) st1" "is_terminal 1 st1"
      "screen_view st1 = set_fd (int i) (Some \<lparr>fd_vnode = r, fd_offset = int (length data)\<rparr>) (screen_put data (screen_view (opened i r ?st)))"
    by auto
  let ?st2 = "set_fd (int i) None (sys_fail 0 st1)"
  have "unistd_close (int i) (u\<lparr>usys := st1\<rparr>) = Done 0 (u\<lparr>usys := ?st2\<rparr>)"
    using st1(2) by (simp add: close_step fd_entry_def file_at_def)
  then have "cat E path u = Some (Done () (u\<lparr>usys := ?st2\<rparr>))"
    using f(1) i01 by (simp add: cat_def cat_fd_def lbind_def once_def op st1(1) ureturn_def del: bytes_simps)
  moreover have "is_terminal 1 ?st2"
    using st1(2, 3) i01 by (simp add: is_terminal_def descr_set_fd file_at_def split: option.splits)
  moreover have "(p_fd (cur_proc ?st))[i := None] = p_fd (cur_proc ?st)" using i(2) by (metis list_update_id)
  then have "set_fd (int i) None ?st = ?st" by (simp add: set_fd_def set_proc_def cur_proc_def)
  then have "screen_view ?st2 = screen_put data (screen_view ?st)"
    using st1(4) by (simp add: opened_def) (metis view_set_fd)
  ultimately show ?thesis by blast
qed

lemma cat_args_files:
  assumes "list_all2 (names_file E (usys u)) paths datas" "sys_ok tty (usys u)" "is_terminal 1 (usys u)"
    "None \<in> set (p_fd (cur_proc (usys u)))" "descr 0 (usys u) \<noteq> None"
  shows "\<exists>st'. cat_args E paths u = Some (Done () (u\<lparr>usys := st'\<rparr>)) \<and> screen_view st' = screen_put (concat datas) (screen_view (usys u))"
  using assms
proof (induction paths arbitrary: datas u)
  case Nil
  then show ?case by (auto simp: once_def ureturn_def intro!: exI [of _ "usys u"])
next
  case (Cons path paths)
  then obtain data rest where d: "datas = data # rest" "names_file E (usys u) path data" "list_all2 (names_file E (usys u)) paths rest"
    by (auto simp: list_all2_Cons1)
  from cat_file [OF Cons.prems(2) d(2) Cons.prems(3-5)] obtain st1 where
    st1: "cat E path u = Some (Done () (u\<lparr>usys := st1\<rparr>))" "is_terminal 1 st1" "screen_view st1 = screen_put data (screen_view (usys u))" by blast
  note same = view_cong [OF st1(3)]
  have ok: "sys_ok tty st1" using same [of "sys_ok tty"] Cons.prems(2) by simp
  obtain g where g: "set_vga no_ports st1 = set_vga g (usys u)" using st1(3) unfolding screen_put_view by (simp only: screen_view_def)
  have "names_file E st1 path data = names_file E (usys u) path data" for path data
    using names_file_vga [OF ok, of E no_ports path data] names_file_vga [OF Cons.prems(2), of E g path data] g by simp
  then have "list_all2 (names_file E st1) paths rest" using d(3) by (simp add: list_all2_conv_all_nth)
  moreover have "None \<in> set (p_fd (cur_proc st1))"
    using same [of "\<lambda>st. None \<in> set (p_fd (cur_proc st))"] Cons.prems(4) by simp
  moreover have "descr 0 st1 \<noteq> None" using same [of "\<lambda>st. descr 0 st = None"] Cons.prems(5) by simp
  ultimately obtain st2 where "cat_args E paths (u\<lparr>usys := st1\<rparr>) = Some (Done () (u\<lparr>usys := st2\<rparr>))"
    "screen_view st2 = screen_put (concat rest) (screen_view st1)" using Cons.IH [of "u\<lparr>usys := st1\<rparr>" rest] ok st1(2) by auto
  with st1 d(1) show ?case by (auto simp: lbind_def screen_put_def comp_def)
qed

text \<open>
  C3: \<open>cat\<close> prints the concatenation of its files.  With paths of regular files as its arguments, the terminal as
  standard output and a free descriptor, \<open>cat\<close> ends with status 0, has closed every file again, and apart from
  the port writes of the cursor the system is left as if the bytes of the files had been printed one
  after the other.
\<close>

theorem cat_concatenates:
  assumes "list_all2 (names_file E (usys u)) paths datas" "paths \<noteq> []" "sys_ok tty (usys u)" "is_terminal 1 (usys u)"
    "None \<in> set (p_fd (cur_proc (usys u)))" "descr 0 (usys u) \<noteq> None" "\<not> failed u"
  shows "\<exists>st'. cat_main E (name # paths) u = Some (Done 0 (u\<lparr>usys := st'\<rparr>)) \<and>
    screen_view st' = set_vga (\<lambda>v. fold printCharacter (concat datas) (no_ports v)) (usys u)"
proof -
  from cat_args_files [OF assms(1, 3-6)] obtain st' where "cat_args E paths u = Some (Done () (u\<lparr>usys := st'\<rparr>))"
    "screen_view st' = screen_put (concat datas) (screen_view (usys u))" by blast
  moreover have "length (name # paths) \<ge> 2" using assms(2) by (cases paths) simp_all
  ultimately show ?thesis using assms(7) by (intro exI [of _ st']) (simp add: cat_main_def lbind_def screen_put_view)
qed

definition demo_cat :: cat_prog where
  "demo_cat = \<lparr>usys = usys demo_prog, uerrno = 0, streams = static_streams, stream_fresh = 3, failed = False\<rparr>"

theorem cat_concatenates_witness:
  "\<exists>st'. cat_main demo_allocator [bytes ''cat'', bytes ''/a'', bytes ''../a''] demo_cat = Some (Done 0 (demo_cat\<lparr>usys := st'\<rparr>)) \<and>
    screen_view st' = set_vga (\<lambda>v. fold printCharacter [1, 2, 3, 1, 2, 3] (no_ports v)) (usys demo_prog)"
proof -
  have root: "p_rootFd (cur_proc (usys demo_prog)) = Some (FileDescription_new 0)" "p_cwdFd (cur_proc (usys demo_prog)) = Some (FileDescription_new 1)"
    by (simp_all add: demo_prog_def cur_proc_def demo_sys_simps demo_process_def)
  have "fst (resolvePath demo_allocator (fd_vnode (FileDescription_new 0)) (bytes ''/a'') (sys_vfs (usys demo_prog))) = Some 2"
    "fst (resolvePath demo_allocator (fd_vnode (FileDescription_new 1)) (bytes ''../a'') (sys_vfs (usys demo_prog))) = Some 2"
    unfolding demo_prog_simps by code_simp+
  moreover have "getRootFd AT_FDCWD (bytes ''/a'') (usys demo_prog) = Some (FileDescription_new 0)"
    "getRootFd AT_FDCWD (bytes ''../a'') (usys demo_prog) = Some (FileDescription_new 1)" by (simp_all add: getRootFd_def root)
  moreover have "object (sys_vfs (usys demo_prog)) 2 = FileVnode [1, 2, 3]" using demo_prog_file by (simp add: file_at_def)
  moreover have "bytes ''/a'' \<noteq> bytes ''-''" "bytes ''../a'' \<noteq> bytes ''-''" by simp_all
  ultimately have "list_all2 (names_file demo_allocator (usys demo_cat)) [bytes ''/a'', bytes ''../a''] [[1, 2, 3], [1, 2, 3]]"
    unfolding names_file_def demo_cat_def by (simp del: bytes_simps)
  moreover have "None \<in> set (p_fd (cur_proc (usys demo_cat)))" by (simp add: demo_cat_def demo_prog_simps OPEN_MAX_def numeral_eq_Suc)
  moreover have "descr 0 (usys demo_cat) \<noteq> None" by (simp add: demo_cat_def descr_def fd_entry_def demo_prog_simps OPEN_MAX_def)
  ultimately show ?thesis
    using cat_concatenates [of demo_allocator demo_cat "[bytes ''/a'', bytes ''../a'']" "[[1, 2, 3], [1, 2, 3]]" 2 "bytes ''cat''"]
      demo_prog_ok demo_prog_terminal by (simp add: demo_cat_def del: bytes_simps)
qed

section \<open>ls\<close>

context destination
begin

lemma puts_loop_puts:
  assumes "streams u stdout = Some f" "file_fd f = fd" "room (length s + n) (usys u)"
  shows "\<exists>st'. puts_loop E s u = Done () (u\<lparr>usys := st'\<rparr>) \<and> room n st' \<and> view st' = put s (view (usys u))"
  using assms
proof (induction s arbitrary: u)
  case Nil
  then show ?case using put_Nil [of n "usys u"] by (auto simp: ureturn_def intro!: exI [of _ "usys u"])
next
  case (Cons c s)
  from fputc_step [of u stdout f "length s + n" "sint c"] Cons.prems obtain st1 where
    st1: "putchar E (sint c) u = Done (sint c) (u\<lparr>usys := st1\<rparr>)" "room (length s + n) st1" "view st1 = put [c] (view (usys u))"
    by (auto simp: putchar_def putc_def)
  from Cons.IH [of "u\<lparr>usys := st1\<rparr>"] st1(2) Cons.prems obtain st2 where
    "puts_loop E s (u\<lparr>usys := st1\<rparr>) = Done () (u\<lparr>usys := st2\<rparr>)" "room n st2" "view st2 = put s (view st1)" by auto
  moreover have "put (c # s) (view (usys u)) = put s (put [c] (view (usys u)))"
    using room_mono [OF Cons.prems(3), of "length s + 1"] by (simp add: put_Cons)
  ultimately show ?case using st1 by (auto simp: ubind_def)
qed

lemma puts_puts:
  assumes "streams u stdout = Some f" "file_fd f = fd" "room (length s + 1 + n) (usys u)"
  shows "\<exists>st'. puts E s u = Done 1 (u\<lparr>usys := st'\<rparr>) \<and> room n st' \<and> view st' = put (s @ [10]) (view (usys u))"
proof -
  from puts_loop_puts [of u f s "1 + n"] assms obtain st1 where
    st1: "puts_loop E s u = Done () (u\<lparr>usys := st1\<rparr>)" "room (1 + n) st1" "view st1 = put s (view (usys u))" by (auto simp: ac_simps)
  from fputc_step [of "u\<lparr>usys := st1\<rparr>" stdout f n 10] st1(2) assms(1, 2) obtain st2 where
    "putchar E 10 (u\<lparr>usys := st1\<rparr>) = Done 10 (u\<lparr>usys := st2\<rparr>)" "room n st2" "view st2 = put [10] (view st1)"
    by (auto simp: putchar_def putc_def ac_simps)
  moreover have "put (s @ [10]) (view (usys u)) = put [10] (put s (view (usys u)))"
    using put_append [of s "[10]" "usys u"] room_mono [OF assms(3), of "length s + 1"] by simp
  ultimately show ?thesis using st1 by (auto simp: puts_def ubind_def ureturn_def)
qed

end

text \<open>The lines for some entries.\<close>

definition visible :: "byte list \<Rightarrow> bool" where
  "visible name \<longleftrightarrow> name \<noteq> bytes ''.'' \<and> name \<noteq> bytes ''..''"

definition ls_lines :: "(byte list \<times> vref) list \<Rightarrow> byte list" where
  "ls_lines es = concat (map (\<lambda>name. name @ [10]) (filter visible (map fst es)))"

lemma ls_lines_simps [simp]: "ls_lines [] = []" "ls_lines (e # es) = (if visible (fst e) then fst e @ [10] else []) @ ls_lines es"
  by (simp_all add: ls_lines_def)

definition dir_open :: "DIR \<Rightarrow> vref \<Rightarrow> (byte list \<times> vref) list \<Rightarrow> vref option \<Rightarrow> nat \<Rightarrow> 'x prog_scheme \<Rightarrow> bool" where
  "dir_open dir r es p k u \<longleftrightarrow> dir_at (dir_fd dir) r es p (usys u) \<and> dir_offset dir = w32 k \<and>
     is_terminal 1 (usys u) \<and> (\<exists>f. streams u stdout = Some f \<and> file_fd f = 1)"

lemma list_loop_entry:
  assumes op: "dir_open dir r es p k u" and H: "\<forall>n. H n" and es: "length es < 2 ^ 31" "\<forall>e \<in> set (all_entries r es p). length (fst e) < 2 ^ 30"
    and k: "k < length (all_entries r es p)" "all_entries r es p ! k = e"
  shows "\<exists>dir' st'. list_loop E H G dir u = list_loop E H G dir' (u\<lparr>usys := st'\<rparr>) \<and> dir_open dir' r es p (Suc k) (u\<lparr>usys := st'\<rparr>) \<and>
    dir_fd dir' = dir_fd dir \<and> screen_view st' = screen_put (if visible (fst e) then fst e @ [10] else []) (screen_view (usys u))"
proof -
  from op obtain f where f: "dir_at (dir_fd dir) r es p (usys u)" "dir_offset dir = w32 k" "is_terminal 1 (usys u)" "streams u stdout = Some f" "file_fd f = 1"
    by (auto simp: dir_open_def)
  let ?u1 = "u\<lparr>usys := sys_fail 0 (usys u)\<rparr>"
  have "length (fst e) < 2 ^ 30" using es(2) k nth_mem by metis
  from readdir_entry [OF f(1, 2) es(1) H k this, of G] obtain sz b where
    rd: "readdir H G dir u = Done (Some (Some (dirent_of (sys_vfs (usys u)) sz e)), dir\<lparr>dir_dirent := Some b, dir_offset := w32 (Suc k)\<rparr>) ?u1" by blast
  let ?dir' = "dir\<lparr>dir_dirent := Some b, dir_offset := w32 (Suc k)\<rparr>"
  have name: "d_name (dirent_of (sys_vfs (usys u)) sz e) = fst e" by (simp add: dirent_of_def)
  have step: "list_loop E H G dir u = lbind (if visible (fst e) then once (ubind (puts E (fst e)) (\<lambda>_. ureturn ())) else once (ureturn ()))
      (\<lambda>_. list_loop E H G ?dir') ?u1"
    by (subst list_loop.simps) (simp add: lbind_def once_def rd name visible_def del: bytes_simps)
  show ?thesis
  proof (cases "visible (fst e)")
    case False
    then show ?thesis using step f
      by (intro exI [of _ ?dir'] exI [of _ "sys_fail 0 (usys u)"]) (simp add: lbind_def once_def ureturn_def dir_open_def)
  next
    case True
    from terminal_dest.puts_puts [where u = ?u1 and f = f and fd = 1 and s = "fst e" and E = E] f obtain st2 where
      st2: "puts E (fst e) ?u1 = Done 1 (u\<lparr>usys := st2\<rparr>)" "is_terminal 1 st2" "screen_view st2 = screen_put (fst e @ [10]) (screen_view (usys u))" by auto
    have "dir_at (dir_fd dir) r es p st2" using view_cong [OF st2(3), of "dir_at (dir_fd dir) r es p"] f(1) by simp
    with True step st2 f show ?thesis
      by (intro exI [of _ ?dir'] exI [of _ st2]) (simp add: lbind_def once_def ubind_def ureturn_def dir_open_def)
  qed
qed

lemma list_loop_lists:
  assumes "dir_open dir r es p k u" "\<forall>n. H n" "length es < 2 ^ 31" "\<forall>e \<in> set (all_entries r es p). length (fst e) < 2 ^ 30"
    "k \<le> length (all_entries r es p)"
  shows "\<exists>dir' st'. list_loop E H G dir u = Some (Done dir' (u\<lparr>usys := st'\<rparr>)) \<and> dir_at (dir_fd dir') r es p st' \<and> is_terminal 1 st' \<and>
    dir_fd dir' = dir_fd dir \<and> screen_view st' = screen_put (ls_lines (drop k (all_entries r es p))) (screen_view (usys u))"
  using assms
proof (induction "length (all_entries r es p) - k" arbitrary: k dir u)
  case 0
  then have "k = length es + 2" by (simp add: all_entries_def)
  with 0(2) readdir_end [of dir r es p u H G] 0(3, 4) obtain b where
    "readdir H G dir u = Done (None, dir\<lparr>dir_dirent := Some b\<rparr>) (u\<lparr>usys := sys_fail 0 (usys u)\<rparr>)" by (auto simp: dir_open_def)
  then have "list_loop E H G dir u = Some (Done (dir\<lparr>dir_dirent := Some b\<rparr>) (u\<lparr>usys := sys_fail 0 (usys u)\<rparr>))"
    by (subst list_loop.simps) (simp add: lbind_def once_def)
  moreover have "drop k (all_entries r es p) = []" using 0(1) by simp
  ultimately show ?case using 0(2) by (intro exI [of _ "dir\<lparr>dir_dirent := Some b\<rparr>"] exI [of _ "sys_fail 0 (usys u)"]) (simp add: dir_open_def)
next
  case (Suc n)
  then have less: "k < length (all_entries r es p)" by linarith
  from list_loop_entry [OF Suc.prems(1-4) less refl, of E G] obtain dir1 st1 where
    st1: "list_loop E H G dir u = list_loop E H G dir1 (u\<lparr>usys := st1\<rparr>)" "dir_open dir1 r es p (Suc k) (u\<lparr>usys := st1\<rparr>)" "dir_fd dir1 = dir_fd dir"
      "screen_view st1 = screen_put (if visible (fst (all_entries r es p ! k)) then fst (all_entries r es p ! k) @ [10] else []) (screen_view (usys u))" by blast
  have "n = length (all_entries r es p) - Suc k" using Suc.hyps(2) by linarith
  from Suc.hyps(1) [OF this st1(2) Suc.prems(2-4)] less obtain dir' st' where
    st': "list_loop E H G dir1 (u\<lparr>usys := st1\<rparr>) = Some (Done dir' (u\<lparr>usys := st'\<rparr>))" "dir_at (dir_fd dir') r es p st'" "is_terminal 1 st'"
      "dir_fd dir' = dir_fd dir1" "screen_view st' = screen_put (ls_lines (drop (Suc k) (all_entries r es p))) (screen_view st1)" by auto
  have "screen_put (as @ bs) st = screen_put bs (screen_put as st)" for as bs st by (simp add: screen_put_def comp_def)
  then have "screen_view st' = screen_put (ls_lines (drop k (all_entries r es p))) (screen_view (usys u))"
    using st'(5) st1(4) less by (simp only: Cons_nth_drop_Suc [symmetric] ls_lines_simps)
  with st' st1 show ?case by auto
qed

definition names_dir :: "allocator \<Rightarrow> sys \<Rightarrow> byte list \<Rightarrow> vref \<Rightarrow> (byte list \<times> vref) list \<Rightarrow> bool" where
  "names_dir E st path r es \<longleftrightarrow> length es < 2 ^ 31 \<and> (\<forall>e \<in> set es. length (fst e) < 2 ^ 30) \<and>
     (\<exists>f p. getRootFd AT_FDCWD path st = Some f \<and> fst (resolvePath E (fd_vnode f) path (sys_vfs st)) = Some r \<and>
        object (sys_vfs st) r = DirectoryVnode es p)"

lemma dir_flags: "(O_DIRECTORY OR O_SEARCH) AND O_TRUNC = 0" "(O_DIRECTORY OR O_SEARCH) AND O_CREAT = 0"
  by code_simp+

lemma listDirectory_lists:
  assumes ok: "sys_ok tty (usys u)" and n: "names_dir E (usys u) path r es" and t: "is_terminal 1 (usys u)" and H: "\<forall>n. H n"
    and free: "None \<in> set (p_fd (cur_proc (usys u)))" and out: "streams u stdout = Some f" "file_fd f = 1"
  shows "\<exists>st'. listDirectory E H G path u = Some (Done () (u\<lparr>usys := st'\<rparr>)) \<and> screen_view st' = screen_put (ls_lines es) (screen_view (usys u))"
proof -
  let ?st = "usys u"
  from n obtain d p where d: "getRootFd AT_FDCWD path ?st = Some d" "fst (resolvePath E (fd_vnode d) path (sys_vfs ?st)) = Some r"
    "object (sys_vfs ?st) r = DirectoryVnode es p" "length es < 2 ^ 31" "\<forall>e \<in> set es. length (fst e) < 2 ^ 30" by (auto simp: names_dir_def)
  from open_existing [OF ok d(1, 2) dir_flags(1) free, of 0] obtain i where i: "i < OPEN_MAX" "p_fd (cur_proc ?st) ! i = None"
    "Syscall_openat E AT_FDCWD path (O_DIRECTORY OR O_SEARCH) 0 (sys_fail 0 ?st) = Returns (int i) (opened i r ?st)" by blast
  have len: "length (p_fd (cur_proc ?st)) = OPEN_MAX" using sys_okD(3) [OF ok] by (simp add: table_ok_def cur_proc_def)
  let ?u1 = "u\<lparr>usys := opened i r ?st\<rparr>" and ?dir = "\<lparr>dir_fd = int i, dir_dirent = None, dir_offset = 0\<rparr>"
  have op: "opendir E H path u = Done (Some ?dir) ?u1"
    using i(3) dir_flags(2) spec [OF H, of 12] by (simp add: opendir_def fcntl_open_def openat_def do_syscall_Returns ubind_def fdopendir_def ureturn_def)
  have "descr (int i) ?st = None" using i(1, 2) by (simp add: descr_def fd_entry_def)
  then have i1: "int i \<noteq> 1" using t by (auto simp: is_terminal_def)
  have new: "descr fd (opened i r ?st) = (if fd = int i then Some (FileDescription_new r) else descr fd ?st)" for fd
    unfolding opened_def using i(1) len by (subst descr_set_fd) simp_all
  have "dir_open ?dir r es p 0 ?u1"
    using new d(3) t i1 out by (auto simp: dir_open_def dir_at_def is_terminal_def FileDescription_new_def w32_def split: option.splits)
  moreover have "\<forall>e \<in> set (all_entries r es p). length (fst e) < 2 ^ 30" using d(5) by (simp add: all_entries_def)
  ultimately obtain dir' st1 where
    st1: "list_loop E H G ?dir ?u1 = Some (Done dir' (u\<lparr>usys := st1\<rparr>))" "dir_fd dir' = int i"
      "screen_view st1 = screen_put (ls_lines (all_entries r es p)) (screen_view (opened i r ?st))"
    using list_loop_lists [of ?dir r es p 0 ?u1 H E G] d(4) H by auto
  let ?st2 = "set_fd (int i) None (sys_fail 0 st1)"
  have "fd_entry (int i) (opened i r ?st) = Some (Some (FileDescription_new r))" using i(1) len by (simp add: opened_def fd_entry_def cur_proc_def)
  then have "fd_entry (int i) st1 = Some (Some (FileDescription_new r))"
    using view_cong [OF st1(3), of "\<lambda>st. fd_entry (int i) st = Some (Some (FileDescription_new r))"] by simp
  then have "unistd_close (int i) (u\<lparr>usys := st1\<rparr>) = Done 0 (u\<lparr>usys := ?st2\<rparr>)"
    by (simp add: close_step)
  then have "listDirectory E H G path u = Some (Done () (u\<lparr>usys := ?st2\<rparr>))"
    using st1(2) by (simp add: listDirectory_def lbind_def once_def op st1(1) closedir_def ubind_def ureturn_def)
  moreover have "(p_fd (cur_proc ?st))[i := None] = p_fd (cur_proc ?st)" using i(2) by (metis list_update_id)
  then have "set_fd (int i) None ?st = ?st" by (simp add: set_fd_def set_proc_def cur_proc_def)
  moreover have "ls_lines (all_entries r es p) = ls_lines es" by (simp add: all_entries_def visible_def)
  ultimately show ?thesis using st1(3) by (intro exI [of _ ?st2]) (simp add: opened_def, metis view_set_fd)
qed

text \<open>Asking for the status of a path that exists.\<close>

lemma stat_existing:
  assumes ok: "sys_ok tty (usys u)" and f: "getRootFd AT_FDCWD path (usys u) = Some f"
    and r: "fst (resolvePath E (fd_vnode f) path (sys_vfs (usys u))) = Some r"
  shows "libc_stat E path u = Done (0, Some (Vnode_stat r (fail 0 (sys_vfs (usys u))))) (u\<lparr>usys := sys_fail 0 (usys u)\<rparr>)"
    and "S_ISDIR (vn_mode (vnodes (sys_vfs (usys u)) r)) \<longleftrightarrow> is_dir (object (sys_vfs (usys u)) r)"
proof -
  note v = sys_okD(1) [OF ok] getRootFd_ok [OF ok f]
  show "libc_stat E path u = Done (0, Some (Vnode_stat r (fail 0 (sys_vfs (usys u))))) (u\<lparr>usys := sys_fail 0 (usys u)\<rparr>)"
    unfolding libc_stat_def fstatat_def using f resolvePath_fail [OF v r]
    by (intro do_syscall_Returns) (simp_all add: Syscall_fstatat_def sys_fail_with_vfs [symmetric])
  have "r < vn_fresh (sys_vfs (usys u))" using resolvePath_some(2) [OF v] r by (metis prod.collapse)
  then show "S_ISDIR (vn_mode (vnodes (sys_vfs (usys u)) r)) \<longleftrightarrow> is_dir (object (sys_vfs (usys u)) r)" using v(1) by (simp add: vfs_ok_def)
qed

lemma names_dir_fail:
  assumes "sys_ok tty st" "names_dir E st path r es"
  shows "names_dir E (sys_fail e st) path r es"
proof -
  have "getRootFd fd path (sys_fail e st) = getRootFd fd path st" for fd by (simp add: getRootFd_def)
  moreover have "fst (resolvePath E (fd_vnode f) path (fail e (sys_vfs st))) = Some r"
    if "getRootFd AT_FDCWD path st = Some f" "fst (resolvePath E (fd_vnode f) path (sys_vfs st)) = Some r" for f
    using resolvePath_fail [OF sys_okD(1) [OF assms(1)] getRootFd_ok [OF assms(1) that(1)] that(2)] by simp
  ultimately show ?thesis using assms(2) unfolding names_dir_def by auto
qed

text \<open>
  C4: \<open>ls\<close> lists a directory.  Without arguments it lists the current directory, with one argument the directory that
  the path leads to: it ends with status 0, has closed the directory again, and apart from the port writes
  of the cursor the system is left as if the names in the directory, in their order and without \<open>.\<close> and
  \<open>..\<close>, had been printed one in a line.  The block for the entries, which is too small for every name at first, is
  always made large enough.
\<close>

theorem ls_lists:
  assumes ok: "sys_ok tty (usys u)" and n: "names_dir E (usys u) path r es" and t: "is_terminal 1 (usys u)" and H: "\<forall>n. H n"
    and free: "None \<in> set (p_fd (cur_proc (usys u)))" and out: "streams u stdout = Some f" "file_fd f = 1"
    and argv: "argv = [name] \<and> path = bytes ''.'' \<or> argv = [name, path]"
  shows "\<exists>st'. ls_main E H G argv u = Some (Done 0 (u\<lparr>usys := st'\<rparr>)) \<and>
    screen_view st' = set_vga (\<lambda>v. fold printCharacter (ls_lines es) (no_ports v)) (usys u)"
  using argv
proof (elim disjE conjE)
  assume "argv = [name]" "path = bytes ''.''"
  moreover from listDirectory_lists [OF ok n t H free out] obtain st' where
    "listDirectory E H G path u = Some (Done () (u\<lparr>usys := st'\<rparr>))" "screen_view st' = screen_put (ls_lines es) (screen_view (usys u))" by blast
  ultimately show ?thesis
    by (intro exI [of _ st']) (simp add: ls_main_def lbind_def once_def ureturn_def screen_put_view del: bytes_simps)
next
  assume a: "argv = [name, path]"
  let ?u1 = "u\<lparr>usys := sys_fail 0 (usys u)\<rparr>"
  from n obtain d p where d: "getRootFd AT_FDCWD path (usys u) = Some d" "fst (resolvePath E (fd_vnode d) path (sys_vfs (usys u))) = Some r"
    "object (sys_vfs (usys u)) r = DirectoryVnode es p" by (auto simp: names_dir_def)
  note st = stat_existing [OF ok d(1, 2)]
  have dir: "S_ISDIR (st_mode (Vnode_stat r (fail 0 (sys_vfs (usys u)))))" using st(2) d(3) by (simp add: Vnode_stat_def fail_def)
  from listDirectory_lists [of tty ?u1 E path r es H f G] ok n t H free out names_dir_fail sys_ok_fail obtain st' where
    st': "listDirectory E H G path ?u1 = Some (Done () (u\<lparr>usys := st'\<rparr>))" "screen_view st' = screen_put (ls_lines es) (screen_view (usys u))" by fastforce
  show ?thesis
    using st' by (intro exI [of _ st']) (simp add: a ls_main_def lbind_def once_def ureturn_def st(1) dir screen_put_view del: bytes_simps)
qed

theorem ls_lists_witness:
  "\<exists>st'. ls_main demo_allocator (\<lambda>_. True) (\<lambda>_. 0) [bytes ''ls'', bytes ''/''] demo_prog = Some (Done 0 (demo_prog\<lparr>usys := st'\<rparr>)) \<and>
    screen_view st' = set_vga (\<lambda>v. fold printCharacter (bytes ''etc'' @ [10] @ bytes ''a'' @ [10]) (no_ports v)) (usys demo_prog)"
proof -
  have "getRootFd AT_FDCWD (bytes ''/'') (usys demo_prog) = Some (FileDescription_new 0)"
    by (simp add: getRootFd_def demo_prog_def cur_proc_def demo_sys_simps demo_process_def)
  moreover have "fst (resolvePath demo_allocator (fd_vnode (FileDescription_new 0)) (bytes ''/'') (sys_vfs (usys demo_prog))) = Some 0"
    unfolding demo_prog_simps by code_simp
  moreover have "object (sys_vfs (usys demo_prog)) 0 = DirectoryVnode [(bytes ''etc'', 1), (bytes ''a'', 2)] None"
    by (simp add: demo_prog_simps demo_vfs_def set_object_def)
  ultimately have "names_dir demo_allocator (usys demo_prog) (bytes ''/'') 0 [(bytes ''etc'', 1), (bytes ''a'', 2)]"
    unfolding names_dir_def by simp
  moreover have "None \<in> set (p_fd (cur_proc (usys demo_prog)))" by (simp add: demo_prog_simps OPEN_MAX_def numeral_eq_Suc)
  moreover have "ls_lines [(bytes ''etc'', 1), (bytes ''a'', 2)] = bytes ''etc'' @ [10] @ bytes ''a'' @ [10]" by code_simp
  ultimately show ?thesis
    using ls_lists [of 2 demo_prog demo_allocator "bytes ''/''" 0 "[(bytes ''etc'', 1), (bytes ''a'', 2)]" "\<lambda>_. True" "\<lparr>file_fd = 1, file_flags = 0\<rparr>"
        "[bytes ''ls'', bytes ''/'']" "bytes ''ls''" "\<lambda>_. 0"] demo_prog_ok demo_prog_terminal
    by (simp add: demo_prog_simps demo_streams del: bytes_simps ls_lines_simps)
qed

end
