(* ===== verification/Libc_Canonical.thy ===== *)
theory Libc_Canonical
  imports Programs Libc_Env
begin

text \<open>
  The name of the current directory: \<open>canonicalize_file_name.c\<close>, \<open>getcwd.c\<close>, and the program \<open>pwd\<close>.  The name is found by going up
  to the root, directory by directory, and looking in each of them for the entry of the one below.
\<close>

section \<open>Definitions\<close>

partial_function (option) get_entry_name ::
  "(nat \<Rightarrow> bool) \<Rightarrow> (nat \<Rightarrow> u32) \<Rightarrow> u32 \<Rightarrow> u64 \<Rightarrow> DIR \<Rightarrow> (byte list option \<times> DIR, 'x user_scheme) run" where
  "get_entry_name H G dev ino dir u =
     lbind (once (readdir H G dir)) (\<lambda>(dirent, dir) u.
       case dirent of
         None \<Rightarrow> Some (Done (None, dir) u)
       | Some None \<Rightarrow> Some Crash
       | Some (Some dirent) \<Rightarrow>
           if d_dev dirent = dev \<and> d_ino dirent = ino then Some (Done (Some (d_name dirent), dir) u)
           else get_entry_name H G dev ino dir u) u"

text \<open>The descriptor of the directory that has the entry for the path: the loop over slashes cuts them off the end.\<close>

definition cut_slashes :: "byte list \<Rightarrow> byte list" where
  "cut_slashes path = rev (dropWhile (\<lambda>c. c = 47) (rev path))"

definition up_to_slash :: "byte list \<Rightarrow> byte list" where
  "up_to_slash path = rev (dropWhile (\<lambda>c. c \<noteq> 47) (rev path))"

definition containing_fd :: "allocator \<Rightarrow> (nat \<Rightarrow> bool) \<Rightarrow> byte list \<Rightarrow> stat \<Rightarrow> (int option, 'x) cmd" where
  "containing_fd E H path st =
     (if S_ISDIR (st_mode st) then
        ubind (fcntl_open E path (O_DIRECTORY OR O_SEARCH) 0) (\<lambda>currentFd.
          if currentFd < 0 then ureturn None
          else ubind (openat E currentFd (bytes ''..'') (O_DIRECTORY OR O_SEARCH) 0) (\<lambda>fd.
            ubind (unistd_close currentFd) (\<lambda>_. ureturn (Some fd))))
      else if \<not> H (length path + 1) then ureturn None
      else
        let pathCopy = cut_slashes path in
        ubind (fcntl_open E (if 47 \<in> set pathCopy then up_to_slash pathCopy else bytes ''.'') (O_DIRECTORY OR O_SEARCH) 0) (\<lambda>fd.
          ureturn (Some fd)))"

text \<open>The loop: \<open>name\<close> is what has been found so far.\<close>

definition close_and_return :: "DIR \<Rightarrow> 'a \<Rightarrow> ('a, 'x user_scheme) run" where
  "close_and_return dir x = once (ubind (closedir dir) (\<lambda>_. ureturn x))"

partial_function (option) canonical_loop ::
  "allocator \<Rightarrow> (nat \<Rightarrow> bool) \<Rightarrow> (nat \<Rightarrow> u32) \<Rightarrow> int \<Rightarrow> stat \<Rightarrow> byte list \<Rightarrow> (byte list option, 'x user_scheme) run" where
  "canonical_loop E H G fd st name u =
     lbind (once (fdopendir H fd)) (\<lambda>dir u.
     lbind (get_entry_name H G (st_dev st) (st_ino st) dir) (\<lambda>(filename, dir) u.
       case filename of
         None \<Rightarrow> close_and_return dir None u
       | Some filename \<Rightarrow>
           if filename = bytes ''.'' \<or> filename = bytes ''..'' then
             close_and_return dir (if name = [] then if H 2 then Some [47] else None else Some name) u
           else if \<not> H (length name + length filename + 2) then close_and_return dir None u
           else
             lbind (once (fstat fd)) (\<lambda>(r, st) u.
               if r < 0 then close_and_return dir None u
               else
                 lbind (once (openat E fd (bytes ''..'') (O_DIRECTORY OR O_SEARCH) 0)) (\<lambda>fd u.
                 lbind (once (closedir dir)) (\<lambda>_ u.
                   if fd < 0 then Some (Done None u) else canonical_loop E H G fd st ([47] @ filename @ name) u) u) u) u) u) u"

definition canonicalize_file_name ::
  "allocator \<Rightarrow> (nat \<Rightarrow> bool) \<Rightarrow> (nat \<Rightarrow> u32) \<Rightarrow> byte list option \<Rightarrow> (byte list option, 'x user_scheme) run" where
  "canonicalize_file_name E H G path =
     (case path of
        None \<Rightarrow> once (ubind (set_errno EINVAL) (\<lambda>_. ureturn None))
      | Some path \<Rightarrow>
          lbind (once (libc_stat E path)) (\<lambda>(r, st).
            case st of
              None \<Rightarrow> once (ureturn None)
            | Some st \<Rightarrow>
                if r < 0 then once (ureturn None)
                else lbind (once (containing_fd E H path st)) (\<lambda>fd.
                  case fd of
                    None \<Rightarrow> once (ureturn None)
                  | Some fd \<Rightarrow>
                      if fd < 0 then once (ureturn None)
                      else if \<not> H 1 then once (ureturn None)
                      else canonical_loop E H G fd st [])))"

text \<open>
  The buffer is an address, 0 being null, and the result is the string that the returned pointer refers to.
  The pointer that \<open>strcpy\<close> returns is compared with the size.
\<close>

definition getcwd :: "allocator \<Rightarrow> (nat \<Rightarrow> bool) \<Rightarrow> (nat \<Rightarrow> u32) \<Rightarrow> addr \<Rightarrow> size_t \<Rightarrow> (byte list option, 'x user_scheme) run" where
  "getcwd E H G buffer sz =
     (if buffer \<noteq> 0 \<and> sz = 0 then once (ubind (set_errno EINVAL) (\<lambda>_. ureturn None))
      else lbind (canonicalize_file_name E H G (Some (bytes ''.''))) (\<lambda>result.
        case result of
          None \<Rightarrow> once (ureturn None)
        | Some result \<Rightarrow>
            if buffer = 0 then once (ureturn (Some result))
            else if buffer \<ge> sz then once (ubind (set_errno ERANGE) (\<lambda>_. ureturn None))
            else once (ureturn (Some result))))"

subsection \<open>pwd\<close>

definition dot_component :: "byte list \<Rightarrow> bool" where
  "dot_component path \<longleftrightarrow> path \<noteq> [] \<and> hd path = 46 \<and>
     (let rest = tl path in
      rest = [] \<or> hd rest = 47 \<or> hd rest = 46 \<and> (let rest = tl rest in rest = [] \<or> hd rest = 47))"

function no_dots :: "byte list \<Rightarrow> bool" where
  "no_dots path =
     (if path = [] then True
      else if dot_component path then False
      else no_dots (drop (length (takeWhile (\<lambda>c. c \<noteq> 47) path) + 1) path))"
  by pat_completeness auto
termination by (relation "measure length") auto

declare no_dots.simps [simp del]

definition isAbsolutePath :: "byte list \<Rightarrow> bool" where
  "isAbsolutePath path \<longleftrightarrow> path \<noteq> [] \<and> hd path = 47 \<and> no_dots path"

text \<open>A null pointer is passed to \<open>puts\<close> when \<open>getcwd\<close> fails.\<close>

definition pwd_main :: "allocator \<Rightarrow> (nat \<Rightarrow> bool) \<Rightarrow> (nat \<Rightarrow> u32) \<Rightarrow> env \<Rightarrow> (int, 'x prog_scheme) run" where
  "pwd_main E H G e =
     (let print = (\<lambda>pwd. once (ubind (puts E pwd) (\<lambda>_. ureturn 0)));
          physical = lbind (getcwd E H G 0 0) (\<lambda>pwd.
            case pwd of Some pwd \<Rightarrow> print pwd | None \<Rightarrow> lbind (once (perror E (Some (bytes ''getcwd'')))) (\<lambda>_. once (\<lambda>_. Crash)))
      in case getenv (bytes ''PWD'') e of
           None \<Rightarrow> once (\<lambda>_. Crash)
         | Some None \<Rightarrow> physical
         | Some (Some pwd) \<Rightarrow> if isAbsolutePath pwd then print pwd else physical)"

section \<open>Absolute paths\<close>

function components :: "byte list \<Rightarrow> byte list list" where
  "components path =
     (if path = [] then []
      else takeWhile (\<lambda>c. c \<noteq> 47) path # components (drop (length (takeWhile (\<lambda>c. c \<noteq> 47) path) + 1) path))"
  by pat_completeness auto
termination by (relation "measure length") auto

declare components.simps [simp del]

lemma dot_component_iff: "dot_component path \<longleftrightarrow> \<not> visible (takeWhile (\<lambda>c. c \<noteq> 47) path)"
proof (cases path)
  case (Cons a as)
  then show ?thesis
  proof (cases as)
    case (Cons b bs)
    with \<open>path = a # as\<close> show ?thesis by (cases bs) (auto simp: dot_component_def visible_def)
  qed (auto simp: dot_component_def visible_def)
qed (simp add: dot_component_def visible_def)

text \<open>A path is accepted if it starts with a slash and none of its components is \<open>.\<close> or \<open>..\<close>.\<close>

lemma isAbsolutePath_iff: "isAbsolutePath path \<longleftrightarrow> path \<noteq> [] \<and> hd path = 47 \<and> (\<forall>c \<in> set (components path). visible c)"
proof -
  have "no_dots path \<longleftrightarrow> (\<forall>c \<in> set (components path). visible c)"
  proof (induction path rule: no_dots.induct)
    case (1 path)
    then show ?case by (subst no_dots.simps, subst components.simps) (simp add: dot_component_iff)
  qed
  then show ?thesis by (simp add: isAbsolutePath_def)
qed

section \<open>Going up\<close>

definition parent_of :: "vfs \<Rightarrow> vref \<Rightarrow> vref" where
  "parent_of v c = (case object v c of DirectoryVnode es (Some p) \<Rightarrow> p | _ \<Rightarrow> c)"

lemma resolve_dots:
  assumes "is_dir (object v c)" "\<forall>n. gives E n"
  shows "resolvePath E c (bytes ''.'') v = (Some c, v)" "resolvePath E c (bytes ''..'') v = (Some (parent_of v c), v)"
  using assms by (cases "object v c"; simp add: resolvePath_def resolve_loop.simps no_slash_def Vnode_getChildNode_def parent_of_def split: option.split)+

text \<open>Two vnodes that a program cannot tell apart.\<close>

definition same_file :: "vfs \<Rightarrow> vref \<Rightarrow> vref \<Rightarrow> bool" where
  "same_file v a b \<longleftrightarrow> vn_dev (vnodes v a) = vn_dev (vnodes v b) \<and> vn_ino (vnodes v a) = vn_ino (vnodes v b)"

lemma get_entry_name_finds:
  assumes "dir_at (dir_fd dir) r es p (usys u)" "dir_offset dir = w32 k" "length es < 2 ^ 31" "\<forall>n. H n" "\<forall>e \<in> set es. length (fst e) < 2 ^ 30"
    "k \<le> i" "i < length (all_entries r es p)" "same_file (sys_vfs (usys u)) (snd (all_entries r es p ! i)) c"
    "\<forall>j. k \<le> j \<and> j < i \<longrightarrow> \<not> same_file (sys_vfs (usys u)) (snd (all_entries r es p ! j)) c"
    "dev = vn_dev (vnodes (sys_vfs (usys u)) c)" "ino = vn_ino (vnodes (sys_vfs (usys u)) c)"
  shows "\<exists>dir'. get_entry_name H G dev ino dir u = Some (Done (Some (fst (all_entries r es p ! i)), dir') (u\<lparr>usys := sys_fail 0 (usys u)\<rparr>)) \<and>
    dir_fd dir' = dir_fd dir"
  using assms
proof (induction "i - k" arbitrary: k dir u)
  case 0
  then have k: "k = i" by simp
  have "length (fst (all_entries r es p ! i)) < 2 ^ 30" using nth_mem [OF 0(8)] 0(6) by (auto simp: all_entries_def simp del: nth_mem)
  from readdir_entry [OF 0(2-5) _ refl, of G] this k 0(8) obtain sz b where
    "readdir H G dir u = Done (Some (Some (dirent_of (sys_vfs (usys u)) sz (all_entries r es p ! i))),
      dir\<lparr>dir_dirent := Some b, dir_offset := w32 (Suc k)\<rparr>) (u\<lparr>usys := sys_fail 0 (usys u)\<rparr>)" by auto
  then have "get_entry_name H G dev ino dir u = Some (Done (Some (fst (all_entries r es p ! i)), dir\<lparr>dir_dirent := Some b, dir_offset := w32 (Suc k)\<rparr>)
      (u\<lparr>usys := sys_fail 0 (usys u)\<rparr>))"
    using 0(9, 11, 12) by (subst get_entry_name.simps) (simp add: lbind_def once_def dirent_of_def same_file_def)
  then show ?case by auto
next
  case (Suc n)
  then have k: "k < i" "k < length (all_entries r es p)" by linarith+
  have len: "length (fst (all_entries r es p ! k)) < 2 ^ 30" using nth_mem [OF k(2)] Suc.prems(5) by (auto simp: all_entries_def simp del: nth_mem)
  let ?u = "u\<lparr>usys := sys_fail 0 (usys u)\<rparr>"
  from readdir_entry [OF Suc.prems(1-4) k(2) refl len, of G] obtain sz b where
    rd: "readdir H G dir u = Done (Some (Some (dirent_of (sys_vfs (usys u)) sz (all_entries r es p ! k))),
      dir\<lparr>dir_dirent := Some b, dir_offset := w32 (Suc k)\<rparr>) ?u" by blast
  let ?dir = "dir\<lparr>dir_dirent := Some b, dir_offset := w32 (Suc k)\<rparr>"
  have other: "\<not> same_file (sys_vfs (usys u)) (snd (all_entries r es p ! k)) c" using Suc.prems(9) k(1) by blast
  have step: "get_entry_name H G dev ino dir u = get_entry_name H G dev ino ?dir ?u"
    using other Suc.prems(10, 11) by (subst get_entry_name.simps) (auto simp: lbind_def once_def rd dirent_of_def same_file_def)
  have same: "same_file (sys_vfs (usys ?u)) a b = same_file (sys_vfs (usys u)) a b" "vnodes (sys_vfs (usys ?u)) = vnodes (sys_vfs (usys u))" for a b
    by (simp_all add: same_file_def fail_def)
  have "\<exists>dir'. get_entry_name H G dev ino ?dir ?u = Some (Done (Some (fst (all_entries r es p ! i)), dir') (?u\<lparr>usys := sys_fail 0 (usys ?u)\<rparr>)) \<and>
      dir_fd dir' = dir_fd ?dir"
  proof (rule Suc.hyps(1))
    show "n = i - Suc k" using Suc.hyps(2) by simp
    show "\<forall>j. Suc k \<le> j \<and> j < i \<longrightarrow> \<not> same_file (sys_vfs (usys ?u)) (snd (all_entries r es p ! j)) c" using Suc.prems(9) same(1) by auto
    show "same_file (sys_vfs (usys ?u)) (snd (all_entries r es p ! i)) c" using Suc.prems(8) same(1) by simp
    show "dev = vn_dev (vnodes (sys_vfs (usys ?u)) c)" "ino = vn_ino (vnodes (sys_vfs (usys ?u)) c)" using Suc.prems(10, 11) same(2) by simp_all
  qed (use Suc.prems k in simp_all)
  then show ?case using step by simp
qed

text \<open>
  The directory \<open>c\<close> is reached from the root by the names \<open>ns\<close>, the last one first: each directory has an entry for the
  one below, and no entry in front of it looks the same.
\<close>

definition readable :: "(byte list \<times> vref) list \<Rightarrow> bool" where
  "readable es \<longleftrightarrow> length es < 2 ^ 31 \<and> (\<forall>e \<in> set es. length (fst e) < 2 ^ 30)"

fun reached_by :: "vfs \<Rightarrow> vref \<Rightarrow> byte list list \<Rightarrow> bool" where
  "reached_by v c [] \<longleftrightarrow> (\<exists>es. object v c = DirectoryVnode es None \<and> readable es)"
| "reached_by v c (n # ns) \<longleftrightarrow>
     (\<exists>es p es' q i. object v c = DirectoryVnode es (Some p) \<and> object v p = DirectoryVnode es' q \<and> readable es' \<and>
        i < length (all_entries p es' q) \<and> fst (all_entries p es' q ! i) = n \<and> same_file v (snd (all_entries p es' q ! i)) c \<and>
        (\<forall>j < i. \<not> same_file v (snd (all_entries p es' q ! j)) c) \<and> visible n \<and> reached_by v p ns)"

definition path_of :: "byte list list \<Rightarrow> byte list" where
  "path_of ns = (if ns = [] then [47] else concat (map (\<lambda>n. [47] @ n) (rev ns)))"

definition holding :: "nat \<Rightarrow> vref \<Rightarrow> sys \<Rightarrow> sys" where
  "holding i p st = set_fd (int i) (Some (FileDescription_new p)) st"

text \<open>Two descriptors are free, and the kernel's \<open>errno\<close> is clear.\<close>

definition two_free :: "sys \<Rightarrow> bool" where
  "two_free st \<longleftrightarrow> length (p_fd (cur_proc st)) = OPEN_MAX \<and>
     (\<exists>a < OPEN_MAX. \<exists>b < OPEN_MAX. a \<noteq> b \<and> p_fd (cur_proc st) ! a = None \<and> p_fd (cur_proc st) ! b = None)"

lemma holding_simps [simp]: "sys_vfs (holding i p st) = sys_vfs st" "sys_fail e (holding i p st) = holding i p (sys_fail e st)"
  by (simp_all add: holding_def sys_fail_def set_fd_def set_proc_def)

lemma holding_descr:
  assumes "i < OPEN_MAX" "two_free st"
  shows "fd_entry (int i) (holding i p st) = Some (Some (FileDescription_new p))" "descr (int i) (holding i p st) = Some (FileDescription_new p)"
    "None \<in> set (p_fd (cur_proc (holding i p st)))"
proof -
  from assms obtain a where a: "a < OPEN_MAX" "a \<noteq> i" "p_fd (cur_proc st) ! a = None" "length (p_fd (cur_proc st)) = OPEN_MAX"
    unfolding two_free_def by metis
  then have "p_fd (cur_proc (holding i p st)) ! a = None" "a < length (p_fd (cur_proc (holding i p st)))" by (simp_all add: holding_def cur_proc_def)
  then show "None \<in> set (p_fd (cur_proc (holding i p st)))" by (metis nth_mem)
  show "fd_entry (int i) (holding i p st) = Some (Some (FileDescription_new p))" using assms(1) a(4) by (simp add: fd_entry_def holding_def cur_proc_def)
  then show "descr (int i) (holding i p st) = Some (FileDescription_new p)" by (simp add: descr_def)
qed

lemma release:
  assumes "p_fd (cur_proc st) ! i = None"
  shows "set_fd (int i) None (holding i p st) = st" "j \<noteq> i \<Longrightarrow> set_fd (int i) None (holding j q (holding i p st)) = holding j q st"
proof -
  have id: "(p_fd (procs st (current st)))[i := None] = p_fd (procs st (current st))" using assms by (metis cur_proc_def list_update_id)
  then show "set_fd (int i) None (holding i p st) = st" by (simp add: holding_def set_fd_def set_proc_def)
  assume "j \<noteq> i"
  then have "(p_fd (procs st (current st)))[i := x, j := y, i := None] = (p_fd (procs st (current st)))[j := y]" for x y
    using id by (metis list_update_overwrite list_update_swap)
  then show "set_fd (int i) None (holding j q (holding i p st)) = holding j q st" by (simp add: holding_def set_fd_def set_proc_def)
qed

lemma close_holding:
  assumes "usys u = holding i p st" "i < OPEN_MAX" "two_free st" "p_fd (cur_proc st) ! i = None" "sys_fail 0 st = st"
  shows "unistd_close (int i) u = Done 0 (u\<lparr>usys := st\<rparr>)"
  using close_step [of "int i" u] holding_descr(1) [OF assms(2, 3), of p] release(1) [OF assms(4)] assms(1, 5) by simp

text \<open>Opening the parent of an open directory.\<close>

lemma open_parent:
  assumes u: "usys u = holding i p st" and i: "i < OPEN_MAX" "p_fd (cur_proc st) ! i = None" and st: "two_free st" "sys_ok tty st" "sys_fail 0 st = st"
    and p: "is_dir (object (sys_vfs st) p)" "p < vn_fresh (sys_vfs st)" and E: "\<forall>n. gives E n"
  shows "\<exists>j < OPEN_MAX. j \<noteq> i \<and> p_fd (cur_proc st) ! j = None \<and> parent_of (sys_vfs st) p < vn_fresh (sys_vfs st) \<and>
    openat E (int i) (bytes ''..'') (O_DIRECTORY OR O_SEARCH) 0 u = Done (int j) (u\<lparr>usys := holding j (parent_of (sys_vfs st) p) (holding i p st)\<rparr>)"
proof -
  have ok: "sys_ok tty (holding i p st)" unfolding holding_def using st(2) p(2) by (intro sys_ok_set_fd) (simp_all add: FileDescription_new_def)
  have root: "getRootFd (int i) (bytes ''..'') (holding i p st) = Some (FileDescription_new p)"
    using holding_descr(2) [OF i(1) st(1)] by (simp add: getRootFd_def AT_FDCWD_def)
  note dots = resolve_dots(2) [OF p(1) E]
  have r: "fst (resolvePath E (fd_vnode (FileDescription_new p)) (bytes ''..'') (sys_vfs (holding i p st))) = Some (parent_of (sys_vfs st) p)"
    using dots by (simp add: FileDescription_new_def del: bytes_simps)
  from open_existing [OF ok root r dir_flags(1) holding_descr(3) [OF i(1) st(1)], of 0] obtain j where
    j: "j < OPEN_MAX" "p_fd (cur_proc (holding i p st)) ! j = None"
      "Syscall_openat E (int i) (bytes ''..'') (O_DIRECTORY OR O_SEARCH) 0 (sys_fail 0 (holding i p st)) = Returns (int j) (opened j (parent_of (sys_vfs st) p) (holding i p st))"
    by blast
  have len: "length (p_fd (cur_proc st)) = OPEN_MAX" using st(1) by (simp add: two_free_def)
  then have ji: "j \<noteq> i" "p_fd (cur_proc st) ! j = None" using j(1, 2) i by (auto simp: holding_def cur_proc_def nth_list_update split: if_splits)
  have "opened j (parent_of (sys_vfs st) p) (holding i p st) = holding j (parent_of (sys_vfs st) p) (holding i p st)"
    unfolding opened_def using st(3) by (simp add: holding_def [of j])
  moreover have "verrno (sys_vfs (opened j (parent_of (sys_vfs st) p) (holding i p st))) = 0" by simp
  ultimately have "openat E (int i) (bytes ''..'') (O_DIRECTORY OR O_SEARCH) 0 u = Done (int j) (u\<lparr>usys := holding j (parent_of (sys_vfs st) p) (holding i p st)\<rparr>)"
    using do_syscall_Returns [of "Syscall_openat E (int i) (bytes ''..'') (O_DIRECTORY OR O_SEARCH) 0" u "int j"] j(3) u
    by (simp add: openat_def dir_flags(2) del: bytes_simps)
  moreover have "parent_of (sys_vfs st) p < vn_fresh (sys_vfs st)" using resolvePath_some(2) [OF sys_okD(1) [OF st(2)] p(2) dots] .
  ultimately show ?thesis using j(1) ji by blast
qed

text \<open>One look at the directory above \<open>c\<close>.\<close>

lemma find_below:
  assumes u: "usys u = holding i p st" and i: "i < OPEN_MAX" and st: "two_free st" "sys_fail 0 st = st" and H: "\<forall>n. H n"
    and p: "object (sys_vfs st) p = DirectoryVnode es q" "readable es"
    and k: "k < length (all_entries p es q)" "same_file (sys_vfs st) (snd (all_entries p es q ! k)) c"
      "\<forall>j < k. \<not> same_file (sys_vfs st) (snd (all_entries p es q ! j)) c"
  shows "\<exists>dir0 dir. fdopendir H (int i) u = Done dir0 u \<and> get_entry_name H G (vn_dev (vnodes (sys_vfs st) c)) (vn_ino (vnodes (sys_vfs st) c)) dir0 u =
    Some (Done (Some (fst (all_entries p es q ! k)), dir) u) \<and> dir_fd dir = int i"
proof -
  let ?dir = "\<lparr>dir_fd = int i, dir_dirent = None, dir_offset = 0\<rparr>"
  have "dir_at (dir_fd ?dir) p es q (usys u)" using holding_descr(2) [OF i st(1)] p(1) u by (simp add: dir_at_def FileDescription_new_def)
  from get_entry_name_finds [OF this, of 0 H k c "vn_dev (vnodes (sys_vfs st) c)" "vn_ino (vnodes (sys_vfs st) c)" G] p(2) k H u obtain dir' where
    "get_entry_name H G (vn_dev (vnodes (sys_vfs st) c)) (vn_ino (vnodes (sys_vfs st) c)) ?dir u =
      Some (Done (Some (fst (all_entries p es q ! k)), dir') (u\<lparr>usys := sys_fail 0 (usys u)\<rparr>))" "dir_fd dir' = int i"
    by (auto simp: readable_def w32_def)
  moreover have "u\<lparr>usys := sys_fail 0 (usys u)\<rparr> = u" using u st(2) by simp
  ultimately show ?thesis using spec [OF H, of 12] by (simp add: fdopendir_def ureturn_def)
qed

lemma sys_fail_errno:
  assumes "sys_fail 0 st = st"
  shows "verrno (sys_vfs st) = 0"
proof -
  have "verrno (sys_vfs (sys_fail 0 st)) = 0" by simp
  with assms show ?thesis by simp
qed

lemma user_id: "usys u = st \<Longrightarrow> u\<lparr>usys := st\<rparr> = u"
  by auto

lemma canonical_loop_names:
  assumes "usys u = holding i (parent_of (sys_vfs st) c) st" "i < OPEN_MAX" "p_fd (cur_proc st) ! i = None" "parent_of (sys_vfs st) c < vn_fresh (sys_vfs st)"
    "reached_by (sys_vfs st) c ns" "sst = Vnode_stat c (sys_vfs st)"
    and st: "two_free st" "sys_ok tty st" "sys_fail 0 st = st" and H: "\<forall>n. H n" and E: "\<forall>n. gives E n"
  shows "canonical_loop E H G (int i) sst name u =
    Some (Done (Some (if ns = [] \<and> name \<noteq> [] then name else (if ns = [] then [47] else path_of ns @ name))) (u\<lparr>usys := st\<rparr>))"
  using assms(1-6)
proof (induction ns arbitrary: i c u name sst)
  case Nil
  then obtain es where c: "object (sys_vfs st) c = DirectoryVnode es None" "readable es" by auto
  then have p: "parent_of (sys_vfs st) c = c" by (simp add: parent_of_def)
  from find_below [OF Nil.prems(1)[unfolded p] Nil.prems(2) st(1, 3) H c, of 0 c G] obtain dir0 dir where
    d: "fdopendir H (int i) u = Done dir0 u" "get_entry_name H G (st_dev sst) (st_ino sst) dir0 u = Some (Done (Some (bytes ''.''), dir) u)" "dir_fd dir = int i"
    using Nil.prems(6) by (auto simp: all_entries_def same_file_def Vnode_stat_def simp del: bytes_simps)
  have cl: "unistd_close (int i) u = Done 0 (u\<lparr>usys := st\<rparr>)" using Nil.prems(1-3) st by (intro close_holding) auto
  show ?case
    using cl spec [OF H, of 2]
    by (subst canonical_loop.simps) (simp add: lbind_def once_def d close_and_return_def ubind_def closedir_def ureturn_def del: bytes_simps)
next
  case (Cons n ns)
  then obtain es p es' q k where c: "object (sys_vfs st) c = DirectoryVnode es (Some p)" and p: "object (sys_vfs st) p = DirectoryVnode es' q" "readable es'"
    and k: "k < length (all_entries p es' q)" "same_file (sys_vfs st) (snd (all_entries p es' q ! k)) c"
      "\<forall>j < k. \<not> same_file (sys_vfs st) (snd (all_entries p es' q ! j)) c" and n: "fst (all_entries p es' q ! k) = n" "visible n"
    and up: "reached_by (sys_vfs st) p ns" by auto
  have par: "parent_of (sys_vfs st) c = p" using c by (simp add: parent_of_def)
  note u = Cons.prems(1)[unfolded par]
  from find_below [OF u Cons.prems(2) st(1, 3) H p k, of G] n(1) Cons.prems(6) obtain dir0 dir where
    d: "fdopendir H (int i) u = Done dir0 u" "get_entry_name H G (st_dev sst) (st_ino sst) dir0 u = Some (Done (Some n, dir) u)" "dir_fd dir = int i"
    by (auto simp: Vnode_stat_def)
  have isdir: "is_dir (object (sys_vfs st) p)" using p(1) by simp
  from open_parent [OF u Cons.prems(2, 3) st isdir _ E] Cons.prems(4) par obtain j where
    j: "j < OPEN_MAX" "j \<noteq> i" "p_fd (cur_proc st) ! j = None" "parent_of (sys_vfs st) p < vn_fresh (sys_vfs st)"
      "openat E (int i) (bytes ''..'') (O_DIRECTORY OR O_SEARCH) 0 u = Done (int j) (u\<lparr>usys := holding j (parent_of (sys_vfs st) p) (holding i p st)\<rparr>)" by auto
  let ?pp = "parent_of (sys_vfs st) p" let ?u2 = "u\<lparr>usys := holding j ?pp st\<rparr>"
  have fs: "fstat (int i) u = Done (0, Vnode_stat p (sys_vfs st)) u"
  proof -
    have "Syscall_fstat (int i) (sys_fail 0 (usys u)) = Returns (0, Vnode_stat p (sys_vfs st)) (holding i p st)"
      using holding_descr(2) [OF Cons.prems(2) st(1), of p] u st(3) by (simp add: Syscall_fstat_def FileDescription_new_def)
    moreover have "verrno (sys_vfs (holding i p st)) = 0" using st(3) by (metis holding_simps(1) sys_fail_errno)
    ultimately show ?thesis unfolding fstat_def using do_syscall_Returns [of "Syscall_fstat (int i)" u] u by (metis user_id)
  qed
  have cl: "unistd_close (int i) (u\<lparr>usys := holding j ?pp (holding i p st)\<rparr>) = Done 0 ?u2"
  proof -
    have "fd_entry (int i) (holding j ?pp (holding i p st)) = Some (Some (FileDescription_new p))"
      using holding_descr(1) [OF Cons.prems(2) st(1), of p] j(2) by (simp add: fd_entry_def holding_def [of j] cur_proc_def split: if_splits)
    then show ?thesis using close_step [of "int i" "u\<lparr>usys := holding j ?pp (holding i p st)\<rparr>"] release(2) [OF Cons.prems(3) j(2)] st(3) by simp
  qed
  have ih: "canonical_loop E H G (int j) (Vnode_stat p (sys_vfs st)) ([47] @ n @ name) ?u2 =
      Some (Done (Some (if ns = [] \<and> [47] @ n @ name \<noteq> [] then [47] @ n @ name else (if ns = [] then [47] else path_of ns @ [47] @ n @ name))) (?u2\<lparr>usys := st\<rparr>))"
    by (rule Cons.IH) (use j up in simp_all)
  have "n \<noteq> bytes ''.''" "n \<noteq> bytes ''..''" using n(2) by (simp_all add: visible_def)
  then have "canonical_loop E H G (int i) sst name u = canonical_loop E H G (int j) (Vnode_stat p (sys_vfs st)) ([47] @ n @ name) ?u2"
    using cl spec [OF H, of "length name + length n + 2"]
    by (subst canonical_loop.simps) (simp add: lbind_def once_def d fs j(5) closedir_def ubind_def ureturn_def del: bytes_simps)
  then show ?case unfolding ih by (simp add: path_of_def)
qed

section \<open>The current directory\<close>

lemma two_free_fail [simp]: "two_free (sys_fail e st) \<longleftrightarrow> two_free st"
  by (simp add: two_free_def)

lemma reached_by_fail [simp]: "reached_by (fail e v) c ns \<longleftrightarrow> reached_by v c ns"
  by (induction ns arbitrary: c) (simp_all add: same_file_def)

lemma reached_by_dir: "reached_by v c ns \<Longrightarrow> is_dir (object v c)"
  by (cases ns) auto

lemma containing_fd_dot:
  assumes st: "two_free st" "sys_ok tty st" "sys_fail 0 st = st" and u: "usys u = st" and E: "\<forall>n. gives E n"
    and c: "p_cwdFd (cur_proc st) = Some f" "fd_vnode f = c" "is_dir (object (sys_vfs st) c)" and dir: "S_ISDIR (st_mode sst)"
  shows "\<exists>i < OPEN_MAX. p_fd (cur_proc st) ! i = None \<and> parent_of (sys_vfs st) c < vn_fresh (sys_vfs st) \<and>
    containing_fd E H (bytes ''.'') sst u = Done (Some (int i)) (u\<lparr>usys := holding i (parent_of (sys_vfs st) c) st\<rparr>)"
proof -
  have root: "getRootFd AT_FDCWD (bytes ''.'') st = Some f" using c(1) by (simp add: getRootFd_def)
  have r: "fst (resolvePath E (fd_vnode f) (bytes ''.'') (sys_vfs st)) = Some c" using resolve_dots(1) [OF c(3) E] c(2) by (simp del: bytes_simps)
  have cf: "c < vn_fresh (sys_vfs st)" using getRootFd_ok [OF st(2) root] c(2) by simp
  have len: "length (p_fd (cur_proc st)) = OPEN_MAX" using st(1) by (simp add: two_free_def)
  have "None \<in> set (p_fd (cur_proc st))" using st(1) unfolding two_free_def by (metis nth_mem)
  from open_existing [OF st(2) root r dir_flags(1) this, of 0] obtain k where
    k: "k < OPEN_MAX" "p_fd (cur_proc st) ! k = None" "Syscall_openat E AT_FDCWD (bytes ''.'') (O_DIRECTORY OR O_SEARCH) 0 (sys_fail 0 st) = Returns (int k) (opened k c st)" by blast
  have "opened k c st = holding k c st" unfolding opened_def holding_def using st(3) by simp
  then have op: "fcntl_open E (bytes ''.'') (O_DIRECTORY OR O_SEARCH) 0 u = Done (int k) (u\<lparr>usys := holding k c st\<rparr>)"
    using do_syscall_Returns [of "Syscall_openat E AT_FDCWD (bytes ''.'') (O_DIRECTORY OR O_SEARCH) 0" u "int k" "holding k c st"] k(3) u sys_fail_errno [OF st(3)]
    by (simp add: fcntl_open_def openat_def dir_flags(2) del: bytes_simps)
  let ?u = "u\<lparr>usys := holding k c st\<rparr>" let ?p = "parent_of (sys_vfs st) c"
  from open_parent [of ?u k c st tty E] k st c(3) cf E obtain i where
    i: "i < OPEN_MAX" "i \<noteq> k" "p_fd (cur_proc st) ! i = None" "?p < vn_fresh (sys_vfs st)"
      "openat E (int k) (bytes ''..'') (O_DIRECTORY OR O_SEARCH) 0 ?u = Done (int i) (u\<lparr>usys := holding i ?p (holding k c st)\<rparr>)" by auto
  have "fd_entry (int k) (holding i ?p (holding k c st)) = Some (Some (FileDescription_new c))"
    using holding_descr(1) [OF k(1) st(1), of c] i(2) by (simp add: fd_entry_def holding_def [of i] cur_proc_def split: if_splits)
  then have "unistd_close (int k) (u\<lparr>usys := holding i ?p (holding k c st)\<rparr>) = Done 0 (u\<lparr>usys := holding i ?p st\<rparr>)"
    using close_step [of "int k" "u\<lparr>usys := holding i ?p (holding k c st)\<rparr>"] release(2) [OF k(2) i(2)] st(3) by simp
  then have "containing_fd E H (bytes ''.'') sst u = Done (Some (int i)) (u\<lparr>usys := holding i ?p st\<rparr>)"
    using dir op i(5) by (simp add: containing_fd_def ubind_def ureturn_def del: bytes_simps)
  with i show ?thesis by blast
qed

lemma getcwd_path:
  assumes "sys_ok tty (usys u)" "p_cwdFd (cur_proc (usys u)) = Some f" "reached_by (sys_vfs (usys u)) (fd_vnode f) ns"
    and "two_free (usys u)" and H: "\<forall>n. H n" and E: "\<forall>n. gives E n"
  shows "getcwd E H G 0 0 u = Some (Done (Some (path_of ns)) (u\<lparr>usys := sys_fail 0 (usys u)\<rparr>))"
proof -
  let ?st = "sys_fail 0 (usys u)" and ?c = "fd_vnode f" let ?u = "u\<lparr>usys := ?st\<rparr>" and ?sst = "Vnode_stat ?c (sys_vfs ?st)"
  have st: "two_free ?st" "sys_ok tty ?st" "sys_fail 0 ?st = ?st" using assms(1, 4) sys_ok_fail by simp_all
  have c: "p_cwdFd (cur_proc ?st) = Some f" "is_dir (object (sys_vfs ?st) ?c)" using assms(2) reached_by_dir [OF assms(3)] by simp_all
  have root: "getRootFd AT_FDCWD (bytes ''.'') (usys u) = Some f" using assms(2) by (simp add: getRootFd_def)
  have r: "fst (resolvePath E ?c (bytes ''.'') (sys_vfs (usys u))) = Some ?c" using resolve_dots(1) [OF reached_by_dir [OF assms(3)] E] by (simp del: bytes_simps)
  note stat = stat_existing [OF assms(1) root r]
  have dir: "S_ISDIR (st_mode ?sst)" using stat(2) reached_by_dir [OF assms(3)] by (simp add: Vnode_stat_def fail_def)
  from containing_fd_dot [OF st _ E c(1) refl c(2) dir, of ?u H] obtain i where
    i: "i < OPEN_MAX" "p_fd (cur_proc ?st) ! i = None" "parent_of (sys_vfs ?st) ?c < vn_fresh (sys_vfs ?st)"
      "containing_fd E H (bytes ''.'') ?sst ?u = Done (Some (int i)) (u\<lparr>usys := holding i (parent_of (sys_vfs ?st) ?c) ?st\<rparr>)" by auto
  have "canonical_loop E H G (int i) ?sst [] (u\<lparr>usys := holding i (parent_of (sys_vfs ?st) ?c) ?st\<rparr>) = Some (Done (Some (path_of ns)) ?u)"
    using canonical_loop_names [of "u\<lparr>usys := holding i (parent_of (sys_vfs ?st) ?c) ?st\<rparr>" i ?st ?c ns ?sst tty H E G "[]"] i(1-3) st H E assms(3)
    by (simp add: path_of_def)
  then have "canonicalize_file_name E H G (Some (bytes ''.'')) u = Some (Done (Some (path_of ns)) ?u)"
    using stat(1) i(4) spec [OF H, of 1] by (simp add: canonicalize_file_name_def lbind_def once_def del: bytes_simps)
  then show ?thesis by (simp add: getcwd_def lbind_def once_def ureturn_def del: bytes_simps)
qed


definition demo_env :: env where
  "demo_env = \<lparr>environ = Program_environ [], mallocedEnviron = None, environLength = 0, environSize = 0, env_errno = 0\<rparr>"



end
