(* ===== verification/Program_Shell.thy ===== *)
theory Program_Shell
  imports Programs Libc_Malloc
begin

text \<open>
  The shell, \<open>programs/shell/src/shell.c\<close>: how a line is cut into words, how a command is looked up, and how the logical
  name of the current directory is kept.  The line and the name are arrays in memory, which the code changes in
  place.  \<open>None\<close> is an access outside of an array.
\<close>

section \<open>Definitions\<close>

subsection \<open>The line\<close>

text \<open>The number of pointers to allocate: one more than there are spaces.\<close>

partial_function (option) count_arguments :: "mem \<Rightarrow> addr \<Rightarrow> size_t \<Rightarrow> nat \<Rightarrow> nat option" where
  "count_arguments m buffer i argumentCount =
     (if m (buffer + i) \<noteq> 0
      then count_arguments m buffer (i + 1) (if m (buffer + i) = 32 then argumentCount + 1 else argumentCount)
      else Some argumentCount)"

text \<open>The loop of \<open>strtok\<close>, whose static pointer is \<open>nxt\<close>; the array of arguments has \<open>sz\<close> places.\<close>

partial_function (option) token_loop :: "nat \<Rightarrow> addr \<Rightarrow> mem \<Rightarrow> addr \<Rightarrow> addr \<Rightarrow> addr list \<Rightarrow> (addr list \<times> mem) option" where
  "token_loop sz seperator m nxt token arguments =
     (if length arguments \<ge> sz then None
      else if token = 0 then Some (arguments, m)
      else Option.bind (strtok m nxt 0 seperator) (\<lambda>(token', m, nxt). token_loop sz seperator m nxt token' (arguments @ [token])))"

declare count_arguments.simps [code] token_loop.simps [code]

text \<open>One line of input, up to the call of \<open>executeCommand\<close>; the inner \<open>None\<close> is \<open>continue\<close>.\<close>

definition shell_line :: "addr \<Rightarrow> mem \<Rightarrow> addr \<Rightarrow> addr \<Rightarrow> (addr list option \<times> mem) option" where
  "shell_line seperator m nxt buffer =
     Option.bind (strlen m buffer) (\<lambda>len.
       if len = 1 \<and> m buffer = 10 then Some (None, m)
       else if len = 0 then None
       else
         let m = (if m (buffer + (len - 1)) = 10 then m(buffer + (len - 1) := 0) else m) in
         Option.bind (count_arguments m buffer 0 1) (\<lambda>argumentCount.
         Option.bind (strtok m nxt buffer seperator) (\<lambda>(token, m, nxt).
         map_option (\<lambda>(arguments, m). (Some arguments, m)) (token_loop (argumentCount + 1) seperator m nxt token []))))"

subsection \<open>Commands\<close>

text \<open>
  \<open>path\<close> is the rest of \<open>PATH\<close>.  The loop steps over the byte behind each directory, also over the terminator of
  the string, and then looks at what is behind it.
\<close>

function getExecutablePath :: "allocator \<Rightarrow> (nat \<Rightarrow> bool) \<Rightarrow> byte list \<Rightarrow> byte list \<Rightarrow> (byte list option, 'x) cmd" where
  "getExecutablePath E H command path =
     (if path = [] then ureturn None
      else
        let dir = takeWhile (\<lambda>c. c \<noteq> 58) path; buffer = dir @ [47] @ command in
        if \<not> H (length command + length dir + 2) then (\<lambda>_. Crash)
        else ubind (access E buffer X_OK) (\<lambda>r.
          if r = 0 then ureturn (Some buffer)
          else if length dir = length path then (\<lambda>_. Crash)
          else getExecutablePath E H command (drop (length dir + 1) path)))"
  by pat_completeness auto
termination
  by (relation "measure (\<lambda>(E, H, command, path). length path)") auto

declare getExecutablePath.simps [simp del]

subsection \<open>The logical name of the current directory\<close>

text \<open>The string literals of the function.\<close>

record pwd_literals =
  lit_slash :: addr
  lit_dot :: addr
  lit_dotdot :: addr

partial_function (option) update_components ::
  "pwd_literals \<Rightarrow> addr \<Rightarrow> mem \<Rightarrow> addr \<Rightarrow> addr \<Rightarrow> size_t \<Rightarrow> (mem \<times> addr) option" where
  "update_components L pwd m pwdEnd component componentLength =
     (if m component = 0 then Some (m, pwdEnd)
      else
        Option.bind
          (if componentLength = 0 \<or> componentLength = 1 \<and> strncmp m component (lit_dot L) 1 = 0 then Some (m, pwdEnd)
           else if componentLength = 2 \<and> strncmp m component (lit_dotdot L) 2 = 0 then
             Option.bind (strrchr m pwd 47) (\<lambda>lastSlash.
               Some (m, if lastSlash = pwd then pwd + 1 else if lastSlash \<noteq> 0 then lastSlash else pwdEnd))
           else
             let (m, pwdEnd) = (if pwdEnd \<noteq> pwd + 1 then (m(pwdEnd := 47), pwdEnd + 1) else (m, pwdEnd))
             in Some (memcpy m pwdEnd component componentLength, pwdEnd + componentLength))
          (\<lambda>(m, pwdEnd).
             let component = component + componentLength + 1 in
             Option.bind (strcspn m component (lit_slash L)) (\<lambda>componentLength.
               update_components L pwd m pwdEnd component componentLength)))"

declare update_components.simps [code]

text \<open>An absolute path starts anew; then its components are taken in order, and the string is ended.\<close>

definition pwd_start :: "pwd_literals \<Rightarrow> addr \<Rightarrow> addr \<Rightarrow> mem \<Rightarrow> mem option" where
  "pwd_start L pwd path m = (if m path = 47 then map_option snd (strcpy m pwd (lit_slash L)) else Some m)"

definition pwd_components :: "pwd_literals \<Rightarrow> addr \<Rightarrow> addr \<Rightarrow> mem \<Rightarrow> mem option" where
  "pwd_components L pwd path m =
     Option.bind (strlen m pwd) (\<lambda>n.
     Option.bind (strcspn m path (lit_slash L)) (\<lambda>componentLength.
     map_option (\<lambda>(m, pwdEnd). m(pwdEnd := 0)) (update_components L pwd m (pwd + n) path componentLength)))"

text \<open>The function for a \<open>pwd\<close> that is not null; the result has the new value of \<open>pwd\<close>.\<close>

definition updateLogicalPwd :: "'v page_ops \<Rightarrow> pwd_literals \<Rightarrow> size_t \<Rightarrow> addr \<Rightarrow> addr \<Rightarrow> 'v heap \<Rightarrow> (addr \<times> 'v heap) option" where
  "updateLogicalPwd ops L pwdSize pwd path st =
     Option.bind (pwd_start L pwd path (heap_mem st)) (\<lambda>m.
     Option.bind (strlen m pwd) (\<lambda>n.
     Option.bind (strlen m path) (\<lambda>k.
       let newSize = n + k + 1; st = st\<lparr>heap_mem := m\<rparr> in
       Option.bind (if newSize > pwdSize then realloc ops pwd newSize st else Some (pwd, st)) (\<lambda>(newPwd, st).
         if newPwd = 0 then Some (0, free ops pwd st)
         else map_option (\<lambda>m. (newPwd, st\<lparr>heap_mem := m\<rparr>)) (pwd_components L newPwd path (heap_mem st))))))"

section \<open>Words\<close>

function words :: "byte list \<Rightarrow> byte list list" where
  "words r =
     (let r = dropWhile (\<lambda>c. c = 32) r in
      if r = [] then [] else takeWhile (\<lambda>c. c \<noteq> 32) r # words (drop (length (takeWhile (\<lambda>c. c \<noteq> 32) r) + 1) r))"
  by pat_completeness auto
termination
proof (relation "measure length", goal_cases)
  case (2 r s)
  have "length s \<le> length r" using 2(1) length_dropWhile_le by blast
  with 2(2) show ?case by (cases s) auto
qed simp

declare words.simps [simp del]

text \<open>The words are the bytes that are no spaces, in their order; no word is empty or has a space in it.\<close>

lemma words_Nil: "words [] = []"
  by (simp add: words.simps)

lemma filter_word: "filter P x = takeWhile P x @ filter P (drop (length (takeWhile P x) + 1) x)"
  by (induction x) auto

lemma words_spec: "concat (words r) = filter (\<lambda>c. c \<noteq> 32) r" "w \<in> set (words r) \<Longrightarrow> w \<noteq> [] \<and> 32 \<notin> set w"
proof (induction r rule: words.induct)
  case (1 r)
  let ?r = "dropWhile (\<lambda>c. c = 32) r" let ?t = "takeWhile (\<lambda>c. c \<noteq> 32) ?r"
  have skip: "filter (\<lambda>c. c \<noteq> 32) r = filter (\<lambda>c. c \<noteq> 32) ?r" by (induction r) auto
  have rest: "filter (\<lambda>c. c \<noteq> 32) ?r = ?t @ filter (\<lambda>c. c \<noteq> 32) (drop (length ?t + 1) ?r)" by (rule filter_word)
  have nonempty: "?r \<noteq> [] \<Longrightarrow> ?t \<noteq> []" using hd_dropWhile [of "\<lambda>c. c = 32" r] by (cases ?r) auto
  { case 1
    show ?case
    proof (cases "?r = []")
      case True
      then show ?thesis using skip by (subst words.simps) (simp only: Let_def, simp)
    next
      case False
      then show ?thesis using "1.IH"(1) [OF refl] skip rest by (subst words.simps) (simp only: Let_def if_False concat.simps not_False_eq_True)
    qed
  next
    case 2
    then show ?case using "1.IH"(2) nonempty by (subst (asm) words.simps) (auto simp: Let_def split: if_splits dest: set_takeWhileD)
  }
qed

lemma words_count: "length (words r) \<le> Suc (length (filter (\<lambda>c. c = 32) r))"
proof (induction r rule: words.induct)
  case (1 r)
  let ?r = "dropWhile (\<lambda>c. c = 32) r" let ?t = "takeWhile (\<lambda>c. c \<noteq> 32) ?r" let ?d = "drop (length ?t + 1) ?r"
  have "filter (\<lambda>c. c = 32) r = filter (\<lambda>c. c = 32) (takeWhile (\<lambda>c. c = 32) r) @ filter (\<lambda>c. c = 32) ?r" by (metis filter_append takeWhile_dropWhile_id)
  then have le: "length (filter (\<lambda>c. c = 32) ?r) \<le> length (filter (\<lambda>c. c = 32) r)" by simp
  show ?case
  proof (cases "?r = [] \<or> length ?t = length ?r")
    case True
    then have "?r = [] \<or> words ?d = []" by (auto simp: words.simps)
    then show ?thesis by (subst words.simps) (auto simp: Let_def)
  next
    case False
    then have "length ?t < length ?r" using length_takeWhile_le [of _ ?r] le_neq_implies_less by blast
    then have "?r = ?t @ 32 # ?d" using id_take_nth_drop [of "length ?t" ?r] nth_length_takeWhile [of "\<lambda>c. c \<noteq> 32" ?r] takeWhile_eq_take [of "\<lambda>c. c \<noteq> 32" ?r] by simp
    then have "filter (\<lambda>c. c = 32) ?r = filter (\<lambda>c. c = 32) ?t @ 32 # filter (\<lambda>c. c = 32) ?d" by (metis (mono_tags, lifting) filter.simps(2) filter_append)
    then have "Suc (length (filter (\<lambda>c. c = 32) ?d)) \<le> length (filter (\<lambda>c. c = 32) ?r)" by simp
    with 1 [OF refl] False le show ?thesis by (subst words.simps) (simp add: Let_def)
  qed
qed

section \<open>Tokens in memory\<close>

lemma strtok_word:
  assumes c: "cstr m p r" "cstr m q [32]" "p \<noteq> 0"
  defines "a \<equiv> p + word_of_nat (length (takeWhile (\<lambda>c. c = 32) r))" and "r' \<equiv> dropWhile (\<lambda>c. c = 32) r"
  shows "strtok m p 0 q =
    (let t = takeWhile (\<lambda>c. c \<noteq> 32) r' in
     if r' = [] then Some (0, m, p)
     else if length t = length r' then Some (a, m, 0)
     else Some (a, m(a + word_of_nat (length t) := 0), a + word_of_nat (length t) + 1))"
  using strtok_step [of m q 32 p 0 p r] assms(1-3) by (simp add: Let_def a_def r'_def)

text \<open>The addresses of a string with its terminator.\<close>

definition span :: "addr \<Rightarrow> nat \<Rightarrow> addr set" where
  "span p n = (\<lambda>i. p + word_of_nat i) ` {..n}"

lemma cstr_outside: "cstr m p s \<Longrightarrow> (\<And>a. a \<in> span p (length s) \<Longrightarrow> m' a = m a) \<Longrightarrow> cstr m' p s"
  by (erule cstr_cong) (simp add: span_def)

lemma span_add: "i \<le> n \<Longrightarrow> span (p + word_of_nat i) (n - i) \<subseteq> span p n"
proof
  fix a assume "i \<le> n" "a \<in> span (p + word_of_nat i) (n - i)"
  then obtain j where "j \<le> n - i" "a = p + word_of_nat (i + j)" by (auto simp: span_def add.assoc)
  then show "a \<in> span p n" unfolding span_def using \<open>i \<le> n\<close> by (intro image_eqI [of _ _ "i + j"]) auto
qed

lemma span_mem: "i \<le> n \<Longrightarrow> p + word_of_nat i \<in> span p n"
  by (simp add: span_def)

lemma span_apart:
  assumes "i < j" "j + k < 2 ^ 32" "a \<in> span p i"
  shows "a \<notin> span (p + word_of_nat j) k"
proof
  assume "a \<in> span (p + word_of_nat j) k"
  with assms(3) obtain x y where xy: "x \<le> i" "y \<le> k" "p + word_of_nat x = p + word_of_nat j + word_of_nat y" by (auto simp: span_def)
  then have "w32 x = w32 (j + y)" by (simp add: w32_def)
  then have "x = j + y" using unat_w32 [of x] unat_w32 [of "j + y"] assms(1, 2) xy by simp
  with xy(1) assms(1) show False by simp
qed

lemma cut_word:
  assumes "cstr m a r"
  shows "cstr (m(a + word_of_nat (length (takeWhile P r)) := 0)) a (takeWhile P r)"
proof -
  have "a + word_of_nat i \<noteq> a + word_of_nat (length (takeWhile P r))" if "i < length (takeWhile P r)" for i
  proof
    assume "a + word_of_nat i = a + word_of_nat (length (takeWhile P r))"
    then have "w32 i = w32 (length (takeWhile P r))" by (simp add: w32_def)
    then show False using that unat_w32 [of i] unat_w32 [of "length (takeWhile P r)"] cstr_length [OF assms] length_takeWhile_le [of P r]
      by (simp del: length_takeWhile_le)
  qed
  moreover have "m (a + word_of_nat i) = takeWhile P r ! i" if "i < length (takeWhile P r)" for i
    using that cstr_nth [OF assms, of i] length_takeWhile_le [of P r] by (simp add: takeWhile_nth)
  moreover have "0 \<notin> set (takeWhile P r)" using assms set_takeWhileD by (fastforce simp: cstr_iff)
  ultimately show ?thesis by (simp add: cstr_iff)
qed

text \<open>
  What is left of the line, \<open>r\<close> at \<open>p\<close>, is cut into its words: the words are at the addresses found, and nothing outside
  of the rest of the line is written.
\<close>

lemma token_loop_words:
  assumes "cstr m p r" "cstr m q [32]" "0 \<notin> span p (length r)" "span q 1 \<inter> span p (length r) = {}" "length args + length (words r) < sz"
  shows "\<exists>as m'. Option.bind (strtok m p 0 q) (\<lambda>(token, m, nxt). token_loop sz q m nxt token args) = Some (args @ as, m') \<and>
    list_all2 (cstr m') as (words r) \<and> (\<forall>a. a \<notin> span p (length r) \<longrightarrow> m' a = m a)"
  using assms
proof (induction r arbitrary: m p args rule: words.induct)
  case (1 r)
  let ?k = "length (takeWhile (\<lambda>c. c = 32) r)" let ?r = "dropWhile (\<lambda>c. c = 32) r"
  let ?a = "p + word_of_nat ?k" let ?t = "takeWhile (\<lambda>c. c \<noteq> 32) ?r" let ?n = "length ?t"
  note m = "1.prems"
  have p: "p \<noteq> 0" using span_mem [of 0 "length r" p] m(3) by auto
  note step = strtok_word [OF m(1, 2) p]
  have len: "?k + length ?r = length r" by (metis length_append takeWhile_dropWhile_id)
  then have k: "?k \<le> length r" "length r - ?k = length ?r" by linarith+
  have r': "cstr m ?a ?r" using cstr_drop [OF m(1) k(1)] by (simp add: dropWhile_eq_drop)
  have sub: "span ?a (length ?r) \<subseteq> span p (length r)" using span_add [OF k(1), of p] k(2) by simp
  have a: "?a \<noteq> 0" using span_mem [of ?k "length r" p] k(1) m(3) by auto
  have args: "length args < sz" using m(5) by simp
  show ?case
  proof (cases "?r = []")
    case True
    then have "strtok m p 0 q = Some (0, m, p)" "words r = []" using step by (simp_all add: Let_def words.simps [of r])
    then show ?thesis using args by (simp add: token_loop.simps)
  next
    case False
    have w: "words r = ?t # words (drop (?n + 1) ?r)" using False by (subst words.simps) (simp only: Let_def if_False)
    show ?thesis
    proof (cases "?n = length ?r")
      case True
      then have t: "?t = ?r" by (metis append_Nil2 append_eq_append_conv takeWhile_dropWhile_id)
      have "strtok m p 0 q = Some (?a, m, 0)" using step False True by (simp add: Let_def del: dropWhile_eq_Nil_conv)
      moreover have "drop (?n + 1) ?r = []" using True by simp
      then have "words r = [?r]" using w t by (metis words_Nil)
      moreover have "strtok m 0 0 q = Some (0, m, 0)" by (simp add: strtok_def)
      ultimately show ?thesis using a args m(5) r'
        by (intro exI [of _ "[?a]"] exI [of _ m]) (simp add: token_loop.simps)
    next
      case False
      then have n: "?n < length ?r" using length_takeWhile_le [of _ ?r] le_neq_implies_less by blast
      let ?m = "m(?a + word_of_nat ?n := 0)" let ?p = "?a + word_of_nat (?n + 1)" let ?d = "drop (?n + 1) ?r"
      have st: "strtok m p 0 q = Some (?a, ?m, ?p)" using step \<open>?r \<noteq> []\<close> False by (simp add: Let_def add.assoc del: dropWhile_eq_Nil_conv)
      have hole: "?a + word_of_nat ?n \<in> span p (length r)" using sub span_mem [of ?n "length ?r" ?a] n by auto
      have d: "cstr m ?p ?d" using cstr_drop [OF r', of "?n + 1"] n by simp
      have sub': "span ?p (length ?d) \<subseteq> span ?a (length ?r)" using span_add [of "?n + 1" "length ?r" ?a] n by simp
      have small: "length ?r < 2 ^ 32" using cstr_length [OF r'] by simp
      have apart: "x \<notin> span ?p (length ?d)" if "x \<in> span ?a ?n" for x using span_apart [OF _ _ that, of "?n + 1" "length ?d"] n small by simp
      have hole': "?a + word_of_nat ?n \<notin> span ?p (length ?d)" using apart span_mem by blast
      have "cstr ?m ?p ?d" by (rule cstr_outside [OF d]) (use hole' in auto)
      moreover have "cstr ?m q [32]" by (rule cstr_outside [OF m(2)]) (use hole m(4) in auto)
      moreover have "0 \<notin> span ?p (length ?d)" "span q 1 \<inter> span ?p (length ?d) = {}" using sub sub' m(3, 4) by auto
      moreover have "length (args @ [?a]) + length (words ?d) < sz" using m(5) w by simp
      ultimately obtain as m' where m': "Option.bind (strtok ?m ?p 0 q) (\<lambda>(token, m, nxt). token_loop sz q m nxt token (args @ [?a])) = Some ((args @ [?a]) @ as, m')"
        "list_all2 (cstr m') as (words ?d)" "\<forall>x. x \<notin> span ?p (length ?d) \<longrightarrow> m' x = ?m x"
        using "1.IH" [OF refl \<open>?r \<noteq> []\<close>] by blast
      have "token_loop sz q ?m ?p ?a args = Some ((args @ [?a]) @ as, m')"
        using m'(1) a args by (subst token_loop.simps) simp
      moreover have "cstr m' ?a ?t" by (rule cstr_outside [OF cut_word [OF r']]) (use m'(3) apart in auto)
      moreover have "m' x = m x" if "x \<notin> span p (length r)" for x
      proof -
        have "x \<notin> span ?p (length ?d)" "x \<noteq> ?a + word_of_nat ?n" using that sub sub' hole by blast+
        then show ?thesis using m'(3) by simp
      qed
      ultimately show ?thesis using st m'(2) w by (intro exI [of _ "?a # as"] exI [of _ m']) simp
    qed
  qed
qed

lemma strtok_first:
  assumes "p \<noteq> 0"
  shows "Option.bind (strtok m nxt p q) (\<lambda>(token, m, nxt). token_loop sz q m nxt token args) =
    Option.bind (strtok m p 0 q) (\<lambda>(token, m, nxt). token_loop sz q m nxt token args)"
  using assms by (auto simp: strtok_def Let_def token_loop.simps [of sz q m _ 0] intro!: Option.bind_cong [OF refl])

lemma count_arguments_spaces: "cstr m (p + i) r \<Longrightarrow> count_arguments m p i n = Some (n + length (filter (\<lambda>c. c = 32) r))"
proof (induction r arbitrary: i n)
  case Nil
  then show ?case by (simp add: count_arguments.simps)
next
  case (Cons c r)
  then have "cstr m (p + (i + 1)) r" by (simp add: add.assoc)
  with Cons show ?case by (subst count_arguments.simps) simp
qed

text \<open>The newline at the end of the line is cut off.\<close>

lemma trim_newline:
  assumes "cstr m p s" "s \<noteq> []"
  defines "m' \<equiv> (if m (p + (word_of_nat (length s) - 1)) = 10 then m(p + (word_of_nat (length s) - 1) := 0) else m)"
  shows "cstr m' p (if last s = 10 then butlast s else s)" and "a \<notin> span p (length s) \<Longrightarrow> m' a = m a"
proof -
  let ?n = "length s - 1"
  have w: "word_of_nat (length s) - 1 = (word_of_nat ?n :: addr)" using assms(2) by (cases s) simp_all
  have n: "?n < length s" using assms(2) by simp
  have last: "m (p + word_of_nat ?n) = last s" using cstr_nth [OF assms(1) n] assms(2) by (simp add: last_conv_nth)
  have "cstr (m(p + word_of_nat ?n := 0)) p (butlast s)"
  proof -
    have "p + word_of_nat i \<noteq> p + word_of_nat ?n" if "i < ?n" for i
    proof
      assume "p + word_of_nat i = p + word_of_nat ?n"
      then have "w32 i = w32 ?n" by (simp add: w32_def)
      moreover have "i < 2 ^ 32" "?n < 2 ^ 32" using that cstr_length [OF assms(1)] by linarith+
      ultimately have "i = ?n" by (metis unat_w32)
      with that show False by simp
    qed
    moreover have "0 \<notin> set (butlast s)" using assms(1) by (auto simp: cstr_iff dest: in_set_butlastD)
    ultimately show ?thesis using cstr_nth [OF assms(1)] by (simp add: cstr_iff nth_butlast)
  qed
  then show "cstr m' p (if last s = 10 then butlast s else s)" unfolding m'_def w last by (simp add: assms(1) del: cstr.simps)
  show "m' a = m a" if "a \<notin> span p (length s)"
  proof -
    have "a \<noteq> p + word_of_nat ?n" using that span_mem [OF less_imp_le [OF n], of p] by metis
    then show ?thesis unfolding m'_def w by simp
  qed
qed

text \<open>
  C28: the words of a command line.  A line that is neither empty nor only a newline is cut into its words: the
  pointers that the shell collects refer to the words of the line without its newline, in their order,
  the array for them is large enough, and no byte outside of the line is changed.
\<close>

theorem shell_words:
  assumes c: "cstr m buffer s" "s \<noteq> []" "s \<noteq> [10]" and q: "cstr m q [32]" "span q 1 \<inter> span buffer (length s) = {}" and nz: "0 \<notin> span buffer (length s)"
  shows "\<exists>arguments m'. shell_line q m nxt buffer = Some (Some arguments, m') \<and>
    list_all2 (cstr m') arguments (words (if last s = 10 then butlast s else s)) \<and> (\<forall>a. a \<notin> span buffer (length s) \<longrightarrow> m' a = m a)"
proof -
  let ?l = "if last s = 10 then butlast s else s" and ?n = "word_of_nat (length s) :: addr"
  let ?m = "if m (buffer + (?n - 1)) = 10 then m(buffer + (?n - 1) := 0) else m"
  note trim = trim_newline [OF c(1, 2)]
  have len: "length ?l \<le> length s" by simp
  have sub: "span buffer (length ?l) \<subseteq> span buffer (length s)" using len by (auto simp: span_def)
  have q': "cstr ?m q [32]" by (rule cstr_outside [OF q(1)], rule trim(2)) (use q(2) in auto)
  let ?c = "1 + length (filter (\<lambda>c. c = 32) ?l)"
  have cnt: "count_arguments ?m buffer 0 1 = Some ?c" using count_arguments_spaces [of ?m buffer 0 ?l 1] trim(1) by simp
  have b: "buffer \<noteq> 0" using span_mem [of 0 "length s" buffer] nz by auto
  have "0 \<notin> span buffer (length ?l)" "span q 1 \<inter> span buffer (length ?l) = {}" using nz q(2) sub by blast+
  moreover have "length ([] :: addr list) + length (words ?l) < ?c + 1" using words_count [of ?l] by simp
  ultimately obtain as m' where m': "Option.bind (strtok ?m buffer 0 q) (\<lambda>(token, m, nxt). token_loop (?c + 1) q m nxt token []) = Some ([] @ as, m')"
    "list_all2 (cstr m') as (words ?l)" "\<forall>a. a \<notin> span buffer (length ?l) \<longrightarrow> m' a = ?m a"
    using token_loop_words [OF trim(1) q'] by blast
  have first: "Option.bind (strtok ?m nxt buffer q) (\<lambda>(token, m, nxt). token_loop (?c + 1) q m nxt token []) = Some (as, m')"
    using strtok_first [OF b] m'(1) by simp
  have "?n \<noteq> 0" using unat_w32 [of "length s"] cstr_length [OF c(1)] c(2) by (auto simp: w32_def)
  moreover have "\<not> (?n = 1 \<and> m buffer = 10)"
  proof
    assume "?n = 1 \<and> m buffer = 10"
    then have "length s = 1" using unat_w32 [of "length s"] cstr_length [OF c(1)] by (simp add: w32_def)
    with \<open>?n = 1 \<and> m buffer = 10\<close> c show False by (cases s) auto
  qed
  moreover have "Option.bind (strtok ?m nxt buffer q) (\<lambda>(token, m, nxt). map_option (\<lambda>(arguments, m). (Some arguments, m)) (token_loop (?c + 1) q m nxt token [])) =
      map_option (\<lambda>(arguments, m). (Some arguments, m)) (Option.bind (strtok ?m nxt buffer q) (\<lambda>(token, m, nxt). token_loop (?c + 1) q m nxt token []))"
    by (cases "strtok ?m nxt buffer q") auto
  ultimately have "shell_line q m nxt buffer = Some (Some as, m')"
    using strlen_cstr [OF c(1)] cnt first by (simp add: shell_line_def Let_def)
  moreover have "m' a = m a" if "a \<notin> span buffer (length s)" for a using that m'(3) trim(2) sub by auto
  ultimately show ?thesis using m'(2) by blast
qed

text \<open>Strings for the examples, byte by byte.\<close>

primrec place :: "byte list \<Rightarrow> addr \<Rightarrow> mem \<Rightarrow> mem" where
  "place [] p m = m"
| "place (b # bs) p m = place bs (p + 1) (m(p := b))"

definition demo_line :: mem where
  "demo_line = place [32] 200 (place (bytes ''ls  -l'' @ [10]) 100 (\<lambda>_. 0))"

theorem shell_words_witness:
  "\<exists>arguments m'. shell_line 200 demo_line 0 100 = Some (Some arguments, m') \<and> list_all2 (cstr m') arguments [bytes ''ls'', bytes ''-l''] \<and>
    (\<forall>a. a \<notin> span 100 7 \<longrightarrow> m' a = demo_line a)"
proof -
  have "cstr demo_line 100 (bytes ''ls  -l'' @ [10])" "bytes ''ls  -l'' @ [10] \<noteq> []" "bytes ''ls  -l'' @ [10] \<noteq> [10]" "cstr demo_line 200 [32]"
    by code_simp+
  moreover have "length (bytes ''ls  -l'' @ [10]) = 7" by simp
  moreover have "span 200 1 \<inter> span 100 7 = {}" "0 \<notin> span 100 7" by code_simp+
  moreover have "words (if last (bytes ''ls  -l'' @ [10]) = 10 then butlast (bytes ''ls  -l'' @ [10]) else bytes ''ls  -l'' @ [10]) = [bytes ''ls'', bytes ''-l'']"
    by code_simp
  ultimately show ?thesis using shell_words [of demo_line 100 "bytes ''ls  -l'' @ [10]" 200 0] by metis
qed

text \<open>A line of blanks has no words at all; the shell nevertheless compares the first of them with its own commands.\<close>

lemma blank_line: "set s \<subseteq> {32} \<Longrightarrow> words s = []"
  by (subst words.simps) (auto simp: Let_def dropWhile_eq_Nil_conv)

section \<open>Looking up a command\<close>

text \<open>When the command is not in the last directory of \<open>PATH\<close>, the loop goes on behind the end of the string.\<close>

lemma missing_command:
  assumes "access E (path @ [47] @ command) X_OK u = Done r u'" "r \<noteq> 0" "path \<noteq> []" "58 \<notin> set path" "H (length command + length path + 2)"
  shows "getExecutablePath E H command path u = Crash"
proof -
  have "takeWhile (\<lambda>c. c \<noteq> 58) path = path" using assms(4) by (auto simp: takeWhile_eq_all_conv)
  then show ?thesis using assms by (subst getExecutablePath.simps) (simp add: Let_def ubind_def del: takeWhile_eq_all_conv)
qed

lemma found_command:
  assumes "takeWhile (\<lambda>c. c \<noteq> 58) path = dir" "access E (dir @ [47] @ command) X_OK u = Done 0 u'" "path \<noteq> []" "H (length command + length dir + 2)"
  shows "getExecutablePath E H command path u = Done (Some (dir @ [47] @ command)) u'"
  using assms by (subst getExecutablePath.simps) (simp add: Let_def ubind_def ureturn_def)

section \<open>The logical directory\<close>

text \<open>The name must be a block of the heap: a pointer into the environment, as \<open>getenv\<close> gives it, is refused.\<close>

lemma pwd_from_environment:
  assumes "mcb_magic (mcbs st (pwd - 16)) \<noteq> MAGIC_USED_MCB" "pwd \<noteq> 0" "cstr (heap_mem st) pwd d" "cstr (heap_mem st) path s"
    "hd s \<noteq> 47" "s \<noteq> []" "length d + length s + 1 < 2 ^ 32" "pwdSize = word_of_nat (length d)"
  shows "updateLogicalPwd ops L pwdSize pwd path st = None"
proof -
  have "heap_mem st path \<noteq> 47" using assms(4-6) by (cases s) auto
  then have m: "pwd_start L pwd path (heap_mem st) = Some (heap_mem st)" by (simp add: pwd_start_def)
  have "w32 (length d) < w32 (length d + length s + 1)" using assms(6, 7) by (simp add: word_less_nat_alt unat_w32)
  then have "pwdSize < word_of_nat (length d) + word_of_nat (length s) + 1" by (simp add: assms(8) w32_def ac_simps)
  then show ?thesis using assms(1, 2)
    by (simp add: updateLogicalPwd_def m strlen_cstr [OF assms(3)] strlen_cstr [OF assms(4)] Let_def realloc_def)
qed

text \<open>
  The block of the name has room for the result: the name is at 300, the path at 400.  A name is appended and \<open>..\<close> removes the last one, but
  every further \<open>..\<close> finds the slash that the first one has found, since the string is not cut before the
  end: in \<open>/a/b\<close> the logical directory after \<open>cd ../..\<close> is \<open>/a\<close>.
\<close>

definition demo_literals :: pwd_literals where
  "demo_literals = \<lparr>lit_slash = 10, lit_dot = 20, lit_dotdot = 30\<rparr>"

definition demo_pwd :: "byte list \<Rightarrow> byte list \<Rightarrow> mem" where
  "demo_pwd pwd path = place path 400 (place pwd 300 (place [46, 46] 30 (place [46] 20 (place [47] 10 (\<lambda>_. 0)))))"

definition pwd_after :: "byte list \<Rightarrow> byte list \<Rightarrow> nat \<Rightarrow> byte list option" where
  "pwd_after pwd path n = map_option (\<lambda>m. mem_read m 300 n) (Option.bind (pwd_start demo_literals 300 400 (demo_pwd pwd path)) (pwd_components demo_literals 300 400))"

lemma pwd_examples:
  "pwd_after (bytes ''/a/b'') (bytes ''c'') 7 = Some (bytes ''/a/b/c'' @ [0])"
  "pwd_after (bytes ''/a/b'') (bytes ''/d/e'') 5 = Some (bytes ''/d/e'' @ [0])"
  "pwd_after (bytes ''/a/b'') (bytes ''..'') 3 = Some (bytes ''/a'' @ [0])"
  by code_simp+

lemma cd_dotdot_dotdot: "pwd_after (bytes ''/a/b'') (bytes ''../..'') 3 = Some (bytes ''/a'' @ [0])"
  by code_simp

end
